(* ===== verification/Prelude.thy ===== *)
theory Prelude
  imports "HOL-Library.Word" "HOL-Library.Monad_Syntax"
begin

unbundle bit_operations_syntax

text \<open>
  The shared vocabulary of the development: machine integers, byte strings,
  computations that may fault, weakest preconditions for them, little-endian
  loads and stores that check their bounds, and one's complement sums.

  A C function that dereferences packet or map memory is modelled by a value of
  type \<open>'a option\<close>: \<open>None\<close> is an access outside the object it was meant for
  (undefined behaviour in C, a rejected program for the eBPF verifier).
  Memory safety of a program is then the statement that its model is never
  \<open>None\<close>, and every other property is stated of the value under \<open>Some\<close>.
\<close>

section \<open>Types and collections\<close>

type_synonym u8 = "8 word"
type_synonym u16 = "16 word"
type_synonym u32 = "32 word"
type_synonym u64 = "64 word"
type_synonym bytes = "u8 list"

named_theorems wp_rules \<open>weakest preconditions of the model's operations\<close>
named_theorems hdr_consts \<open>definitions of the constants of the C sources\<close>
named_theorems safe_elims \<open>in-bounds steps that keep only the length of the buffer\<close>
named_theorems safe_intros \<open>branching steps of a memory safety proof\<close>
named_theorems len_simps \<open>lengths of stored-to buffers\<close>

section \<open>Computations that may fault\<close>

definition wp :: "'a option \<Rightarrow> ('a \<Rightarrow> bool) \<Rightarrow> bool" where
  "wp m Q = (case m of None \<Rightarrow> False | Some x \<Rightarrow> Q x)"

lemma wp_Some [wp_rules, simp]: "wp (Some x) Q = Q x"
  by (simp add: wp_def)

lemma wp_None [wp_rules, simp]: "wp None Q = False"
  by (simp add: wp_def)

lemma wp_bind [wp_rules]: "wp (m \<bind> f) Q = wp m (\<lambda>x. wp (f x) Q)"
  by (simp add: wp_def split: option.splits)

lemma wp_if [wp_rules]: "wp (if b then m else n) Q = ((b \<longrightarrow> wp m Q) \<and> (\<not> b \<longrightarrow> wp n Q))"
  by simp

lemma wp_case_prod [wp_rules]: "wp (case p of (a, b) \<Rightarrow> f a b) Q = wp (f (fst p) (snd p)) Q"
  by (simp add: case_prod_beta)

lemma wp_let [wp_rules]: "wp (Let v f) Q = wp (f v) Q"
  by simp

lemma wp_case_option [wp_rules]:
  "wp (case v of None \<Rightarrow> m | Some x \<Rightarrow> f x) Q =
    ((v = None \<longrightarrow> wp m Q) \<and> (\<forall>x. v = Some x \<longrightarrow> wp (f x) Q))"
  by (auto split: option.splits)

lemma wp_iff: "wp m Q \<longleftrightarrow> (\<exists>x. m = Some x \<and> Q x)"
  by (auto simp: wp_def split: option.splits)

lemma wp_mono: "wp m P \<Longrightarrow> (\<And>x. P x \<Longrightarrow> Q x) \<Longrightarrow> wp m Q"
  by (auto simp: wp_iff)

lemma wpD: "wp m Q \<Longrightarrow> m = Some x \<Longrightarrow> Q x"
  by (simp add: wp_def)

lemma wp_conjI: "wp m P \<Longrightarrow> wp m Q \<Longrightarrow> wp m (\<lambda>x. P x \<and> Q x)"
  by (auto simp: wp_iff)

lemma bind_eq_SomeE:
  assumes "m \<bind> f = Some y"
  obtains x where "m = Some x" and "f x = Some y"
  using assms by (cases m) auto

section \<open>Bounds-checked byte buffers\<close>

definition ldn :: "bytes \<Rightarrow> nat \<Rightarrow> nat \<Rightarrow> bytes option" where
  "ldn p off n = (if off + n \<le> length p then Some (take n (drop off p)) else None)"

definition stn :: "bytes \<Rightarrow> nat \<Rightarrow> bytes \<Rightarrow> bytes option" where
  "stn p off bs =
     (if off + length bs \<le> length p
      then Some (take off p @ bs @ drop (off + length bs) p) else None)"

definition put :: "bytes \<Rightarrow> nat \<Rightarrow> bytes \<Rightarrow> bytes" where
  "put p off bs = take off p @ bs @ drop (off + length bs) p"

lemma stn_put: "stn p off bs = (if off + length bs \<le> length p then Some (put p off bs) else None)"
  by (simp add: stn_def put_def)

lemma length_put [simp, len_simps]: "off + length bs \<le> length p \<Longrightarrow> length (put p off bs) = length p"
  by (simp add: put_def)

lemma wp_ldn [wp_rules]:
  "wp (ldn p off n) Q \<longleftrightarrow> off + n \<le> length p \<and> Q (take n (drop off p))"
  by (simp add: ldn_def)

lemma wp_stn [wp_rules]:
  "wp (stn p off bs) Q \<longleftrightarrow> off + length bs \<le> length p \<and> Q (put p off bs)"
  by (simp add: stn_put)

lemma split3: "take a p @ take n (drop a p) @ drop (a + n) p = p"
  by (metis add.commute append_take_drop_id drop_drop)

lemma nth_put:
  assumes "off + length bs \<le> length p" and "i < length p"
  shows "put p off bs ! i = (if off \<le> i \<and> i < off + length bs then bs ! (i - off) else p ! i)"
  using assms by (auto simp: put_def nth_append)

lemma slice_put_same:
  assumes "off + length bs \<le> length p" and "n = length bs"
  shows "take n (drop off (put p off bs)) = bs"
  using assms by (simp add: put_def)

lemma slice_put_disjoint:
  assumes "off + length bs \<le> length p" and "a + n \<le> off \<or> off + length bs \<le> a"
    and "a + n \<le> length p"
  shows "take n (drop a (put p off bs)) = take n (drop a p)"
  using assms by (intro nth_equalityI) (auto simp: nth_put)

lemma drop_put_below: "off + length bs \<le> k \<Longrightarrow> off + length bs \<le> length p \<Longrightarrow> drop k (put p off bs) = drop k p"
  by (simp add: put_def)

lemma drop_put_end: "off + length bs = length p \<Longrightarrow> drop off (put p off bs) = bs"
  by (simp add: put_def)

subsection \<open>Little-endian values\<close>

fun le_val :: "bytes \<Rightarrow> nat" where
  "le_val [] = 0"
| "le_val (b # bs) = unat b + 256 * le_val bs"

fun le_bytes :: "nat \<Rightarrow> nat \<Rightarrow> bytes" where
  "le_bytes 0 v = []"
| "le_bytes (Suc n) v = of_nat (v mod 256) # le_bytes n (v div 256)"

lemma length_le_bytes [simp]: "length (le_bytes n v) = n"
  by (induction n arbitrary: v) auto

lemma unat_lt_256: "unat (b :: u8) < 256"
  by (rule less_le_trans [OF unsigned_less]) simp

lemma unat_lt_u16: "unat (w :: u16) < 65536"
  by (rule less_le_trans [OF unsigned_less]) simp

lemma unat_lt_u32: "unat (w :: u32) < 4294967296"
  by (rule less_le_trans [OF unsigned_less]) simp

lemma unat_lt_u64: "unat (w :: u64) < 18446744073709551616"
  by (rule less_le_trans [OF unsigned_less]) simp

lemma unat_of_nat_u8: "unat (of_nat (v mod 256) :: u8) = v mod 256"
  by (simp add: unat_of_nat)

lemma le_val_le_bytes: "le_val (le_bytes n v) = v mod 256 ^ n"
proof (induction n arbitrary: v)
  case 0
  then show ?case by simp
next
  case (Suc n)
  have "v mod 256 + 256 * (v div 256 mod 256 ^ n) = v mod (256 * 256 ^ n)"
    by (simp add: mod_mult2_eq)
  with Suc show ?case by (simp add: unat_of_nat_u8)
qed

lemma le_val_bound: "le_val bs < 256 ^ length bs"
proof (induction bs)
  case (Cons b bs)
  have "unat b + 256 * le_val bs < 256 + 256 * le_val bs"
    using unat_lt_256 [of b] by simp
  also have "\<dots> \<le> 256 * 256 ^ length bs"
    using Cons by simp
  finally show ?case by simp
qed simp

lemma le_bytes_le_val: "le_bytes (length bs) (le_val bs) = bs"
proof (induction bs)
  case (Cons b bs)
  have "(unat b + 256 * le_val bs) mod 256 = unat b"
    using unat_lt_256 [of b] by simp
  moreover have "(unat b + 256 * le_val bs) div 256 = le_val bs"
    using unat_lt_256 [of b] by simp
  ultimately show ?case using Cons by simp
qed simp

definition ld8 :: "bytes \<Rightarrow> nat \<Rightarrow> u8 option" where
  "ld8 p off = (if off < length p then Some (p ! off) else None)"

definition ld16 :: "bytes \<Rightarrow> nat \<Rightarrow> u16 option" where
  "ld16 p off = map_option (\<lambda>bs. of_nat (le_val bs)) (ldn p off 2)"

definition ld32 :: "bytes \<Rightarrow> nat \<Rightarrow> u32 option" where
  "ld32 p off = map_option (\<lambda>bs. of_nat (le_val bs)) (ldn p off 4)"

definition ld64 :: "bytes \<Rightarrow> nat \<Rightarrow> u64 option" where
  "ld64 p off = map_option (\<lambda>bs. of_nat (le_val bs)) (ldn p off 8)"

definition st8 :: "bytes \<Rightarrow> nat \<Rightarrow> u8 \<Rightarrow> bytes option" where
  "st8 p off v = stn p off [v]"

definition st16 :: "bytes \<Rightarrow> nat \<Rightarrow> u16 \<Rightarrow> bytes option" where
  "st16 p off v = stn p off (le_bytes 2 (unat v))"

definition st32 :: "bytes \<Rightarrow> nat \<Rightarrow> u32 \<Rightarrow> bytes option" where
  "st32 p off v = stn p off (le_bytes 4 (unat v))"

definition st64 :: "bytes \<Rightarrow> nat \<Rightarrow> u64 \<Rightarrow> bytes option" where
  "st64 p off v = stn p off (le_bytes 8 (unat v))"

lemma wp_ld8 [wp_rules]: "wp (ld8 p off) Q \<longleftrightarrow> off < length p \<and> Q (p ! off)"
  by (simp add: ld8_def)

lemma wp_map_option [wp_rules]: "wp (map_option f m) Q = wp m (\<lambda>x. Q (f x))"
  by (cases m) simp_all

lemma wp_ld16 [wp_rules]:
  "wp (ld16 p off) Q \<longleftrightarrow> off + 2 \<le> length p \<and> Q (of_nat (le_val (take 2 (drop off p))))"
  by (simp add: ld16_def wp_map_option wp_ldn)

lemma wp_ld32 [wp_rules]:
  "wp (ld32 p off) Q \<longleftrightarrow> off + 4 \<le> length p \<and> Q (of_nat (le_val (take 4 (drop off p))))"
  by (simp add: ld32_def wp_map_option wp_ldn)

lemma wp_ld64 [wp_rules]:
  "wp (ld64 p off) Q \<longleftrightarrow> off + 8 \<le> length p \<and> Q (of_nat (le_val (take 8 (drop off p))))"
  by (simp add: ld64_def wp_map_option wp_ldn)

lemma wp_st8 [wp_rules]: "wp (st8 p off v) Q \<longleftrightarrow> off < length p \<and> Q (put p off [v])"
  by (simp add: st8_def wp_stn Suc_le_eq)

lemma wp_st16 [wp_rules]:
  "wp (st16 p off v) Q \<longleftrightarrow> off + 2 \<le> length p \<and> Q (put p off (le_bytes 2 (unat v)))"
  by (simp add: st16_def wp_stn)

lemma wp_st32 [wp_rules]:
  "wp (st32 p off v) Q \<longleftrightarrow> off + 4 \<le> length p \<and> Q (put p off (le_bytes 4 (unat v)))"
  by (simp add: st32_def wp_stn)

lemma wp_st64 [wp_rules]:
  "wp (st64 p off v) Q \<longleftrightarrow> off + 8 \<le> length p \<and> Q (put p off (le_bytes 8 (unat v)))"
  by (simp add: st64_def wp_stn)

lemma le_val_word16: "of_nat (le_val (le_bytes 2 (unat v))) = (v :: u16)"
  using unat_lt_u16 [of v] by (simp add: le_val_le_bytes)

lemma le_val_word32: "of_nat (le_val (le_bytes 4 (unat v))) = (v :: u32)"
  using unat_lt_u32 [of v] by (simp add: le_val_le_bytes)

lemma le_val_word64: "of_nat (le_val (le_bytes 8 (unat v))) = (v :: u64)"
  using unat_lt_u64 [of v] by (simp add: le_val_le_bytes)

lemma unat_ld16: "length bs = 2 \<Longrightarrow> unat (of_nat (le_val bs) :: u16) = le_val bs"
  using le_val_bound [of bs] by (simp add: unat_of_nat)

lemma unat_ld32: "length bs = 4 \<Longrightarrow> unat (of_nat (le_val bs) :: u32) = le_val bs"
  using le_val_bound [of bs] by (simp add: unat_of_nat)

lemma unat_ld64: "length bs = 8 \<Longrightarrow> unat (of_nat (le_val bs) :: u64) = le_val bs"
  using le_val_bound [of bs] by (simp add: unat_of_nat)

lemma le_bytes_ld16: "length bs = 2 \<Longrightarrow> le_bytes 2 (unat (of_nat (le_val bs) :: u16)) = bs"
  using le_bytes_le_val [of bs] by (simp add: unat_ld16)

lemma le_bytes_ld32: "length bs = 4 \<Longrightarrow> le_bytes 4 (unat (of_nat (le_val bs) :: u32)) = bs"
  using le_bytes_le_val [of bs] by (simp add: unat_ld32)

lemma le_bytes2_0 [simp]: "le_bytes 2 0 = [0, 0]"
  by (simp add: numeral_2_eq_2)

lemma put_append1: "off + length bs \<le> length a \<Longrightarrow> put (a @ b) off bs = put a off bs @ b"
  by (simp add: put_def)

lemma put_append2: "length a \<le> off \<Longrightarrow> put (a @ b) off bs = a @ put b (off - length a) bs"
  by (simp add: put_def)

lemma put_whole: "length bs = length p \<Longrightarrow> put p 0 bs = bs"
  by (simp add: put_def)

lemmas seg_simps = put_append1 put_append2 nth_append

lemmas le_val_word = le_val_word16 le_val_word32 le_val_word64

subsection \<open>Memory safety\<close>

text \<open>
  Elimination rules that step through a computation and keep one fact only, the length of
  the current buffer: enough for memory safety, and linear in the number of stores where
  the exact weakest preconditions are not. A proof starts with \<open>safe_start\<close> and repeats
  \<open>erule safe_elims\<close>, discharging the bounds by simplification.
\<close>

lemma safe_start: "(length p = length p \<Longrightarrow> wp m Q) \<Longrightarrow> wp m Q"
  by simp

lemma safe_bind: "wp m P \<Longrightarrow> (\<And>x. P x \<Longrightarrow> wp (f x) Q) \<Longrightarrow> wp (m \<bind> f) Q"
  by (auto simp: wp_iff)

lemma safe_if [safe_intros]: "(b \<Longrightarrow> wp m Q) \<Longrightarrow> (\<not> b \<Longrightarrow> wp n Q) \<Longrightarrow> wp (if b then m else n) Q"
  by simp

lemma safe_ldn [safe_elims]:
  "length p = n \<Longrightarrow> off + k \<le> n \<Longrightarrow> (\<And>x. length x = k \<Longrightarrow> length p = n \<Longrightarrow> wp (f x) Q) \<Longrightarrow> wp (ldn p off k \<bind> f) Q"
  by (simp add: wp_bind wp_ldn)

lemma safe_ld8 [safe_elims]:
  "length p = n \<Longrightarrow> off < n \<Longrightarrow> (\<And>x. length p = n \<Longrightarrow> wp (f x) Q) \<Longrightarrow> wp (ld8 p off \<bind> f) Q"
  by (simp add: wp_bind wp_ld8)

lemma safe_ld16 [safe_elims]:
  "length p = n \<Longrightarrow> off + 2 \<le> n \<Longrightarrow> (\<And>x. length p = n \<Longrightarrow> wp (f x) Q) \<Longrightarrow> wp (ld16 p off \<bind> f) Q"
  by (simp add: wp_bind wp_ld16)

lemma safe_ld32 [safe_elims]:
  "length p = n \<Longrightarrow> off + 4 \<le> n \<Longrightarrow> (\<And>x. length p = n \<Longrightarrow> wp (f x) Q) \<Longrightarrow> wp (ld32 p off \<bind> f) Q"
  by (simp add: wp_bind wp_ld32)

lemma safe_ld64 [safe_elims]:
  "length p = n \<Longrightarrow> off + 8 \<le> n \<Longrightarrow> (\<And>x. length p = n \<Longrightarrow> wp (f x) Q) \<Longrightarrow> wp (ld64 p off \<bind> f) Q"
  by (simp add: wp_bind wp_ld64)

lemma safe_stn [safe_elims]:
  "length p = n \<Longrightarrow> off + length bs \<le> n \<Longrightarrow> (\<And>q. length q = n \<Longrightarrow> wp (f q) Q) \<Longrightarrow> wp (stn p off bs \<bind> f) Q"
  by (simp add: wp_bind wp_stn)

lemma safe_stn_last [safe_elims]:
  "length p = n \<Longrightarrow> off + length bs \<le> n \<Longrightarrow> (\<And>q. length q = n \<Longrightarrow> Q q) \<Longrightarrow> wp (stn p off bs) Q"
  by (simp add: wp_stn)

lemma safe_st8 [safe_elims]:
  "length p = n \<Longrightarrow> off < n \<Longrightarrow> (\<And>q. length q = n \<Longrightarrow> wp (f q) Q) \<Longrightarrow> wp (st8 p off v \<bind> f) Q"
  by (simp add: wp_bind wp_st8)

lemma safe_st8_last [safe_elims]:
  "length p = n \<Longrightarrow> off < n \<Longrightarrow> (\<And>q. length q = n \<Longrightarrow> Q q) \<Longrightarrow> wp (st8 p off v) Q"
  by (simp add: wp_st8)

lemma safe_st16 [safe_elims]:
  "length p = n \<Longrightarrow> off + 2 \<le> n \<Longrightarrow> (\<And>q. length q = n \<Longrightarrow> wp (f q) Q) \<Longrightarrow> wp (st16 p off v \<bind> f) Q"
  by (simp add: wp_bind wp_st16)

lemma safe_st16_last [safe_elims]:
  "length p = n \<Longrightarrow> off + 2 \<le> n \<Longrightarrow> (\<And>q. length q = n \<Longrightarrow> Q q) \<Longrightarrow> wp (st16 p off v) Q"
  by (simp add: wp_st16)

lemma safe_st32 [safe_elims]:
  "length p = n \<Longrightarrow> off + 4 \<le> n \<Longrightarrow> (\<And>q. length q = n \<Longrightarrow> wp (f q) Q) \<Longrightarrow> wp (st32 p off v \<bind> f) Q"
  by (simp add: wp_bind wp_st32)

lemma safe_st32_last [safe_elims]:
  "length p = n \<Longrightarrow> off + 4 \<le> n \<Longrightarrow> (\<And>q. length q = n \<Longrightarrow> Q q) \<Longrightarrow> wp (st32 p off v) Q"
  by (simp add: wp_st32)

lemma safe_st64 [safe_elims]:
  "length p = n \<Longrightarrow> off + 8 \<le> n \<Longrightarrow> (\<And>q. length q = n \<Longrightarrow> wp (f q) Q) \<Longrightarrow> wp (st64 p off v \<bind> f) Q"
  by (simp add: wp_bind wp_st64)

lemma safe_st64_last [safe_elims]:
  "length p = n \<Longrightarrow> off + 8 \<le> n \<Longrightarrow> (\<And>q. length q = n \<Longrightarrow> Q q) \<Longrightarrow> wp (st64 p off v) Q"
  by (simp add: wp_st64)

section \<open>Byte order\<close>

definition bswap16 :: "u16 \<Rightarrow> u16" where
  "bswap16 w = push_bit 8 w OR drop_bit 8 w"

definition bswap32 :: "u32 \<Rightarrow> u32" where
  "bswap32 w =
     push_bit 24 w OR (push_bit 8 w AND 0x00FF0000) OR (drop_bit 8 w AND 0x0000FF00) OR drop_bit 24 w"

lemma bswap16_bswap16 [simp]: "bswap16 (bswap16 w) = w"
  by (rule bit_word_eqI) (auto simp: bswap16_def bit_simps)

section \<open>One's complement sums\<close>

text \<open>
  \<open>sum16\<close> adds a buffer up as little-endian 16-bit words, the way the C loops do;
  \<open>oc\<close> is the canonical 16-bit one's complement residue of such a sum: 0 only for
  0, and 65535 for the positive multiples of 65535.
\<close>

fun sum16 :: "bytes \<Rightarrow> nat" where
  "sum16 [] = 0"
| "sum16 [a] = unat a"
| "sum16 (a # b # bs) = unat a + 256 * unat b + sum16 bs"

definition oc :: "nat \<Rightarrow> nat" where
  "oc n = (if n = 0 then 0 else (n - 1) mod 65535 + 1)"

definition csum_valid :: "bytes \<Rightarrow> bool" where
  "csum_valid bs \<longleftrightarrow> oc (sum16 bs) = 65535"

lemma oc_le: "oc n \<le> 65535"
  using mod_less_divisor [of 65535 "n - 1"] by (auto simp: oc_def)

lemma oc_0 [simp]: "oc 0 = 0"
  by (simp add: oc_def)

lemma oc_eq_0 [simp]: "oc n = 0 \<longleftrightarrow> n = 0"
  by (simp add: oc_def)

lemma oc_mod: "oc n mod 65535 = n mod 65535"
proof (cases n)
  case (Suc m)
  have "(m mod 65535 + 1) mod 65535 = (m + 1) mod 65535"
    by (rule mod_add_left_eq)
  with Suc show ?thesis by (simp add: oc_def)
qed simp

lemma oc_eqI:
  assumes "m mod 65535 = n mod 65535" and "m = 0 \<longleftrightarrow> n = 0"
  shows "oc m = oc n"
proof (cases "n = 0")
  case False
  have "(oc m) mod 65535 = (oc n) mod 65535"
    using assms(1) by (simp add: oc_mod)
  moreover have "0 < oc m" "0 < oc n" "oc m \<le> 65535" "oc n \<le> 65535"
    using False assms(2) oc_le by (auto simp: oc_def)
  ultimately show ?thesis
    by (cases "oc m = 65535"; cases "oc n = 65535") auto
qed (use assms in simp)

lemma oc_small: "n \<le> 65535 \<Longrightarrow> oc n = n"
  by (auto simp: oc_def)

lemma oc_oc [simp]: "oc (oc n) = oc n"
  by (rule oc_small) (rule oc_le)

lemma oc_add_right: "oc (a + oc b) = oc (a + b)"
  by (rule oc_eqI) (metis mod_add_right_eq oc_mod, simp)

lemma oc_add_left: "oc (oc a + b) = oc (a + b)"
  using oc_add_right [of b a] by (simp add: add.commute)

lemma oc_fold: "oc (n mod 65536 + n div 65536) = oc n"
proof (rule oc_eqI)
  have "n = n mod 65536 + n div 65536 + 65535 * (n div 65536)"
    using div_mult_mod_eq [of n 65536] by linarith
  then show "(n mod 65536 + n div 65536) mod 65535 = n mod 65535"
    by (metis mod_mult_self2)
  show "(n mod 65536 + n div 65536 = 0) = (n = 0)"
    using div_mult_mod_eq [of n 65536] by auto
qed

lemma oc_complement: "oc (n + (65535 - oc n)) = 65535"
proof -
  have le: "oc n \<le> 65535" by (rule oc_le)
  have "oc (n + (65535 - oc n)) = oc (oc n + (65535 - oc n))"
    by (simp add: oc_add_left)
  also have "\<dots> = oc 65535" using le by simp
  finally show ?thesis by (simp add: oc_small)
qed

lemma oc_full_iff: "oc n = 65535 \<longleftrightarrow> n \<noteq> 0 \<and> n mod 65535 = 0"
  using oc_eqI [of n 65535] oc_mod [of n] by (cases "n = 0") (auto simp: oc_small)

lemma sum16_append: "even (length xs) \<Longrightarrow> sum16 (xs @ ys) = sum16 xs + sum16 ys"
  by (induction xs rule: sum16.induct) auto

lemma sum16_bound: "sum16 bs \<le> 65535 * ((length bs + 1) div 2)"
proof (induction bs rule: sum16.induct)
  case (2 a)
  then show ?case using unat_lt_256 [of a] by simp
next
  case (3 a b bs)
  then show ?case using unat_lt_256 [of a] unat_lt_256 [of b] by simp
qed simp

lemma sum16_le_bytes2: "sum16 (le_bytes 2 v) = v mod 65536"
  using mod_mult2_eq [of v 256 256] by (simp add: numeral_2_eq_2 unat_of_nat_u8 add.commute)

section \<open>Words as numbers\<close>

lemma unat_and_ffff: "unat (w AND 0xFFFF :: 'a::len word) = unat w mod 65536"
proof -
  have "(0xFFFF :: 'a word) = mask 16"
    by (simp add: mask_eq_exp_minus_1)
  then have "w AND 0xFFFF = take_bit 16 w"
    by (simp add: take_bit_eq_mask)
  then have "unat (w AND 0xFFFF) = take_bit 16 (unat w)"
    by (simp only: unsigned_take_bit_eq)
  then show ?thesis
    by (simp add: take_bit_eq_mod)
qed

lemma unat_drop_bit_16: "unat (drop_bit 16 w :: 'a::len word) = unat w div 65536"
  by (simp only: unat_drop_bit_eq) (simp add: drop_bit_eq_div)

lemma unat_not_u16: "unat (NOT w :: u16) = 65535 - unat w"
proof -
  have "NOT w = - 1 - w" by (simp add: not_eq_complement)
  moreover have "unat (- 1 - w) = unat (- 1 :: u16) - unat w"
    by (rule unat_sub) simp
  moreover have "unat (- 1 :: u16) = 65535"
    by (simp add: unsigned_minus_1_eq_mask mask_eq_exp_minus_1)
  ultimately show ?thesis by simp
qed

lemma unat_add_small:
  "unat a + unat b < 2 ^ LENGTH('a) \<Longrightarrow> unat (a + b :: 'a::len word) = unat a + unat b"
  by (simp add: unat_word_ariths)

lemma unat_ucast_small:
  "unat w < 2 ^ LENGTH('b) \<Longrightarrow> unat (ucast (w :: 'a::len word) :: 'b::len word) = unat w"
  by (simp add: unsigned_ucast_eq take_bit_eq_mod)

lemma unat_ucast_up:
  "LENGTH('a) \<le> LENGTH('b) \<Longrightarrow> unat (ucast (w :: 'a::len word) :: 'b::len word) = unat w"
  by (rule unat_ucast_small) (metis less_le_trans one_le_numeral power_increasing unsigned_less)

lemma unat_inc:
  fixes w :: "'a::len word"
  shows "unat w + 1 < 2 ^ LENGTH('a) \<Longrightarrow> unat (w + 1) = unat w + 1"
  using unat_add_small [of w 1] by simp

end
