(* ===== verification/Csum.thy ===== *)
theory Csum
  imports Prelude
begin

text \<open>
  Internet checksums. The sources fold a wide sum down to 16 bits in four ways:
  \<open>csum_fold_helper\<close> of Katran (up to four conditional folds of a 64-bit sum),
  \<open>fold_csum\<close> of the synthetic example (the same on 32 bits), \<open>csum_reduce_helper\<close>
  of Crab (two unconditional folds) and \<open>compute_ip_checksum\<close> of BMC and Electrode
  (one fold). The locale \<open>checksum_fold\<close> states what an IPv4 header needs of such a
  fold; the first three provide it, the last one does so only for sums that one fold
  exhausts.

  The kernel helper \<open>bpf_csum_diff\<close> is not part of the repository: it is the argument
  \<open>csum_diff\<close> of the functions that call it.
\<close>

section \<open>Folding\<close>

text \<open>\<open>if (csum >> 16) csum = (csum & 0xffff) + (csum >> 16);\<close>\<close>

definition fold_step :: "'a::len word \<Rightarrow> 'a word" where
  "fold_step c = (if drop_bit 16 c \<noteq> 0 then (c AND 0xFFFF) + drop_bit 16 c else c)"

fun fold_loop :: "nat \<Rightarrow> 'a::len word \<Rightarrow> 'a word" where
  "fold_loop 0 c = c"
| "fold_loop (Suc n) c = fold_loop n (fold_step c)"

definition csum_fold_helper :: "u64 \<Rightarrow> u16" where
  "csum_fold_helper csum = ucast (NOT (fold_loop 4 csum))"

definition fold_csum :: "u32 \<Rightarrow> u16" where
  "fold_csum csum = ucast (NOT (fold_loop 4 csum))"

text \<open>\<open>csum = ((csum & 0xffff0000) >> 16) + (csum & 0xffff);\<close>, twice.\<close>

definition csum_reduce_step :: "u32 \<Rightarrow> u32" where
  "csum_reduce_step csum = drop_bit 16 (csum AND 0xFFFF0000) + (csum AND 0xFFFF)"

definition csum_reduce_helper :: "u32 \<Rightarrow> u16" where
  "csum_reduce_helper csum = ucast (csum_reduce_step (csum_reduce_step csum))"

section \<open>Sums over packet memory\<close>

text \<open>\<open>for (i = 0; i < n; i++) *csum += *next_iph_u16++;\<close>\<close>

fun csum_words :: "bytes \<Rightarrow> nat \<Rightarrow> nat \<Rightarrow> 'a::len word \<Rightarrow> 'a word option" where
  "csum_words p off 0 c = Some c"
| "csum_words p off (Suc n) c =
     do { w \<leftarrow> ld16 p off; csum_words p (off + 2) n (c + ucast w) }"

definition ipv4_csum_inline :: "bytes \<Rightarrow> nat \<Rightarrow> u64 \<Rightarrow> u64 option" where
  "ipv4_csum_inline p iph csum =
     do { c \<leftarrow> csum_words p iph 10 csum; Some (ucast (csum_fold_helper c)) }"

type_synonym csum_diff_fn = "bytes \<Rightarrow> bytes \<Rightarrow> u64 \<Rightarrow> u64"

definition ipv4_csum :: "csum_diff_fn \<Rightarrow> bytes \<Rightarrow> nat \<Rightarrow> nat \<Rightarrow> u64 \<Rightarrow> u64 option" where
  "ipv4_csum csum_diff p data_start data_size csum =
     do { bs \<leftarrow> ldn p data_start data_size;
          Some (ucast (csum_fold_helper (csum_diff [] bs csum))) }"

definition ipv4_l4_csum :: "csum_diff_fn \<Rightarrow> bytes \<Rightarrow> nat \<Rightarrow> nat \<Rightarrow> u64 \<Rightarrow> nat \<Rightarrow> u64 option" where
  "ipv4_l4_csum csum_diff p data_start data_size csum iph =
     do { saddr \<leftarrow> ldn p (iph + 12) 4;
          let csum = csum_diff [] saddr csum;
          daddr \<leftarrow> ldn p (iph + 16) 4;
          let csum = csum_diff [] daddr csum;
          protocol \<leftarrow> ld8 p (iph + 9);
          let csum = csum_diff [] (le_bytes 4 (unat (bswap32 (ucast protocol)))) csum;
          let csum = csum_diff [] (le_bytes 4 (unat (bswap32 (of_nat data_size)))) csum;
          bs \<leftarrow> ldn p data_start data_size;
          let csum = csum_diff [] bs csum;
          Some (ucast (csum_fold_helper csum)) }"

definition ipv6_csum :: "csum_diff_fn \<Rightarrow> bytes \<Rightarrow> nat \<Rightarrow> nat \<Rightarrow> u64 \<Rightarrow> nat \<Rightarrow> u64 option" where
  "ipv6_csum csum_diff p data_start data_size csum ip6h =
     do { saddr \<leftarrow> ldn p (ip6h + 8) 16;
          let csum = csum_diff [] saddr csum;
          daddr \<leftarrow> ldn p (ip6h + 24) 16;
          let csum = csum_diff [] daddr csum;
          let csum = csum_diff [] (le_bytes 4 (unat (bswap32 (of_nat data_size)))) csum;
          nexthdr \<leftarrow> ld8 p (ip6h + 6);
          let csum = csum_diff [] (le_bytes 4 (unat (bswap32 (ucast nexthdr)))) csum;
          bs \<leftarrow> ldn p data_start data_size;
          let csum = csum_diff [] bs csum;
          Some (ucast (csum_fold_helper csum)) }"

text \<open>
  \<open>compute_ip_checksum\<close> of BMC clears the check field, sums ten 16-bit words into a
  32-bit accumulator and folds once. It returns the checksum and leaves the cleared
  field in the packet.
\<close>

definition compute_ip_checksum :: "bytes \<Rightarrow> nat \<Rightarrow> (u16 \<times> bytes) option" where
  "compute_ip_checksum p ip =
     do { p \<leftarrow> st16 p (ip + 10) 0;
          csum \<leftarrow> csum_words p ip 10 (0 :: u32);
          Some (ucast (NOT ((csum AND 0xFFFF) + drop_bit 16 csum)), p) }"

section \<open>What a fold computes\<close>

lemma unat_fold_step:
  fixes c :: "'a::len word"
  assumes "16 < LENGTH('a)"
  shows "unat (fold_step c) = unat c mod 65536 + unat c div 65536"
proof (cases "drop_bit 16 c = 0")
  case True
  then have "unat c div 65536 = 0"
    by (metis unat_drop_bit_16 unsigned_0)
  then show ?thesis
    using True by (auto simp: fold_step_def)
next
  case False
  have "unat c mod 65536 + unat c div 65536 \<le> unat c"
    using div_mult_mod_eq [of "unat c" 65536] by linarith
  then have "unat c mod 65536 + unat c div 65536 < 2 ^ LENGTH('a)"
    by (rule le_less_trans) (rule unsigned_less)
  then have "unat (c AND 0xFFFF) + unat (drop_bit 16 c) < 2 ^ LENGTH('a)"
    by (simp only: unat_and_ffff unat_drop_bit_16)
  then have "unat ((c AND 0xFFFF) + drop_bit 16 c) = unat c mod 65536 + unat c div 65536"
    by (simp add: unat_add_small unat_and_ffff unat_drop_bit_16)
  then show ?thesis using False by (simp add: fold_step_def)
qed

lemma oc_fold_step: "16 < LENGTH('a) \<Longrightarrow> oc (unat (fold_step (c :: 'a::len word))) = oc (unat c)"
  by (simp add: unat_fold_step oc_fold)

lemma oc_fold_loop: "16 < LENGTH('a) \<Longrightarrow> oc (unat (fold_loop n (c :: 'a::len word))) = oc (unat c)"
  by (induction n arbitrary: c) (auto simp: oc_fold_step)

text \<open>
  Each fold divides the excess by \<open>2 ^ 16\<close>, so two exhaust a 32-bit sum and four a
  64-bit one.
\<close>

lemma fold_shrinks:
  fixes n :: nat
  assumes "n \<le> 65536 * k + 65534"
  shows "n mod 65536 + n div 65536 \<le> 65534 + k"
proof (cases "n div 65536 < k")
  case True
  have "n mod 65536 < 65536" by simp
  with True show ?thesis by linarith
next
  case False
  have "65536 * (n div 65536) + n mod 65536 = n" by simp
  with assms False show ?thesis by linarith
qed

lemma unat_fold_shrinks:
  "16 < LENGTH('a) \<Longrightarrow> unat (c :: 'a::len word) \<le> 65536 * k + 65534 \<Longrightarrow>
    unat (fold_step c) \<le> 65534 + k"
  by (simp add: unat_fold_step fold_shrinks)

lemma fold_loop_4: "fold_loop 4 c = fold_step (fold_step (fold_step (fold_step c)))"
  by (simp add: numeral_eq_Suc)

lemma fold_loop_4_bound: "unat (fold_loop 4 (c :: u64)) \<le> 65535"
proof -
  let ?f = "fold_step :: u64 \<Rightarrow> u64"
  have "unat (?f c) \<le> 65534 + 2 ^ 48"
    using unat_lt_u64 [of c] by (intro unat_fold_shrinks) auto
  then have "unat (?f (?f c)) \<le> 65534 + 2 ^ 32"
    by (intro unat_fold_shrinks) auto
  then have "unat (?f (?f (?f c))) \<le> 65534 + 2 ^ 16"
    by (intro unat_fold_shrinks) auto
  then have "unat (?f (?f (?f (?f c)))) \<le> 65534 + 1"
    by (intro unat_fold_shrinks) auto
  then show ?thesis by (simp add: fold_loop_4)
qed

lemma fold_loop_4_bound_u32: "unat (fold_loop 4 (c :: u32)) \<le> 65535"
proof -
  let ?f = "fold_step :: u32 \<Rightarrow> u32"
  have "unat (?f c) \<le> 65534 + 2 ^ 16"
    using unat_lt_u32 [of c] by (intro unat_fold_shrinks) auto
  then have "unat (?f (?f c)) \<le> 65534 + 1"
    by (intro unat_fold_shrinks) auto
  then have "unat (?f (?f (?f c))) \<le> 65534 + 1"
    by (intro unat_fold_shrinks) auto
  then have "unat (?f (?f (?f (?f c)))) \<le> 65534 + 1"
    by (intro unat_fold_shrinks) auto
  then show ?thesis by (simp add: fold_loop_4)
qed

lemma ucast_not_small:
  fixes w :: "'a::len word"
  assumes "16 \<le> LENGTH('a)" and "unat w \<le> 65535"
  shows "unat (ucast (NOT w) :: u16) = 65535 - unat w"
proof -
  have "(ucast (NOT w) :: u16) = NOT (ucast w)"
    using assms(1) by (intro bit_word_eqI) (auto simp: bit_simps)
  then show ?thesis using assms(2) by (simp add: unat_not_u16 unat_ucast_small)
qed

lemma unat_csum_fold_helper: "unat (csum_fold_helper c) = 65535 - oc (unat c)"
  using fold_loop_4_bound [of c] oc_fold_loop [of 4 c]
  by (simp add: csum_fold_helper_def ucast_not_small oc_small del: fold_loop.simps)

lemma unat_fold_csum: "unat (fold_csum c) = 65535 - oc (unat c)"
  using fold_loop_4_bound_u32 [of c] oc_fold_loop [of 4 c]
  by (simp add: fold_csum_def ucast_not_small oc_small del: fold_loop.simps)

lemma unat_csum_reduce_step:
  "unat (csum_reduce_step c) = unat c mod 65536 + unat c div 65536"
proof -
  have "drop_bit 16 (c AND 0xFFFF0000) = drop_bit 16 c"
  proof -
    have "(0xFFFF0000 :: u32) = NOT (mask 16)" by (simp add: mask_eq_exp_minus_1)
    moreover have "drop_bit 16 (c AND NOT (mask 16)) = drop_bit 16 c"
      by (intro bit_word_eqI) (auto simp: bit_simps dest: bit_imp_le_length)
    ultimately show ?thesis by (simp only:)
  qed
  moreover have "unat (drop_bit 16 c) + unat (c AND 0xFFFF) < 2 ^ 32"
    using unat_lt_u32 [of c] by (simp add: unat_and_ffff unat_drop_bit_16)
  ultimately show ?thesis
    by (simp add: csum_reduce_step_def unat_add_small unat_and_ffff unat_drop_bit_16)
qed

lemma csum_reduce_step_bound:
  "unat (csum_reduce_step (csum_reduce_step c)) \<le> 65535"
proof -
  have "unat (csum_reduce_step c) \<le> 65534 + 65536"
    using fold_shrinks [of "unat c" 65536] unat_lt_u32 [of c] by (simp add: unat_csum_reduce_step)
  then show ?thesis
    using fold_shrinks [of "unat (csum_reduce_step c)" 1]
    by (simp add: unat_csum_reduce_step [of "csum_reduce_step c"])
qed

lemma unat_csum_reduce_helper: "unat (csum_reduce_helper c) = oc (unat c)"
proof -
  have "oc (unat (csum_reduce_step (csum_reduce_step c))) = oc (unat c)"
    by (simp add: unat_csum_reduce_step oc_fold)
  then show ?thesis
    using csum_reduce_step_bound [of c]
    by (simp add: csum_reduce_helper_def unat_ucast_small oc_small)
qed

section \<open>Header checksums\<close>

lemma csum_words_sum:
  fixes c :: "'a::len word"
  assumes "off + 2 * n \<le> length p" and "16 \<le> LENGTH('a)"
    and "unat c + sum16 (take (2 * n) (drop off p)) < 2 ^ LENGTH('a)"
  shows "\<exists>r. csum_words p off n c = Some r \<and>
    unat r = unat c + sum16 (take (2 * n) (drop off p))"
  using assms
proof (induction n arbitrary: off c)
  case 0
  then show ?case by simp
next
  case (Suc n)
  let ?w = "of_nat (le_val (take 2 (drop off p))) :: u16"
  have l: "length (take 2 (drop off p)) = 2" using Suc.prems by simp
  have split: "take (2 * Suc n) (drop off p) = take 2 (drop off p) @ take (2 * n) (drop (off + 2) p)"
    using take_add [of 2 "2 * n" "drop off p"] by (simp add: add.commute)
  obtain x y where xy: "take 2 (drop off p) = [x, y]"
    using l by (cases "take 2 (drop off p)"; cases "tl (take 2 (drop off p))") auto
  have s2: "sum16 (take 2 (drop off p)) = unat ?w"
    using unat_ld16 [OF l] by (simp add: xy)
  have ev: "even (length (take 2 (drop off p)))" by (simp only: l) simp
  have s: "sum16 (take (2 * Suc n) (drop off p)) = unat ?w + sum16 (take (2 * n) (drop (off + 2) p))"
    by (simp only: split sum16_append [OF ev] s2)
  have ld: "ld16 p off = Some ?w" using Suc.prems by (simp add: ld16_def ldn_def)
  have u: "unat (ucast ?w :: 'a word) = unat ?w"
    using Suc.prems(2) by (simp add: unat_ucast_up)
  have "unat (c + ucast ?w) = unat c + unat ?w"
    using Suc.prems(3) s u by (simp add: unat_add_small)
  moreover from this have "unat (c + ucast ?w) + sum16 (take (2 * n) (drop (off + 2) p)) < 2 ^ LENGTH('a)"
    using Suc.prems(3) s by simp
  ultimately show ?case
    using Suc.IH [of "off + 2" "c + ucast ?w"] Suc.prems(1,2) ld s by (auto simp: add.assoc)
qed

text \<open>
  A fold that computes the complement of the one's complement residue makes a header
  verify: storing it into the cleared check field gives a header whose sum is 0xFFFF.
\<close>

locale checksum_fold =
  fixes fold_fn :: "'a::len word \<Rightarrow> u16"
  assumes unat_fold_fn: "unat (fold_fn c) = 65535 - oc (unat c)"
begin

lemma fold_fn_verifies: "oc (unat c + unat (fold_fn c)) = 65535"
  by (simp add: unat_fold_fn oc_complement)

lemma fold_fn_stamp:
  assumes "length h = 20" and "take 2 (drop 10 h) = [0, 0]" and "oc (unat c) = oc (sum16 h)"
  shows "csum_valid (put h 10 (le_bytes 2 (unat (fold_fn c))))"
proof -
  let ?k = "unat (fold_fn c)"
  have h: "h = take 10 h @ take 2 (drop 10 h) @ drop 12 h"
    using split3 [of 10 h 2] by simp
  have "sum16 h = sum16 (take 10 h) + sum16 (drop 12 h)"
    by (subst h) (simp add: sum16_append assms(1,2) del: append_take_drop_id take_drop)
  moreover have "sum16 (put h 10 (le_bytes 2 ?k)) = sum16 (take 10 h) + (?k + sum16 (drop 12 h))"
    using unat_lt_u16 [of "fold_fn c"]
    by (simp add: put_def sum16_append assms(1) sum16_le_bytes2 del: take_drop)
  ultimately have "oc (sum16 (put h 10 (le_bytes 2 ?k))) = oc (oc (sum16 h) + ?k)"
    by (simp add: oc_add_left oc_add_right algebra_simps)
  also have "\<dots> = oc (oc (unat c) + ?k)" by (simp add: assms(3))
  also have "\<dots> = 65535" by (simp add: oc_add_left fold_fn_verifies)
  finally show ?thesis by (simp add: csum_valid_def)
qed

end

interpretation katran_fold: checksum_fold csum_fold_helper
  by unfold_locales (rule unat_csum_fold_helper)

interpretation synth_fold: checksum_fold fold_csum
  by unfold_locales (rule unat_fold_csum)

interpretation crab_fold: checksum_fold "\<lambda>c. NOT (csum_reduce_helper c)"
  by unfold_locales (simp add: unat_not_u16 unat_csum_reduce_helper)

section \<open>Checksums written into a packet\<close>

abbreviation ip_hdr :: "bytes \<Rightarrow> nat \<Rightarrow> bytes" where
  "ip_hdr p iph \<equiv> take 20 (drop iph p)"

lemma sum16_20_bound: "sum16 (ip_hdr p iph) \<le> 655350"
proof -
  have "(length (ip_hdr p iph) + 1) div 2 \<le> 10" by simp
  then have "65535 * ((length (ip_hdr p iph) + 1) div 2) \<le> 655350" by linarith
  then show ?thesis using sum16_bound [of "ip_hdr p iph"] by linarith
qed

lemma ipv4_csum_inline_wp [wp_rules]:
  assumes "iph + 20 \<le> length p"
  shows "wp (ipv4_csum_inline p iph 0) Q \<longleftrightarrow>
    Q (of_nat (65535 - oc (sum16 (ip_hdr p iph))))"
proof -
  obtain r where r: "csum_words p iph 10 (0 :: u64) = Some r" "unat r = sum16 (ip_hdr p iph)"
    using csum_words_sum [of iph 10 p "0 :: u64"] sum16_20_bound [of iph p] assms by auto
  have "ucast (csum_fold_helper r) = (of_nat (unat (csum_fold_helper r)) :: u64)"
    by simp
  then show ?thesis
    using r by (simp add: ipv4_csum_inline_def unat_csum_fold_helper)
qed

text \<open>
  A header is stamped by clearing its check field at offset 10, summing, and storing
  the complement back.
\<close>

lemma slice_put_in:
  assumes "off \<le> a" "a + length bs \<le> off + n" "off + n \<le> length p"
  shows "take n (drop off (put p a bs)) = put (take n (drop off p)) (a - off) bs"
  using assms by (intro nth_equalityI) (auto simp: nth_put add.commute)

lemma put_put_same:
  assumes "length as = length bs" "off + length bs \<le> length p"
  shows "put (put p off as) off bs = put p off bs"
  using assms by (intro nth_equalityI) (auto simp: nth_put)

lemma stamped_header_valid:
  assumes "iph + 20 \<le> length p" and "take 2 (drop (iph + 10) p) = [0, 0]"
  shows "csum_valid (ip_hdr (put p (iph + 10)
    (le_bytes 2 (65535 - oc (sum16 (ip_hdr p iph))))) iph)"
proof -
  let ?h = "ip_hdr p iph"
  let ?c = "of_nat (sum16 ?h) :: u64"
  have u: "unat ?c = sum16 ?h"
    using sum16_20_bound [of iph p] by (simp add: unat_of_nat)
  have z: "take 2 (drop 10 ?h) = [0, 0]"
    using assms by (simp add: drop_take add.commute)
  have "csum_valid (put ?h 10 (le_bytes 2 (unat (csum_fold_helper ?c))))"
    by (rule katran_fold.fold_fn_stamp) (use assms z u in auto)
  then show ?thesis
    using assms u by (simp add: unat_csum_fold_helper slice_put_in)
qed

lemma unat_stamp: "unat (ucast (of_nat (65535 - n) :: u64) :: u16) = 65535 - n"
proof -
  have "65535 - n < 2 ^ 16" by simp
  then have "unat (of_nat (65535 - n) :: u64) = 65535 - n" by (simp add: unat_of_nat)
  then show ?thesis by (simp add: unat_ucast_small)
qed

subsection \<open>Incremental updates\<close>

text \<open>
  Storing a byte or a 16-bit word at an even offset changes the sum by the difference of
  the new and the old value.
\<close>

lemma sum16_split:
  assumes "even off" "off \<le> length p"
  shows "sum16 p = sum16 (take off p) + sum16 (drop off p)"
  using sum16_append [of "take off p" "drop off p"] assms by simp

lemma sum16_put1:
  assumes "even off" "off < length p"
  shows "sum16 (put p off [v]) + unat (p ! off) = sum16 p + unat v"
proof -
  have d: "drop off p = p ! off # drop (Suc off) p" using assms(2) by (rule Cons_nth_drop_Suc [symmetric])
  have "sum16 (put p off [v]) = sum16 (take off p) + sum16 (v # drop (Suc off) p)"
    using sum16_append [of "take off p" "v # drop (Suc off) p"] assms by (simp add: put_def)
  moreover have "sum16 (v # bs) + unat x = sum16 (x # bs) + unat v" for x :: u8 and bs
    by (cases bs) auto
  ultimately show ?thesis
    using sum16_split [of off p] assms d by (simp add: add.assoc)
qed

lemma sum16_put2:
  assumes "even off" "off + 2 \<le> length p"
  shows "sum16 (put p off (le_bytes 2 w)) + le_val (take 2 (drop off p)) = sum16 p + w mod 65536"
proof -
  obtain x y where xy: "drop off p = x # y # drop (off + 2) p"
    using assms(2) by (metis Cons_nth_drop_Suc Suc_le_lessD add_2_eq_Suc' less_Suc_eq_le order.strict_implies_order order_less_le_trans lessI)
  have "sum16 (put p off (le_bytes 2 w)) = sum16 (take off p) + (w mod 65536 + sum16 (drop (off + 2) p))"
    using sum16_append [of "take off p" "le_bytes 2 w @ drop (off + 2) p"]
      sum16_append [of "le_bytes 2 w" "drop (off + 2) p"] assms
    by (simp add: put_def sum16_le_bytes2)
  then show ?thesis
    using sum16_split [of off p] assms xy by simp
qed

lemma sum16_ge_word: "even off \<Longrightarrow> off + 2 \<le> length p \<Longrightarrow> le_val (take 2 (drop off p)) \<le> sum16 p"
  using sum16_put2 [of off p 0] by simp

lemma csum_valid_cong:
  assumes "sum16 p mod 65535 = sum16 q mod 65535" "sum16 p \<noteq> 0" "sum16 q \<noteq> 0"
  shows "csum_valid p = csum_valid q"
  using assms by (simp add: csum_valid_def oc_full_iff)

text \<open>
  Lowering the time to live by one lowers the sum of the header by one, so the check field has
  to grow by one in one's complement arithmetic.
\<close>

lemma nth_ip_hdr: "i < 20 \<Longrightarrow> off + 20 \<le> length p \<Longrightarrow> ip_hdr p off ! i = p ! (off + i)"
  by simp

lemma slice_ip_hdr: "k + n \<le> 20 \<Longrightarrow> take n (drop k (ip_hdr p off)) = take n (drop (off + k) p)"
  by (simp add: drop_take min_absorb1 add.commute)

lemma mod_add_cancel: "(a + k) mod n = (b + k) mod n \<Longrightarrow> a mod n = b mod (n :: nat)"
proof -
  assume "(a + k) mod n = (b + k) mod n"
  then obtain i j where "a + k + n * i = b + k + n * j" by (auto simp: nat_mod_eq_iff)
  then have "a + n * i = b + n * j" by simp
  then show ?thesis by (metis nat_mod_eq_iff)
qed

lemma ttl_decrement_valid:
  assumes "length h = 20" "2 \<le> unat (h ! 8)" "csum_valid h" "w < 65536"
    and w: "w mod 65535 = (le_val (take 2 (drop 10 h)) + 1) mod 65535"
  shows "csum_valid (put (put h 8 [h ! 8 - 1]) 10 (le_bytes 2 w))" (is "csum_valid ?h'")
proof -
  let ?g = "put h 8 [h ! 8 - 1]"
  define c where "c = le_val (take 2 (drop 10 h))"
  have t: "unat (h ! 8 - 1) = unat (h ! 8) - 1" using assms(2) by (subst unat_sub) (auto simp: word_le_nat_alt)
  have "take 2 (drop 10 ?g) = take 2 (drop 10 h)" using assms(1) by (intro slice_put_disjoint) auto
  then have "sum16 ?h' + c = sum16 ?g + w"
    using sum16_put2 [of 10 ?g w] assms(1,4) by (simp add: c_def)
  moreover have "sum16 ?g + unat (h ! 8) = sum16 h + (unat (h ! 8) - 1)"
    using sum16_put1 [of 8 h "h ! 8 - 1"] assms(1) t by simp
  ultimately have "sum16 ?h' + (c + 1) = sum16 h + w" using assms(2) by linarith
  then have "(sum16 ?h' + w) mod 65535 = (sum16 h + w) mod 65535"
    using w by (metis c_def mod_add_right_eq)
  then have "sum16 ?h' mod 65535 = sum16 h mod 65535"
    by (rule mod_add_cancel)
  moreover have "sum16 ?h' \<noteq> 0"
  proof -
    have d: "drop 8 ?h' = [h ! 8 - 1, h ! 9] @ drop 10 ?h'"
      using assms(1) by (intro nth_equalityI) (auto simp: nth_put nth_append nth_Cons' less_Suc_eq le_Suc_eq)
    have "sum16 ?h' = sum16 (take 8 ?h') + sum16 (drop 8 ?h')"
      using sum16_split [of 8 ?h'] assms(1) by simp
    then show ?thesis using t assms(2) by (simp add: d del: append_take_drop_id)
  qed
  moreover have "sum16 h \<noteq> 0" using assms(3) by (auto simp: csum_valid_def oc_def split: if_splits)
  ultimately show ?thesis using assms(3) csum_valid_cong [of ?h' h] by simp
qed

subsection \<open>One fold\<close>

lemma safe_csum_words [safe_elims]:
  assumes "length p = n" "off + 2 * k \<le> n" "\<And>x. length p = n \<Longrightarrow> wp (f x) Q"
  shows "wp (csum_words p off k c \<bind> f) Q"
proof -
  have "wp (csum_words p off k c) (\<lambda>_. True)"
    using assms(1,2) by (induction k arbitrary: off c) (auto simp: wp_rules)
  then show ?thesis using assms by (auto simp: wp_iff)
qed

text \<open>
  Several programs sum the ten words of a header into 32 bits and fold once.
\<close>

definition one_fold :: "u32 \<Rightarrow> u16" where
  "one_fold csum = ucast (NOT ((csum AND 0xFFFF) + drop_bit 16 csum))"

lemma one_fold_sum:
  assumes "ip + 20 \<le> length p"
  defines "s \<equiv> sum16 (ip_hdr p ip)"
  shows "wp (csum_words p ip 10 (0 :: u32)) (\<lambda>r. one_fold r = of_nat (65535 - (s mod 65536 + s div 65536) mod 65536))"
proof -
  have sb: "s \<le> 655350" unfolding s_def by (rule sum16_20_bound)
  obtain r where r: "csum_words p ip 10 (0 :: u32) = Some r" "unat r = s"
    using csum_words_sum [of ip 10 p "0 :: u32"] sb assms(1) by (auto simp: s_def)
  let ?t = "(r AND 0xFFFF) + drop_bit 16 r"
  have t: "unat ?t = s mod 65536 + s div 65536"
  proof -
    have "s mod 65536 + s div 65536 < 2 ^ 32" using sb by (simp add: less_le_trans)
    then show ?thesis by (simp add: unat_add_small unat_and_ffff unat_drop_bit_16 r)
  qed
  have "(ucast (NOT ?t) :: u16) = NOT (ucast ?t)"
    by (intro bit_word_eqI) (auto simp: bit_simps)
  moreover have "unat (ucast ?t :: u16) = (s mod 65536 + s div 65536) mod 65536"
    by (simp only: unsigned_ucast_eq t) (simp add: take_bit_eq_mod)
  ultimately have "unat (one_fold r) = 65535 - (s mod 65536 + s div 65536) mod 65536"
    by (simp add: unat_not_u16 one_fold_def)
  then have "of_nat (unat (one_fold r)) = (of_nat (65535 - (s mod 65536 + s div 65536) mod 65536) :: u16)"
    by (simp only:)
  then show ?thesis by (simp add: r)
qed

lemma compute_ip_checksum_result:
  assumes "ip + 20 \<le> length p"
  defines "q \<equiv> put p (ip + 10) [0, 0]"
  defines "s \<equiv> sum16 (ip_hdr q ip)"
  shows "compute_ip_checksum p ip = Some (of_nat (65535 - (s mod 65536 + s div 65536) mod 65536), q)"
proof -
  have z: "le_bytes 2 0 = [0, 0]" by (simp add: numeral_2_eq_2)
  have st: "st16 p (ip + 10) 0 = Some q"
    using assms(1) by (simp add: st16_def stn_put z q_def)
  have "ip + 20 \<le> length q" using assms(1) by (simp add: q_def)
  from one_fold_sum [OF this] show ?thesis
    by (auto simp: compute_ip_checksum_def st wp_iff s_def one_fold_def)
qed

text \<open>
  The bound under which one fold is enough. Beyond it the truncation to 16 bits drops a
  carry and the header that is sent out fails verification, whatever its contents.
\<close>

lemma single_fold_valid_iff:
  assumes "length h = 20" and "take 2 (drop 10 h) = [0, 0]"
  defines "t \<equiv> sum16 h mod 65536 + sum16 h div 65536"
  shows "csum_valid (put h 10 (le_bytes 2 (65535 - t mod 65536))) \<longleftrightarrow> t \<le> 65535"
proof -
  define k where "k = 65535 - t mod 65536"
  have kb: "k mod 65536 = k" unfolding k_def by simp
  have h: "h = take 10 h @ take 2 (drop 10 h) @ drop 12 h"
    using split3 [of 10 h 2] by simp
  have "sum16 h = sum16 (take 10 h) + sum16 (drop 12 h)"
    by (subst h) (simp add: sum16_append assms(1,2) del: append_take_drop_id take_drop)
  moreover have "sum16 (put h 10 (le_bytes 2 k)) = sum16 (take 10 h) + (k + sum16 (drop 12 h))"
    by (simp add: put_def sum16_append assms(1) sum16_le_bytes2 kb del: take_drop)
  ultimately have "oc (sum16 (put h 10 (le_bytes 2 k))) = oc (oc (sum16 h) + k)"
    by (simp add: oc_add_left oc_add_right algebra_simps)
  also have "\<dots> = oc (t + k)"
    by (simp add: t_def oc_fold [symmetric, of "sum16 h"] oc_add_left)
  finally have eq: "oc (sum16 (put h 10 (le_bytes 2 k))) = oc (t + k)" .
  have tb: "t \<le> 65545"
    using sum16_20_bound [of 0 h] assms(1) unfolding t_def by (simp add: Suc_le_eq add_mono)
  show ?thesis
  proof (cases "t \<le> 65535")
    case True
    then show ?thesis using eq by (simp add: csum_valid_def oc_small k_def)
  next
    case False
    then have "t mod 65536 = t - 65536" using False tb by (simp add: le_mod_geq)
    then have "t + k = 131071" using False tb by (simp add: k_def)
    then show ?thesis using eq False by (simp add: csum_valid_def oc_def flip: k_def)
  qed
qed

end
