(* ===== verification/Sound_Stub.thy ===== *)
theory Sound_Stub
  imports Prelude
begin

text \<open>
  The contract between a function and the summary ("stub") that replaces it in a symbolic
  execution. A stub assigns fresh symbolic values and constrains them with \<open>klee_assume\<close>:
  it is the predicate of the outcomes it allows. Replacing the function by its stub loses no
  behaviour when every real outcome is allowed.
\<close>

text \<open>
  \<open>real\<close> on an input satisfying \<open>pre\<close> does not fault and its outcome is one the stub
  allows. Then whatever holds of a client run on every stub outcome holds of the client
  run on the real function.
\<close>

locale sound_stub =
  fixes real :: "'i \<Rightarrow> 'o option" and pre :: "'i \<Rightarrow> bool" and stub :: "'i \<Rightarrow> 'o \<Rightarrow> bool"
  assumes covered: "pre x \<Longrightarrow> wp (real x) (stub x)"
begin

lemma policy_transfer:
  assumes "pre x" and "\<And>y. stub x y \<Longrightarrow> wp (client y) Q"
  shows "wp (real x \<bind> client) Q"
  using wp_mono [OF covered [OF assms(1)] assms(2)] by (simp add: wp_bind)

lemma coarser_stub:
  assumes "\<And>y. stub x y \<Longrightarrow> stub' x y" and "pre x"
  shows "wp (real x) (stub' x)"
  by (rule wp_mono [OF covered [OF assms(2)] assms(1)])

end

lemma word_mod_less: "0 < b \<Longrightarrow> (a mod b :: 'a::len word) < b"
  by (simp add: word_less_nat_alt unat_mod_distrib)

end
