(* ===== verification/Fnv.thy ===== *)
theory Fnv
  imports Prelude
begin

text \<open>
  The FNV-1a hash that BMC, its summaries and the loop examples compute byte by byte, in its
  two variants (the byte taken as unsigned, or sign-extended as a plain \<open>char\<close>), and the
  key it is computed of: the bytes of a memcached request up to a delimiter.
\<close>

definition BMC_MAX_KEY_LENGTH :: nat where
  "BMC_MAX_KEY_LENGTH = 250"

definition FNV_OFFSET_BASIS_32 :: u32 where
  "FNV_OFFSET_BASIS_32 = 2166136261"

definition FNV_PRIME_32 :: u32 where
  "FNV_PRIME_32 = 16777619"

text \<open>\<open>hash ^= (unsigned char) c; hash *= FNV_PRIME_32;\<close>\<close>

definition fnv_step :: "u32 \<Rightarrow> u8 \<Rightarrow> u32" where
  "fnv_step hash c = (hash XOR ucast c) * FNV_PRIME_32"

text \<open>\<open>hash ^= payload[off];\<close> with a plain (signed) \<open>char\<close>: the byte is sign-extended.\<close>

definition fnv_step_char :: "u32 \<Rightarrow> u8 \<Rightarrow> u32" where
  "fnv_step_char hash c = (hash XOR scast c) * FNV_PRIME_32"

text \<open>
  The memcached key at the start of a buffer: at most \<open>k\<close> bytes, up to the first
  delimiter (carriage return or space).
\<close>

definition key_bytes :: "nat \<Rightarrow> bytes \<Rightarrow> bytes" where
  "key_bytes k bs = takeWhile (\<lambda>c. c \<noteq> 13 \<and> c \<noteq> 32) (take k bs)"

definition fnv1a :: "bytes \<Rightarrow> u32" where
  "fnv1a bs = foldl fnv_step FNV_OFFSET_BASIS_32 bs"

lemma key_bytes_0 [simp]: "key_bytes 0 bs = []"
  by (simp add: key_bytes_def)

lemma key_bytes_Cons [simp]:
  "key_bytes (Suc k) (c # bs) = (if c = 13 \<or> c = 32 then [] else c # key_bytes k bs)"
  by (simp add: key_bytes_def)

lemma length_key_bytes: "length (key_bytes k bs) \<le> k"
  unfolding key_bytes_def by (rule le_trans [OF length_takeWhile_le]) simp

lemma drop_nth_Cons: "off < length p \<Longrightarrow> drop off p = p ! off # drop (Suc off) p"
  by (rule Cons_nth_drop_Suc [symmetric])

end
