(* ===== verification/Hash_Stubs.thy ===== *)
theory Hash_Stubs
  imports Csum Sound_Stub Fnv
begin

text \<open>
  The functions that make symbolic execution explode, and the summaries ("stubs") that
  replace them in a KLEE run. A real function is modelled as the C code computes it;
  \<open>None\<close> is a read outside the buffer it was given. A stub assigns fresh symbolic
  values and constrains them with \<open>klee_assume\<close>: it is modelled as the predicate of
  the outcomes it allows. Replacing the function by its stub is sound when every real
  outcome is allowed, which is the contract of the locale \<open>sound_stub\<close>.
\<close>

section \<open>FNV-1a\<close>

subsection \<open>\<open>bmc_hash_keys\<close>\<close>

definition BMC_STUB_ENTRY_COUNT :: u32 where
  "BMC_STUB_ENTRY_COUNT = 3250"

text \<open>The first argument counts the iterations the bound on \<open>off\<close> still allows.\<close>

fun bmc_hash_keys_loop :: "nat \<Rightarrow> bytes \<Rightarrow> u32 \<Rightarrow> nat \<Rightarrow> u32 \<Rightarrow> u32 \<Rightarrow> (u32 \<times> u32) option" where
  "bmc_hash_keys_loop 0 payload len off hash key_len = Some (hash, key_len)"
| "bmc_hash_keys_loop (Suc k) payload len off hash key_len =
     (if off < unat len then
        do { c \<leftarrow> ld8 payload off;
             if c = 13 then Some (hash, key_len)
             else if c = 32 then Some (hash, key_len)
             else bmc_hash_keys_loop k payload len (off + 1) (fnv_step hash c) (key_len + 1) }
      else Some (hash, key_len))"

definition bmc_hash_keys :: "bytes \<Rightarrow> u32 \<Rightarrow> (u32 \<times> u32) option" where
  "bmc_hash_keys payload len =
     do { (hash, key_len) \<leftarrow>
            bmc_hash_keys_loop (BMC_MAX_KEY_LENGTH + 1) payload len 0 FNV_OFFSET_BASIS_32 0;
          Some (hash mod BMC_STUB_ENTRY_COUNT, key_len) }"

definition bmc_hash_keys_stub :: "u32 \<times> u32 \<Rightarrow> bool" where
  "bmc_hash_keys_stub r = (snd r \<le> 251 \<and> fst r < BMC_STUB_ENTRY_COUNT)"

subsection \<open>\<open>fnv_hash\<close> of the abstract-interpretation demo\<close>

fun fnv_hash_loop :: "nat \<Rightarrow> bytes \<Rightarrow> u32 \<Rightarrow> nat \<Rightarrow> u32 \<Rightarrow> u32 \<Rightarrow> (u32 \<times> u32) option" where
  "fnv_hash_loop 0 payload len off hash key_len = Some (hash, key_len)"
| "fnv_hash_loop (Suc k) payload len off hash key_len =
     (if of_nat off + 1 \<le> len then
        do { c \<leftarrow> ld8 payload off;
             if c = 13 then Some (hash, key_len)
             else if c = 32 then Some (hash, key_len)
             else fnv_hash_loop k payload len (off + 1) (fnv_step hash c) (key_len + 1) }
      else Some (hash, key_len))"

text \<open>Returns \<open>key_len\<close>; the hash goes out through a pointer.\<close>

definition fnv_hash :: "bytes \<Rightarrow> u32 \<Rightarrow> (u32 \<times> u32) option" where
  "fnv_hash payload len =
     do { (hash, key_len) \<leftarrow>
            fnv_hash_loop (BMC_MAX_KEY_LENGTH + 1) payload len 0 FNV_OFFSET_BASIS_32 0;
          Some (key_len, hash) }"

subsection \<open>\<open>perbyte_hash\<close>\<close>

definition LOOP_BOUND :: nat where
  "LOOP_BOUND = 32"

fun perbyte_hash_loop :: "nat \<Rightarrow> bytes \<Rightarrow> u32 \<Rightarrow> nat \<Rightarrow> u32 \<Rightarrow> u32 \<Rightarrow> (u32 \<times> u32) option" where
  "perbyte_hash_loop 0 payload len i hash matches = Some (hash, matches)"
| "perbyte_hash_loop (Suc k) payload len i hash matches =
     (if i < unat len then
        do { c \<leftarrow> ld8 payload i;
             if c = 13 then Some (hash, matches)
             else if c = 32 then perbyte_hash_loop k payload len (i + 1) hash (matches + 1)
             else perbyte_hash_loop k payload len (i + 1) (fnv_step hash c) matches }
      else Some (hash, matches))"

definition perbyte_hash :: "bytes \<Rightarrow> u32 \<Rightarrow> (u32 \<times> u32) option" where
  "perbyte_hash payload len =
     do { (hash, matches) \<leftarrow> perbyte_hash_loop LOOP_BOUND payload len 0 FNV_OFFSET_BASIS_32 0;
          Some (hash mod 1000, matches) }"

definition perbyte_hash_stub :: "u32 \<times> u32 \<Rightarrow> bool" where
  "perbyte_hash_stub r = (snd r \<le> 32 \<and> fst r < 1000)"

subsection \<open>\<open>hash_keys_mini\<close>\<close>

definition KEY_BYTES :: nat where
  "KEY_BYTES = 12"

definition TABLE_SIZE :: u32 where
  "TABLE_SIZE = 3250"

text \<open>
  \<open>len\<close> is a signed \<open>int\<close>, but the comparison \<open>off < len\<close> with the unsigned \<open>off\<close>
  converts it to \<open>unsigned\<close>; the word holds its 32 bits either way.
\<close>

fun hash_keys_mini_loop :: "nat \<Rightarrow> bytes \<Rightarrow> u32 \<Rightarrow> nat \<Rightarrow> u32 \<Rightarrow> u32 \<Rightarrow> (u32 \<times> u32) option" where
  "hash_keys_mini_loop 0 payload len off hash key_len = Some (hash, key_len)"
| "hash_keys_mini_loop (Suc k) payload len off hash key_len =
     (if off < unat len then
        do { c \<leftarrow> ld8 payload off;
             if c = 13 then Some (hash, key_len)
             else hash_keys_mini_loop k payload len (off + 1)
                    (if c \<noteq> 32 then fnv_step hash c else hash) (key_len + 1) }
      else Some (hash, key_len))"

definition hash_keys_mini :: "bytes \<Rightarrow> u32 \<Rightarrow> (u32 \<times> u32) option" where
  "hash_keys_mini payload len =
     do { (hash, key_len) \<leftarrow> hash_keys_mini_loop KEY_BYTES payload len 0 FNV_OFFSET_BASIS_32 0;
          Some (hash mod TABLE_SIZE, key_len) }"

text \<open>The hand-written stub caps \<open>key_len\<close> by \<open>len\<close> as well; the generated one does not.\<close>

definition hash_keys_mini_stub :: "u32 \<Rightarrow> u32 \<times> u32 \<Rightarrow> bool" where
  "hash_keys_mini_stub len r =
     (snd r \<le> (if len < of_nat KEY_BYTES then len else of_nat KEY_BYTES) \<and> fst r < TABLE_SIZE)"

definition hash_keys_mini_stub_gen :: "u32 \<times> u32 \<Rightarrow> bool" where
  "hash_keys_mini_stub_gen r = (snd r \<le> 12 \<and> fst r < 3250)"

section \<open>Pointer-chasing gather\<close>

definition TBL_SIZE :: u32 where
  "TBL_SIZE = 256"

text \<open>\<open>tbl\<close> is the array map: \<open>None\<close> is a lookup that returns NULL.\<close>

fun do_gather_loop :: "nat \<Rightarrow> (u32 \<rightharpoonup> u32) \<Rightarrow> u32 \<Rightarrow> u32 \<Rightarrow> u32" where
  "do_gather_loop 0 tbl idx acc = acc"
| "do_gather_loop (Suc i) tbl idx acc =
     (case tbl idx of
        None \<Rightarrow> acc
      | Some v \<Rightarrow> let idx = v AND (TBL_SIZE - 1) in do_gather_loop i tbl idx (acc XOR idx))"

definition do_gather :: "(u32 \<rightharpoonup> u32) \<Rightarrow> u32 \<Rightarrow> u32" where
  "do_gather tbl start_idx = do_gather_loop 128 tbl (start_idx AND (TBL_SIZE - 1)) 0"

definition do_gather_stub :: "u32 \<Rightarrow> bool" where
  "do_gather_stub acc = (acc < TBL_SIZE)"

definition do_gather_stub_gen :: "u32 \<Rightarrow> bool" where
  "do_gather_stub_gen result = (result \<le> 255)"

section \<open>Table-driven CRC\<close>

definition crc_table :: "u16 list" where
  "crc_table = [
     0x0000, 0x1021, 0x2042, 0x3063, 0x4084, 0x50a5, 0x60c6, 0x70e7,
     0x8108, 0x9129, 0xa14a, 0xb16b, 0xc18c, 0xd1ad, 0xe1ce, 0xf1ef,
     0x1231, 0x0210, 0x3273, 0x2252, 0x52b5, 0x4294, 0x72f7, 0x62d6,
     0x9339, 0x8318, 0xb37b, 0xa35a, 0xd3bd, 0xc39c, 0xf3ff, 0xe3de,
     0x2462, 0x3443, 0x0420, 0x1401, 0x64e6, 0x74c7, 0x44a4, 0x5485,
     0xa56a, 0xb54b, 0x8528, 0x9509, 0xe5ee, 0xf5cf, 0xc5ac, 0xd58d,
     0x3653, 0x2672, 0x1611, 0x0630, 0x76d7, 0x66f6, 0x5695, 0x46b4,
     0xb75b, 0xa77a, 0x9719, 0x8738, 0xf7df, 0xe7fe, 0xd79d, 0xc7bc,
     0x4864, 0x5845, 0x6826, 0x7807, 0x08e0, 0x18c1, 0x28a2, 0x3883,
     0xc96c, 0xd94d, 0xe92e, 0xf90f, 0x89e8, 0x99c9, 0xa9aa, 0xb98b,
     0x5a55, 0x4a74, 0x7a17, 0x6a36, 0x1ad1, 0x0af0, 0x3a93, 0x2ab2,
     0xdb5d, 0xcb7c, 0xfb1f, 0xeb3e, 0x9bd9, 0x8bf8, 0xbb9b, 0xabba,
     0x6c66, 0x7c47, 0x4c24, 0x5c05, 0x2ce2, 0x3cc3, 0x0ca0, 0x1c81,
     0xed6e, 0xfd4f, 0xcd2c, 0xdd0d, 0xad8a, 0xbdab, 0x8dc8, 0x9de9,
     0x7e37, 0x6e16, 0x5e75, 0x4e54, 0x3eb3, 0x2e92, 0x1ef1, 0x0ed0,
     0xff3f, 0xef1e, 0xdf7d, 0xcf5c, 0xbf0b, 0xaf2a, 0x9f49, 0x8f68,
     0x9188, 0x81a9, 0xb1ca, 0xa1eb, 0xd10c, 0xc12d, 0xf14e, 0xe16f,
     0x1080, 0x00a1, 0x30c2, 0x20e3, 0x5004, 0x4025, 0x7046, 0x6067,
     0x83b9, 0x9398, 0xa3fb, 0xb3da, 0xc33d, 0xd31c, 0xe37f, 0xf35e,
     0x02b1, 0x1290, 0x22f3, 0x32d2, 0x4235, 0x5214, 0x6277, 0x7256,
     0xb5ea, 0xa5cb, 0x95a8, 0x8589, 0xf56e, 0xe54f, 0xd52c, 0xc50d,
     0x34e2, 0x24c3, 0x14a0, 0x0481, 0x7466, 0x6447, 0x5424, 0x4405,
     0xa7db, 0xb7fa, 0x8799, 0x97b8, 0xe75f, 0xf77e, 0xc71d, 0xd73c,
     0x26d3, 0x36f2, 0x0691, 0x16b0, 0x6657, 0x7676, 0x4615, 0x5634,
     0xd94c, 0xc96d, 0xf90e, 0xe92f, 0x99c8, 0x89e9, 0xb98a, 0xa9ab,
     0x5844, 0x4865, 0x7806, 0x6827, 0x18c0, 0x08e1, 0x3882, 0x28a3,
     0xcb7d, 0xdb5c, 0xeb3f, 0xfb1e, 0x8bf9, 0x9bd8, 0xabbb, 0xbb9a,
     0x4a75, 0x5a54, 0x6a37, 0x7a16, 0x0af1, 0x1ad0, 0x2ab3, 0x3a92,
     0xfd2e, 0xed0f, 0xdd6c, 0xcd4d, 0xbdaa, 0xad8b, 0x9de8, 0x8dc9,
     0x7c26, 0x6c07, 0x5c64, 0x4c45, 0x3ca2, 0x2c83, 0x1ce0, 0x0cc1,
     0xef1f, 0xff3e, 0xcf5d, 0xdf7c, 0xaf9b, 0xbfba, 0x8fd9, 0x9ff8,
     0x6e17, 0x7e36, 0x4e55, 0x5e74, 0x2e93, 0x3eb2, 0x0ed1, 0x1ef0]"

definition CRC_LEN :: nat where
  "CRC_LEN = 32"

definition crc_step :: "u16 \<Rightarrow> u8 \<Rightarrow> u16" where
  "crc_step crc b =
     push_bit 8 crc XOR crc_table ! unat ((drop_bit 8 crc XOR ucast b) AND 0xFF)"

fun crc16_loop :: "nat \<Rightarrow> bytes \<Rightarrow> u32 \<Rightarrow> nat \<Rightarrow> u16 \<Rightarrow> u16 option" where
  "crc16_loop 0 buf len i crc = Some crc"
| "crc16_loop (Suc k) buf len i crc =
     (if i < unat len then do { b \<leftarrow> ld8 buf i; crc16_loop k buf len (i + 1) (crc_step crc b) }
      else Some crc)"

definition crc16 :: "bytes \<Rightarrow> u32 \<Rightarrow> u16 option" where
  "crc16 buf len = crc16_loop CRC_LEN buf len 0 0xFFFF"

definition crc16_stub :: "u16 \<Rightarrow> bool" where
  "crc16_stub result = (result \<le> 255)"

section \<open>The synthetic pipeline\<close>

definition NUM_BACKENDS :: u32 where "NUM_BACKENDS = 16"
definition KEY_MAXLEN :: nat where "KEY_MAXLEN = 8"
definition TYPE_UNKNOWN :: int where "TYPE_UNKNOWN = -1"
definition TYPE_PREPARE :: int where "TYPE_PREPARE = 0"
definition TYPE_REQUEST :: int where "TYPE_REQUEST = 1"
definition TYPE_ACK :: int where "TYPE_ACK = 2"

lemmas synth_consts =
  NUM_BACKENDS_def KEY_MAXLEN_def TYPE_UNKNOWN_def TYPE_PREPARE_def TYPE_REQUEST_def TYPE_ACK_def

text \<open>Four bytes are read one by one, each only when the ones before it matched.\<close>

fun match_bytes :: "bytes \<Rightarrow> nat \<Rightarrow> bytes \<Rightarrow> bool option" where
  "match_bytes p off [] = Some True"
| "match_bytes p off (x # xs) =
     do { c \<leftarrow> ld8 p off; if c = x then match_bytes p (off + 1) xs else Some False }"

definition classify_type :: "bytes \<Rightarrow> int \<Rightarrow> int option" where
  "classify_type p len =
     (if len < 4 then Some TYPE_UNKNOWN else
      do { b1 \<leftarrow> match_bytes p 0 [0x50, 0x52, 0x45, 0x50];
           if b1 then Some TYPE_PREPARE else
           do { b2 \<leftarrow> match_bytes p 0 [0x52, 0x45, 0x51, 0x55];
                if b2 then Some TYPE_REQUEST else
                do { b3 \<leftarrow> match_bytes p 0 [0x41, 0x43, 0x4B, 0x5F];
                     if b3 then Some TYPE_ACK else Some TYPE_UNKNOWN } } })"

fun hash_payload_loop :: "nat \<Rightarrow> bytes \<Rightarrow> nat \<Rightarrow> u32 \<Rightarrow> (u32 \<times> nat) option" where
  "hash_payload_loop 0 key i h = Some (h, i)"
| "hash_payload_loop (Suc k) key i h =
     do { c \<leftarrow> ld8 key i;
          if c = 0 then Some (h, i) else hash_payload_loop k key (i + 1) (fnv_step h c) }"

definition hash_payload :: "bytes \<Rightarrow> int \<Rightarrow> (u32 \<times> int) option" where
  "hash_payload key maxlen =
     do { (h, i) \<leftarrow> hash_payload_loop (nat maxlen) key 0 FNV_OFFSET_BASIS_32;
          Some (h mod NUM_BACKENDS, int i) }"

definition classify_type_stub :: "int \<Rightarrow> bool" where
  "classify_type_stub r = (r \<ge> TYPE_UNKNOWN \<and> r \<le> TYPE_ACK)"

definition hash_payload_stub :: "int \<Rightarrow> u32 \<times> int \<Rightarrow> bool" where
  "hash_payload_stub maxlen r = (snd r \<ge> 0 \<and> snd r \<le> maxlen \<and> fst r < NUM_BACKENDS)"

definition fold_csum_stub :: "u16 \<Rightarrow> bool" where
  "fold_csum_stub r = True"

text \<open>The rough stubs constrain nothing beyond the C type of the result.\<close>

definition classify_type_rough :: "int \<Rightarrow> bool" where
  "classify_type_rough r = (- 2147483648 \<le> r \<and> r \<le> 2147483647)"

definition hash_payload_rough :: "u32 \<times> int \<Rightarrow> bool" where
  "hash_payload_rough r = (- 2147483648 \<le> snd r \<and> snd r \<le> 2147483647)"

definition is_valid_port :: "u16 \<Rightarrow> bool" where
  "is_valid_port port = (port \<ge> 1024)"

definition needs_checksum :: "int \<Rightarrow> bool" where
  "needs_checksum type = (type = TYPE_REQUEST \<or> type = TYPE_ACK)"

definition clamp_backend :: "u32 \<Rightarrow> u32" where
  "clamp_backend idx = (if idx < NUM_BACKENDS then idx else NUM_BACKENDS - 1)"

definition p1_type_range :: "int \<Rightarrow> bool" where
  "p1_type_range type = (type \<ge> TYPE_UNKNOWN \<and> type \<le> TYPE_ACK)"

definition p2_backend_bounds :: "u32 \<Rightarrow> bool" where
  "p2_backend_bounds idx = (idx < NUM_BACKENDS)"

definition p3_key_len :: "int \<Rightarrow> int \<Rightarrow> bool" where
  "p3_key_len klen maxlen = (klen \<ge> 0 \<and> klen \<le> maxlen)"

datatype assertion = P1 | P2 | P3 | P2_recheck

definition is_primary_backend :: "u32 \<Rightarrow> bool" where
  "is_primary_backend idx = (idx AND 1 = 0)"

text \<open>
  The harness is linked against three sets of callees (real, tight stubs, rough stubs),
  so they are arguments; a stub run is a run with any callees whose results the stubs
  allow. \<open>Inl\<close> is the first assertion that fails, \<open>Inr\<close> the value \<open>main\<close> returns.
  The folded checksum and the primary flag are computed and discarded.
\<close>

definition synth_main ::
  "(bytes \<Rightarrow> int \<Rightarrow> int option) \<Rightarrow> (bytes \<Rightarrow> int \<Rightarrow> (u32 \<times> int) option) \<Rightarrow> (u32 \<Rightarrow> u16 option) \<Rightarrow>
    bytes \<Rightarrow> u16 \<Rightarrow> u32 \<Rightarrow> (assertion + int) option" where
  "synth_main classify hash csum payload src_port raw_csum =
     do { type \<leftarrow> classify payload 32;
          if \<not> p1_type_range type then Some (Inl P1)
          else if type = TYPE_UNKNOWN then Some (Inr 0)
          else if \<not> is_valid_port src_port then Some (Inr 0)
          else do {
            (backend, key_len) \<leftarrow> hash payload (int KEY_MAXLEN);
            if \<not> p2_backend_bounds backend then Some (Inl P2)
            else if \<not> p3_key_len key_len (int KEY_MAXLEN) then Some (Inl P3)
            else do {
              let backend = clamp_backend backend;
              cs \<leftarrow> (if needs_checksum type then csum raw_csum else Some 0);
              let primary = (type = TYPE_PREPARE \<and> is_primary_backend backend);
              if type = TYPE_REQUEST \<and> \<not> backend < NUM_BACKENDS then Some (Inl P2_recheck)
              else Some (Inr 0) } } }"

section \<open>Reference definitions of the loops\<close>

lemma bmc_hash_keys_loop_eq:
  assumes "min (off + k) (unat len) \<le> length payload"
  shows "bmc_hash_keys_loop k payload len off hash key_len =
    (let ks = key_bytes (min k (unat len - off)) (drop off payload)
     in Some (foldl fnv_step hash ks, key_len + of_nat (length ks)))"
  using assms
proof (induction k arbitrary: off hash key_len)
  case (Suc k)
  show ?case
  proof (cases "off < unat len")
    case True
    have "off < length payload" using True Suc.prems by auto
    moreover have "min (Suc k) (unat len - off) = Suc (min k (unat len - Suc off))"
      using True by auto
    moreover have "min (Suc off + k) (unat len) \<le> length payload" using Suc.prems by auto
    ultimately show ?thesis
      using True Suc.IH [of "Suc off"] by (simp add: ld8_def drop_nth_Cons Let_def add.commute)
  qed (use Suc.prems in simp)
qed simp

lemma bmc_hash_keys_eq:
  assumes "min 251 (unat len) \<le> length payload"
  shows "bmc_hash_keys payload len =
    (let ks = key_bytes (min 251 (unat len)) payload
     in Some (fnv1a ks mod BMC_STUB_ENTRY_COUNT, of_nat (length ks)))"
  using assms
  by (simp add: bmc_hash_keys_def bmc_hash_keys_loop_eq BMC_MAX_KEY_LENGTH_def fnv1a_def Let_def
        del: bmc_hash_keys_loop.simps)

lemma fnv_hash_loop_eq:
  "off + k < 2 ^ 32 \<Longrightarrow>
    fnv_hash_loop k payload len off hash key_len = bmc_hash_keys_loop k payload len off hash key_len"
proof (induction k arbitrary: off hash key_len)
  case (Suc k)
  have "of_nat off + 1 = (of_nat (off + 1) :: u32)" by simp
  moreover have "unat (of_nat (off + 1) :: u32) = off + 1"
    using Suc.prems by (simp only: unat_of_nat) simp
  ultimately have "unat (of_nat off + 1 :: u32) = off + 1" by (simp only:)
  then have "(of_nat off + 1 \<le> len) = (off < unat len)"
    by (simp add: word_le_nat_alt Suc_le_eq)
  then show ?case using Suc.IH [of "off + 1"] Suc.prems by (cases "ld8 payload off") auto
qed simp

lemma perbyte_hash_loop_matches:
  "min (i + k) (unat len) \<le> length payload \<Longrightarrow> unat matches + k < 2 ^ 32 \<Longrightarrow>
    wp (perbyte_hash_loop k payload len i hash matches) (\<lambda>r. unat (snd r) \<le> unat matches + k)"
proof (induction k arbitrary: i hash matches)
  case (Suc k)
  have u: "unat (matches + 1) = unat matches + 1"
    using Suc.prems(2) by (intro unat_inc) simp
  have "wp (perbyte_hash_loop k payload len (i + 1) hash' matches)
      (\<lambda>r. unat (snd r) \<le> unat matches + Suc k)" for hash'
    by (rule wp_mono [OF Suc.IH]) (use Suc.prems in auto)
  moreover have "wp (perbyte_hash_loop k payload len (i + 1) hash (matches + 1))
      (\<lambda>r. unat (snd r) \<le> unat matches + Suc k)"
    by (rule wp_mono [OF Suc.IH]) (use Suc.prems u in auto)
  ultimately show ?case
    using Suc.prems by (auto simp: wp_rules)
qed simp

lemma hash_keys_mini_loop_len:
  "min (off + k) (unat len) \<le> length payload \<Longrightarrow> unat key_len + k < 2 ^ 32 \<Longrightarrow>
    wp (hash_keys_mini_loop k payload len off hash key_len)
      (\<lambda>r. unat (snd r) \<le> unat key_len + min k (unat len - off))"
proof (induction k arbitrary: off hash key_len)
  case (Suc k)
  have u: "unat (key_len + 1) = unat key_len + 1"
    using Suc.prems(2) by (intro unat_inc) simp
  show ?case
  proof (cases "off < unat len")
    case True
    have "wp (hash_keys_mini_loop k payload len (off + 1) hash' (key_len + 1))
        (\<lambda>r. unat (snd r) \<le> unat key_len + min (Suc k) (unat len - off))" for hash'
      by (rule wp_mono [OF Suc.IH]) (use Suc.prems u True in auto)
    then show ?thesis using True Suc.prems by (auto simp: wp_rules)
  qed simp
qed simp

lemma and_255_less: "(w AND 255 :: u32) < 256"
proof -
  have "(255 :: u32) = mask 8" by (simp add: mask_eq_exp_minus_1)
  then show ?thesis using and_mask_less' [of 8 w] by simp
qed

lemma xor_lt_256: "a < 256 \<Longrightarrow> b < 256 \<Longrightarrow> (a XOR b :: u32) < 256"
  using XOR_upper [of "uint a" 8 "uint b"]
  by (simp add: word_less_alt unsigned_xor_eq)

lemma do_gather_loop_lt: "acc < 256 \<Longrightarrow> do_gather_loop n tbl idx acc < 256"
  by (induction n arbitrary: idx acc)
    (auto simp: TBL_SIZE_def xor_lt_256 and_255_less Let_def split: option.splits)

section \<open>Soundness of the summaries\<close>

interpretation bmc_keys: sound_stub
  "\<lambda>(payload, len). bmc_hash_keys payload len"
  "\<lambda>(payload, len). min 251 (unat len) \<le> length payload"
  "\<lambda>_. bmc_hash_keys_stub"
proof unfold_locales
  fix x :: "bytes \<times> u32"
  obtain payload len where x: "x = (payload, len)" by fastforce
  let ?ks = "key_bytes (min 251 (unat len)) payload"
  assume "case x of (payload, len) \<Rightarrow> min 251 (unat len) \<le> length payload"
  then have eq: "bmc_hash_keys payload len =
      Some (fnv1a ?ks mod BMC_STUB_ENTRY_COUNT, of_nat (length ?ks))"
    using bmc_hash_keys_eq [of len payload] x by (simp add: Let_def)
  have l: "length ?ks \<le> 251"
    using length_key_bytes [of "min 251 (unat len)" payload] by simp
  then have "(of_nat (length ?ks) :: u32) \<le> 251"
    by (simp add: word_le_nat_alt unat_of_nat)
  then show "wp (case x of (payload, len) \<Rightarrow> bmc_hash_keys payload len) bmc_hash_keys_stub"
    using x eq by (simp add: bmc_hash_keys_stub_def BMC_STUB_ENTRY_COUNT_def word_mod_less)
qed

interpretation perbyte: sound_stub
  "\<lambda>(payload, len). perbyte_hash payload len"
  "\<lambda>(payload, len). min 32 (unat len) \<le> length payload"
  "\<lambda>_. perbyte_hash_stub"
proof unfold_locales
  fix x :: "bytes \<times> u32"
  assume "case x of (payload, len) \<Rightarrow> min 32 (unat len) \<le> length payload"
  then show "wp (case x of (payload, len) \<Rightarrow> perbyte_hash payload len) perbyte_hash_stub"
    using perbyte_hash_loop_matches [of 0 32 "snd x" "fst x" 0 FNV_OFFSET_BASIS_32]
    by (auto simp: perbyte_hash_def LOOP_BOUND_def perbyte_hash_stub_def wp_iff word_mod_less
          word_le_nat_alt simp del: perbyte_hash_loop.simps)
qed

interpretation keys_mini: sound_stub
  "\<lambda>(payload, len). hash_keys_mini payload len"
  "\<lambda>(payload, len). min 12 (unat len) \<le> length payload"
  "\<lambda>(payload, len). hash_keys_mini_stub len"
proof unfold_locales
  fix x :: "bytes \<times> u32"
  assume "case x of (payload, len) \<Rightarrow> min 12 (unat len) \<le> length payload"
  then show "wp (case x of (payload, len) \<Rightarrow> hash_keys_mini payload len)
      ((case x of (payload, len) \<Rightarrow> hash_keys_mini_stub len))"
    using hash_keys_mini_loop_len [of 0 12 "snd x" "fst x" 0 FNV_OFFSET_BASIS_32]
    by (auto simp: hash_keys_mini_def KEY_BYTES_def TABLE_SIZE_def hash_keys_mini_stub_def wp_iff
          word_le_nat_alt word_less_nat_alt unat_mod_distrib simp del: hash_keys_mini_loop.simps)
qed

lemma hash_keys_mini_stub_gen_weaker: "hash_keys_mini_stub len r \<Longrightarrow> hash_keys_mini_stub_gen r"
  by (auto simp: hash_keys_mini_stub_def hash_keys_mini_stub_gen_def KEY_BYTES_def TABLE_SIZE_def
      word_le_nat_alt word_less_nat_alt split: if_splits)

interpretation gather: sound_stub
  "\<lambda>(tbl, start_idx). Some (do_gather tbl start_idx)" "\<lambda>_. True" "\<lambda>_. do_gather_stub"
  by unfold_locales
    (simp add: do_gather_def do_gather_stub_def do_gather_loop_lt TBL_SIZE_def split: prod.split
      del: do_gather_loop.simps)

text \<open>The synthetic pipeline reads a fixed 32-byte payload.\<close>

lemma match_bytes_wp: "off + length xs \<le> length p \<Longrightarrow> wp (match_bytes p off xs) (\<lambda>_. True)"
  by (induction xs arbitrary: off) (auto simp: wp_rules)

lemma match_bytes_Some: "off + length xs \<le> length p \<Longrightarrow> \<exists>b. match_bytes p off xs = Some b"
  using match_bytes_wp [of off xs p] by (auto simp: wp_iff)

interpretation classify: sound_stub
  "\<lambda>(p, len). classify_type p len" "\<lambda>(p, len). 4 \<le> length p" "\<lambda>_. classify_type_stub"
proof unfold_locales
  fix x :: "bytes \<times> int"
  obtain p len where x: "x = (p, len)" by fastforce
  assume "case x of (p, len) \<Rightarrow> 4 \<le> length p"
  then have ok: "\<exists>b. match_bytes p 0 [c1, c2, c3, c4] = Some b" for c1 c2 c3 c4
    using match_bytes_Some [of 0 "[c1, c2, c3, c4]" p] x by simp
  obtain b1 where "match_bytes p 0 [0x50, 0x52, 0x45, 0x50] = Some b1" using ok by blast
  moreover obtain b2 where "match_bytes p 0 [0x52, 0x45, 0x51, 0x55] = Some b2" using ok by blast
  moreover obtain b3 where "match_bytes p 0 [0x41, 0x43, 0x4B, 0x5F] = Some b3" using ok by blast
  ultimately show "wp (case x of (p, len) \<Rightarrow> classify_type p len) classify_type_stub"
    using x by (simp add: classify_type_def classify_type_stub_def synth_consts wp_rules
        del: match_bytes.simps)
qed

lemma hash_payload_loop_wp:
  "i + k \<le> length key \<Longrightarrow> wp (hash_payload_loop k key i h) (\<lambda>r. i \<le> snd r \<and> snd r \<le> i + k)"
proof (induction k arbitrary: i h)
  case (Suc k)
  have "wp (hash_payload_loop k key (i + 1) h') (\<lambda>r. i \<le> snd r \<and> snd r \<le> i + Suc k)" for h'
    by (rule wp_mono [OF Suc.IH]) (use Suc.prems in auto)
  then show ?case using Suc.prems by (auto simp: wp_rules)
qed simp

interpretation payload: sound_stub
  "\<lambda>(key, maxlen). hash_payload key maxlen"
  "\<lambda>(key, maxlen). 0 \<le> maxlen \<and> nat maxlen \<le> length key"
  "\<lambda>(key, maxlen). hash_payload_stub maxlen"
proof unfold_locales
  fix x :: "bytes \<times> int"
  assume "case x of (key, maxlen) \<Rightarrow> 0 \<le> maxlen \<and> nat maxlen \<le> length key"
  then show "wp (case x of (key, maxlen) \<Rightarrow> hash_payload key maxlen)
      (case x of (key, maxlen) \<Rightarrow> hash_payload_stub maxlen)"
    using hash_payload_loop_wp [of 0 "nat (snd x)" "fst x" FNV_OFFSET_BASIS_32]
    by (auto simp: hash_payload_def hash_payload_stub_def NUM_BACKENDS_def wp_iff word_mod_less)
qed

text \<open>A run whose callees obey the tight stubs trips no assertion.\<close>

lemma synth_main_stubbed:
  assumes "wp (classify p 32) classify_type_stub"
    and "wp (hash p 8) (hash_payload_stub 8)"
    and "\<And>c. wp (csum c) fold_csum_stub"
  shows "wp (synth_main classify hash csum p port raw) (\<lambda>r. r = Inr 0)"
proof -
  obtain t where t: "classify p 32 = Some t" "classify_type_stub t"
    using assms(1) by (auto simp: wp_iff)
  obtain b k where h: "hash p 8 = Some (b, k)" "hash_payload_stub 8 (b, k)"
    using assms(2) by (auto simp: wp_iff)
  obtain c where c: "csum raw = Some c"
    using assms(3) [of raw] by (auto simp: wp_iff)
  show ?thesis
    using t h c
    by (simp add: synth_main_def classify_type_stub_def hash_payload_stub_def p1_type_range_def
        p2_backend_bounds_def p3_key_len_def clamp_backend_def KEY_MAXLEN_def Let_def)
qed

section \<open>Properties\<close>

text \<open>
  \<open>bmc_hash_keys\<close> of a buffer that really holds \<open>len\<close> bytes never reads
  outside it, and computes the FNV-1a hash, reduced to a table index, of the key at its
  start: the bytes up to the first space or carriage return, at most 251 of them, whose
  number it also returns.
\<close>

lemma bmc_hash_keys_is_fnv1a_of_key:
  assumes "unat len \<le> length payload"
  shows "bmc_hash_keys payload len =
    Some (fnv1a (key_bytes (min 251 (unat len)) payload) mod BMC_STUB_ENTRY_COUNT,
          of_nat (length (key_bytes (min 251 (unat len)) payload)))"
  using bmc_hash_keys_eq [of len payload] assms by (simp add: Let_def)

lemma bmc_hash_keys_is_fnv1a_of_key_witness:
  "bmc_hash_keys [0x61, 0x62, 0x20, 0x63] 4 =
    Some (fnv1a [0x61, 0x62] mod BMC_STUB_ENTRY_COUNT, 2)"
  using bmc_hash_keys_is_fnv1a_of_key [of 4 "[0x61, 0x62, 0x20, 0x63]"]
  by (simp add: key_bytes_def)

text \<open>
  Property C34. The summaries of the hash loops are sound: on every buffer that holds the
  bytes the loop may look at, \<open>bmc_hash_keys\<close>, \<open>perbyte_hash\<close> and \<open>hash_keys_mini\<close>
  return, and what they return satisfies every \<open>klee_assume\<close> of their stubs, the
  generated stub of the last one included; so does \<open>do_gather\<close> on every table.
\<close>

theorem hash_stubs_sound:
  assumes "251 \<le> length payload \<or> unat len \<le> length payload"
  shows "wp (bmc_hash_keys payload len) bmc_hash_keys_stub \<and>
    wp (perbyte_hash payload len) perbyte_hash_stub \<and>
    wp (hash_keys_mini payload len)
      (\<lambda>r. hash_keys_mini_stub len r \<and> hash_keys_mini_stub_gen r) \<and>
    do_gather_stub (do_gather tbl i) \<and> do_gather_stub_gen (do_gather tbl i)"
proof (intro conjI)
  show "wp (bmc_hash_keys payload len) bmc_hash_keys_stub"
    using bmc_keys.covered [of "(payload, len)"] assms by auto
  show "wp (perbyte_hash payload len) perbyte_hash_stub"
    using perbyte.covered [of "(payload, len)"] assms by auto
  have "wp (hash_keys_mini payload len) (hash_keys_mini_stub len)"
    using keys_mini.covered [of "(payload, len)"] assms by auto
  then show "wp (hash_keys_mini payload len)
      (\<lambda>r. hash_keys_mini_stub len r \<and> hash_keys_mini_stub_gen r)"
    by (rule wp_mono) (rule conjI, assumption, erule hash_keys_mini_stub_gen_weaker)
  have "do_gather tbl i < 256"
    using gather.covered [of "(tbl, i)"] by (simp add: do_gather_stub_def TBL_SIZE_def)
  then show "do_gather_stub (do_gather tbl i)" "do_gather_stub_gen (do_gather tbl i)"
    by (simp_all add: do_gather_stub_def do_gather_stub_gen_def TBL_SIZE_def word_le_nat_alt
        word_less_nat_alt)
qed

theorem hash_stubs_sound_witness:
  "wp (bmc_hash_keys [0x61, 0x20] 2) bmc_hash_keys_stub \<and>
    wp (perbyte_hash [0x61, 0x20] 2) perbyte_hash_stub \<and>
    wp (hash_keys_mini [0x61, 0x20] 2)
      (\<lambda>r. hash_keys_mini_stub 2 r \<and> hash_keys_mini_stub_gen r) \<and>
    do_gather_stub (do_gather Some 7) \<and> do_gather_stub_gen (do_gather Some 7)"
  by (rule hash_stubs_sound) simp

text \<open>
  The harness of the synthetic pipeline on a 32-byte payload: run with the
  real callees it returns 0 with every assertion holding, and so does every run with
  callees that obey the tight stubs. The rough stubs allow a run in which P1 fails, one
  in which P2 fails and one in which P3 fails, although no real run does: their reports
  are false positives.
\<close>

lemma synth_pipeline_policies:
  assumes "length payload = 32"
  shows "synth_main classify_type hash_payload (\<lambda>c. Some (fold_csum c)) payload src_port raw_csum =
      Some (Inr 0) \<and>
    (wp (classify payload 32) classify_type_stub \<and> wp (hash payload 8) (hash_payload_stub 8) \<and>
      (\<forall>c. wp (csum c) fold_csum_stub) \<longrightarrow>
      synth_main classify hash csum payload src_port raw_csum = Some (Inr 0)) \<and>
    (\<forall>A \<in> {P1, P2, P3}. \<exists>type hashed port.
      classify_type_rough type \<and> hash_payload_rough hashed \<and>
      synth_main (\<lambda>_ _. Some type) (\<lambda>_ _. Some hashed) (\<lambda>c. Some (fold_csum c))
        payload port raw_csum = Some (Inl A))"
proof (intro conjI impI ballI)
  have "wp (synth_main classify_type hash_payload (\<lambda>c. Some (fold_csum c)) payload src_port raw_csum)
      (\<lambda>r. r = Inr 0)"
    by (rule synth_main_stubbed)
      (use classify.covered [of "(payload, 32)"] payload.covered [of "(payload, 8)"] assms
        in \<open>auto simp: fold_csum_stub_def\<close>)
  then show "synth_main classify_type hash_payload (\<lambda>c. Some (fold_csum c)) payload src_port raw_csum
      = Some (Inr 0)"
    by (simp add: wp_iff)
next
  assume "wp (classify payload 32) classify_type_stub \<and> wp (hash payload 8) (hash_payload_stub 8) \<and>
    (\<forall>c. wp (csum c) fold_csum_stub)"
  then show "synth_main classify hash csum payload src_port raw_csum = Some (Inr 0)"
    using synth_main_stubbed [of classify payload hash csum src_port raw_csum] by (simp add: wp_iff)
next
  fix A
  assume "A \<in> {P1, P2, P3}"
  then show "\<exists>type hashed port. classify_type_rough type \<and> hash_payload_rough hashed \<and>
      synth_main (\<lambda>_ _. Some type) (\<lambda>_ _. Some hashed) (\<lambda>c. Some (fold_csum c))
        payload port raw_csum = Some (Inl A)"
    by (intro exI [of _ "if A = P1 then 3 else 0"]
        exI [of _ "if A = P2 then (16, 0) else (0, 9)"] exI [of _ 1024])
      (auto simp: synth_main_def synth_consts classify_type_rough_def hash_payload_rough_def
        p1_type_range_def p2_backend_bounds_def p3_key_len_def is_valid_port_def)
qed

lemma synth_pipeline_policies_witness:
  "synth_main classify_type hash_payload (\<lambda>c. Some (fold_csum c)) (replicate 32 0) 2000 7 =
    Some (Inr 0)"
  using synth_pipeline_policies [of "replicate 32 0"] by simp

text \<open>
  The abstract-interpretation demo hashes exactly like \<open>bmc_hash_keys\<close>: same
  key length, and the same hash before the reduction to a table index, whatever the buffer.
\<close>

lemma fnv_hash_matches_bmc_hash_keys:
  "map_option (\<lambda>(key_len, hash). (hash mod BMC_STUB_ENTRY_COUNT, key_len)) (fnv_hash payload len) =
    bmc_hash_keys payload len"
  by (cases "bmc_hash_keys_loop 251 payload len 0 FNV_OFFSET_BASIS_32 0")
    (auto simp: fnv_hash_def bmc_hash_keys_def fnv_hash_loop_eq BMC_MAX_KEY_LENGTH_def
      simp del: bmc_hash_keys_loop.simps fnv_hash_loop.simps)

text \<open>The CRC-16/CCITT table, computed bit by bit from the polynomial 0x1021.\<close>

definition crc_bit :: "u16 \<Rightarrow> u16" where
  "crc_bit c = (if bit c 15 then push_bit 1 c XOR 0x1021 else push_bit 1 c)"

definition ccitt_entry :: "nat \<Rightarrow> u16" where
  "ccitt_entry i = (crc_bit ^^ 8) (push_bit 8 (of_nat i))"

lemma crc_basis:
  "length crc_table = 256"
  "crc_table ! 1 = 0x1021" "crc_table ! 2 = 0x2042" "crc_table ! 4 = 0x4084"
  "crc_table ! 8 = 0x8108" "crc_table ! 16 = 0x1231" "crc_table ! 32 = 0x2462"
  "crc_table ! 64 = 0x4864" "crc_table ! 128 = 0x9188"
  by (simp_all add: crc_table_def)

lemma ccitt_basis:
  "ccitt_entry 1 = 0x1021" "ccitt_entry 2 = 0x2042" "ccitt_entry 4 = 0x4084"
  "ccitt_entry 8 = 0x8108" "ccitt_entry 16 = 0x1231" "ccitt_entry 32 = 0x2462"
  "ccitt_entry 64 = 0x48C4" "ccitt_entry 128 = 0x9188"
  by code_simp+

lemma crc16_empty: "crc16 [] 0 = Some 0xFFFF"
  by (simp add: crc16_def CRC_LEN_def numeral_eq_Suc)

text \<open>
  Of the eight basis entries of \<open>crc_table\<close> (those with a power of two as
  index, from which a CRC table is generated by exclusive or) all but the one with index 64
  agree with the CRC-16/CCITT polynomial the table is documented to implement; that one does
  not. And the summary of \<open>crc16\<close>, which assumes a result of at most 255, excludes a result
  the real function has: that of the empty message.
\<close>

lemma crc_table_and_stub_defects:
  "length crc_table = 256 \<and>
    map (\<lambda>i. crc_table ! i = ccitt_entry i) [1, 2, 4, 8, 16, 32, 64, 128] =
      [True, True, True, True, True, True, False, True] \<and>
    crc16 [] 0 = Some 0xFFFF \<and> \<not> crc16_stub 0xFFFF"
  using crc_basis ccitt_basis by (simp add: crc16_empty crc16_stub_def)

end
