(* ===== verification/Net_Headers.thy ===== *)
theory Net_Headers
  imports Prelude
begin

text \<open>
  What the programs take from the kernel's headers: the XDP and traffic-control verdicts,
  protocol numbers, and the sizes of the protocol headers.
\<close>

definition XDP_ABORTED :: int where [simp, hdr_consts]: "XDP_ABORTED = 0"
definition XDP_DROP :: int where [simp, hdr_consts]: "XDP_DROP = 1"
definition XDP_PASS :: int where [simp, hdr_consts]: "XDP_PASS = 2"
definition XDP_TX :: int where [simp, hdr_consts]: "XDP_TX = 3"
definition XDP_REDIRECT :: int where [simp, hdr_consts]: "XDP_REDIRECT = 4"

definition TC_ACT_OK :: int where [simp, hdr_consts]: "TC_ACT_OK = 0"
definition TC_ACT_SHOT :: int where [simp, hdr_consts]: "TC_ACT_SHOT = 2"

definition IPPROTO_ICMP :: u8 where [simp, hdr_consts]: "IPPROTO_ICMP = 1"
definition IPPROTO_IPIP :: u8 where [simp, hdr_consts]: "IPPROTO_IPIP = 4"
definition IPPROTO_TCP :: u8 where [simp, hdr_consts]: "IPPROTO_TCP = 6"
definition IPPROTO_UDP :: u8 where [simp, hdr_consts]: "IPPROTO_UDP = 17"
definition IPPROTO_IPV6 :: u8 where [simp, hdr_consts]: "IPPROTO_IPV6 = 41"
definition IPPROTO_FRAGMENT :: u8 where [simp, hdr_consts]: "IPPROTO_FRAGMENT = 44"
definition IPPROTO_ICMPV6 :: u8 where [simp, hdr_consts]: "IPPROTO_ICMPV6 = 58"

definition ICMP_ECHOREPLY :: u8 where [simp, hdr_consts]: "ICMP_ECHOREPLY = 0"
definition ICMP_DEST_UNREACH :: u8 where [simp, hdr_consts]: "ICMP_DEST_UNREACH = 3"
definition ICMP_ECHO :: u8 where [simp, hdr_consts]: "ICMP_ECHO = 8"
definition ICMP_FRAG_NEEDED :: u8 where [simp, hdr_consts]: "ICMP_FRAG_NEEDED = 4"
definition ICMPV6_DEST_UNREACH :: u8 where [simp, hdr_consts]: "ICMPV6_DEST_UNREACH = 1"
definition ICMPV6_PKT_TOOBIG :: u8 where [simp, hdr_consts]: "ICMPV6_PKT_TOOBIG = 2"
definition ICMPV6_ECHO_REQUEST :: u8 where [simp, hdr_consts]: "ICMPV6_ECHO_REQUEST = 128"
definition ICMPV6_ECHO_REPLY :: u8 where [simp, hdr_consts]: "ICMPV6_ECHO_REPLY = 129"

definition sizeof_eth :: nat where [simp, hdr_consts]: "sizeof_eth = 14"
definition sizeof_iphdr :: nat where [simp, hdr_consts]: "sizeof_iphdr = 20"
definition sizeof_ipv6hdr :: nat where [simp, hdr_consts]: "sizeof_ipv6hdr = 40"
definition sizeof_icmphdr :: nat where [simp, hdr_consts]: "sizeof_icmphdr = 8"
definition sizeof_icmp6hdr :: nat where [simp, hdr_consts]: "sizeof_icmp6hdr = 8"
definition sizeof_udphdr :: nat where [simp, hdr_consts]: "sizeof_udphdr = 8"
definition sizeof_tcphdr :: nat where [simp, hdr_consts]: "sizeof_tcphdr = 20"

section \<open>Moving the ends of a packet\<close>

text \<open>
  \<open>bpf_xdp_adjust_head\<close> with a negative delta, when it returns 0, opens that many bytes of
  unspecified contents in front of the packet; with a positive one it removes bytes.
  \<open>bpf_xdp_adjust_tail\<close> with a negative delta cuts the packet at its end.
\<close>

definition adjust_head_ok :: "(int \<Rightarrow> bytes \<Rightarrow> bytes option) \<Rightarrow> bool" where
  "adjust_head_ok f \<longleftrightarrow> (\<forall>d p q. f d p = Some q \<longrightarrow>
     (if d < 0 then drop (nat (- d)) q = p \<and> length q = nat (- d) + length p
      else nat d \<le> length p \<and> q = drop (nat d) p))"

definition adjust_tail_ok :: "(int \<Rightarrow> bytes \<Rightarrow> bytes option) \<Rightarrow> bool" where
  "adjust_tail_ok f \<longleftrightarrow> (\<forall>d p q. d \<le> 0 \<longrightarrow> f d p = Some q \<longrightarrow>
     nat (- d) \<le> length p \<and> q = take (length p - nat (- d)) p)"

lemma adjust_head_push:
  "adjust_head_ok f \<Longrightarrow> f d p = Some q \<Longrightarrow> d < 0 \<Longrightarrow>
    drop (nat (- d)) q = p \<and> length q = nat (- d) + length p"
  by (simp add: adjust_head_ok_def)

lemma adjust_head_pull:
  "adjust_head_ok f \<Longrightarrow> f d p = Some q \<Longrightarrow> 0 \<le> d \<Longrightarrow> nat d \<le> length p \<and> q = drop (nat d) p"
  by (simp add: adjust_head_ok_def)

end
