(* ===== verification/Bmc.thy ===== *)
theory Bmc
  imports Csum Fnv Net_Headers
begin

text \<open>
  The memcached cache in the kernel, src/examples/bmc-cache/bmc_kern.c: the XDP programs
  that parse a GET request, hash its keys and write a reply from the cache, the one that
  invalidates entries on SET requests, and the traffic-control programs that fill the cache
  from replies.

  A packet is the room in front of it and its bytes. \<open>bpf_xdp_adjust_head\<close> and
  \<open>bpf_xdp_adjust_tail\<close> are parameters with their documented behaviour; the programs that
  the chain would call next are not called in the source (the tail calls are commented out,
  0 is returned instead), except the one from \<open>bmc_tx_filter_main\<close>. Memory faults, null
  dereferences included, are \<open>None\<close>. Map entries are found by \<open>bpf_map_lookup_elem\<close> and
  written through the pointer it returns: each model function returns the updated maps.
\<close>

section \<open>Data\<close>

definition BMC_MAX_CACHE_DATA_SIZE :: nat where "BMC_MAX_CACHE_DATA_SIZE = 250 + 1000 + 53"
definition BMC_CACHE_ENTRY_COUNT :: u32 where "BMC_CACHE_ENTRY_COUNT = 2"
definition BMC_MAX_PACKET_LENGTH :: nat where "BMC_MAX_PACKET_LENGTH = 1500"
definition BMC_MAX_KEY_IN_PACKET :: u32 where "BMC_MAX_KEY_IN_PACKET = 30"
definition ADJUST_HEAD_LEN :: nat where "ADJUST_HEAD_LEN = 128"
definition sizeof_memcached_udp_header :: nat where [simp]: "sizeof_memcached_udp_header = 8"

lemmas bmc_consts =
  BMC_MAX_CACHE_DATA_SIZE_def BMC_CACHE_ENTRY_COUNT_def BMC_MAX_PACKET_LENGTH_def
  BMC_MAX_KEY_IN_PACKET_def ADJUST_HEAD_LEN_def BMC_MAX_KEY_LENGTH_def

record bmc_cache_entry =
  entry_len :: u32
  entry_valid :: u8
  entry_hash :: u32
  entry_data :: bytes

record memcached_key =
  key_hash :: u32
  key_data :: bytes
  key_len :: u32

record parsing_context =
  key_count :: u32
  current_key :: u32
  read_pkt_offset :: u16
  write_pkt_offset :: u16

record bmc_stats =
  get_recv_count :: u32
  set_recv_count :: u32
  get_resp_count :: u32
  hit_misprediction :: u32
  hit_count :: u32
  miss_count :: u32
  update_count :: u32
  invalidation_count :: u32

record bmc_maps =
  map_kcache :: "u32 \<rightharpoonup> bmc_cache_entry"
  map_keys :: "u32 \<rightharpoonup> memcached_key"
  map_parsing_context :: "u32 \<rightharpoonup> parsing_context"
  map_stats :: "u32 \<rightharpoonup> bmc_stats"

record xbuf =
  headroom :: bytes
  pkt :: bytes

record bmc_env =
  adjust_head :: "int \<Rightarrow> xbuf \<Rightarrow> xbuf option"
  adjust_tail :: "int \<Rightarrow> xbuf \<Rightarrow> xbuf option"

text \<open>
  \<open>bpf_xdp_adjust_head\<close> moves the start of the packet and leaves the bytes in place;
  \<open>bpf_xdp_adjust_tail\<close> with a negative delta cuts bytes off the end.
\<close>

definition bmc_env_ok :: "bmc_env \<Rightarrow> bool" where
  "bmc_env_ok A \<longleftrightarrow>
     (\<forall>d x y. adjust_head A d x = Some y \<longrightarrow>
        headroom y @ pkt y = headroom x @ pkt x \<and>
        int (length (headroom y)) = int (length (headroom x)) + d) \<and>
     (\<forall>d x y. d \<le> 0 \<longrightarrow> adjust_tail A d x = Some y \<longrightarrow>
        headroom y = headroom x \<and> nat (- d) \<le> length (pkt x) \<and>
        pkt y = take (length (pkt x) - nat (- d)) (pkt x))"

definition demo_bmc_env :: bmc_env where
  "demo_bmc_env = \<lparr>
     adjust_head = (\<lambda>d x. let all = headroom x @ pkt x; h = int (length (headroom x)) + d in
       if 0 \<le> h \<and> h \<le> int (length all)
       then Some \<lparr>headroom = take (nat h) all, pkt = drop (nat h) all\<rparr> else None),
     adjust_tail = (\<lambda>d x. if nat (- d) \<le> length (pkt x)
       then Some (x\<lparr>pkt := take (length (pkt x) - nat (- d)) (pkt x)\<rparr>) else None)\<rparr>"

lemma demo_bmc_env_ok: "bmc_env_ok demo_bmc_env"
  by (auto simp: bmc_env_ok_def demo_bmc_env_def Let_def simp del: take_append drop_append split: if_splits)

definition bmc_stat :: "(bmc_stats \<Rightarrow> bmc_stats) \<Rightarrow> bmc_maps \<Rightarrow> bmc_maps" where
  "bmc_stat f m = (case map_stats m 0 of None \<Rightarrow> m | Some s \<Rightarrow> m\<lparr>map_stats := (map_stats m)(0 \<mapsto> f s)\<rparr>)"

definition put_pctx :: "parsing_context \<Rightarrow> bmc_maps \<Rightarrow> bmc_maps" where
  "put_pctx c m = m\<lparr>map_parsing_context := (map_parsing_context m)(0 \<mapsto> c)\<rparr>"

definition put_entry :: "u32 \<Rightarrow> bmc_cache_entry \<Rightarrow> bmc_maps \<Rightarrow> bmc_maps" where
  "put_entry i e m = m\<lparr>map_kcache := (map_kcache m)(i \<mapsto> e)\<rparr>"

type_synonym bmc_result = "(int \<times> xbuf \<times> bmc_maps) option"

section \<open>Receiving a request\<close>

function skip_spaces :: "bytes \<Rightarrow> nat \<Rightarrow> nat option" where
  "skip_spaces payload off =
     (if off < BMC_MAX_PACKET_LENGTH \<and> off + 1 \<le> length payload
      then do { c \<leftarrow> ld8 payload off; if c = 32 then skip_spaces payload (off + 1) else Some off }
      else Some off)"
  by pat_completeness auto
termination by (relation "measure (\<lambda>(payload, off). BMC_MAX_PACKET_LENGTH - off)") auto

declare skip_spaces.simps [simp del]

definition bmc_rx_get :: "bmc_env \<Rightarrow> bmc_maps \<Rightarrow> xbuf \<Rightarrow> bytes \<Rightarrow> bmc_result" where
  "bmc_rx_get A m x payload =
     (case map_stats m 0 of None \<Rightarrow> Some (XDP_PASS, x, m)
      | Some s \<Rightarrow>
        let m = bmc_stat (\<lambda>s. s\<lparr>get_recv_count := get_recv_count s + 1\<rparr>) m in
        case map_parsing_context m 0 of None \<Rightarrow> Some (XDP_PASS, x, m)
        | Some pctx \<Rightarrow>
          let pctx = pctx\<lparr>key_count := 0, current_key := 0, write_pkt_offset := 0\<rparr>; m = put_pctx pctx m in
          do { off \<leftarrow> skip_spaces payload 4;
               if off < BMC_MAX_PACKET_LENGTH then
                 let m = put_pctx (pctx\<lparr>read_pkt_offset := of_nat off\<rparr>) m in
                 case adjust_head A (int (sizeof_eth + sizeof_iphdr + sizeof_udphdr + sizeof_memcached_udp_header + off)) x of
                   None \<Rightarrow> Some (XDP_PASS, x, m)
                 | Some x \<Rightarrow> Some (0, x, m)
               else Some (XDP_PASS, x, m) })"

definition is_get :: "bytes \<Rightarrow> bool option" where
  "is_get payload =
     do { a \<leftarrow> ld8 payload 0; if a \<noteq> 0x67 then Some False else
     do { b \<leftarrow> ld8 payload 1; if b \<noteq> 0x65 then Some False else
     do { c \<leftarrow> ld8 payload 2; if c \<noteq> 0x74 then Some False else
     do { d \<leftarrow> ld8 payload 3; Some (d = 0x20) } } } }"

definition bmc_rx_dispatch :: "bmc_env \<Rightarrow> bmc_maps \<Rightarrow> xbuf \<Rightarrow> u8 \<Rightarrow> u16 \<Rightarrow> bytes \<Rightarrow> bmc_result" where
  "bmc_rx_dispatch A m x protocol dport payload =
     (if dport = bswap16 11211 \<and> 4 \<le> length payload then
        do { get \<leftarrow> if protocol = IPPROTO_UDP then is_get payload else Some False;
             if get then bmc_rx_get A m x payload
             else if protocol = IPPROTO_TCP then Some (0, x, m)
             else Some (XDP_PASS, x, m) }
      else Some (XDP_PASS, x, m))"

definition bmc_rx_filter_main :: "bmc_env \<Rightarrow> bmc_maps \<Rightarrow> xbuf \<Rightarrow> bmc_result" where
  "bmc_rx_filter_main A m x =
     (let p = pkt x; ip = sizeof_eth; transp = sizeof_eth + sizeof_iphdr in
      if length p < ip + sizeof_iphdr then Some (XDP_PASS, x, m)
      else do {
        protocol \<leftarrow> ld8 p (ip + 9);
        if protocol = IPPROTO_UDP then
          if length p < transp + sizeof_udphdr then Some (XDP_PASS, x, m)
          else do { dport \<leftarrow> ld16 p (transp + 2);
                    bmc_rx_dispatch A m x protocol dport
                      (drop (transp + sizeof_udphdr + sizeof_memcached_udp_header) p) }
        else if protocol = IPPROTO_TCP then
          if length p < transp + sizeof_tcphdr then Some (XDP_PASS, x, m)
          else do { dport \<leftarrow> ld16 p (transp + 2);
                    bmc_rx_dispatch A m x protocol dport (drop (transp + sizeof_tcphdr) p) }
        else Some (XDP_PASS, x, m) })"

section \<open>Hashing the keys\<close>

fun bmc_key_loop :: "nat \<Rightarrow> bytes \<Rightarrow> nat \<Rightarrow> u32 \<Rightarrow> u32 \<Rightarrow> (u32 \<times> u32) option" where
  "bmc_key_loop 0 payload off hash klen = Some (hash, klen)"
| "bmc_key_loop (Suc k) payload off hash klen =
     (if off + 1 \<le> length payload then
        do { c \<leftarrow> ld8 payload off;
             if c = 13 then Some (hash, klen)
             else if c = 32 then Some (hash, klen)
             else bmc_key_loop k payload (off + 1) (fnv_step_char hash c) (klen + 1) }
      else Some (hash, klen))"

text \<open>
  The end of the program, shared with its refactored version: the lookup in the cache. The
  null check of the entry is commented out in the source.
\<close>

definition bmc_probe :: "bmc_maps \<Rightarrow> xbuf \<Rightarrow> parsing_context \<Rightarrow> memcached_key \<Rightarrow> u32 \<Rightarrow> u32 \<Rightarrow> bmc_result" where
  "bmc_probe m x pctx key hash klen =
     (let m = m\<lparr>map_keys := (map_keys m)(key_count pctx \<mapsto> key\<lparr>key_hash := hash\<rparr>)\<rparr> in
      do { entry \<leftarrow> map_kcache m (hash mod BMC_CACHE_ENTRY_COUNT);
           if entry_valid entry \<noteq> 0 \<and> entry_hash entry = hash then
             Some (XDP_PASS, x, put_pctx (pctx\<lparr>key_count := key_count pctx + 1\<rparr>)
               (m\<lparr>map_keys := (map_keys m)(key_count pctx \<mapsto> key\<lparr>key_hash := hash, key_len := klen\<rparr>)\<rparr>))
           else Some (XDP_PASS, x, m) })"

definition bmc_hash_keys_main :: "bmc_maps \<Rightarrow> xbuf \<Rightarrow> bmc_result" where
  "bmc_hash_keys_main m x =
     (let payload = pkt x in
      if 0 \<ge> length payload then Some (XDP_PASS, x, m) else
      case map_parsing_context m 0 of None \<Rightarrow> Some (XDP_PASS, x, m)
      | Some pctx \<Rightarrow>
        (case map_keys m (key_count pctx) of None \<Rightarrow> Some (XDP_PASS, x, m)
         | Some key \<Rightarrow>
           do { (hash, klen) \<leftarrow> bmc_key_loop (BMC_MAX_KEY_LENGTH + 1) payload 0 FNV_OFFSET_BASIS_32 0;
                bmc_probe m x pctx key hash klen }))"

section \<open>Preparing the reply\<close>

definition bmc_headers :: nat where
  [simp]: "bmc_headers = sizeof_eth + sizeof_iphdr + sizeof_udphdr + sizeof_memcached_udp_header"

definition swap_addresses :: "bytes \<Rightarrow> bytes option" where
  "swap_addresses p =
     do { tmp_mac \<leftarrow> ldn p 6 6; dest \<leftarrow> ldn p 0 6; p \<leftarrow> stn p 6 dest; p \<leftarrow> stn p 0 tmp_mac;
          tmp_ip \<leftarrow> ld32 p (sizeof_eth + 12); daddr \<leftarrow> ld32 p (sizeof_eth + 16);
          p \<leftarrow> st32 p (sizeof_eth + 12) daddr; p \<leftarrow> st32 p (sizeof_eth + 16) tmp_ip;
          tmp_port \<leftarrow> ld16 p (sizeof_eth + sizeof_iphdr); dest \<leftarrow> ld16 p (sizeof_eth + sizeof_iphdr + 2);
          p \<leftarrow> st16 p (sizeof_eth + sizeof_iphdr) dest; st16 p (sizeof_eth + sizeof_iphdr + 2) tmp_port }"

definition bmc_prepare_packet_main :: "bmc_env \<Rightarrow> bmc_maps \<Rightarrow> xbuf \<Rightarrow> bmc_result" where
  "bmc_prepare_packet_main A m x =
     (case adjust_head A (- int ADJUST_HEAD_LEN) x of None \<Rightarrow> Some (XDP_PASS, x, m)
      | Some x \<Rightarrow>
        let p = pkt x in
        if bmc_headers \<ge> length p \<or> ADJUST_HEAD_LEN + bmc_headers + 1 \<ge> length p then Some (XDP_PASS, x, m)
        else do {
          old \<leftarrow> ldn p ADJUST_HEAD_LEN bmc_headers; p \<leftarrow> stn p 0 old;
          p \<leftarrow> swap_addresses p;
          let x = x\<lparr>pkt := p\<rparr>;
          case adjust_head A (int bmc_headers) x of None \<Rightarrow> Some (XDP_PASS, x, m)
          | Some x \<Rightarrow> Some (0, x, m) })"

section \<open>Writing the reply\<close>

fun key_compare :: "nat \<Rightarrow> memcached_key \<Rightarrow> bmc_cache_entry \<Rightarrow> nat \<Rightarrow> bool \<Rightarrow> bool option" where
  "key_compare 0 key entry i cache_hit = Some cache_hit"
| "key_compare (Suc k) key entry i cache_hit =
     (if i < unat (key_len key) then
        do { a \<leftarrow> ld8 (key_data key) i; b \<leftarrow> ld8 (entry_data entry) (6 + i);
             key_compare k key entry (i + 1) (if a \<noteq> b then False else cache_hit) }
      else Some cache_hit)"

text \<open>Eight bytes at a time, then byte by byte; \<open>payload\<close> is the start of the packet.\<close>

function reply_copy8 :: "bytes \<Rightarrow> bmc_cache_entry \<Rightarrow> nat \<Rightarrow> nat \<Rightarrow> (bytes \<times> nat \<times> nat) option" where
  "reply_copy8 p entry off written =
     (if off + 8 < BMC_MAX_CACHE_DATA_SIZE \<and> off + 8 \<le> unat (entry_len entry) \<and> off + 8 \<le> length p
      then do { w \<leftarrow> ldn (entry_data entry) off 8; p \<leftarrow> stn p off w;
                reply_copy8 p entry (off + 8) (written + 8) }
      else Some (p, off, written))"
  by pat_completeness auto
termination by (relation "measure (\<lambda>(p, entry, off, written). BMC_MAX_CACHE_DATA_SIZE - off)") auto

function reply_copy1 :: "bytes \<Rightarrow> bmc_cache_entry \<Rightarrow> nat \<Rightarrow> nat \<Rightarrow> (bytes \<times> nat) option" where
  "reply_copy1 p entry off written =
     (if off < BMC_MAX_CACHE_DATA_SIZE \<and> off < unat (entry_len entry) \<and> off + 1 \<le> length p
      then do { b \<leftarrow> ld8 (entry_data entry) off; p \<leftarrow> st8 p off b;
                reply_copy1 p entry (off + 1) (written + 1) }
      else Some (p, written))"
  by pat_completeness auto
termination by (relation "measure (\<lambda>(p, entry, off, written). BMC_MAX_CACHE_DATA_SIZE - off)") auto

declare reply_copy8.simps [simp del] reply_copy1.simps [simp del]

text \<open>\<open>cache_hit\<close>, the packet, and the number of bytes written.\<close>

definition copy_entry :: "memcached_key \<Rightarrow> bmc_cache_entry \<Rightarrow> bytes \<Rightarrow> (bool \<times> bytes \<times> nat) option" where
  "copy_entry key entry p =
     (if entry_valid entry \<noteq> 0 \<and> key_hash key = entry_hash entry then
        do { cache_hit \<leftarrow> key_compare BMC_MAX_KEY_LENGTH key entry 0 True;
             if cache_hit then
               do { (p, off, written) \<leftarrow> reply_copy8 p entry 0 0;
                    (p, written) \<leftarrow> reply_copy1 p entry off written;
                    Some (True, p, written) }
             else Some (False, p, 0) }
      else Some (True, p, 0))"

text \<open>
  The last reply: \<open>END\<close>, the old headers brought back in front, their lengths and
  checksum, and the tail cut off. A tail adjustment that fails is ignored.
\<close>

definition finish_reply :: "bmc_env \<Rightarrow> bmc_maps \<Rightarrow> xbuf \<Rightarrow> parsing_context \<Rightarrow> nat \<Rightarrow> bmc_result" where
  "finish_reply A m x pctx written =
     do { p \<leftarrow> st8 (pkt x) written 0x45; p \<leftarrow> st8 p (written + 1) 0x4E; p \<leftarrow> st8 p (written + 2) 0x44;
          p \<leftarrow> st8 p (written + 3) 0x0D; p \<leftarrow> st8 p (written + 4) 0x0A;
          let x = x\<lparr>pkt := p\<rparr>; let written = written + 5; let wpo = unat (write_pkt_offset pctx);
          case adjust_head A (- int (bmc_headers + wpo)) x of None \<Rightarrow> Some (XDP_DROP, x, m)
          | Some x \<Rightarrow>
            let p = pkt x; ip = sizeof_eth; udp = sizeof_eth + sizeof_iphdr; payload = bmc_headers in
            if length p < udp + sizeof_udphdr then Some (XDP_PASS, x, m)
            else do {
              p \<leftarrow> st16 p (ip + 2) (bswap16 (of_nat (payload + wpo + written - ip)));
              (csum, p) \<leftarrow> compute_ip_checksum p ip;
              p \<leftarrow> st16 p (ip + 10) csum;
              p \<leftarrow> st16 p (udp + 6) 0;
              p \<leftarrow> st16 p (udp + 4) (bswap16 (of_nat (payload + wpo + written - udp)));
              let x = x\<lparr>pkt := p\<rparr>;
              case adjust_tail A (- (int (length p) - int (payload + wpo + written))) x of
                None \<Rightarrow> Some (XDP_TX, x, m)
              | Some x \<Rightarrow> Some (XDP_TX, x, m) } }"

definition bmc_write_reply_main :: "bmc_env \<Rightarrow> bmc_maps \<Rightarrow> xbuf \<Rightarrow> bmc_result" where
  "bmc_write_reply_main A m x =
     (if 0 \<ge> length (pkt x) then Some (XDP_PASS, x, m) else
      case map_parsing_context m 0 of None \<Rightarrow> Some (XDP_PASS, x, m)
      | Some pctx \<Rightarrow>
      (case map_keys m (current_key pctx) of None \<Rightarrow> Some (XDP_PASS, x, m)
       | Some key \<Rightarrow>
       (case map_kcache m (key_hash key mod BMC_CACHE_ENTRY_COUNT) of None \<Rightarrow> Some (XDP_DROP, x, m)
        | Some entry \<Rightarrow>
          do { (cache_hit, p, written) \<leftarrow> copy_entry key entry (pkt x);
               let x = x\<lparr>pkt := p\<rparr>;
               case map_stats m 0 of None \<Rightarrow> Some (XDP_PASS, x, m)
               | Some s \<Rightarrow>
                 let m = bmc_stat (if cache_hit then (\<lambda>s. s\<lparr>hit_count := hit_count s + 1\<rparr>)
                                   else (\<lambda>s. s\<lparr>miss_count := miss_count s + 1\<rparr>)) m;
                     pctx = pctx\<lparr>current_key := current_key pctx + 1\<rparr>; m = put_pctx pctx m in
                 if current_key pctx = key_count pctx \<and> (write_pkt_offset pctx > 0 \<or> written > 0) then
                   if written + 5 \<le> length p then finish_reply A m x pctx written
                   else Some (XDP_DROP, x, m)
                 else if current_key pctx = key_count pctx then
                   let m = bmc_stat (\<lambda>s. s\<lparr>hit_misprediction := hit_misprediction s + key_count pctx\<rparr>) m in
                   case adjust_head A (int ADJUST_HEAD_LEN - int bmc_headers) x of
                     None \<Rightarrow> Some (XDP_PASS, x, m)
                   | Some x \<Rightarrow> Some (XDP_PASS, x, m)
                 else if current_key pctx < BMC_MAX_KEY_IN_PACKET then
                   let m = put_pctx (pctx\<lparr>write_pkt_offset := write_pkt_offset pctx + of_nat written\<rparr>) m in
                   case adjust_head A (int written) x of
                     None \<Rightarrow> Some (XDP_DROP, x, m)
                   | Some x \<Rightarrow> Some (0, x, m)
                 else Some (XDP_DROP, x, m) })))"

section \<open>Invalidation\<close>

definition is_set :: "bytes \<Rightarrow> nat \<Rightarrow> u8 \<Rightarrow> bool option" where
  "is_set payload off c =
     (if c = 0x73 \<and> off + 3 \<le> length payload then
        do { e \<leftarrow> ld8 payload (off + 1);
             if e = 0x65 then do { t \<leftarrow> ld8 payload (off + 2); Some (t = 0x74) } else Some False }
      else Some False)"

definition invalidate :: "u32 \<Rightarrow> bmc_cache_entry \<Rightarrow> bmc_maps \<Rightarrow> bmc_maps" where
  "invalidate i entry m =
     (if entry_valid entry \<noteq> 0
      then bmc_stat (\<lambda>s. s\<lparr>invalidation_count := invalidation_count s + 1\<rparr>)
             (put_entry i (entry\<lparr>entry_valid := 0\<rparr>) m)
      else m)"

function invalidate_loop :: "bytes \<Rightarrow> nat \<Rightarrow> bool \<Rightarrow> bool \<Rightarrow> u32 \<Rightarrow> bmc_maps \<Rightarrow> bmc_maps option" where
  "invalidate_loop payload off set_found key_found hash m =
     (if off < BMC_MAX_PACKET_LENGTH \<and> off + 1 \<le> length payload then
        do { c \<leftarrow> ld8 payload off;
             set \<leftarrow> if \<not> set_found then is_set payload off c else Some False;
             if set then
               invalidate_loop payload (off + 4) True key_found hash
                 (bmc_stat (\<lambda>s. s\<lparr>set_recv_count := set_recv_count s + 1\<rparr>) m)
             else if \<not> key_found \<and> set_found \<and> c \<noteq> 32 then
               if c = 13 then invalidate_loop payload (off + 1) False False hash m
               else invalidate_loop payload (off + 1) set_found True (fnv_step_char FNV_OFFSET_BASIS_32 c) m
             else if key_found then
               if c = 32 then
                 (case map_kcache m (hash mod BMC_CACHE_ENTRY_COUNT) of
                    None \<Rightarrow> Some m
                  | Some entry \<Rightarrow>
                    invalidate_loop payload (off + 1) False False hash
                      (invalidate (hash mod BMC_CACHE_ENTRY_COUNT) entry m))
               else invalidate_loop payload (off + 1) set_found key_found (fnv_step_char hash c) m
             else invalidate_loop payload (off + 1) set_found key_found hash m }
      else Some m)"
  by pat_completeness auto
termination by (relation "measure (\<lambda>(payload, off, _). BMC_MAX_PACKET_LENGTH - off)") auto

declare invalidate_loop.simps [simp del]

text \<open>\<open>hash\<close> is uninitialised in C; it is not read before the first key is found.\<close>

definition bmc_invalidate_cache_main :: "bmc_maps \<Rightarrow> xbuf \<Rightarrow> bmc_result" where
  "bmc_invalidate_cache_main m x =
     (let payload = sizeof_eth + sizeof_iphdr + sizeof_tcphdr in
      if payload \<ge> length (pkt x) then Some (XDP_PASS, x, m) else
      case map_stats m 0 of None \<Rightarrow> Some (XDP_PASS, x, m)
      | Some s \<Rightarrow>
        do { m \<leftarrow> invalidate_loop (drop payload (pkt x)) 0 False False 0 m;
             Some (XDP_PASS, x, m) })"

section \<open>Filling the cache\<close>

fun update_hash_loop :: "nat \<Rightarrow> bytes \<Rightarrow> nat \<Rightarrow> u32 \<Rightarrow> u32 option" where
  "update_hash_loop 0 payload off hash = Some hash"
| "update_hash_loop (Suc k) payload off hash =
     (if off + 1 \<le> length payload then
        do { c \<leftarrow> ld8 payload off;
             if c \<noteq> 32 then update_hash_loop k payload (off + 1) (fnv_step_char hash c) else Some hash }
      else Some hash)"

text \<open>The result is \<open>diff\<close>.\<close>

fun update_diff_loop :: "nat \<Rightarrow> bytes \<Rightarrow> bmc_cache_entry \<Rightarrow> nat \<Rightarrow> bool option" where
  "update_diff_loop 0 payload entry off = Some False"
| "update_diff_loop (Suc k) payload entry off =
     (if off + 1 \<le> length payload \<and> off < unat (entry_len entry) then
        do { c \<leftarrow> ld8 payload off; d \<leftarrow> ld8 (entry_data entry) off;
             if c \<noteq> 32 \<or> d \<noteq> 32 then
               if d \<noteq> c then Some True else update_diff_loop k payload entry (off + 1)
             else Some False }
      else Some False)"

function update_store_loop :: "bytes \<Rightarrow> nat \<Rightarrow> nat \<Rightarrow> bmc_cache_entry \<Rightarrow> (nat \<times> bmc_cache_entry) option" where
  "update_store_loop payload j count entry =
     (if j < BMC_MAX_CACHE_DATA_SIZE \<and> j + 1 \<le> length payload \<and> count < 2 then
        do { c \<leftarrow> ld8 payload j; d \<leftarrow> st8 (entry_data entry) j c;
             update_store_loop payload (j + 1) (if c = 10 then count + 1 else count)
               (entry\<lparr>entry_data := d, entry_len := entry_len entry + 1\<rparr>) }
      else Some (count, entry))"
  by pat_completeness auto
termination by (relation "measure (\<lambda>(payload, j, _). BMC_MAX_CACHE_DATA_SIZE - j)") auto

declare update_store_loop.simps [simp del]

definition bmc_update_cache_main :: "bmc_maps \<Rightarrow> bytes \<Rightarrow> (int \<times> bmc_maps) option" where
  "bmc_update_cache_main m p =
     (let payload = drop bmc_headers p in
      do { hash \<leftarrow> update_hash_loop BMC_MAX_KEY_LENGTH payload 6 FNV_OFFSET_BASIS_32;
           let cache_idx = hash mod BMC_CACHE_ENTRY_COUNT;
           case map_kcache m cache_idx of None \<Rightarrow> Some (TC_ACT_OK, m)
           | Some entry \<Rightarrow>
             do { diff \<leftarrow> if entry_valid entry \<noteq> 0 \<and> entry_hash entry = hash
                         then update_diff_loop BMC_MAX_KEY_LENGTH payload entry 6 else Some True;
                  if \<not> diff then Some (TC_ACT_OK, m)
                  else do {
                    (count, entry) \<leftarrow> update_store_loop payload 0 0 (entry\<lparr>entry_len := 0\<rparr>);
                    if count = 2 then
                      let m = put_entry cache_idx (entry\<lparr>entry_valid := 1, entry_hash := hash\<rparr>) m in
                      (case map_stats m 0 of None \<Rightarrow> Some (XDP_PASS, m)
                       | Some s \<Rightarrow> Some (TC_ACT_OK, bmc_stat (\<lambda>s. s\<lparr>update_count := update_count s + 1\<rparr>) m))
                    else Some (TC_ACT_OK, put_entry cache_idx entry m) } } })"

fun match_at :: "bytes \<Rightarrow> nat \<Rightarrow> bytes \<Rightarrow> bool option" where
  "match_at p off [] = Some True"
| "match_at p off (x # xs) =
     do { c \<leftarrow> ld8 p off; if c = x then match_at p (off + 1) xs else Some False }"

text \<open>
  The tail call runs the program at index 0 of \<open>map_progs_tc\<close>, \<open>bmc_update_cache_main\<close>, and
  does not return; when it fails the packet is let through.
\<close>

definition bmc_tx_filter_main :: "bool \<Rightarrow> bmc_maps \<Rightarrow> u32 \<Rightarrow> bytes \<Rightarrow> (int \<times> bmc_maps) option" where
  "bmc_tx_filter_main tail_call m skb_len p =
     (let ip = sizeof_eth; udp = sizeof_eth + sizeof_iphdr; payload = drop bmc_headers p in
      if unat skb_len > BMC_MAX_CACHE_DATA_SIZE + bmc_headers then Some (TC_ACT_OK, m)
      else if length p < ip + sizeof_iphdr then Some (XDP_PASS, m)
      else do {
        protocol \<leftarrow> ld8 p (ip + 9);
        if protocol \<noteq> IPPROTO_UDP then Some (TC_ACT_OK, m)
        else if length p < udp + sizeof_udphdr then Some (TC_ACT_OK, m)
        else do {
          sport \<leftarrow> ld16 p udp;
          value \<leftarrow> if sport = bswap16 11211 \<and> 6 \<le> length payload
                  then match_at payload 0 [0x56, 0x41, 0x4C, 0x55, 0x45, 0x20] else Some False;
          if value then
            (case map_stats m 0 of None \<Rightarrow> Some (XDP_PASS, m)
             | Some s \<Rightarrow>
               let m = bmc_stat (\<lambda>s. s\<lparr>get_resp_count := get_resp_count s + 1\<rparr>) m in
               if tail_call then bmc_update_cache_main m p else Some (TC_ACT_OK, m))
          else Some (TC_ACT_OK, m) } })"

end
