(* ===== verification/Packet_Program.thy ===== *)
theory Packet_Program
  imports Prelude
begin

text \<open>
  The interface that the kernel sees of every program: it is run on one packet after the other,
  and each run finds the maps the previous one left. The locale \<open>packet_program\<close> states a
  contract for one run (an invariant of the maps, a relation \<open>frame\<close> between the maps before and
  after, a predicate on verdict and outgoing packet) and gives it for every sequence of packets.
\<close>

fun run_all :: "('s \<Rightarrow> 'p \<Rightarrow> ('v \<times> 'p \<times> 's) option) \<Rightarrow> 'p list \<Rightarrow> 's \<Rightarrow> (('v \<times> 'p) list \<times> 's) option" where
  "run_all f [] s = Some ([], s)"
| "run_all f (p # ps) s = do { (v, q, s) \<leftarrow> f s p; (outs, s) \<leftarrow> run_all f ps s; Some ((v, q) # outs, s) }"

locale packet_program =
  fixes run :: "'s \<Rightarrow> 'p \<Rightarrow> ('v \<times> 'p \<times> 's) option"
    and inv :: "'s \<Rightarrow> bool"
    and frame :: "'s \<Rightarrow> 's \<Rightarrow> bool"
    and out :: "'s \<Rightarrow> 'p \<Rightarrow> 'v \<times> 'p \<Rightarrow> bool"
  assumes frame_refl: "frame s s"
    and frame_trans: "frame s t \<Longrightarrow> frame t u \<Longrightarrow> frame s u"
    and out_frame: "frame s t \<Longrightarrow> out t p x \<Longrightarrow> out s p x"
    and run_step: "inv s \<Longrightarrow> wp (run s p) (\<lambda>(v, q, t). inv t \<and> frame s t \<and> out s p (v, q))"
begin

lemma run_all_wp:
  assumes "inv s"
  shows "wp (run_all run ps s) (\<lambda>(outs, t). inv t \<and> frame s t \<and> list_all2 (out s) ps outs)"
  using assms
proof (induction ps arbitrary: s)
  case Nil
  then show ?case by (simp add: frame_refl)
next
  case (Cons p ps)
  obtain v q t where step: "run s p = Some (v, q, t)" "inv t" "frame s t" "out s p (v, q)"
    using run_step [OF Cons.prems, of p] by (auto simp: wp_iff)
  obtain outs u where rest: "run_all run ps t = Some (outs, u)" "inv u" "frame t u" "list_all2 (out t) ps outs"
    using Cons.IH [OF step(2)] by (auto simp: wp_iff)
  have "list_all2 (out s) ps outs"
    using rest(4) by (rule list_all2_mono) (rule out_frame [OF step(3)])
  then show ?case
    using step rest frame_trans [OF step(3) rest(3)] by simp
qed

lemma run_all_result:
  assumes "inv s"
  obtains outs t where "run_all run ps s = Some (outs, t)" "inv t" "frame s t" "list_all2 (out s) ps outs"
  using run_all_wp [OF assms, of ps] by (auto simp: wp_iff)

end

end
