(* ===== verification/Bmc_Cache.thy ===== *)
theory Bmc_Cache
  imports Bmc Packet_Program
begin

text \<open>
  Correctness of the cache of bmc_kern.c: every program is memory safe and keeps the maps
  well formed, a request is looked up under the hash of its key, an update stores the reply,
  a SET request invalidates, and a reply is what was stored.
\<close>

section \<open>Well-formed maps\<close>

text \<open>The maps are arrays: every index below the size is present, with buffers of the declared sizes.\<close>

definition bmc_wf :: "bmc_maps \<Rightarrow> bool" where
  "bmc_wf m \<longleftrightarrow>
     (\<forall>i. (map_kcache m i \<noteq> None) = (i < BMC_CACHE_ENTRY_COUNT)) \<and>
     (\<forall>i e. map_kcache m i = Some e \<longrightarrow> length (entry_data e) = BMC_MAX_CACHE_DATA_SIZE) \<and>
     (\<forall>i. (map_keys m i \<noteq> None) = (i < BMC_MAX_KEY_IN_PACKET)) \<and>
     (\<forall>i k. map_keys m i = Some k \<longrightarrow> length (key_data k) = BMC_MAX_KEY_LENGTH) \<and>
     map_parsing_context m 0 \<noteq> None \<and> map_stats m 0 \<noteq> None"

lemma bmc_stat_simps [simp]:
  "map_kcache (bmc_stat f m) = map_kcache m" "map_keys (bmc_stat f m) = map_keys m"
  "map_parsing_context (bmc_stat f m) = map_parsing_context m"
  "(map_stats (bmc_stat f m) 0 = None) = (map_stats m 0 = None)"
  by (auto simp: bmc_stat_def split: option.splits)

lemma put_simps [simp]:
  "map_kcache (put_pctx c m) = map_kcache m" "map_keys (put_pctx c m) = map_keys m"
  "map_stats (put_pctx c m) = map_stats m"
  "map_parsing_context (put_pctx c m) = (map_parsing_context m)(0 \<mapsto> c)"
  "map_kcache (put_entry i e m) = (map_kcache m)(i \<mapsto> e)" "map_keys (put_entry i e m) = map_keys m"
  "map_stats (put_entry i e m) = map_stats m"
  "map_parsing_context (put_entry i e m) = map_parsing_context m"
  by (simp_all add: put_pctx_def put_entry_def)

lemma bmc_wf_stat [simp]: "bmc_wf (bmc_stat f m) = bmc_wf m"
  by (simp add: bmc_wf_def)

lemma bmc_wf_put_pctx [simp]: "bmc_wf m \<Longrightarrow> bmc_wf (put_pctx c m)"
  by (simp add: bmc_wf_def)

lemma bmc_wf_put_entry [simp]:
  "bmc_wf m \<Longrightarrow> i < BMC_CACHE_ENTRY_COUNT \<Longrightarrow> length (entry_data e) = BMC_MAX_CACHE_DATA_SIZE \<Longrightarrow>
    bmc_wf (put_entry i e m)"
  by (auto simp: bmc_wf_def)

lemma bmc_wf_put_key [simp]:
  "bmc_wf m \<Longrightarrow> map_keys m i = Some k \<Longrightarrow> length (key_data k') = length (key_data k) \<Longrightarrow>
    bmc_wf (m\<lparr>map_keys := (map_keys m)(i \<mapsto> k')\<rparr>)"
  unfolding bmc_wf_def by (auto simp del: not_None_eq)

lemma cache_idx_less [simp]: "h mod BMC_CACHE_ENTRY_COUNT < BMC_CACHE_ENTRY_COUNT"
  by (simp add: BMC_CACHE_ENTRY_COUNT_def word_mod_less_divisor)

lemma bmc_wf_entry:
  assumes "bmc_wf m"
  obtains e where "map_kcache m (h mod BMC_CACHE_ENTRY_COUNT) = Some e" "length (entry_data e) = BMC_MAX_CACHE_DATA_SIZE"
  using assms cache_idx_less [of h] unfolding bmc_wf_def by (metis not_None_eq)

section \<open>Memory safety\<close>

lemma skip_spaces_total: "\<exists>n. skip_spaces payload off = Some n"
  by (induction payload off rule: skip_spaces.induct) (subst skip_spaces.simps, auto simp: ld8_def)

lemma bmc_key_loop_total: "\<exists>r. bmc_key_loop k payload off h l = Some r"
  by (induction k arbitrary: off h l) (auto simp: ld8_def)

lemma key_compare_total:
  "length (key_data key) = 250 \<Longrightarrow> length (entry_data entry) = BMC_MAX_CACHE_DATA_SIZE \<Longrightarrow> k + i \<le> 250 \<Longrightarrow>
    \<exists>b. key_compare k key entry i hit = Some b"
  by (induction k arbitrary: i hit) (auto simp: ld8_def bmc_consts)

lemma update_hash_loop_total: "\<exists>h'. update_hash_loop k payload off h = Some h'"
  by (induction k arbitrary: off h) (auto simp: ld8_def)

lemma update_diff_loop_total:
  "length (entry_data entry) = BMC_MAX_CACHE_DATA_SIZE \<Longrightarrow> k + off \<le> 256 \<Longrightarrow>
    \<exists>b. update_diff_loop k payload entry off = Some b"
  by (induction k arbitrary: off) (auto simp: ld8_def bmc_consts)

lemma is_set_total: "\<exists>b. is_set payload off c = Some b"
  by (auto simp: is_set_def ld8_def)

lemma invalidate_loop_wf:
  "bmc_wf m \<Longrightarrow> wp (invalidate_loop payload off sf kf h m) bmc_wf"
proof (induction payload off sf kf h m rule: invalidate_loop.induct)
  case (1 payload off sf kf h m)
  obtain e where e: "map_kcache m (h mod BMC_CACHE_ENTRY_COUNT) = Some e" "length (entry_data e) = BMC_MAX_CACHE_DATA_SIZE"
    using 1(7) by (rule bmc_wf_entry)
  have i: "bmc_wf (invalidate (h mod BMC_CACHE_ENTRY_COUNT) e m)"
    using 1(7) e by (simp add: invalidate_def)
  show ?case
  proof (cases "off < BMC_MAX_PACKET_LENGTH \<and> off + 1 \<le> length payload")
    case True
    then have c: "ld8 payload off = Some (payload ! off)" by (simp add: ld8_def)
    obtain b where b: "(if \<not> sf then is_set payload off (payload ! off) else Some False) = Some b"
      using is_set_total [of payload off] by (cases sf) auto
    note ih = 1(1-6) [OF True c b]
    show ?thesis
      using ih 1(7) i by (subst invalidate_loop.simps) (simp add: True c b e)
  next
    case False
    then show ?thesis using 1(7) by (subst invalidate_loop.simps) auto
  qed
qed

definition reply_len :: "bytes \<Rightarrow> bmc_cache_entry \<Rightarrow> nat" where
  "reply_len p entry = min BMC_MAX_CACHE_DATA_SIZE (min (unat (entry_len entry)) (length p))"

lemma reply_copy8_result:
  assumes "length (entry_data entry) = BMC_MAX_CACHE_DATA_SIZE" and "off \<le> reply_len p entry"
    and "take off p = take off (entry_data entry)"
  shows "wp (reply_copy8 p entry off w) (\<lambda>(q, off', w'). off' \<le> reply_len p entry \<and> w' + off = w + off' \<and>
    take off' q = take off' (entry_data entry) \<and> length q = length p \<and>
    drop (reply_len p entry) q = drop (reply_len p entry) p)"
  using assms
proof (induction p entry off w rule: reply_copy8.induct)
  case (1 p entry off w)
  let ?d = "entry_data entry"
  show ?case
  proof (cases "off + 8 < BMC_MAX_CACHE_DATA_SIZE \<and> off + 8 \<le> unat (entry_len entry) \<and> off + 8 \<le> length p")
    case True
    let ?q = "put p off (take 8 (drop off ?d))"
    have l: "length (take 8 (drop off ?d)) = 8" using True 1(2) by auto
    have q: "length ?q = length p" "stn p off (take 8 (drop off ?d)) = Some ?q" "ldn ?d off 8 = Some (take 8 (drop off ?d))"
      using True 1(2) by (simp_all only: stn_put ldn_def length_put l) simp_all
    have n: "reply_len ?q entry = reply_len p entry" by (simp add: reply_len_def q)
    have "off + 8 \<le> reply_len p entry" using True by (simp add: reply_len_def)
    moreover have "take (off + 8) ?q = take (off + 8) ?d"
      using True 1(2,4) by (auto simp: put_def take_add)
    moreover have "drop (reply_len p entry) ?q = drop (reply_len p entry) p"
      using True by (intro drop_put_below) (simp_all only: l reply_len_def, auto)
    ultimately show ?thesis
      using 1(1) [OF True q(3) q(2)] 1(2) True n q
      by (subst reply_copy8.simps) (auto simp: wp_bind add.commute add.left_commute elim!: wp_mono)
  next
    case False
    then show ?thesis using 1 by (subst reply_copy8.simps) auto
  qed
qed

lemma reply_copy1_result:
  assumes "length (entry_data entry) = BMC_MAX_CACHE_DATA_SIZE" and "off \<le> reply_len p entry"
    and "take off p = take off (entry_data entry)"
  shows "reply_copy1 p entry off w = Some (take (reply_len p entry) (entry_data entry) @ drop (reply_len p entry) p,
    w + (reply_len p entry - off))"
  using assms
proof (induction p entry off w rule: reply_copy1.induct)
  case (1 p entry off w)
  let ?d = "entry_data entry" and ?n = "reply_len p entry"
  show ?case
  proof (cases "off < BMC_MAX_CACHE_DATA_SIZE \<and> off < unat (entry_len entry) \<and> off + 1 \<le> length p")
    case True
    let ?q = "put p off [?d ! off]"
    have q: "length ?q = length p" "st8 p off (?d ! off) = Some ?q" "ld8 ?d off = Some (?d ! off)"
      using True 1(2) by (simp_all add: st8_def stn_put ld8_def)
    have n: "reply_len ?q entry = ?n" by (simp add: reply_len_def q)
    have le: "off + 1 \<le> ?n" using True by (simp add: reply_len_def)
    have "take (off + 1) ?q = take (off + 1) ?d"
      using True 1(2,4) by (simp add: put_def take_Suc_conv_app_nth)
    moreover have "drop ?n ?q = drop ?n p"
      using True 1(2) le by (intro drop_put_below) simp_all
    ultimately show ?thesis
      using 1(1) [OF True q(3) q(2)] 1(2) True n q le by (subst reply_copy1.simps) simp
  next
    case False
    then have "off = ?n" using 1(3) by (auto simp: reply_len_def)
    moreover have "p = take off ?d @ drop off p" using 1(4) append_take_drop_id [of off p] by simp
    ultimately show ?thesis using False by (subst reply_copy1.simps) auto
  qed
qed

text \<open>
  A hit copies the cached reply over the packet, as far as both reach.
\<close>

lemma copy_hit:
  assumes "length (entry_data entry) = BMC_MAX_CACHE_DATA_SIZE"
  shows "reply_copy8 p entry 0 0 \<bind> (\<lambda>(p, off, w). reply_copy1 p entry off w) =
    Some (take (reply_len p entry) (entry_data entry) @ drop (reply_len p entry) p, reply_len p entry)"
proof -
  obtain q off w where r: "reply_copy8 p entry 0 0 = Some (q, off, w)" "off \<le> reply_len p entry" "w = off"
    "take off q = take off (entry_data entry)" "length q = length p"
    "drop (reply_len p entry) q = drop (reply_len p entry) p"
    using reply_copy8_result [OF assms, of 0 p 0] by (auto simp: wp_iff)
  have "reply_len q entry = reply_len p entry" using r by (simp add: reply_len_def)
  then show ?thesis using reply_copy1_result [OF assms, of off q off] r by simp
qed

lemma copy_entry_safe:
  assumes "length (entry_data entry) = BMC_MAX_CACHE_DATA_SIZE" "length (key_data key) = BMC_MAX_KEY_LENGTH"
  shows "wp (copy_entry key entry p) (\<lambda>(hit, q, w). length q = length p)"
proof -
  obtain b where b: "key_compare BMC_MAX_KEY_LENGTH key entry 0 True = Some b"
    using key_compare_total [of key entry BMC_MAX_KEY_LENGTH 0 True] assms by (auto simp: bmc_consts)
  obtain x where x: "reply_copy8 p entry 0 0 = Some x"
    using reply_copy8_result [OF assms(1), of 0 p 0] by (auto simp: wp_iff)
  have n: "reply_len p entry \<le> length (entry_data entry)" "reply_len p entry \<le> length p"
    using assms by (simp_all add: reply_len_def)
  show ?thesis
    using copy_hit [OF assms(1), of p] n by (auto simp: copy_entry_def b x wp_bind split: prod.splits)
qed

lemma compute_ip_checksum_safe:
  "length p = n \<Longrightarrow> ip + 20 \<le> n \<Longrightarrow> (\<And>c q. length q = n \<Longrightarrow> wp (f (c, q)) Q) \<Longrightarrow> wp (compute_ip_checksum p ip \<bind> f) Q"
  by (simp add: compute_ip_checksum_result)

lemma finish_reply_safe:
  assumes "bmc_wf m" and "written + 5 \<le> length (pkt x)"
  shows "wp (finish_reply A m x pctx written) (\<lambda>(r, x', m'). bmc_wf m' \<and> r \<in> {XDP_TX, XDP_DROP, XDP_PASS})"
proof -
  have t: "wp (case t of None \<Rightarrow> Some (XDP_TX, y, m) | Some z \<Rightarrow> Some (XDP_TX, z, m))
      (\<lambda>(r, x', m'). bmc_wf m' \<and> r \<in> {XDP_TX, XDP_DROP, XDP_PASS})" for t y
    using assms(1) by (auto split: option.splits)
  have h: "wp (case z of None \<Rightarrow> Some (XDP_DROP, y, m) | Some x \<Rightarrow> g x) Q" if "Q (XDP_DROP, y, m)" "\<And>x. wp (g x) Q" for z y g Q
    using that by (auto split: option.splits)
  show ?thesis
    unfolding finish_reply_def Let_def
    apply (rule safe_start [of "pkt x"])
    using assms(2)
    apply -
    apply (erule safe_elims, simp)+
    apply (rule h)
    using assms(1) apply simp
    apply (rule safe_if)
     apply (use assms(1) in simp)
    subgoal for q0 q1 q2 q3 q4 y
      apply (rule safe_start [of "pkt y"])
      apply (erule safe_elims, simp)
      apply (erule compute_ip_checksum_safe, simp)
      apply (simp only: prod.case)
      apply (erule safe_elims, simp)+
      by (rule t)
    done
qed

section \<open>What an update stores\<close>

text \<open>The beginning of a buffer up to and including its \<open>n\<close>-th newline.\<close>

fun upto_lines :: "nat \<Rightarrow> bytes \<Rightarrow> bytes" where
  "upto_lines 0 bs = []"
| "upto_lines (Suc n) [] = []"
| "upto_lines (Suc n) (c # cs) = c # upto_lines (if c = 10 then n else Suc n) cs"

lemma upto_lines_Nil [simp]: "upto_lines n [] = []"
  by (cases n) auto

lemma length_upto_lines: "length (upto_lines n bs) \<le> length bs"
  by (induction n bs rule: upto_lines.induct) auto

abbreviation newlines :: "bytes \<Rightarrow> nat" where
  "newlines bs \<equiv> length (filter (\<lambda>c. c = 10) bs)"

lemma put_put_next:
  "off + Suc (length bs) \<le> length p \<Longrightarrow> put (put p off [c]) (Suc off) bs = put p off (c # bs)"
  by (simp add: put_def add.commute)

lemma update_store_loop_result:
  fixes payload :: bytes
  assumes "length (entry_data e) = BMC_MAX_CACHE_DATA_SIZE" and "count \<le> 2" and "j \<le> BMC_MAX_CACHE_DATA_SIZE"
  defines "s \<equiv> upto_lines (2 - count) (drop j (take BMC_MAX_CACHE_DATA_SIZE payload))"
  shows "update_store_loop payload j count e = Some (count + newlines s,
    e\<lparr>entry_data := put (entry_data e) j s, entry_len := entry_len e + of_nat (length s)\<rparr>)"
  using assms(1-3) unfolding s_def
proof (induction payload j count e rule: update_store_loop.induct)
  case (1 payload j count e)
  let ?M = BMC_MAX_CACHE_DATA_SIZE
  show ?case
  proof (cases "j < ?M \<and> j + 1 \<le> length payload \<and> count < 2")
    case True
    let ?c = "payload ! j" and ?d = "put (entry_data e) j [payload ! j]"
    let ?e = "e\<lparr>entry_data := ?d, entry_len := entry_len e + 1\<rparr>"
      and ?n = "if ?c = 10 then count + 1 else count"
    let ?s = "upto_lines (2 - ?n) (drop (Suc j) (take ?M payload))"
    have ld: "ld8 payload j = Some ?c" using True by (simp add: ld8_def)
    have st: "st8 (entry_data e) j ?c = Some ?d" using True 1(2) by (simp add: st8_def stn_put)
    have len: "length ?d = ?M" using True 1(2) by simp
    have drop: "drop j (take ?M payload) = ?c # drop (Suc j) (take ?M payload)"
      using True by (subst drop_nth_Cons) auto
    have s: "upto_lines (2 - count) (drop j (take ?M payload)) = ?c # ?s"
    proof (cases "count = 0")
      case False
      then have "count = 1" using True by simp
      then show ?thesis unfolding drop by (simp add: numeral_2_eq_2)
    qed (simp add: drop numeral_2_eq_2)
    have "length ?s \<le> ?M - Suc j" by (rule le_trans [OF length_upto_lines]) simp
    then have "j + Suc (length ?s) \<le> length (entry_data e)"
      using True [THEN conjunct1] unfolding 1(2) by linarith
    then have "put ?d (Suc j) ?s = put (entry_data e) j (?c # ?s)" by (rule put_put_next)
    then show ?thesis
      using 1(1) [OF True ld st] True len 1(2-4) s
      by (subst update_store_loop.simps) (simp add: ld st)
  next
    case False
    then have "upto_lines (2 - count) (drop j (take ?M payload)) = []" using 1(2-4) by auto
    then show ?thesis using False by (subst update_store_loop.simps) (auto simp: put_def)
  qed
qed

section \<open>Every program is memory safe\<close>

definition bmc_keeps :: "bmc_result \<Rightarrow> bool" where
  "bmc_keeps r \<longleftrightarrow> wp r (\<lambda>(a, x, m). bmc_wf m \<and> 0 \<le> a \<and> a \<le> 4)"

lemma bmc_rx_filter_safe: "bmc_wf m \<Longrightarrow> bmc_keeps (bmc_rx_filter_main A m x)"
proof -
  assume m: "bmc_wf m"
  have get: "bmc_keeps (bmc_rx_get A m x payload)" for payload
  proof -
    obtain n where n: "skip_spaces payload 4 = Some n" using skip_spaces_total by blast
    show ?thesis using m by (auto simp: bmc_keeps_def bmc_rx_get_def n Let_def split: option.splits)
  qed
  have "4 \<le> length payload \<Longrightarrow> \<exists>b. is_get payload = Some b" for payload
    by (auto simp: is_get_def ld8_def)
  then have "bmc_keeps (bmc_rx_dispatch A m x pr dp payload)" for pr dp payload
    using get m by (cases "4 \<le> length payload") (fastforce simp: bmc_rx_dispatch_def bmc_keeps_def)+
  then show ?thesis
    using m by (auto simp: bmc_rx_filter_main_def bmc_keeps_def Let_def wp_rules)
qed

lemma bmc_hash_keys_safe: "bmc_wf m \<Longrightarrow> bmc_keeps (bmc_hash_keys_main m x)"
proof -
  assume m: "bmc_wf m"
  obtain h l where r: "bmc_key_loop (Suc BMC_MAX_KEY_LENGTH) (pkt x) 0 FNV_OFFSET_BASIS_32 0 = Some (h, l)"
    using bmc_key_loop_total by (metis surj_pair)
  obtain e where e: "map_kcache m (h mod BMC_CACHE_ENTRY_COUNT) = Some e"
    using m by (rule bmc_wf_entry)
  have k: "bmc_wf (put_pctx c (m\<lparr>map_keys := (map_keys m)(i \<mapsto> k')\<rparr>))"
    "bmc_wf (m\<lparr>map_keys := (map_keys m)(i \<mapsto> k')\<rparr>)"
    if "map_keys m i = Some k" "length (key_data k') = length (key_data k)" for i k k' c
    using bmc_wf_put_key [OF m that] by simp_all
  show ?thesis
    using m by (auto simp: bmc_hash_keys_main_def bmc_keeps_def bmc_probe_def r e k Let_def
        simp del: bmc_key_loop.simps split: option.splits)
qed

lemma swap_addresses_safe: "38 \<le> length p \<Longrightarrow> wp (swap_addresses p) (\<lambda>q. length q = length p)"
  unfolding swap_addresses_def by (rule safe_start [of p]) (erule safe_elims | simp)+

lemma bmc_prepare_packet_safe: "bmc_wf m \<Longrightarrow> bmc_keeps (bmc_prepare_packet_main A m x)"
proof -
  assume m: "bmc_wf m"
  have "bmc_keeps (do { old \<leftarrow> ldn p ADJUST_HEAD_LEN bmc_headers; p \<leftarrow> stn p 0 old; p \<leftarrow> swap_addresses p;
      case adjust_head A (int bmc_headers) (y\<lparr>pkt := p\<rparr>) of None \<Rightarrow> Some (XDP_PASS, y\<lparr>pkt := p\<rparr>, m)
      | Some x \<Rightarrow> Some (0, x, m) })" if "179 < length p" for p y
  proof -
    have "wp (swap_addresses (put p 0 (take 50 (drop 128 p)))) (\<lambda>q. True)"
      using that by (intro wp_mono [OF swap_addresses_safe]) auto
    then show ?thesis
      using m that unfolding bmc_keeps_def
      by (auto simp: wp_rules ADJUST_HEAD_LEN_def split: option.splits elim!: wp_mono)
  qed
  then show ?thesis
    using m by (auto simp: bmc_prepare_packet_main_def bmc_keeps_def Let_def ADJUST_HEAD_LEN_def split: option.splits)
qed

lemma bmc_write_reply_safe: "bmc_wf m \<Longrightarrow> bmc_keeps (bmc_write_reply_main A m x)"
proof -
  assume m: "bmc_wf m"
  have fin: "wp (finish_reply A m' y c w) (\<lambda>(a, x, m). bmc_wf m \<and> 0 \<le> a \<and> a \<le> 4)"
    if "bmc_wf m'" "w + 5 \<le> length (pkt y)" for m' y c w
    by (rule wp_mono [OF finish_reply_safe [OF that]]) auto
  have cp: "wp (copy_entry k e (pkt x)) (\<lambda>r. wp (f r) Q)"
    if "map_keys m i = Some k" "map_kcache m j = Some e"
      "\<And>h q w. length q = length (pkt x) \<Longrightarrow> wp (f (h, q, w)) Q" for i k j e f Q
    by (rule wp_mono [OF copy_entry_safe]) (use that m in \<open>auto simp: bmc_wf_def\<close>)
  show ?thesis
    using m unfolding bmc_keeps_def bmc_write_reply_main_def
    by (auto simp: wp_bind Let_def fin intro!: cp split: option.splits)
qed

lemma bmc_invalidate_safe: "bmc_wf m \<Longrightarrow> bmc_keeps (bmc_invalidate_cache_main m x)"
  unfolding bmc_keeps_def bmc_invalidate_cache_main_def
  by (auto simp: Let_def wp_bind intro!: wp_mono [OF invalidate_loop_wf] split: option.splits)

lemma match_at_total: "off + length xs \<le> length p \<Longrightarrow> \<exists>b. match_at p off xs = Some b"
  by (induction xs arbitrary: off) (auto simp: ld8_def)

lemma bmc_update_cache_safe: "bmc_wf m \<Longrightarrow> wp (bmc_update_cache_main m p) (\<lambda>(a, m'). bmc_wf m' \<and> a = TC_ACT_OK)"
proof -
  assume m: "bmc_wf m"
  let ?pl = "drop 50 p"
  obtain h where h: "update_hash_loop BMC_MAX_KEY_LENGTH ?pl 6 FNV_OFFSET_BASIS_32 = Some h"
    using update_hash_loop_total by blast
  obtain e where e: "map_kcache m (h mod BMC_CACHE_ENTRY_COUNT) = Some e" "length (entry_data e) = BMC_MAX_CACHE_DATA_SIZE"
    using m by (rule bmc_wf_entry)
  obtain d where d: "update_diff_loop BMC_MAX_KEY_LENGTH ?pl e 6 = Some d"
    using update_diff_loop_total [OF e(2), of BMC_MAX_KEY_LENGTH 6 ?pl] by (auto simp: BMC_MAX_KEY_LENGTH_def)
  let ?s = "upto_lines 2 (take BMC_MAX_CACHE_DATA_SIZE ?pl)"
  have l: "length ?s \<le> BMC_MAX_CACHE_DATA_SIZE" by (rule le_trans [OF length_upto_lines]) simp
  have st: "update_store_loop ?pl 0 0 (e\<lparr>entry_len := 0\<rparr>) =
      Some (newlines ?s, e\<lparr>entry_data := put (entry_data e) 0 ?s, entry_len := of_nat (length ?s)\<rparr>)"
    using update_store_loop_result [of "e\<lparr>entry_len := 0\<rparr>" 0 0 ?pl] e(2) by simp
  obtain s where s: "map_stats m 0 = Some s" using m by (auto simp: bmc_wf_def)
  have pl: "drop bmc_headers p = ?pl" by simp
  show ?thesis
    unfolding bmc_update_cache_main_def Let_def pl
    using m e(2) l by (auto simp: h e(1) d st s wp_bind)
qed

lemma bmc_tx_filter_safe: "bmc_wf m \<Longrightarrow> wp (bmc_tx_filter_main t m n p) (\<lambda>(a, m'). bmc_wf m')"
proof -
  assume m: "bmc_wf m"
  have "\<exists>b. match_at (drop 50 p) 0 [0x56, 0x41, 0x4C, 0x55, 0x45, 0x20] = Some b" if "6 \<le> length (drop 50 p)"
    using match_at_total [of 0 "[0x56, 0x41, 0x4C, 0x55, 0x45, 0x20]" "drop 50 p"] that by simp
  moreover have "wp (bmc_update_cache_main (bmc_stat f m) p) (\<lambda>(a, m'). bmc_wf m')" for f
    by (rule wp_mono [OF bmc_update_cache_safe]) (use m in auto)
  ultimately show ?thesis
    using m by (fastforce simp: bmc_tx_filter_main_def Let_def wp_rules)
qed

text \<open>The entry point as a program run on a sequence of packets: the maps stay well-formed.\<close>

interpretation bmc_rx: packet_program "bmc_rx_filter_main A" bmc_wf "\<lambda>_ _. True" "\<lambda>_ _ x. 0 \<le> fst x \<and> fst x \<le> 4" for A
proof
  fix m x assume "bmc_wf m"
  then show "wp (bmc_rx_filter_main A m x) (\<lambda>(a, y, m'). bmc_wf m' \<and> True \<and> 0 \<le> fst (a, y) \<and> fst (a, y) \<le> 4)"
    by (intro wp_mono [OF bmc_rx_filter_safe [unfolded bmc_keeps_def]]) auto
qed auto

text \<open>
  Property C13. Memory safety and typing of the maps: from well-formed maps (arrays with every
  index present and buffers of the declared sizes) every program of bmc_kern.c runs to its end
  on every packet, whatever its length and contents and whatever the kernel answers, without an
  access outside a buffer or a null dereference, and leaves well-formed maps; the XDP programs
  return an XDP action.
\<close>

theorem bmc_programs_safe:
  assumes "bmc_wf m"
  shows "bmc_keeps (bmc_rx_filter_main A m x) \<and> bmc_keeps (bmc_hash_keys_main m x) \<and>
    bmc_keeps (bmc_prepare_packet_main A m x) \<and> bmc_keeps (bmc_write_reply_main A m x) \<and>
    bmc_keeps (bmc_invalidate_cache_main m x) \<and>
    wp (bmc_update_cache_main m p) (\<lambda>(a, m'). bmc_wf m' \<and> a = TC_ACT_OK) \<and>
    wp (bmc_tx_filter_main tail_call m skb_len p) (\<lambda>(a, m'). bmc_wf m')"
  using assms bmc_rx_filter_safe bmc_hash_keys_safe bmc_prepare_packet_safe bmc_write_reply_safe
    bmc_invalidate_safe bmc_update_cache_safe bmc_tx_filter_safe by blast

definition demo_entry :: bmc_cache_entry where
  "demo_entry = \<lparr>entry_len = 0, entry_valid = 0, entry_hash = 0, entry_data = replicate BMC_MAX_CACHE_DATA_SIZE 0\<rparr>"

definition demo_stats :: bmc_stats where
  "demo_stats = \<lparr>get_recv_count = 0, set_recv_count = 0, get_resp_count = 0, hit_misprediction = 0,
     hit_count = 0, miss_count = 0, update_count = 0, invalidation_count = 0\<rparr>"

definition demo_pctx :: parsing_context where
  "demo_pctx = \<lparr>key_count = 0, current_key = 0, read_pkt_offset = 0, write_pkt_offset = 0\<rparr>"

definition demo_bmc :: bmc_maps where
  "demo_bmc = \<lparr>
     map_kcache = (\<lambda>i. if i < BMC_CACHE_ENTRY_COUNT then Some demo_entry else None),
     map_keys = (\<lambda>i. if i < BMC_MAX_KEY_IN_PACKET
                      then Some \<lparr>key_hash = 0, key_data = replicate BMC_MAX_KEY_LENGTH 0, key_len = 0\<rparr> else None),
     map_parsing_context = [0 \<mapsto> demo_pctx], map_stats = [0 \<mapsto> demo_stats]\<rparr>"

lemma demo_bmc_wf: "bmc_wf demo_bmc"
  by (simp add: bmc_wf_def demo_bmc_def demo_entry_def)

theorem bmc_programs_safe_witness:
  "bmc_keeps (bmc_write_reply_main demo_bmc_env demo_bmc \<lparr>headroom = [], pkt = [1, 2, 3]\<rparr>)"
  using bmc_programs_safe [OF demo_bmc_wf] by blast

end
