(* ===== verification/Bmc_Coherence.thy ===== *)
theory Bmc_Coherence
  imports Bmc_Cache
begin

text \<open>
  What the programs of bmc_kern.c do together: a reply fills the entry of its key, a request
  for the key then finds it, a SET for the key makes later requests miss, and a hit is
  answered with the bytes that were stored.
\<close>

section \<open>One hash for requests, replies and invalidations\<close>

definition fnv1a_char :: "bytes \<Rightarrow> u32" where
  "fnv1a_char bs = foldl fnv_step_char FNV_OFFSET_BASIS_32 bs"

definition slot :: "bytes \<Rightarrow> u32" where
  "slot key = fnv1a_char key mod BMC_CACHE_ENTRY_COUNT"

lemma bmc_key_loop_eq:
  "bmc_key_loop k payload off h l = Some (foldl fnv_step_char h (key_bytes k (drop off payload)),
    l + of_nat (length (key_bytes k (drop off payload))))"
proof (induction k arbitrary: off h l)
  case (Suc k)
  then show ?case by (cases "off < length payload") (auto simp: ld8_def drop_nth_Cons key_bytes_def)
qed simp

lemma update_hash_loop_eq:
  "update_hash_loop k payload off h =
    Some (foldl fnv_step_char h (takeWhile (\<lambda>c. c \<noteq> 32) (take k (drop off payload))))"
proof (induction k arbitrary: off h)
  case (Suc k)
  then show ?case by (cases "off < length payload") (auto simp: ld8_def drop_nth_Cons)
qed simp

lemma takeWhile_key:
  "32 \<notin> set key \<Longrightarrow> length key \<le> k \<Longrightarrow> takeWhile (\<lambda>c. c \<noteq> 32) (take k (key @ 32 # rest)) = (key :: bytes)"
  by (auto simp: takeWhile_append2 takeWhile_tail take_Cons')

section \<open>Invalidation\<close>

text \<open>Invalidation only clears valid flags.\<close>

definition cleared :: "bmc_maps \<Rightarrow> bmc_maps \<Rightarrow> bool" where
  "cleared m m' \<longleftrightarrow> map_keys m' = map_keys m \<and> map_parsing_context m' = map_parsing_context m \<and>
     (\<forall>i. map_kcache m' i = map_kcache m i \<or>
        (\<exists>e. map_kcache m i = Some e \<and> map_kcache m' i = Some (e\<lparr>entry_valid := 0\<rparr>)))"

lemma cleared_refl [simp]: "cleared m m"
  by (simp add: cleared_def)

lemma cleared_stat [simp]: "cleared (bmc_stat f m) m' = cleared m m'" "cleared m (bmc_stat f m') = cleared m m'"
  by (simp_all add: cleared_def)

lemma cleared_trans: "cleared m m' \<Longrightarrow> cleared m' m'' \<Longrightarrow> cleared m m''"
proof -
  have "z = x \<or> (\<exists>e. x = Some e \<and> z = Some (e\<lparr>entry_valid := 0\<rparr>))"
    if "y = x \<or> (\<exists>e. x = Some e \<and> y = Some (e\<lparr>entry_valid := 0\<rparr>))"
      "z = y \<or> (\<exists>e. y = Some e \<and> z = Some (e\<lparr>entry_valid := 0\<rparr>))" for x y z :: "bmc_cache_entry option"
    using that by auto
  then show "cleared m m' \<Longrightarrow> cleared m' m'' \<Longrightarrow> cleared m m''"
    unfolding cleared_def by metis
qed

lemma cleared_invalidate: "map_kcache m i = Some e \<Longrightarrow> cleared m (invalidate i e m)"
  by (auto simp: invalidate_def cleared_def)

lemma cleared_invalid:
  "cleared m m' \<Longrightarrow> map_kcache m i = Some e \<Longrightarrow> entry_valid e = 0 \<Longrightarrow>
    \<exists>e'. map_kcache m' i = Some e' \<and> entry_valid e' = 0"
  unfolding cleared_def by (drule conjunct2, drule conjunct2, drule spec [of _ i]) auto

lemma invalidate_loop_step:
  assumes "off < BMC_MAX_PACKET_LENGTH" "drop off payload = c # rest"
  shows "invalidate_loop payload off sf kf h m = do {
     set \<leftarrow> if \<not> sf then is_set payload off c else Some False;
     if set then invalidate_loop payload (off + 4) True kf h (bmc_stat (\<lambda>s. s\<lparr>set_recv_count := set_recv_count s + 1\<rparr>) m)
     else if \<not> kf \<and> sf \<and> c \<noteq> 32 then
       if c = 13 then invalidate_loop payload (off + 1) False False h m
       else invalidate_loop payload (off + 1) sf True (fnv_step_char FNV_OFFSET_BASIS_32 c) m
     else if kf then
       if c = 32 then
         (case map_kcache m (h mod BMC_CACHE_ENTRY_COUNT) of None \<Rightarrow> Some m
          | Some entry \<Rightarrow> invalidate_loop payload (off + 1) False False h (invalidate (h mod BMC_CACHE_ENTRY_COUNT) entry m))
       else invalidate_loop payload (off + 1) sf kf (fnv_step_char h c) m
     else invalidate_loop payload (off + 1) sf kf h m }"
proof -
  have l: "off < length payload" using assms(2) by (metis drop_eq_Nil2 list.distinct(1) not_le)
  then have "ld8 payload off = Some c" using assms(2) by (simp add: ld8_def drop_nth_Cons)
  then show ?thesis using assms(1) l by (subst invalidate_loop.simps) simp
qed

lemma invalidate_loop_cleared: "wp (invalidate_loop payload off sf kf h m) (cleared m)"
proof (induction payload off sf kf h m rule: invalidate_loop.induct)
  case (1 payload off sf kf h m)
  show ?case
  proof (cases "off < BMC_MAX_PACKET_LENGTH \<and> off + 1 \<le> length payload")
    case True
    then have c: "ld8 payload off = Some (payload ! off)" by (simp add: ld8_def)
    obtain b where b: "(if \<not> sf then is_set payload off (payload ! off) else Some False) = Some b"
      using is_set_total [of payload off] by (cases sf) auto
    note ih = 1(1-6) [OF True c b]
    show ?thesis
      using ih by (subst invalidate_loop.simps)
        (auto simp: True c b wp_rules intro: cleared_trans [OF cleared_invalidate] elim!: wp_mono split: option.splits)
  next
    case False
    then show ?thesis by (subst invalidate_loop.simps) auto
  qed
qed

definition dead :: "u32 \<Rightarrow> bmc_maps \<Rightarrow> bool" where
  "dead i m \<longleftrightarrow> (\<exists>e. map_kcache m i = Some e \<and> entry_valid e = 0)"

lemma invalidate_dead: "map_kcache m i = Some e \<Longrightarrow> dead i (invalidate i e m)"
  by (auto simp: dead_def invalidate_def)

lemma invalidate_loop_dead: "dead i m \<Longrightarrow> wp (invalidate_loop payload off sf kf h m) (dead i)"
  using invalidate_loop_cleared [of payload off sf kf h m] unfolding dead_def
  by (auto elim!: wp_mono dest: cleared_invalid)

text \<open>The three states of the scanner: inside the key, before the key, before the keyword.\<close>

lemma invalidate_in_key:
  assumes "drop off payload = key @ 32 # rest" "32 \<notin> set key" "off + length key < BMC_MAX_PACKET_LENGTH" "bmc_wf m"
  shows "wp (invalidate_loop payload off True True h m) (dead (foldl fnv_step_char h key mod BMC_CACHE_ENTRY_COUNT))"
  using assms
proof (induction key arbitrary: off h)
  case Nil
  obtain e where e: "map_kcache m (h mod BMC_CACHE_ENTRY_COUNT) = Some e" using Nil.prems(4) by (rule bmc_wf_entry)
  have "off < BMC_MAX_PACKET_LENGTH" using Nil.prems(3) by simp
  moreover note invalidate_loop_dead [OF invalidate_dead [OF e], of payload "off + 1" False False h]
  ultimately show ?case
    using Nil.prems(1) by (subst invalidate_loop_step) (auto simp: e)
next
  case (Cons c key)
  have "drop (off + 1) payload = key @ 32 # rest"
    using Cons.prems(1) by (metis append_Cons drop_drop drop_Suc_Cons drop0 One_nat_def add.commute)
  then show ?case
    using Cons.IH [of "off + 1" "fnv_step_char h c"] Cons.prems by (subst invalidate_loop_step) auto
qed

lemma invalidate_at_set:
  assumes "drop off payload = [0x73, 0x65, 0x74, 0x20] @ key @ 32 # rest" "key \<noteq> []" "32 \<notin> set key" "hd key \<noteq> 13"
    "off + 4 + length key < BMC_MAX_PACKET_LENGTH" "bmc_wf m"
  shows "wp (invalidate_loop payload off False False h m) (dead (slot key))"
proof -
  obtain c ks where key: "key = c # ks" using assms(2) by (cases key) auto
  have len: "off + 4 \<le> length payload"
    using arg_cong [OF assms(1), of length] by simp
  have nth: "payload ! (off + i) = ([0x73, 0x65, 0x74, 0x20] @ key @ 32 # rest) ! i" if "i < 4" for i
    using assms(1) that len by (metis nth_drop add.commute le_add2 le_trans)
  have set: "is_set payload off 0x73 = Some True"
    using len nth [of 1] nth [of 2] by (simp add: is_set_def ld8_def)
  have d4: "drop (off + 4) payload = c # ks @ 32 # rest"
    using arg_cong [OF assms(1), of "drop 4"] by (simp add: key add.commute)
  have d5: "drop (off + 5) payload = ks @ 32 # rest"
    using arg_cong [OF assms(1), of "drop 5"] by (simp add: key add.commute)
  have "wp (invalidate_loop payload (off + 5) True True (fnv_step_char FNV_OFFSET_BASIS_32 c) (bmc_stat f m)) (dead (slot key))" for f
    using invalidate_in_key [OF d5, of "bmc_stat f m" "fnv_step_char FNV_OFFSET_BASIS_32 c"] assms(3,5,6)
    by (simp add: slot_def fnv1a_char_def key)
  then have "wp (invalidate_loop payload (off + 4) True False h (bmc_stat f m)) (dead (slot key))" for f
    using invalidate_loop_step [OF _ d4] assms(3,4,5) by (simp add: key add.commute)
  then show ?thesis
    using invalidate_loop_step [where c = "0x73" and rest = "[0x65, 0x74, 0x20] @ key @ 32 # rest"] assms(1,5) set by simp
qed

lemma invalidate_idle:
  assumes "drop off payload = pre @ [0x73, 0x65, 0x74, 0x20] @ key @ 32 # rest" "0x73 \<notin> set pre"
    "key \<noteq> []" "32 \<notin> set key" "hd key \<noteq> 13"
    "off + length pre + 4 + length key < BMC_MAX_PACKET_LENGTH" "bmc_wf m"
  shows "wp (invalidate_loop payload off False False h m) (dead (slot key))"
  using assms
proof (induction pre arbitrary: off)
  case Nil
  then show ?case by (intro invalidate_at_set) auto
next
  case (Cons c pre)
  have "drop (off + 1) payload = pre @ [0x73, 0x65, 0x74, 0x20] @ key @ 32 # rest"
    using arg_cong [OF Cons.prems(1), of "drop 1"] by simp
  moreover have "is_set payload off c = Some False" using Cons.prems(2) by (simp add: is_set_def)
  ultimately show ?case
    using Cons.IH [of "off + 1"] Cons.prems by (subst invalidate_loop_step) auto
qed

lemma hash_keys_result:
  assumes "bmc_wf m" "pkt y \<noteq> []" "map_parsing_context m 0 = Some c" "map_keys m (key_count c) = Some k"
    "key_bytes (Suc BMC_MAX_KEY_LENGTH) (pkt y) = key" "map_kcache m (slot key) = Some e"
  shows "bmc_hash_keys_main m y = Some (XDP_PASS, y,
    if entry_valid e \<noteq> 0 \<and> entry_hash e = fnv1a_char key
    then put_pctx (c\<lparr>key_count := key_count c + 1\<rparr>)
      (m\<lparr>map_keys := (map_keys m)(key_count c \<mapsto> k\<lparr>key_hash := fnv1a_char key, key_len := of_nat (length key)\<rparr>)\<rparr>)
    else m\<lparr>map_keys := (map_keys m)(key_count c \<mapsto> k\<lparr>key_hash := fnv1a_char key\<rparr>)\<rparr>)"
  using assms(2-6)
  by (auto simp: bmc_hash_keys_main_def bmc_probe_def bmc_key_loop_eq slot_def fnv1a_char_def Let_def
      simp del: bmc_key_loop.simps)

text \<open>
  Property C9. Invalidation and lookup are coherent: after \<open>bmc_invalidate_cache_main\<close> has seen
  a TCP segment with \<open>set <key> \<close> in its first 1500 bytes (and no other \<open>s\<close> in front of it), no
  GET for that key is taken for a hit, whatever was cached: the number of saved keys stays.
\<close>

theorem set_then_get_misses:
  assumes "bmc_wf m" and "54 < length (pkt x)"
    and "drop 54 (pkt x) = pre @ [0x73, 0x65, 0x74, 0x20] @ key @ 32 # rest" and "0x73 \<notin> set pre"
    and "key \<noteq> []" and "32 \<notin> set key" and "hd key \<noteq> 13" and "length pre + 4 + length key < BMC_MAX_PACKET_LENGTH"
    and "key_bytes (Suc BMC_MAX_KEY_LENGTH) (pkt y) = key"
  shows "wp (bmc_invalidate_cache_main m x) (\<lambda>(a, x', m'). a = XDP_PASS \<and> x' = x \<and>
    wp (bmc_hash_keys_main m' y) (\<lambda>(a, y', m''). map_parsing_context m'' = map_parsing_context m'))"
proof -
  obtain s where s: "map_stats m 0 = Some s" using assms(1) by (auto simp: bmc_wf_def)
  have "wp (invalidate_loop (drop 54 (pkt x)) 0 False False 0 m) (\<lambda>m'. dead (slot key) m' \<and> bmc_wf m')"
    using assms by (intro wp_conjI invalidate_idle [of _ _ pre key rest] invalidate_loop_wf) auto
  then obtain m' where m': "invalidate_loop (drop 54 (pkt x)) 0 False False 0 m = Some m'"
    "dead (slot key) m'" "bmc_wf m'" by (auto simp: wp_iff)
  obtain e where e: "map_kcache m' (slot key) = Some e" "entry_valid e = 0" using m'(2) by (auto simp: dead_def)
  obtain c where c: "map_parsing_context m' 0 = Some c" using m'(3) by (auto simp: bmc_wf_def)
  have ne: "pkt y \<noteq> []" using assms(5,9) by (auto simp: key_bytes_def)
  have "wp (bmc_hash_keys_main m' y) (\<lambda>(a, y', m''). map_parsing_context m'' = map_parsing_context m')"
  proof (cases "map_keys m' (key_count c)")
    case None
    then show ?thesis using ne c by (simp add: bmc_hash_keys_main_def)
  next
    case (Some k)
    then show ?thesis using hash_keys_result [OF m'(3) ne c Some assms(9) e(1)] e(2) by simp
  qed
  then show ?thesis using assms(2) s m'(1) by (simp add: bmc_invalidate_cache_main_def)
qed

lemma upto_lines_2: "upto_lines 2 (c # cs) = c # upto_lines (if c = 10 then Suc 0 else 2) cs"
  by (simp add: numeral_2_eq_2)

definition udp_reply :: bytes where
  "udp_reply = replicate 50 0 @ [0x56, 0x41, 0x4C, 0x55, 0x45, 0x20, 0x6B, 32, 0x30, 32, 0x31, 13, 10, 0x78, 13, 10]"

theorem set_then_get_misses_witness:
  "wp (bmc_invalidate_cache_main demo_bmc \<lparr>headroom = [], pkt = replicate 54 0 @ [0x73, 0x65, 0x74, 0x20, 0x6B, 32, 0x31]\<rparr>)
    (\<lambda>(a, x', m'). wp (bmc_hash_keys_main m' \<lparr>headroom = [], pkt = [0x6B, 13]\<rparr>)
      (\<lambda>(a, y', m''). map_parsing_context m'' = map_parsing_context m'))"
  by (rule wp_mono [OF set_then_get_misses [where pre = "[]" and key = "[0x6B]" and rest = "[0x31]", OF demo_bmc_wf]])
    (auto simp: key_bytes_def bmc_consts)

section \<open>Filling\<close>

text \<open>The bytes an update stores of a reply.\<close>

definition stored_reply :: "bytes \<Rightarrow> bytes" where
  "stored_reply payload = upto_lines 2 (take BMC_MAX_CACHE_DATA_SIZE payload)"

lemma update_cache_result:
  assumes "bmc_wf m" and "drop 50 p = payload"
    and "takeWhile (\<lambda>c. c \<noteq> 32) (take BMC_MAX_KEY_LENGTH (drop 6 payload)) = key"
  shows "\<exists>e diff. map_kcache m (slot key) = Some e \<and>
    update_diff_loop BMC_MAX_KEY_LENGTH payload e 6 = Some diff \<and>
    wp (bmc_update_cache_main m p) (\<lambda>(a, m'). a = TC_ACT_OK \<and>
      map_keys m' = map_keys m \<and> map_parsing_context m' = map_parsing_context m \<and>
      map_kcache m' = (if entry_valid e \<noteq> 0 \<and> entry_hash e = fnv1a_char key \<and> \<not> diff then map_kcache m
        else (map_kcache m)(slot key \<mapsto>
          (let e' = e\<lparr>entry_data := put (entry_data e) 0 (stored_reply payload),
                      entry_len := of_nat (length (stored_reply payload))\<rparr> in
           if newlines (stored_reply payload) = 2 then e'\<lparr>entry_valid := 1, entry_hash := fnv1a_char key\<rparr> else e'))))"
proof -
  obtain e where e: "map_kcache m (slot key) = Some e" "length (entry_data e) = BMC_MAX_CACHE_DATA_SIZE"
    using assms(1) unfolding slot_def by (rule bmc_wf_entry)
  obtain d where d: "update_diff_loop BMC_MAX_KEY_LENGTH payload e 6 = Some d"
    using update_diff_loop_total [OF e(2), of BMC_MAX_KEY_LENGTH 6 payload] by (auto simp: BMC_MAX_KEY_LENGTH_def)
  obtain s where s: "map_stats m 0 = Some s" using assms(1) by (auto simp: bmc_wf_def)
  have h: "update_hash_loop BMC_MAX_KEY_LENGTH payload 6 FNV_OFFSET_BASIS_32 = Some (fnv1a_char key)"
    by (simp add: update_hash_loop_eq fnv1a_char_def assms(3))
  have st: "update_store_loop payload 0 0 (e\<lparr>entry_len := 0\<rparr>) = Some (newlines (stored_reply payload),
      e\<lparr>entry_data := put (entry_data e) 0 (stored_reply payload), entry_len := of_nat (length (stored_reply payload))\<rparr>)"
    using update_store_loop_result [of "e\<lparr>entry_len := 0\<rparr>" 0 0 payload] e(2) by (simp add: stored_reply_def)
  have pl: "drop bmc_headers p = payload" using assms(2) by simp
  have "wp (bmc_update_cache_main m p) (\<lambda>(a, m'). a = TC_ACT_OK \<and>
      map_keys m' = map_keys m \<and> map_parsing_context m' = map_parsing_context m \<and>
      map_kcache m' = (if entry_valid e \<noteq> 0 \<and> entry_hash e = fnv1a_char key \<and> \<not> d then map_kcache m
        else (map_kcache m)(slot key \<mapsto>
          (let e' = e\<lparr>entry_data := put (entry_data e) 0 (stored_reply payload),
                      entry_len := of_nat (length (stored_reply payload))\<rparr> in
           if newlines (stored_reply payload) = 2 then e'\<lparr>entry_valid := 1, entry_hash := fnv1a_char key\<rparr> else e'))))"
    unfolding bmc_update_cache_main_def Let_def pl
    by (auto simp: h e(1) [unfolded slot_def] d st s slot_def)
  then show ?thesis using e d by blast
qed

text \<open>
  Property C10. Filling and lookup are coherent: after \<open>bmc_update_cache_main\<close> has seen a reply
  \<open>VALUE <key> ...\<close> with its two lines inside the 1303 bytes of an entry, a GET for the key is
  taken for a hit: the key is saved with its hash and length and the number of saved keys grows.
\<close>

theorem update_then_get_hits:
  assumes "bmc_wf m" and "drop 50 p = payload"
    and "drop 6 payload = key @ 32 # rest" and "32 \<notin> set key" and "length key \<le> BMC_MAX_KEY_LENGTH"
    and "newlines (stored_reply payload) = 2"
    and "pkt y \<noteq> []" and "key_bytes (Suc BMC_MAX_KEY_LENGTH) (pkt y) = key"
    and "map_parsing_context m 0 = Some c" and "map_keys m (key_count c) = Some k"
  shows "wp (bmc_update_cache_main m p) (\<lambda>(a, m'). wp (bmc_hash_keys_main m' y) (\<lambda>(r, y', m'').
    map_parsing_context m'' 0 = Some (c\<lparr>key_count := key_count c + 1\<rparr>) \<and>
    map_keys m'' (key_count c) = Some (k\<lparr>key_hash := fnv1a_char key, key_len := of_nat (length key)\<rparr>)))"
proof -
  have tw: "takeWhile (\<lambda>c. c \<noteq> 32) (take BMC_MAX_KEY_LENGTH (drop 6 payload)) = key"
    using takeWhile_key [OF assms(4,5)] assms(3) by simp
  obtain a m' e where u: "bmc_update_cache_main m p = Some (a, m')" "map_keys m' = map_keys m"
    "map_parsing_context m' = map_parsing_context m" "map_kcache m' (slot key) = Some e"
    "entry_valid e \<noteq> 0" "entry_hash e = fnv1a_char key"
    using update_cache_result [OF assms(1,2) tw] assms(6)
    by (auto simp: wp_iff Let_def split: if_splits)
  have "bmc_wf m'" using bmc_update_cache_safe [OF assms(1), of p] u(1) by simp
  then show ?thesis
    using hash_keys_result [of m' y c k key e] assms(7-10) u by simp
qed

theorem update_then_get_hits_witness:
  "wp (bmc_update_cache_main demo_bmc udp_reply) (\<lambda>(a, m'). wp (bmc_hash_keys_main m' \<lparr>headroom = [], pkt = [0x6B, 13]\<rparr>)
    (\<lambda>(r, y', m''). map_parsing_context m'' 0 = Some (demo_pctx\<lparr>key_count := 1\<rparr>)))"
proof -
  have n: "newlines (stored_reply (drop 50 udp_reply)) = 2"
    by (simp add: stored_reply_def udp_reply_def bmc_consts upto_lines_2)
  have "key_count (demo_pctx\<lparr>key_count := key_count demo_pctx + 1\<rparr>) = 1" by (simp add: demo_pctx_def)
  then show ?thesis
    by (intro wp_mono [OF update_then_get_hits [OF demo_bmc_wf refl, where key = "[0x6B]" and c = demo_pctx
          and rest = "[0x30, 32, 0x31, 13, 10, 0x78, 13, 10]", OF _ _ _ n]])
      (auto simp: udp_reply_def demo_bmc_def demo_pctx_def key_bytes_def bmc_consts elim!: wp_mono)
qed

text \<open>
  Property C35. A defect of \<open>bmc_update_cache_main\<close>: a reply that does not fit the entry (fewer
  than two newlines among the bytes stored) overwrites the data and the length of the valid entry of
  another key in the same slot, and leaves it valid under the other key's hash. A GET for that
  other key is then still counted as a hit by \<open>bmc_hash_keys_main\<close>: its hash and length are saved
  and the number of saved keys grows. (What is sent depends on the comparison of the saved key's
  bytes in \<open>bmc_write_reply_main\<close>, which runs later.)
\<close>

theorem truncated_update_corrupts_entry:
  assumes "bmc_wf m" and "drop 50 p = payload"
    and "takeWhile (\<lambda>c. c \<noteq> 32) (take BMC_MAX_KEY_LENGTH (drop 6 payload)) = key"
    and "newlines (stored_reply payload) \<noteq> 2"
    and "map_kcache m (slot key) = Some e" and "entry_valid e \<noteq> 0"
    and "entry_hash e = fnv1a_char old" and "fnv1a_char old \<noteq> fnv1a_char key" and "slot old = slot key"
    and "pkt y \<noteq> []" and "key_bytes (Suc BMC_MAX_KEY_LENGTH) (pkt y) = old"
    and "map_parsing_context m 0 = Some c" and "map_keys m (key_count c) = Some k"
  shows "wp (bmc_update_cache_main m p) (\<lambda>(a, m'). (\<exists>e'. map_kcache m' (slot old) = Some e' \<and>
      entry_valid e' \<noteq> 0 \<and> entry_hash e' = fnv1a_char old \<and>
      entry_len e' = of_nat (length (stored_reply payload)) \<and>
      take (length (stored_reply payload)) (entry_data e') = stored_reply payload) \<and>
    wp (bmc_hash_keys_main m' y) (\<lambda>(r, y', m'').
      map_parsing_context m'' 0 = Some (c\<lparr>key_count := key_count c + 1\<rparr>) \<and>
      map_keys m'' (key_count c) = Some (k\<lparr>key_hash := fnv1a_char old, key_len := of_nat (length old)\<rparr>)))"
proof -
  let ?s = "stored_reply payload"
  let ?e = "e\<lparr>entry_data := put (entry_data e) 0 ?s, entry_len := of_nat (length ?s)\<rparr>"
  have "length ?s \<le> length (entry_data e)"
    using assms(1,5) le_trans [OF length_upto_lines, of "take BMC_MAX_CACHE_DATA_SIZE payload" BMC_MAX_CACHE_DATA_SIZE 2]
    by (simp add: stored_reply_def bmc_wf_def)
  then have t: "take (length ?s) (put (entry_data e) 0 ?s) = ?s"
    using slice_put_same [of 0 ?s "entry_data e"] by simp
  obtain a m' where u: "bmc_update_cache_main m p = Some (a, m')" "map_keys m' = map_keys m"
    "map_parsing_context m' = map_parsing_context m" "map_kcache m' (slot old) = Some ?e"
    using update_cache_result [OF assms(1-3)] assms(4,5,7-9) by (auto simp: wp_iff)
  have "bmc_wf m'" using bmc_update_cache_safe [OF assms(1), of p] u(1) by simp
  then show ?thesis
    using hash_keys_result [of m' y c k old ?e] assms(6,7,10-13) u t by simp
qed

definition truncated_reply :: bytes where
  "truncated_reply = replicate 50 0 @ [0x56, 0x41, 0x4C, 0x55, 0x45, 0x20, 0x6B, 32, 0x30]"

text \<open>The keys \<open>k\<close> and \<open>m\<close> share a slot: a truncated reply for \<open>k\<close>, then a GET for \<open>m\<close>.\<close>

theorem truncated_update_corrupts_entry_witness:
  "\<exists>m c. bmc_wf m \<and> map_parsing_context m 0 = Some c \<and>
    wp (bmc_update_cache_main m truncated_reply) (\<lambda>(a, m'). (\<exists>e'. map_kcache m' (slot [0x6D]) = Some e' \<and>
        entry_valid e' \<noteq> 0 \<and> entry_hash e' = fnv1a_char [0x6D] \<and> entry_len e' = 9) \<and>
      wp (bmc_hash_keys_main m' \<lparr>headroom = [], pkt = [0x6D, 13]\<rparr>) (\<lambda>(r, y', m'').
        map_parsing_context m'' 0 = Some (c\<lparr>key_count := key_count c + 1\<rparr>)))"
proof -
  let ?e = "demo_entry\<lparr>entry_valid := 1, entry_hash := fnv1a_char [0x6D]\<rparr>" and ?y = "\<lparr>headroom = [], pkt = [0x6D, 13]\<rparr>"
  let ?m = "put_entry (slot [0x6B]) ?e demo_bmc"
  have m: "bmc_wf ?m" by (simp add: demo_bmc_wf slot_def demo_entry_def)
  have pl: "drop 50 truncated_reply = [0x56, 0x41, 0x4C, 0x55, 0x45, 0x20, 0x6B, 32, 0x30]"
    by (simp add: truncated_reply_def)
  have s: "stored_reply (drop 50 truncated_reply) = [0x56, 0x41, 0x4C, 0x55, 0x45, 0x20, 0x6B, 32, 0x30]"
    by (simp add: pl stored_reply_def bmc_consts upto_lines_2)
  have k: "takeWhile (\<lambda>c. c \<noteq> 32) (take BMC_MAX_KEY_LENGTH (drop 6 (drop 50 truncated_reply))) = [0x6B]"
    by (simp only: pl) (simp add: bmc_consts)
  have n: "newlines (stored_reply (drop 50 truncated_reply)) \<noteq> 2" by (simp only: s) simp
  have sl: "fnv1a_char [0x6D] \<noteq> fnv1a_char [0x6B]" "slot [0x6D] = slot [0x6B]"
    by (simp_all add: slot_def fnv1a_char_def fnv_step_char_def FNV_OFFSET_BASIS_32_def FNV_PRIME_32_def BMC_CACHE_ENTRY_COUNT_def)
  have y: "pkt ?y \<noteq> []" "key_bytes (Suc BMC_MAX_KEY_LENGTH) (pkt ?y) = [0x6D]"
    by (simp_all add: key_bytes_def bmc_consts)
  have c: "map_parsing_context ?m 0 = Some demo_pctx" by (simp add: demo_bmc_def)
  obtain kk where kk: "map_keys ?m (key_count demo_pctx) = Some kk"
    by (simp add: demo_bmc_def demo_pctx_def bmc_consts)
  have l: "length (stored_reply (drop 50 truncated_reply)) = 9" by (simp only: s) simp
  have "wp (bmc_update_cache_main ?m truncated_reply) (\<lambda>(a, m'). (\<exists>e'. map_kcache m' (slot [0x6D]) = Some e' \<and>
        entry_valid e' \<noteq> 0 \<and> entry_hash e' = fnv1a_char [0x6D] \<and> entry_len e' = 9) \<and>
      wp (bmc_hash_keys_main m' ?y) (\<lambda>(r, y', m'').
        map_parsing_context m'' 0 = Some (demo_pctx\<lparr>key_count := key_count demo_pctx + 1\<rparr>)))"
    by (rule wp_mono [OF truncated_update_corrupts_entry [where old = "[0x6D]" and e = ?e, OF m refl k n _ _ _ sl y c kk]])
      (auto simp: l elim!: wp_mono)
  then show ?thesis using m c by blast
qed

section \<open>The reply\<close>

text \<open>Within the buffer the kernel's adjustments succeed.\<close>

definition bmc_env_live :: "bmc_env \<Rightarrow> bool" where
  "bmc_env_live A \<longleftrightarrow>
     (\<forall>d x. 0 \<le> int (length (headroom x)) + d \<longrightarrow> d + 14 \<le> int (length (pkt x)) \<longrightarrow> adjust_head A d x \<noteq> None) \<and>
     (\<forall>d x. d \<le> 0 \<longrightarrow> nat (- d) + 14 \<le> length (pkt x) \<longrightarrow> adjust_tail A d x \<noteq> None)"

lemma demo_bmc_env_live: "bmc_env_live demo_bmc_env"
  by (auto simp: bmc_env_live_def demo_bmc_env_def Let_def)

definition be16_bytes :: "nat \<Rightarrow> bytes" where
  "be16_bytes v = le_bytes 2 (unat (bswap16 (of_nat v)))"

lemma length_be16_bytes [simp]: "length (be16_bytes v) = 2"
  by (simp add: be16_bytes_def)

text \<open>The 50 bytes of headers of a reply of \<open>n\<close> payload bytes, made of the headers in front.\<close>

definition ip_fold :: "bytes \<Rightarrow> nat" where
  "ip_fold h = (let s = sum16 (ip_hdr h 14) in s mod 65536 + s div 65536)"

definition reply_headers :: "bytes \<Rightarrow> nat \<Rightarrow> bytes" where
  "reply_headers hdr n =
     (let h = put (put hdr 16 (be16_bytes (n + 36))) 24 [0, 0];
          h = put h 24 (le_bytes 2 (65535 - ip_fold h mod 65536)) in
      put (put h 40 [0, 0]) 38 (be16_bytes (n + 16)))"

lemma length_reply_headers: "length hdr = 50 \<Longrightarrow> length (reply_headers hdr n) = 50"
  by (simp add: reply_headers_def Let_def)

lemma ip_hdr_append: "ip + 20 \<le> length a \<Longrightarrow> ip_hdr (a @ b) ip = ip_hdr a ip"
  by simp

lemma bmc_tail_cut:
  assumes "bmc_env_ok A" "k \<le> length (pkt x)" "adjust_tail A (- (int (length (pkt x)) - int k)) x = Some y"
  shows "headroom y = headroom x \<and> pkt y = take k (pkt x)"
proof -
  have "nat (int (length (pkt x)) - int k) = length (pkt x) - k" by (simp add: nat_diff_distrib')
  moreover have "- (int (length (pkt x)) - int k) \<le> 0" using assms(2) by simp
  ultimately show ?thesis
    using assms(2,3) conjunct2 [OF assms(1) [unfolded bmc_env_ok_def], rule_format, of _ x y] by fastforce
qed

lemma finish_reply_result:
  assumes "bmc_env_ok A" "bmc_env_live A" "headroom x = room @ hdr" "length hdr = 50"
    and "pkt x = reply @ rest" "5 \<le> length rest" "write_pkt_offset pctx = 0"
  shows "wp (finish_reply A m x pctx (length reply)) (\<lambda>(r, z, m'). r = XDP_TX \<and> m' = m \<and> headroom z = room \<and>
    pkt z = reply_headers hdr (length reply + 5) @ reply @ [0x45, 0x4E, 0x44, 0x0D, 0x0A])"
proof -
  let ?n = "length reply" and ?E = "[0x45, 0x4E, 0x44, 0x0D, 0x0A]"
  let ?p = "reply @ ?E @ drop 5 rest" and ?H = "reply_headers hdr (length reply + 5)"
  obtain a b c d e r where rest: "rest = a # b # c # d # e # r"
    using assms(6) by (auto simp: Suc_le_length_iff numeral_eq_Suc)
  let ?x = "x\<lparr>pkt := ?p\<rparr>"
  obtain y where y: "adjust_head A (- 50) ?x = Some y"
    using assms(2-4) unfolding bmc_env_live_def by fastforce
  have "headroom y @ pkt y = headroom ?x @ pkt ?x" "int (length (headroom y)) = int (length (headroom ?x)) - 50"
    using assms(1) y unfolding bmc_env_ok_def by fastforce+
  then have yy: "headroom y = room" "pkt y = hdr @ ?p" using assms(3,4) by (auto simp: append_eq_append_conv)
  have l1: "length (hdr @ ?p) = 55 + ?n + length r" using assms(4) rest by simp
  let ?h1 = "put hdr 16 (be16_bytes (?n + 41))"
  let ?h2 = "put ?h1 24 [0, 0]"
  let ?k = "65535 - ip_fold ?h2 mod 65536"
  have ck: "compute_ip_checksum (?h1 @ ?p) 14 = Some (of_nat ?k, ?h2 @ ?p)"
    using compute_ip_checksum_result [of 14 "?h1 @ ?p"] assms(4) by (simp add: put_append1 ip_fold_def Let_def)
  have uk: "unat (of_nat ?k :: u16) = ?k" by (simp only: unat_of_nat) simp
  let ?z = "?H @ ?p"
  obtain z where z: "adjust_tail A (- (int (length ?z) - int (55 + ?n))) (y\<lparr>pkt := ?z\<rparr>) = Some z"
    using assms(2,4) rest unfolding bmc_env_live_def by (fastforce simp: length_reply_headers)
  have "headroom z = room \<and> pkt z = take (55 + ?n) ?z"
    using bmc_tail_cut [OF assms(1), of "55 + ?n" "y\<lparr>pkt := ?z\<rparr>" z] z yy assms(4) rest
    by (simp add: length_reply_headers)
  then have zz: "headroom z = room" "pkt z = ?H @ reply @ ?E"
    using assms(4) rest by (simp_all add: length_reply_headers)
  have five: "do { p \<leftarrow> st8 (pkt x) ?n 0x45; p \<leftarrow> st8 p (?n + 1) 0x4E; p \<leftarrow> st8 p (?n + 2) 0x44;
      p \<leftarrow> st8 p (?n + 3) 0x0D; p \<leftarrow> st8 p (?n + 4) 0x0A; f p } = f ?p" for f :: "bytes \<Rightarrow> bmc_result"
    by (simp add: assms(5) rest st8_def stn_put put_append2 put_def numeral_eq_Suc)
  have st: "st16 (h @ ?p) off v = Some (put h off (le_bytes 2 (unat v)) @ ?p)" if "length h = 50" "off + 2 \<le> 50" for h off v
    using that by (simp add: st16_def stn_put put_append1)
  have body: "do { p \<leftarrow> st16 (hdr @ ?p) 16 (bswap16 (41 + of_nat ?n)); (csum, p) \<leftarrow> compute_ip_checksum p 14;
      p \<leftarrow> st16 p 24 csum; p \<leftarrow> st16 p 40 0; p \<leftarrow> st16 p 38 (bswap16 (21 + of_nat ?n)); f p } = f ?z"
    for f :: "bytes \<Rightarrow> bmc_result"
  proof -
    have b: "le_bytes 2 (unat (bswap16 (41 + of_nat ?n))) = be16_bytes (?n + 41)"
      "le_bytes 2 (unat (bswap16 (21 + of_nat ?n))) = be16_bytes (?n + 21)"
      by (simp_all add: be16_bytes_def add.commute)
    have H: "?H = put (put (put ?h2 24 (le_bytes 2 ?k)) 40 [0, 0]) 38 (be16_bytes (?n + 21))"
      by (simp add: reply_headers_def Let_def add.commute)
    have "st16 (hdr @ ?p) 16 (bswap16 (41 + of_nat ?n)) = Some (?h1 @ ?p)"
      using assms(4) by (subst st) (simp_all add: b)
    moreover have "st16 (?h2 @ ?p) 24 (of_nat ?k) = Some (put ?h2 24 (le_bytes 2 ?k) @ ?p)"
      using assms(4) by (subst st) (simp_all only: uk, simp_all)
    moreover have "st16 (put ?h2 24 (le_bytes 2 ?k) @ ?p) 40 0 = Some (put (put ?h2 24 (le_bytes 2 ?k)) 40 [0, 0] @ ?p)"
      using assms(4) by (subst st) simp_all
    moreover have "st16 (put (put ?h2 24 (le_bytes 2 ?k)) 40 [0, 0] @ ?p) 38 (bswap16 (21 + of_nat ?n)) = Some ?z"
      using assms(4) unfolding H by (subst st) (simp_all add: b)
    ultimately show ?thesis by (simp only: ck bind.bind_lunit prod.case Option.bind.simps)
  qed
  have len: "length (hdr @ ?p) \<ge> 42" using assms(4) by simp
  show ?thesis
    unfolding finish_reply_def five Let_def
    using assms(4,7) y yy z zz len
    by (simp add: body length_reply_headers del: append.simps)
qed

text \<open>A saved key that agrees with the cached one is a hit.\<close>

lemma key_compare_hit:
  assumes "length (key_data key) = BMC_MAX_KEY_LENGTH" "length (entry_data entry) = BMC_MAX_CACHE_DATA_SIZE"
    "unat (key_len key) \<le> BMC_MAX_KEY_LENGTH"
    "take (unat (key_len key)) (drop 6 (entry_data entry)) = take (unat (key_len key)) (key_data key)"
  shows "k + i \<le> BMC_MAX_KEY_LENGTH \<Longrightarrow> key_compare k key entry i hit = Some hit"
proof (induction k arbitrary: i hit)
  case (Suc k)
  have "key_data key ! i = entry_data entry ! (6 + i)" if "i < unat (key_len key)"
    using arg_cong [OF assms(4), of "\<lambda>xs. xs ! i"] that assms(1-3) by (simp add: bmc_consts)
  then show ?case using Suc assms(1,2) by (auto simp: ld8_def bmc_consts)
qed simp

lemma write_reply_hit:
  assumes "bmc_wf m" and "bmc_env_ok A" and "bmc_env_live A"
    and "map_parsing_context m 0 = Some c" and "current_key c + 1 = key_count c" and "write_pkt_offset c = 0"
    and "map_keys m (current_key c) = Some key"
    and "map_kcache m (key_hash key mod BMC_CACHE_ENTRY_COUNT) = Some e"
    and "entry_valid e \<noteq> 0" and "entry_hash e = key_hash key" and "unat (key_len key) \<le> BMC_MAX_KEY_LENGTH"
    and "take (unat (key_len key)) (drop 6 (entry_data e)) = take (unat (key_len key)) (key_data key)"
    and "0 < unat (entry_len e)" and "unat (entry_len e) \<le> BMC_MAX_CACHE_DATA_SIZE"
    and "unat (entry_len e) + 5 \<le> length (pkt x)" and "headroom x = room @ hdr" and "length hdr = 50"
  shows "wp (bmc_write_reply_main A m x) (\<lambda>(r, z, m'). r = XDP_TX \<and>
    pkt z = reply_headers hdr (unat (entry_len e) + 5) @ take (unat (entry_len e)) (entry_data e) @
      [0x45, 0x4E, 0x44, 0x0D, 0x0A])"
proof -
  let ?n = "unat (entry_len e)"
  have len: "length (entry_data e) = BMC_MAX_CACHE_DATA_SIZE" "length (key_data key) = BMC_MAX_KEY_LENGTH"
    using assms(1,7,8) by (auto simp: bmc_wf_def)
  have rl: "reply_len (pkt x) e = ?n" using assms(14,15) by (simp add: reply_len_def)
  have lr: "length (take ?n (entry_data e)) = ?n" using assms(14) len by simp
  obtain s where s: "map_stats m 0 = Some s" using assms(1) by (auto simp: bmc_wf_def)
  have hit: "key_compare BMC_MAX_KEY_LENGTH key e 0 True = Some True"
    using assms(11,12) len by (intro key_compare_hit) simp_all
  have "copy_entry key e (pkt x) = Some (True, take ?n (entry_data e) @ drop ?n (pkt x), ?n)"
    using copy_hit [OF len(1), of "pkt x"] assms(9,10) hit rl
    by (auto simp: copy_entry_def bind_eq_Some_conv split: prod.splits)
  moreover have "wp (finish_reply A m' (x\<lparr>pkt := take ?n (entry_data e) @ drop ?n (pkt x)\<rparr>) c' ?n)
      (\<lambda>(r, z, m'). r = XDP_TX \<and> pkt z = reply_headers hdr (?n + 5) @ take ?n (entry_data e) @ [0x45, 0x4E, 0x44, 0x0D, 0x0A])"
    if "write_pkt_offset c' = 0" for c' m'
  proof -
    have "5 \<le> length (drop ?n (pkt x))" using assms(15) by simp
    then show ?thesis
      using finish_reply_result [OF assms(2,3), of "x\<lparr>pkt := take ?n (entry_data e) @ drop ?n (pkt x)\<rparr>" room hdr
          "take ?n (entry_data e)" "drop ?n (pkt x)" c' m'] assms(16,17) that
      unfolding lr by (auto elim!: wp_mono)
  qed
  moreover have "pkt x \<noteq> []" using assms(15) by auto
  ultimately show ?thesis
    using assms(4-8,13-15) s len by (simp add: bmc_write_reply_main_def Let_def)
qed

lemma reply_checksum_valid_iff:
  assumes "length hdr = 50"
  shows "csum_valid (ip_hdr (reply_headers hdr n) 14) =
    (ip_fold (put (put hdr 16 (be16_bytes (n + 36))) 24 [0, 0]) \<le> 65535)"
proof -
  let ?h = "put (put hdr 16 (be16_bytes (n + 36))) 24 [0, 0]"
  have l: "length (ip_hdr ?h 14) = 20" using assms by simp
  have z: "take 2 (drop 10 (ip_hdr ?h 14)) = [0, 0]"
    using slice_put_same [of 24 "[0, 0]" "put hdr 16 (be16_bytes (n + 36))" 2] assms by (simp add: drop_take)
  have eq: "ip_hdr (reply_headers hdr n) 14 = put (ip_hdr ?h 14) 10 (le_bytes 2 (65535 - ip_fold ?h mod 65536))"
    using assms by (simp add: reply_headers_def Let_def slice_put_disjoint slice_put_in)
  show ?thesis
    unfolding eq using single_fold_valid_iff [OF l z] by (simp add: ip_fold_def Let_def)
qed

text \<open>
  Property C11. The reply to a single-key request that hits: if the saved key agrees with the
  key of its valid cache entry and the reply fits the packet, \<open>bmc_write_reply_main\<close> transmits
  the headers prepared in front of the packet, with lengths and checksum rewritten, the cached
  reply in full, and \<open>END\<close>, and nothing else. The IP checksum it sends is correct exactly when
  the one carry fold of \<open>compute_ip_checksum\<close> stays below 65536.
\<close>

theorem write_reply_sends_cached_value:
  assumes "bmc_wf m" and "bmc_env_ok A" and "bmc_env_live A"
    and "map_parsing_context m 0 = Some c" and "current_key c + 1 = key_count c" and "write_pkt_offset c = 0"
    and "map_keys m (current_key c) = Some key"
    and "map_kcache m (key_hash key mod BMC_CACHE_ENTRY_COUNT) = Some e"
    and "entry_valid e \<noteq> 0" and "entry_hash e = key_hash key" and "unat (key_len key) \<le> BMC_MAX_KEY_LENGTH"
    and "take (unat (key_len key)) (drop 6 (entry_data e)) = take (unat (key_len key)) (key_data key)"
    and "0 < unat (entry_len e)" and "unat (entry_len e) \<le> BMC_MAX_CACHE_DATA_SIZE"
    and "unat (entry_len e) + 5 \<le> length (pkt x)" and "headroom x = room @ hdr" and "length hdr = 50"
  shows "wp (bmc_write_reply_main A m x) (\<lambda>(r, z, m'). r = XDP_TX \<and>
      pkt z = reply_headers hdr (unat (entry_len e) + 5) @ take (unat (entry_len e)) (entry_data e) @
        [0x45, 0x4E, 0x44, 0x0D, 0x0A]) \<and>
    csum_valid (ip_hdr (reply_headers hdr n) 14) =
      (ip_fold (put (put hdr 16 (be16_bytes (n + 36))) 24 [0, 0]) \<le> 65535)"
  using write_reply_hit [OF assms] reply_checksum_valid_iff [OF assms(17)] by simp

theorem write_reply_sends_cached_value_witness:
  "\<exists>m. wp (bmc_write_reply_main demo_bmc_env m \<lparr>headroom = replicate 50 0, pkt = replicate 8 0\<rparr>)
    (\<lambda>(r, z, m'). r = XDP_TX \<and>
      pkt z = reply_headers (replicate 50 0) 8 @ [0, 0, 0] @ [0x45, 0x4E, 0x44, 0x0D, 0x0A])"
proof -
  let ?e = "demo_entry\<lparr>entry_valid := 1, entry_len := 3\<rparr>" and ?c = "demo_pctx\<lparr>key_count := 1\<rparr>"
  let ?k = "\<lparr>key_hash = 0, key_data = replicate BMC_MAX_KEY_LENGTH 0, key_len = 0\<rparr>"
  let ?m = "put_pctx ?c (put_entry 0 ?e demo_bmc)"
  have "bmc_wf ?m" by (simp add: demo_bmc_wf demo_entry_def BMC_CACHE_ENTRY_COUNT_def)
  then have "wp (bmc_write_reply_main demo_bmc_env ?m \<lparr>headroom = replicate 50 0, pkt = replicate 8 0\<rparr>)
    (\<lambda>(r, z, m'). r = XDP_TX \<and> pkt z = reply_headers (replicate 50 0) (unat (entry_len ?e) + 5) @
        take (unat (entry_len ?e)) (entry_data ?e) @ [0x45, 0x4E, 0x44, 0x0D, 0x0A])"
    using write_reply_sends_cached_value [of ?m demo_bmc_env ?c ?k ?e
        "\<lparr>headroom = replicate 50 0, pkt = replicate 8 0\<rparr>" "[]" "replicate 50 0" 0]
      demo_bmc_env_ok demo_bmc_env_live
    by (simp add: demo_pctx_def demo_bmc_def demo_entry_def bmc_consts)
  moreover have "take (unat (entry_len ?e)) (entry_data ?e) = [0, 0, 0]"
    by (simp add: demo_entry_def bmc_consts) (simp add: numeral_3_eq_3)
  ultimately show ?thesis by (intro exI [of _ ?m]) simp
qed

end
