(* ===== verification/Bmc_Refactored.thy ===== *)
theory Bmc_Refactored
  imports Bmc_Coherence Hash_Stubs
begin

text \<open>
  src/examples/bmc-cache/bmc_kern_refactored.c, in which the hash loop of
  \<open>bmc_hash_keys_main\<close> is a call of the extracted \<open>bmc_hash_keys\<close>.
\<close>

definition bmc_hash_keys_main_refactored :: "bmc_maps \<Rightarrow> xbuf \<Rightarrow> bmc_result" where
  "bmc_hash_keys_main_refactored m x =
     (let payload = pkt x in
      if 0 \<ge> length payload then Some (XDP_PASS, x, m) else
      case map_parsing_context m 0 of None \<Rightarrow> Some (XDP_PASS, x, m)
      | Some pctx \<Rightarrow>
        (case map_keys m (key_count pctx) of None \<Rightarrow> Some (XDP_PASS, x, m)
         | Some key \<Rightarrow>
           do { (hash, klen) \<leftarrow> bmc_hash_keys payload (of_nat (length payload));
                bmc_probe m x pctx key hash klen }))"

text \<open>
  The refactored program is not the original one: the extracted function returns
  the hash reduced modulo 3250, and it is this value that is compared with the full hash of the
  cache entry. As long as no valid entry has a hash below 3250, no GET is ever taken for a hit.
\<close>

lemma refactored_never_hits:
  assumes "bmc_wf m" and "length (pkt y) < 2 ^ 32"
    and "\<And>i e. map_kcache m i = Some e \<Longrightarrow> entry_valid e \<noteq> 0 \<Longrightarrow> 3250 \<le> entry_hash e"
  shows "wp (bmc_hash_keys_main_refactored m y) (\<lambda>(a, y', m'). map_parsing_context m' = map_parsing_context m)"
proof -
  obtain h l where r: "bmc_hash_keys (pkt y) (of_nat (length (pkt y))) = Some (h, l)" "h < 3250"
    using bmc_hash_keys_eq [of "of_nat (length (pkt y))" "pkt y"] assms(2)
    by (auto simp: unat_of_nat BMC_STUB_ENTRY_COUNT_def word_mod_less Let_def)
  obtain e where e: "map_kcache m (h mod BMC_CACHE_ENTRY_COUNT) = Some e" using assms(1) by (rule bmc_wf_entry)
  have "\<not> (entry_valid e \<noteq> 0 \<and> entry_hash e = h)" using assms(3) [OF e] r(2) by auto
  then show ?thesis
    using r(1) e by (auto simp: bmc_hash_keys_main_refactored_def bmc_probe_def Let_def split: option.splits)
qed

lemma refactored_never_hits_witness:
  "\<exists>m e. map_kcache m 0 = Some e \<and> entry_valid e = 1 \<and>
    wp (bmc_hash_keys_main_refactored m \<lparr>headroom = [], pkt = [0x6B, 13]\<rparr>)
      (\<lambda>(a, y', m'). map_parsing_context m' = map_parsing_context m)"
proof -
  let ?e = "demo_entry\<lparr>entry_valid := 1, entry_hash := 5000\<rparr>"
  let ?m = "put_entry 0 ?e demo_bmc"
  have m: "bmc_wf ?m" by (simp add: demo_bmc_wf demo_entry_def BMC_CACHE_ENTRY_COUNT_def)
  have "wp (bmc_hash_keys_main_refactored ?m \<lparr>headroom = [], pkt = [0x6B, 13]\<rparr>)
      (\<lambda>(a, y', m'). map_parsing_context m' = map_parsing_context ?m)"
    by (rule refactored_never_hits [OF m]) (auto simp: demo_bmc_def demo_entry_def split: if_splits)
  then show ?thesis by (intro exI [of _ ?m] exI [of _ ?e]) simp
qed

end
