(* ===== verification/Bmc_Refinement.thy ===== *)
theory Bmc_Refinement
  imports Bmc_Coherence
begin

text \<open>
  The cache of bmc_kern.c in front of a memcached server. The abstract specification is the
  server alone, a store of the current reply for each key; the system is the maps of the programs
  and that store. SET requests and replies pass the programs on their way in and out, in any
  order and any number, and the programs for GET requests run at any time. The refinement: what
  \<open>bmc_write_reply_main\<close> answers from the cache is what the server would answer.

  The store changes in the step in which the SET request passes the program: what happens when
  the server applies it later is stated at the end.
\<close>

section \<open>The system\<close>

type_synonym memcached_store = "bytes \<rightharpoonup> bytes"

text \<open>A reply without its \<open>END\<close>: \<open>VALUE <key> <flags> <bytes>\<close> and a value without a newline.\<close>

definition reply_of :: "bytes \<Rightarrow> bytes \<Rightarrow> bool" where
  "reply_of key r \<longleftrightarrow> (\<exists>rest. r = [0x56, 0x41, 0x4C, 0x55, 0x45, 0x20] @ key @ 32 # rest) \<and>
     newlines r = 2 \<and> last r = 10 \<and> 32 \<notin> set key \<and> length key \<le> BMC_MAX_KEY_LENGTH"

text \<open>A TCP segment with \<open>set <key> \<close> where the scanner of the program finds it.\<close>

definition set_segment :: "bytes \<Rightarrow> bytes \<Rightarrow> bool" where
  "set_segment key p \<longleftrightarrow> (\<exists>pre rest. drop 54 p = pre @ [0x73, 0x65, 0x74, 0x20] @ key @ 32 # rest \<and>
     0x73 \<notin> set pre \<and> key \<noteq> [] \<and> 32 \<notin> set key \<and> hd key \<noteq> 13 \<and>
     length pre + 4 + length key < BMC_MAX_PACKET_LENGTH)"

inductive bmc_system :: "bmc_env \<Rightarrow> bmc_maps \<Rightarrow> memcached_store \<Rightarrow> bool" for A where
  sys_start: "bmc_wf m \<Longrightarrow> (\<And>i e. map_kcache m i = Some e \<Longrightarrow> entry_valid e = 0) \<Longrightarrow>
    (\<And>key r. store key = Some r \<Longrightarrow> reply_of key r) \<Longrightarrow> bmc_system A m store"
| sys_set: "bmc_system A m store \<Longrightarrow> set_segment key (pkt x) \<Longrightarrow> reply_of key r \<Longrightarrow>
    bmc_invalidate_cache_main m x = Some (a, y, m') \<Longrightarrow> bmc_system A m' (store(key \<mapsto> r))"
| sys_tcp: "bmc_system A m store \<Longrightarrow> bmc_invalidate_cache_main m x = Some (a, y, m') \<Longrightarrow> bmc_system A m' store"
| sys_reply: "bmc_system A m store \<Longrightarrow> store key = Some r \<Longrightarrow> drop 50 p = r @ rest \<Longrightarrow> unat n = length p \<Longrightarrow>
    bmc_tx_filter_main t m n p = Some (a, m') \<Longrightarrow> bmc_system A m' store"
| sys_rx: "bmc_system A m store \<Longrightarrow> bmc_rx_filter_main A m x = Some (a, y, m') \<Longrightarrow> bmc_system A m' store"
| sys_hash: "bmc_system A m store \<Longrightarrow> bmc_hash_keys_main m x = Some (a, y, m') \<Longrightarrow> bmc_system A m' store"
| sys_prepare: "bmc_system A m store \<Longrightarrow> bmc_prepare_packet_main A m x = Some (a, y, m') \<Longrightarrow> bmc_system A m' store"
| sys_write: "bmc_system A m store \<Longrightarrow> bmc_write_reply_main A m x = Some (a, y, m') \<Longrightarrow> bmc_system A m' store"

text \<open>The simulation relation: a valid entry holds the server's reply for a key of its slot.\<close>

definition holds_reply :: "memcached_store \<Rightarrow> u32 \<Rightarrow> bmc_cache_entry \<Rightarrow> bool" where
  "holds_reply store i e \<longleftrightarrow> (\<exists>key r. store key = Some r \<and> reply_of key r \<and> slot key = i \<and>
     entry_hash e = fnv1a_char key \<and> unat (entry_len e) = length r \<and> take (length r) (entry_data e) = r)"

definition coherent :: "bmc_maps \<Rightarrow> memcached_store \<Rightarrow> bool" where
  "coherent m store \<longleftrightarrow> bmc_wf m \<and> (\<forall>key r. store key = Some r \<longrightarrow> reply_of key r) \<and>
     (\<forall>i e. map_kcache m i = Some e \<longrightarrow> entry_valid e \<noteq> 0 \<longrightarrow> holds_reply store i e)"

section \<open>Programs that only read the cache\<close>

text \<open>
  Weakest liberal preconditions: a computation that binds a value keeps what its continuation
  keeps for every value.
\<close>

definition wlp :: "'a option \<Rightarrow> ('a \<Rightarrow> bool) \<Rightarrow> bool" where
  "wlp m Q \<longleftrightarrow> (\<forall>x. m = Some x \<longrightarrow> Q x)"

lemma wlp_Some: "Q x \<Longrightarrow> wlp (Some x) Q"
  by (simp add: wlp_def)

lemma wlp_bind: "(\<And>x. wlp (f x) Q) \<Longrightarrow> wlp (m \<bind> f) Q"
  by (auto simp: wlp_def bind_eq_Some_conv)

lemma wlp_if: "(b \<Longrightarrow> wlp m Q) \<Longrightarrow> (\<not> b \<Longrightarrow> wlp n Q) \<Longrightarrow> wlp (if b then m else n) Q"
  by simp

lemma wlp_option: "(v = None \<Longrightarrow> wlp m Q) \<Longrightarrow> (\<And>x. v = Some x \<Longrightarrow> wlp (f x) Q) \<Longrightarrow>
  wlp (case v of None \<Rightarrow> m | Some x \<Rightarrow> f x) Q"
  by (cases v) simp_all

lemma wlp_prod: "(\<And>x y. wlp (f x y) Q) \<Longrightarrow> wlp (case v of (x, y) \<Rightarrow> f x y) Q"
  by (cases v) simp

lemma wlpD: "wlp m Q \<Longrightarrow> m = Some x \<Longrightarrow> Q x"
  by (simp add: wlp_def)

lemmas wlp_rules = wlp_if wlp_option wlp_prod wlp_bind wlp_Some

abbreviation same_cache :: "bmc_maps \<Rightarrow> int \<times> xbuf \<times> bmc_maps \<Rightarrow> bool" where
  "same_cache m r \<equiv> map_kcache (snd (snd r)) = map_kcache m"

lemma rx_filter_keeps_cache: "wlp (bmc_rx_filter_main A m x) (same_cache m)"
  unfolding bmc_rx_filter_main_def bmc_rx_dispatch_def bmc_rx_get_def Let_def by (intro wlp_rules) simp_all

lemma hash_keys_keeps_cache: "wlp (bmc_hash_keys_main m x) (same_cache m)"
  unfolding bmc_hash_keys_main_def bmc_probe_def Let_def by (intro wlp_rules) simp_all

lemma prepare_keeps_cache: "wlp (bmc_prepare_packet_main A m x) (same_cache m)"
  unfolding bmc_prepare_packet_main_def Let_def by (intro wlp_rules) simp_all

lemma write_reply_keeps_cache: "wlp (bmc_write_reply_main A m x) (same_cache m)"
  unfolding bmc_write_reply_main_def finish_reply_def Let_def by (intro wlp_rules) simp_all

lemma coherent_same_cache: "coherent m store \<Longrightarrow> map_kcache m' = map_kcache m \<Longrightarrow> bmc_wf m' \<Longrightarrow> coherent m' store"
  by (simp add: coherent_def)

lemma keepsD: "bmc_keeps r \<Longrightarrow> r = Some (a, y, m') \<Longrightarrow> bmc_wf m'"
  by (simp add: bmc_keeps_def)

lemma same_cache_step:
  "coherent m store \<Longrightarrow> wlp r (same_cache m) \<Longrightarrow> (bmc_wf m \<Longrightarrow> bmc_keeps r) \<Longrightarrow> r = Some (a, y, m') \<Longrightarrow> coherent m' store"
  by (rule coherent_same_cache) (auto simp: wlp_def coherent_def bmc_keeps_def)

section \<open>SET requests\<close>

lemma coherent_cleared: "coherent m store \<Longrightarrow> cleared m m' \<Longrightarrow> bmc_wf m' \<Longrightarrow> coherent m' store"
proof -
  assume c: "coherent m store" "cleared m m'" "bmc_wf m'"
  have "holds_reply store i e" if "map_kcache m' i = Some e" "entry_valid e \<noteq> 0" for i e
  proof -
    from c(2) consider "map_kcache m' i = map_kcache m i" | e0 where "map_kcache m' i = Some (e0\<lparr>entry_valid := 0\<rparr>)"
      unfolding cleared_def by blast
    then have "map_kcache m' i = map_kcache m i" using that by cases auto
    then show ?thesis using c(1) that by (simp add: coherent_def)
  qed
  then show "coherent m' store" using c(1,3) by (simp add: coherent_def)
qed

lemma invalidate_cleared: "bmc_invalidate_cache_main m x = Some (a, y, m') \<Longrightarrow> cleared m m'"
  using invalidate_loop_cleared [of "drop 54 (pkt x)" 0 False False 0 m]
  by (auto simp: bmc_invalidate_cache_main_def Let_def bind_eq_Some_conv wp_iff split: if_splits option.splits)

lemma invalidate_set_dead:
  assumes "bmc_wf m" "set_segment key (pkt x)" "bmc_invalidate_cache_main m x = Some (a, y, m')"
  shows "dead (slot key) m'"
proof -
  obtain pre rest where k: "drop 54 (pkt x) = pre @ [0x73, 0x65, 0x74, 0x20] @ key @ 32 # rest" "0x73 \<notin> set pre"
      "key \<noteq> []" "32 \<notin> set key" "hd key \<noteq> 13" "length pre + 4 + length key < BMC_MAX_PACKET_LENGTH"
    using assms(2) by (auto simp: set_segment_def)
  have "wp (invalidate_loop (drop 54 (pkt x)) 0 False False 0 m) (dead (slot key))"
    using assms(1) k by (intro invalidate_idle [of _ _ pre key rest]) auto
  moreover have "54 < length (pkt x)" using arg_cong [OF k(1), of length] by simp
  moreover obtain s where "map_stats m 0 = Some s" using assms(1) by (auto simp: bmc_wf_def)
  ultimately show ?thesis
    using assms(3) by (auto simp: bmc_invalidate_cache_main_def Let_def wp_iff)
qed

lemma coherent_set:
  assumes "coherent m store" "dead (slot key) m" "reply_of key r"
  shows "coherent m (store(key \<mapsto> r))"
proof -
  have "holds_reply (store(key \<mapsto> r)) i e" if "map_kcache m i = Some e" "entry_valid e \<noteq> 0" for i e
  proof -
    have "i \<noteq> slot key" using assms(2) that by (auto simp: dead_def)
    moreover have "holds_reply store i e" using assms(1) that by (simp add: coherent_def)
    ultimately show ?thesis unfolding holds_reply_def by (metis fun_upd_apply)
  qed
  then show ?thesis using assms(1,3) by (auto simp: coherent_def)
qed

section \<open>Replies\<close>

lemma upto_lines_append: "newlines r = n \<Longrightarrow> 0 < n \<Longrightarrow> last r = 10 \<Longrightarrow> upto_lines n (r @ s) = r"
proof (induction r arbitrary: n)
  case (Cons c r)
  show ?case
  proof (cases "r = []")
    case False
    then have "0 < newlines r" using Cons.prems(3) last_in_set [of r] by (auto simp: filter_empty_conv)
    then show ?thesis using Cons False by (cases n) auto
  qed (use Cons.prems in \<open>cases n; auto\<close>)
qed simp

lemma stored_reply_of: "reply_of key r \<Longrightarrow> length r \<le> BMC_MAX_CACHE_DATA_SIZE \<Longrightarrow> stored_reply (r @ s) = r"
  unfolding stored_reply_def by (simp add: reply_of_def upto_lines_append)

lemma coherent_update:
  assumes "coherent m store" "store key = Some r" "drop 50 p = r @ rest" "length p \<le> BMC_MAX_CACHE_DATA_SIZE + 50"
    "bmc_update_cache_main m p = Some (a, m')"
  shows "coherent m' store"
proof -
  have wf: "bmc_wf m" "reply_of key r" using assms(1,2) by (auto simp: coherent_def)
  have l: "length r \<le> BMC_MAX_CACHE_DATA_SIZE" using arg_cong [OF assms(3), of length] assms(4) by simp
  have nl: "newlines r = 2" using wf(2) by (simp add: reply_of_def)
  have s: "stored_reply (r @ rest) = r" by (rule stored_reply_of [OF wf(2) l])
  have tw: "takeWhile (\<lambda>c. c \<noteq> 32) (take BMC_MAX_KEY_LENGTH (drop 6 (r @ rest))) = key"
    using wf(2) takeWhile_key [of key] by (auto simp: reply_of_def simp del: take_append take_Cons')
  have u: "unat (of_nat (length r) :: u32) = length r" using l by (simp add: unat_of_nat bmc_consts)
  obtain e diff where e: "map_kcache m (slot key) = Some e"
    and k: "map_kcache m' = (if entry_valid e \<noteq> 0 \<and> entry_hash e = fnv1a_char key \<and> \<not> diff then map_kcache m
      else (map_kcache m)(slot key \<mapsto> e\<lparr>entry_data := put (entry_data e) 0 r, entry_len := of_nat (length r),
        entry_valid := 1, entry_hash := fnv1a_char key\<rparr>))"
    using update_cache_result [OF wf(1) assms(3) tw, unfolded s Let_def nl simp_thms(6) if_True] assms(5) by auto
  have "bmc_wf m'" using bmc_update_cache_safe [OF wf(1), of p] assms(5) by simp
  moreover have "holds_reply store (slot key) (e\<lparr>entry_data := put (entry_data e) 0 r, entry_len := of_nat (length r),
        entry_valid := 1, entry_hash := fnv1a_char key\<rparr>)"
    unfolding holds_reply_def using assms(2) wf(2) u by (intro exI [of _ key] exI [of _ r]) (simp add: put_def)
  ultimately show ?thesis
    using assms(1) k by (auto simp: coherent_def split: if_splits)
qed

lemma tx_filter_cases:
  assumes "bmc_tx_filter_main t m n p = Some (a, m')"
  obtains "map_kcache m' = map_kcache m"
    | f where "unat n \<le> BMC_MAX_CACHE_DATA_SIZE + 50" "bmc_update_cache_main (bmc_stat f m) p = Some (a, m')"
proof -
  have "wlp (bmc_tx_filter_main t m n p) (\<lambda>(a, m'). map_kcache m' = map_kcache m \<or>
      (unat n \<le> BMC_MAX_CACHE_DATA_SIZE + 50 \<and> (\<exists>f. bmc_update_cache_main (bmc_stat f m) p = Some (a, m'))))"
    unfolding bmc_tx_filter_main_def Let_def by (intro wlp_rules) (auto simp: wlp_def)
  from wlpD [OF this assms] that show thesis by auto
qed

lemma coherent_reply:
  assumes "coherent m store" "store key = Some r" "drop 50 p = r @ rest" "unat n = length p"
    "bmc_tx_filter_main t m n p = Some (a, m')"
  shows "coherent m' store"
  using assms(5)
proof (cases rule: tx_filter_cases)
  case 1
  moreover have "bmc_wf m'" using bmc_tx_filter_safe [of m t n p] assms(1,5) by (simp add: coherent_def)
  ultimately show ?thesis using assms(1) by (blast intro: coherent_same_cache)
next
  case (2 f)
  have "coherent (bmc_stat f m) store" using assms(1) by (simp add: coherent_def)
  from coherent_update [OF this assms(2,3) _ 2(2)] show ?thesis using 2(1) assms(4) by simp
qed

section \<open>The cache is coherent with the store\<close>

lemma bmc_system_coherent: "bmc_system A m store \<Longrightarrow> coherent m store"
proof (induction rule: bmc_system.induct)
  case (sys_start m store)
  then show ?case by (auto simp: coherent_def)
next
  case (sys_set m store key x r a y m')
  then have m: "bmc_wf m" "bmc_wf m'" using keepsD [OF bmc_invalidate_safe] by (auto simp: coherent_def)
  have "coherent m' store"
    by (rule coherent_cleared [OF sys_set.IH invalidate_cleared [OF sys_set.hyps(4)] m(2)])
  then show ?case
    by (rule coherent_set [OF _ invalidate_set_dead [OF m(1) sys_set.hyps(2,4)] sys_set.hyps(3)])
next
  case (sys_tcp m store x a y m')
  then show ?case
    using coherent_cleared invalidate_cleared keepsD [OF bmc_invalidate_safe] by (metis coherent_def)
next
  case (sys_reply m store key r p rest n t a m')
  then show ?case using coherent_reply by blast
next
  case (sys_rx m store x a y m')
  then show ?case
    using same_cache_step [OF _ rx_filter_keeps_cache bmc_rx_filter_safe] by blast
next
  case (sys_hash m store x a y m')
  then show ?case
    using same_cache_step [OF _ hash_keys_keeps_cache bmc_hash_keys_safe] by blast
next
  case (sys_prepare m store x a y m')
  then show ?case
    using same_cache_step [OF _ prepare_keeps_cache bmc_prepare_packet_safe] by blast
next
  case (sys_write m store x a y m')
  then show ?case
    using same_cache_step [OF _ write_reply_keeps_cache bmc_write_reply_safe] by blast
qed


section \<open>What a GET is answered\<close>

lemma key_compare_same:
  "key_compare k key entry i hit = Some True \<Longrightarrow>
    hit \<and> (\<forall>j. i \<le> j \<longrightarrow> j < i + k \<longrightarrow> j < unat (key_len key) \<longrightarrow> key_data key ! j = entry_data entry ! (6 + j))"
proof (induction k arbitrary: i hit)
  case (Suc k)
  show ?case
  proof (cases "i < unat (key_len key)")
    case True
    then obtain h where h: "h = (if key_data key ! i \<noteq> entry_data entry ! (6 + i) then False else hit)"
        "key_compare k key entry (i + 1) h = Some True"
      using Suc.prems by (auto simp: ld8_def bind_eq_Some_conv split: if_splits)
    from Suc.IH [OF h(2)] h(1) show ?thesis by (auto split: if_splits) (metis Suc_leI le_neq_implies_less)
  qed (use Suc.prems in auto)
qed auto

lemma copy_entry_written:
  assumes "copy_entry key e p = Some (hit, q, w)" "0 < w" "unat (key_len key) \<le> BMC_MAX_KEY_LENGTH"
    "length (entry_data e) = BMC_MAX_CACHE_DATA_SIZE" "length (key_data key) = BMC_MAX_KEY_LENGTH"
  shows "entry_valid e \<noteq> 0 \<and> entry_hash e = key_hash key \<and> w = reply_len p e \<and>
    take (unat (key_len key)) (drop 6 (entry_data e)) = take (unat (key_len key)) (key_data key)"
proof -
  have v: "entry_valid e \<noteq> 0" "entry_hash e = key_hash key" and k: "key_compare BMC_MAX_KEY_LENGTH key e 0 True = Some True"
    using assms(1,2) by (auto simp: copy_entry_def bind_eq_Some_conv split: if_splits)
  have "w = reply_len p e"
    using assms(1) copy_hit [OF assms(4), of p] v k
    by (auto simp: copy_entry_def bind_eq_Some_conv split: prod.splits)
  moreover have "take (unat (key_len key)) (drop 6 (entry_data e)) = take (unat (key_len key)) (key_data key)"
    using key_compare_same [OF k] assms(3-5) by (intro nth_equalityI) (auto simp: bmc_consts)
  ultimately show ?thesis using v by simp
qed

text \<open>A single-key request is answered only from a valid entry with the hash and the bytes of the saved key.\<close>

lemma write_reply_tx:
  assumes "bmc_wf m" "map_parsing_context m 0 = Some c" "current_key c + 1 = key_count c" "write_pkt_offset c = 0"
    "map_keys m (current_key c) = Some k" "unat (key_len k) \<le> BMC_MAX_KEY_LENGTH"
    "bmc_write_reply_main A m x = Some (XDP_TX, z, m')"
  obtains e where "map_kcache m (key_hash k mod BMC_CACHE_ENTRY_COUNT) = Some e" "entry_valid e \<noteq> 0"
    "entry_hash e = key_hash k" "length (entry_data e) = BMC_MAX_CACHE_DATA_SIZE"
    "take (unat (key_len k)) (drop 6 (entry_data e)) = take (unat (key_len k)) (key_data k)"
    "0 < reply_len (pkt x) e" "reply_len (pkt x) e + 5 \<le> length (pkt x)"
proof -
  obtain e where e: "map_kcache m (key_hash k mod BMC_CACHE_ENTRY_COUNT) = Some e" "length (entry_data e) = BMC_MAX_CACHE_DATA_SIZE"
    using assms(1) by (rule bmc_wf_entry)
  have kl: "length (key_data k) = BMC_MAX_KEY_LENGTH" using assms(1,5) by (auto simp: bmc_wf_def)
  obtain hit q w where cp: "copy_entry k e (pkt x) = Some (hit, q, w)" "length q = length (pkt x)"
    using copy_entry_safe [OF e(2) kl, of "pkt x"] by (auto simp: wp_iff)
  obtain s where s: "map_stats m 0 = Some s" using assms(1) by (auto simp: bmc_wf_def)
  have "0 < w \<and> w + 5 \<le> length (pkt x)"
    using assms(2-5,7) e(1) s cp
    by (auto simp: bmc_write_reply_main_def Let_def XDP_TX_def XDP_PASS_def XDP_DROP_def split: if_splits option.splits)
  then show thesis
    using copy_entry_written [OF cp(1) _ assms(6) e(2) kl] e that by auto
qed

lemma saved_key_prefix:
  assumes "reply_of key r" "take (length r) d = r" "take n (drop 6 d) = s" "32 \<notin> set s" "n \<le> length (drop 6 d)"
  shows "take n key = s"
proof -
  obtain rest where r: "r = [0x56, 0x41, 0x4C, 0x55, 0x45, 0x20] @ key @ 32 # rest"
    using assms(1) by (auto simp: reply_of_def)
  have d: "drop 6 d = key @ 32 # rest @ drop (length r) d"
    using arg_cong [OF append_take_drop_id [of "length r" d, unfolded assms(2), unfolded r], of "drop 6"] r by simp
  have "n \<le> length key"
  proof (rule ccontr)
    assume "\<not> n \<le> length key"
    then have "32 \<in> set (take n (drop 6 d))" unfolding d by (simp add: take_Cons')
    then show False using assms(3,4) by simp
  qed
  then show ?thesis using assms(3) unfolding d by simp
qed

text \<open>
  Property C12. The cache is transparent as long as the server keeps step: after any sequence of runs
  of the programs of bmc_kern.c, each run atomic, in which the server applies a SET in the step in
  which its segment passes the program (\<open>late_set_leaves_stale_entry\<close> shows what a later one does),
  what \<open>bmc_write_reply_main\<close> sends for the only key of a request is the headers, the server's
  current reply for a key that has the saved hash and starts with the saved key (up to whose
  length the bytes are compared), and \<open>END\<close>. Conditions: every SET that changes the store has
  \<open>set <key> \<close> in the first 1500 bytes of its segment with no other \<open>s\<close> in front; the server's replies have a value
  without a newline, are sent at the start of the payload, and \<open>skb_len\<close> is the frame's length; the
  saved key has at most 250 bytes and no space; the kernel grants the adjustments; the reply starts
  its packet, behind 50 bytes of headers.
\<close>

theorem cache_refines_store:
  assumes "bmc_system A m store" "bmc_env_ok A" "bmc_env_live A"
    and "map_parsing_context m 0 = Some c" "current_key c + 1 = key_count c" "write_pkt_offset c = 0"
    and "map_keys m (current_key c) = Some k" "unat (key_len k) \<le> BMC_MAX_KEY_LENGTH"
    and "32 \<notin> set (take (unat (key_len k)) (key_data k))"
    and "headroom x = room @ hdr" "length hdr = 50"
    and "bmc_write_reply_main A m x = Some (XDP_TX, z, m')"
  shows "\<exists>key r. store key = Some r \<and> fnv1a_char key = key_hash k \<and>
    take (unat (key_len k)) key = take (unat (key_len k)) (key_data k) \<and>
    pkt z = reply_headers hdr (length r + 5) @ r @ [0x45, 0x4E, 0x44, 0x0D, 0x0A]"
proof -
  have co: "coherent m store" by (rule bmc_system_coherent [OF assms(1)])
  then have wf: "bmc_wf m" by (simp add: coherent_def)
  obtain e where e: "map_kcache m (key_hash k mod BMC_CACHE_ENTRY_COUNT) = Some e" "entry_valid e \<noteq> 0"
      "entry_hash e = key_hash k" "length (entry_data e) = BMC_MAX_CACHE_DATA_SIZE"
      "take (unat (key_len k)) (drop 6 (entry_data e)) = take (unat (key_len k)) (key_data k)"
      "0 < reply_len (pkt x) e" "reply_len (pkt x) e + 5 \<le> length (pkt x)"
    by (rule write_reply_tx [OF wf assms(4-8,12)])
  obtain key r where r: "store key = Some r" "reply_of key r" "fnv1a_char key = key_hash k"
      "unat (entry_len e) = length r" "take (length r) (entry_data e) = r"
    using co e(1-3) unfolding coherent_def holds_reply_def by metis
  have l: "length r \<le> BMC_MAX_CACHE_DATA_SIZE" using arg_cong [OF r(5), of length] e(4) by simp
  then have n: "reply_len (pkt x) e = length r" using e(7) r(4) by (auto simp: reply_len_def)
  have "pkt z = reply_headers hdr (length r + 5) @ r @ [0x45, 0x4E, 0x44, 0x0D, 0x0A]"
    using write_reply_hit [OF wf assms(2-7) e(1-3) assms(8) e(5) _ _ _ assms(10,11)] e(6,7) n l assms(12) r(4,5)
    by simp
  moreover have "take (unat (key_len k)) key = take (unat (key_len k)) (key_data k)"
    by (rule saved_key_prefix [OF r(2,5) e(5) assms(9)]) (use e(4) assms(8) in \<open>simp add: bmc_consts\<close>)
  ultimately show ?thesis using r(1,3) by blast
qed


text \<open>The witness: a reply for the key \<open>k\<close> passes, and a GET for it is answered from the cache.\<close>

definition demo_reply :: bytes where
  "demo_reply = [0x56, 0x41, 0x4C, 0x55, 0x45, 0x20, 0x6B, 32, 0x30, 32, 0x31, 13, 10, 0x78, 13, 10]"

definition demo_reply_frame :: bytes where
  "demo_reply_frame = replicate 23 0 @ [17] @ replicate 10 0 @ [0x2B, 0xCB] @ replicate 14 0 @ demo_reply"

definition demo_saved_key :: memcached_key where
  "demo_saved_key = \<lparr>key_hash = 0, key_data = 0x6B # replicate 249 0, key_len = 0\<rparr>"

definition demo_system :: bmc_maps where
  "demo_system = demo_bmc\<lparr>map_keys := (\<lambda>i. if i < BMC_MAX_KEY_IN_PACKET then Some demo_saved_key else None)\<rparr>"

lemma demo_reply_of: "reply_of [0x6B] demo_reply"
  by (simp add: reply_of_def demo_reply_def bmc_consts)

lemma demo_system_start: "bmc_system A demo_system [[0x6B] \<mapsto> demo_reply]"
proof (rule sys_start)
  show "bmc_wf demo_system"
    by (simp add: demo_system_def demo_bmc_def demo_entry_def demo_saved_key_def bmc_wf_def bmc_consts)
  fix i e assume "map_kcache demo_system i = Some e"
  then show "entry_valid e = 0" by (auto simp: demo_system_def demo_bmc_def demo_entry_def split: if_splits)
qed (auto simp: demo_reply_of split: if_splits)

lemma demo_reply_passes:
  "\<exists>f. bmc_tx_filter_main True demo_system 66 demo_reply_frame = bmc_update_cache_main (bmc_stat f demo_system) demo_reply_frame"
proof -
  have p: "length demo_reply_frame = 66" "demo_reply_frame ! 23 = 17" "take 2 (drop 34 demo_reply_frame) = [0x2B, 0xCB]"
      "drop 50 demo_reply_frame = demo_reply"
    by (simp_all add: demo_reply_frame_def demo_reply_def nth_append)
  have "match_at demo_reply 0 [0x56, 0x41, 0x4C, 0x55, 0x45, 0x20] = Some True"
    by (simp add: demo_reply_def ld8_def)
  moreover have "bswap16 11211 = (0xCB2B :: u16)" by (simp add: bswap16_def)
  moreover obtain s where "map_stats demo_system 0 = Some s" by (simp add: demo_system_def demo_bmc_def)
  moreover have "6 \<le> length demo_reply" by (simp add: demo_reply_def)
  ultimately show ?thesis
    by (auto simp: bmc_tx_filter_main_def Let_def ld8_def ld16_def ldn_def p IPPROTO_UDP_def bmc_consts)
qed

definition demo_cached :: bmc_cache_entry where
  "demo_cached = demo_entry\<lparr>entry_data := put (entry_data demo_entry) 0 demo_reply, entry_len := 16,
     entry_valid := 1, entry_hash := fnv1a_char [0x6B]\<rparr>"

lemma demo_frame_props:
  "drop 50 demo_reply_frame = demo_reply @ []" "length demo_reply_frame = 66" "length demo_reply = 16"
  "newlines demo_reply = 2"
  by (simp_all add: demo_reply_frame_def demo_reply_def)

lemma demo_reply_cached:
  "\<exists>a m1. bmc_tx_filter_main True demo_system 66 demo_reply_frame = Some (a, m1) \<and>
    map_keys m1 = map_keys demo_system \<and> map_parsing_context m1 = map_parsing_context demo_system \<and>
    map_kcache m1 (slot [0x6B]) = Some demo_cached"
proof -
  have wf: "bmc_wf (bmc_stat f demo_system)" for f
    using bmc_system_coherent [OF demo_system_start] by (simp add: coherent_def)
  obtain f where f: "bmc_tx_filter_main True demo_system 66 demo_reply_frame =
      bmc_update_cache_main (bmc_stat f demo_system) demo_reply_frame"
    using demo_reply_passes by blast
  have tw: "takeWhile (\<lambda>c. c \<noteq> 32) (take BMC_MAX_KEY_LENGTH (drop 6 (demo_reply @ []))) = [0x6B]"
    by (simp add: demo_reply_def bmc_consts)
  have st: "stored_reply (demo_reply @ []) = demo_reply"
    by (rule stored_reply_of [OF demo_reply_of]) (simp add: demo_frame_props bmc_consts)
  have e: "map_kcache (bmc_stat f demo_system) (slot [0x6B]) = Some demo_entry" "entry_valid demo_entry = 0" for f
    by (simp_all add: demo_system_def demo_bmc_def demo_entry_def slot_def)
  show ?thesis
    using update_cache_result [OF wf demo_frame_props(1) tw, unfolded st Let_def demo_frame_props(4) simp_thms(6) if_True, of f] f e
    by (auto simp: wp_iff demo_cached_def demo_frame_props)
qed

theorem cache_refines_store_witness:
  "\<exists>m store x z m'. bmc_system demo_bmc_env m store \<and> bmc_write_reply_main demo_bmc_env m x = Some (XDP_TX, z, m') \<and>
    pkt z = reply_headers (replicate 50 0) 21 @ demo_reply @ [0x45, 0x4E, 0x44, 0x0D, 0x0A]"
proof -
  let ?store = "[[0x6B] \<mapsto> demo_reply] :: memcached_store"
  let ?x = "\<lparr>headroom = replicate 50 0, pkt = replicate 30 0\<rparr>" and ?y = "\<lparr>headroom = [], pkt = [0x6B, 13]\<rparr>"
  obtain a m1 where u: "bmc_tx_filter_main True demo_system 66 demo_reply_frame = Some (a, m1)"
      "map_keys m1 = map_keys demo_system" "map_parsing_context m1 = map_parsing_context demo_system"
      "map_kcache m1 (slot [0x6B]) = Some demo_cached"
    using demo_reply_cached by blast
  have s1: "bmc_system demo_bmc_env m1 ?store"
    by (rule sys_reply [OF demo_system_start _ demo_frame_props(1) _ u(1)]) (simp_all add: demo_frame_props)
  then have wf1: "bmc_wf m1" using bmc_system_coherent by (auto simp: coherent_def)
  have c: "map_parsing_context m1 0 = Some demo_pctx" "map_keys m1 (key_count demo_pctx) = Some demo_saved_key"
    by (simp_all add: u demo_system_def demo_bmc_def demo_pctx_def BMC_MAX_KEY_IN_PACKET_def)
  define k where "k = demo_saved_key\<lparr>key_hash := fnv1a_char [0x6B], key_len := 1\<rparr>"
  define m2 where "m2 = put_pctx (demo_pctx\<lparr>key_count := 1\<rparr>) (m1\<lparr>map_keys := (map_keys m1)(0 \<mapsto> k)\<rparr>)"
  have h: "bmc_hash_keys_main m1 ?y = Some (XDP_PASS, ?y, m2)"
    using hash_keys_result [OF wf1 _ c _ u(4), of ?y]
    by (simp add: demo_cached_def key_bytes_def bmc_consts m2_def k_def demo_pctx_def)
  have s2: "bmc_system demo_bmc_env m2 ?store" by (rule sys_hash [OF s1 h])
  then have wf2: "bmc_wf m2" using bmc_system_coherent by (auto simp: coherent_def)
  have e2: "map_kcache m2 (key_hash k mod BMC_CACHE_ENTRY_COUNT) = Some demo_cached" using u(4) by (simp add: m2_def k_def slot_def)
  have c2: "map_parsing_context m2 0 = Some (demo_pctx\<lparr>key_count := 1\<rparr>)" "map_keys m2 0 = Some k" by (simp_all add: m2_def)
  have kd: "take 1 (drop 6 (entry_data demo_cached)) = take 1 (key_data k)" "unat (entry_len demo_cached) = 16" "unat (key_len k) = 1"
    by (simp_all add: demo_cached_def demo_entry_def k_def bmc_consts demo_saved_key_def put_def demo_reply_def)
  obtain z m' where z: "bmc_write_reply_main demo_bmc_env m2 ?x = Some (XDP_TX, z, m')"
    using write_reply_hit [OF wf2 demo_bmc_env_ok demo_bmc_env_live c2(1) _ _ _ e2, of ?x "[]" "replicate 50 0"] c2 kd
    by (auto simp: wp_iff demo_cached_def demo_pctx_def k_def bmc_consts)
  have "\<exists>key r. ?store key = Some r \<and> fnv1a_char key = key_hash k \<and>
      take (unat (key_len k)) key = take (unat (key_len k)) (key_data k) \<and>
      pkt z = reply_headers (replicate 50 0) (length r + 5) @ r @ [0x45, 0x4E, 0x44, 0x0D, 0x0A]"
    by (rule cache_refines_store [OF s2 demo_bmc_env_ok demo_bmc_env_live c2(1) _ _ _ _ _ _ _ z])
      (use c2 kd in \<open>simp_all add: demo_pctx_def k_def demo_saved_key_def bmc_consts\<close>)
  then have "pkt z = reply_headers (replicate 50 0) 21 @ demo_reply @ [0x45, 0x4E, 0x44, 0x0D, 0x0A]"
    by (auto simp: demo_frame_props split: if_splits)
  then show ?thesis using s2 z by blast
qed


section \<open>Where the cache is not transparent\<close>

lemma update_fills:
  assumes "bmc_wf m" "dead (slot key) m" "drop 50 p = payload" "newlines (stored_reply payload) = 2"
    "takeWhile (\<lambda>c. c \<noteq> 32) (take BMC_MAX_KEY_LENGTH (drop 6 payload)) = key"
  shows "wp (bmc_update_cache_main m p) (\<lambda>(a, m'). \<exists>e. map_kcache m' (slot key) = Some e \<and> entry_valid e \<noteq> 0 \<and>
    entry_hash e = fnv1a_char key \<and> take (unat (entry_len e)) (entry_data e) = stored_reply payload)"
proof -
  have "length (stored_reply payload) \<le> BMC_MAX_CACHE_DATA_SIZE"
    unfolding stored_reply_def by (rule le_trans [OF length_upto_lines]) simp
  then have u: "unat (of_nat (length (stored_reply payload)) :: u32) = length (stored_reply payload)"
    by (simp add: unat_of_nat bmc_consts)
  show ?thesis
    using update_cache_result [OF assms(1,3,5), unfolded assms(4) simp_thms(6) if_True] assms(2) u
    by (auto simp: dead_def Let_def put_def elim!: wp_mono)
qed

text \<open>
  A value with a newline is cut at it: the entry is made valid after two lines, so of a reply
  \<open>r @ r'\<close> of two lines and more only \<open>r\<close> is kept, and later sent as the whole reply.
\<close>

lemma newline_value_truncated:
  assumes "bmc_wf m" "dead (slot key) m" "drop 50 p = r @ r'" "reply_of key r" "length r \<le> BMC_MAX_CACHE_DATA_SIZE"
  shows "wp (bmc_update_cache_main m p) (\<lambda>(a, m'). \<exists>e. map_kcache m' (slot key) = Some e \<and> entry_valid e \<noteq> 0 \<and>
    entry_hash e = fnv1a_char key \<and> take (unat (entry_len e)) (entry_data e) = r)"
proof -
  have s: "stored_reply (r @ r') = r" "newlines r = 2"
    using stored_reply_of [OF assms(4,5)] assms(4) by (simp_all add: reply_of_def)
  have "takeWhile (\<lambda>c. c \<noteq> 32) (take BMC_MAX_KEY_LENGTH (drop 6 (r @ r'))) = key"
    using assms(4) takeWhile_key [of key] by (auto simp: reply_of_def simp del: take_append take_Cons')
  from update_fills [OF assms(1-3) _ this] show ?thesis by (simp add: s)
qed

text \<open>
  A SET that the server applies after the program has seen it leaves a stale entry when a reply
  with the old value leaves in between: the reply fills the entry that the SET had cleared, and
  the system is not coherent once the server has the new value.
\<close>

lemma late_set_leaves_stale_entry:
  assumes "coherent m store" "dead (slot key) m" "store key = Some r" "drop 50 p = r @ rest"
    "length r \<le> BMC_MAX_CACHE_DATA_SIZE" "r' \<noteq> r"
  shows "wp (bmc_update_cache_main m p) (\<lambda>(a, m'). \<not> coherent m' (store(key \<mapsto> r')))"
proof -
  have rk: "reply_of key r" "bmc_wf m" using assms(1,3) by (auto simp: coherent_def)
  have one: "k = key" if "reply_of k r" for k
  proof -
    have "takeWhile (\<lambda>c. c \<noteq> 32) (drop 6 r) = j" if "reply_of j r" for j
      using that by (auto simp: reply_of_def takeWhile_append)
    from this [OF that] this [OF rk(1)] show ?thesis by simp
  qed
  have "\<not> holds_reply (store(key \<mapsto> r')) (slot key) e" if "take (unat (entry_len e)) (entry_data e) = r" for e
  proof
    assume "holds_reply (store(key \<mapsto> r')) (slot key) e"
    then obtain j q where q: "(store(key \<mapsto> r')) j = Some q" "reply_of j q" "take (length q) (entry_data e) = q"
        "unat (entry_len e) = length q"
      unfolding holds_reply_def by blast
    then have "q = r" using that by simp
    then show False using one q assms(6) by simp
  qed
  then show ?thesis
    using newline_value_truncated [OF rk(2) assms(2,4) rk(1) assms(5)]
    by (fastforce simp: coherent_def elim!: wp_mono)
qed

text \<open>
  The saved key is never copied (the loop is commented out in \<open>bmc_hash_keys_main\<close>): on maps as
  the kernel creates them its bytes are 0, and no entry of a key without a zero byte is copied.
\<close>

lemma uncopied_key_is_no_hit:
  assumes "length (entry_data e) = BMC_MAX_CACHE_DATA_SIZE" "key_data k = replicate BMC_MAX_KEY_LENGTH 0"
    "0 < unat (key_len k)" "unat (key_len k) \<le> BMC_MAX_KEY_LENGTH" "reply_of key r" "take (length r) (entry_data e) = r"
    "key \<noteq> []" "hd key \<noteq> 0" "copy_entry k e p = Some (hit, q, w)"
  shows "w = 0"
proof (rule ccontr)
  assume "w \<noteq> 0"
  then have t: "take (unat (key_len k)) (drop 6 (entry_data e)) = take (unat (key_len k)) (key_data k)"
    using copy_entry_written [OF assms(9) _ assms(4,1)] assms(2) by simp
  then have "take (unat (key_len k)) key = take (unat (key_len k)) (key_data k)"
    by (intro saved_key_prefix [OF assms(5,6) t]) (use assms(1,2,4) in \<open>auto simp: bmc_consts\<close>)
  then have "hd key = 0" using assms(2,3,7) by (cases key; cases "unat (key_len k)") (auto simp: bmc_consts)
  then show False using assms(8) by simp
qed

text \<open>
  Keys are told apart by their hash and by the bytes of the shorter one: \<open>k\<close> and \<open>kwup0r2\<close> have
  the same hash, so a GET for \<open>k\<close> that finds the reply for \<open>kwup0r2\<close> in the cache is answered
  with it.
\<close>

definition colliding_key :: bytes where
  "colliding_key = [0x6B, 0x77, 0x75, 0x70, 0x30, 0x72, 0x32]"

lemma colliding_hash: "fnv1a_char colliding_key = fnv1a_char [0x6B]"
  by (simp add: colliding_key_def fnv1a_char_def fnv_step_char_def FNV_OFFSET_BASIS_32_def FNV_PRIME_32_def)

lemma colliding_key_served:
  assumes "bmc_wf m" "bmc_env_ok A" "bmc_env_live A"
    "map_parsing_context m 0 = Some c" "current_key c + 1 = key_count c" "write_pkt_offset c = 0"
    "map_keys m (current_key c) = Some k" "key_hash k = fnv1a_char [0x6B]" "key_len k = 1" "key_data k ! 0 = 0x6B"
    "map_kcache m (slot colliding_key) = Some e" "entry_valid e \<noteq> 0" "entry_hash e = fnv1a_char colliding_key"
    "reply_of colliding_key r" "unat (entry_len e) = length r" "take (length r) (entry_data e) = r"
    "length r + 5 \<le> length (pkt x)" "headroom x = room @ hdr" "length hdr = 50"
  shows "wp (bmc_write_reply_main A m x) (\<lambda>(a, z, m'). a = XDP_TX \<and>
    pkt z = reply_headers hdr (length r + 5) @ r @ [0x45, 0x4E, 0x44, 0x0D, 0x0A])"
proof -
  have len: "length (entry_data e) = BMC_MAX_CACHE_DATA_SIZE" "length (key_data k) = BMC_MAX_KEY_LENGTH"
    using assms(1,7,11) by (auto simp: bmc_wf_def)
  obtain rest where r: "r = [0x56, 0x41, 0x4C, 0x55, 0x45, 0x20] @ colliding_key @ 32 # rest"
    using assms(14) by (auto simp: reply_of_def)
  have "entry_data e ! 6 = r ! 6" using arg_cong [OF assms(16), of "\<lambda>xs. xs ! 6"] r by (simp add: colliding_key_def)
  then have d: "entry_data e ! 6 = 0x6B" by (simp add: r colliding_key_def)
  have t: "take (unat (key_len k)) (drop 6 (entry_data e)) = take (unat (key_len k)) (key_data k)"
    using assms(9,10) d len by (intro nth_equalityI) (auto simp: bmc_consts)
  have e: "map_kcache m (key_hash k mod BMC_CACHE_ENTRY_COUNT) = Some e"
    using assms(8,11) by (simp add: slot_def colliding_hash)
  have l: "length r \<le> BMC_MAX_CACHE_DATA_SIZE" using arg_cong [OF assms(16), of length] len by simp
  show ?thesis
    using write_reply_hit [OF assms(1-7) e assms(12) _ _ t _ _ _ assms(18,19)] assms(8,9,13,15-17) l r
    by (simp add: colliding_hash bmc_consts)
qed

end
