(* ===== verification/Firewall.thy ===== *)
theory Firewall
  imports Net_Headers "HOL-Library.Multiset"
begin

text \<open>
  The stateful firewall of src/examples/fw/xdp_fw_kern.h: packets from inside open a flow,
  packets from outside are let through if their flow was opened. Flows are looked up by a key
  that \<open>biflow\<close> makes independent of the direction.

  \<open>bpf_map_update_elem\<close> on the hash map is a parameter: it may fail, and its result is not
  looked at. In this version of the source the redirects are commented out, 0 stands for them.
\<close>

section \<open>The program\<close>

definition A_PORT :: u8 where "A_PORT = 6"
definition B_PORT :: u32 where "B_PORT = 7"

record flow_ctx_table_key =
  fw_ip_proto :: u16
  l4_src :: u16
  l4_dst :: u16
  ip_src :: u32
  ip_dst :: u32

record flow_ctx_table_leaf =
  fw_out_port :: u8
  fw_in_port :: u16

type_synonym flow_table = "flow_ctx_table_key \<rightharpoonup> flow_ctx_table_leaf"
type_synonym flow_update = "flow_table \<Rightarrow> flow_ctx_table_key \<Rightarrow> flow_ctx_table_leaf \<Rightarrow> flow_table"

definition biflow :: "flow_ctx_table_key \<Rightarrow> flow_ctx_table_key" where
  "biflow k =
     (let k = (if ip_src k > ip_dst k then k\<lparr>ip_src := ip_dst k, ip_dst := ip_src k\<rparr> else k) in
      if l4_src k > l4_dst k then k\<lparr>l4_src := l4_dst k, l4_dst := l4_src k\<rparr> else k)"

text \<open>The key of a TCP or UDP packet; \<open>None\<close> inside is the jump to \<open>EOP\<close>.\<close>

definition fw_flow_key :: "bytes \<Rightarrow> flow_ctx_table_key option option" where
  "fw_flow_key p =
     (let nh_off = sizeof_eth in
      if nh_off > length p then Some None
      else do {
        h_proto \<leftarrow> ld16 p 12;
        if h_proto \<noteq> 8 then Some None
        else
          let ip = nh_off; nh_off = nh_off + sizeof_iphdr in
          if nh_off > length p then Some None
          else do {
            protocol \<leftarrow> ld8 p (ip + 9);
            if protocol \<noteq> IPPROTO_TCP \<and> protocol \<noteq> IPPROTO_UDP then Some None
            else
              let l4 = nh_off; nh_off = nh_off + sizeof_udphdr in
              if nh_off > length p then Some None
              else do {
                saddr \<leftarrow> ld32 p (ip + 12); daddr \<leftarrow> ld32 p (ip + 16);
                source \<leftarrow> ld16 p l4; dest \<leftarrow> ld16 p (l4 + 2);
                Some (Some \<lparr>fw_ip_proto = ucast protocol, l4_src = source, l4_dst = dest,
                            ip_src = saddr, ip_dst = daddr\<rparr>) } } })"

definition xdp_fw_prog :: "flow_update \<Rightarrow> flow_table \<Rightarrow> u32 \<Rightarrow> bytes \<Rightarrow> (int \<times> flow_table) option" where
  "xdp_fw_prog upd t ingress_ifindex p =
     do { k \<leftarrow> fw_flow_key p;
          case k of None \<Rightarrow> Some (XDP_DROP, t)
          | Some k \<Rightarrow>
            let flow_key = biflow k in
            if ingress_ifindex = B_PORT then
              (case t flow_key of Some _ \<Rightarrow> Some (0, t) | None \<Rightarrow> Some (XDP_DROP, t))
            else
              (case t flow_key of
                 None \<Rightarrow> Some (0, upd t flow_key \<lparr>fw_out_port = A_PORT, fw_in_port = ucast B_PORT\<rparr>)
               | Some _ \<Rightarrow> Some (0, t)) }"

section \<open>Flow keys\<close>

text \<open>The documented behaviour of the update: it stores the binding, or fails and changes nothing.\<close>

definition hash_update_ok :: "flow_update \<Rightarrow> bool" where
  "hash_update_ok upd \<longleftrightarrow> (\<forall>t k v. upd t k v = t(k \<mapsto> v) \<or> upd t k v = t)"

definition reverse_flow :: "flow_ctx_table_key \<Rightarrow> flow_ctx_table_key" where
  "reverse_flow k = k\<lparr>ip_src := ip_dst k, ip_dst := ip_src k, l4_src := l4_dst k, l4_dst := l4_src k\<rparr>"

lemma fw_key_eqI:
  "fw_ip_proto k = fw_ip_proto k' \<Longrightarrow> l4_src k = l4_src k' \<Longrightarrow> l4_dst k = l4_dst k' \<Longrightarrow>
    ip_src k = ip_src k' \<Longrightarrow> ip_dst k = ip_dst k' \<Longrightarrow> k = (k' :: flow_ctx_table_key)"
  by simp

lemma biflow_fields [simp]:
  "fw_ip_proto (biflow k) = fw_ip_proto k"
  "ip_src (biflow k) = min (ip_src k) (ip_dst k)" "ip_dst (biflow k) = max (ip_src k) (ip_dst k)"
  "l4_src (biflow k) = min (l4_src k) (l4_dst k)" "l4_dst (biflow k) = max (l4_src k) (l4_dst k)"
  by (auto simp: biflow_def Let_def min_def max_def)

lemma min_max_eq_iff:
  fixes a b c d :: "'a::linorder"
  shows "min a b = min c d \<and> max a b = max c d \<longleftrightarrow> {#a, b#} = {#c, d#}"
  by (auto simp: min_def max_def add_eq_conv_ex split: if_splits)

text \<open>
  The flow key is the same for both directions of a flow, and what it identifies
  exactly: protocol, the two addresses in any order, and, independently of them, the two ports in
  any order. So \<open>a:p to b:q\<close> and \<open>a:q to b:p\<close>, two different connections, share one key.
\<close>

lemma biflow_equal_iff:
  "biflow (reverse_flow k) = biflow k \<and>
   (biflow k = biflow k' \<longleftrightarrow> fw_ip_proto k = fw_ip_proto k' \<and>
      {#ip_src k, ip_dst k#} = {#ip_src k', ip_dst k'#} \<and> {#l4_src k, l4_dst k#} = {#l4_src k', l4_dst k'#})"
proof
  show "biflow (reverse_flow k) = biflow k"
    by (rule fw_key_eqI) (simp_all add: reverse_flow_def min.commute max.commute)
  have "biflow k = biflow k' \<longleftrightarrow> fw_ip_proto k = fw_ip_proto k' \<and>
      (min (ip_src k) (ip_dst k) = min (ip_src k') (ip_dst k') \<and> max (ip_src k) (ip_dst k) = max (ip_src k') (ip_dst k')) \<and>
      (min (l4_src k) (l4_dst k) = min (l4_src k') (l4_dst k') \<and> max (l4_src k) (l4_dst k) = max (l4_src k') (l4_dst k'))"
    by (metis biflow_fields fw_key_eqI)
  then show "biflow k = biflow k' \<longleftrightarrow> fw_ip_proto k = fw_ip_proto k' \<and>
      {#ip_src k, ip_dst k#} = {#ip_src k', ip_dst k'#} \<and> {#l4_src k, l4_dst k#} = {#l4_src k', l4_dst k'#}"
    unfolding min_max_eq_iff .
qed

section \<open>Runs of the firewall\<close>

text \<open>
  A step processes one packet and adds it to the history, newest first, with its interface and
  the verdict.
\<close>

type_synonym fw_event = "u32 \<times> bytes \<times> int"

inductive fw_run :: "flow_update \<Rightarrow> flow_table \<Rightarrow> fw_event list \<Rightarrow> bool" for upd where
  fw_start: "fw_run upd Map.empty []"
| fw_packet: "fw_run upd t h \<Longrightarrow> xdp_fw_prog upd t port p = Some (v, t') \<Longrightarrow> fw_run upd t' ((port, p, v) # h)"

inductive_cases fw_run_ConsE: "fw_run upd t (e # h)"

definition opened_by :: "flow_ctx_table_key \<Rightarrow> fw_event list \<Rightarrow> bool" where
  "opened_by key h \<longleftrightarrow> (\<exists>(port, p, v) \<in> set h. port \<noteq> B_PORT \<and> (\<exists>k. fw_flow_key p = Some (Some k) \<and> biflow k = key))"

lemma fw_flow_key_total: "\<exists>k. fw_flow_key p = Some k"
proof -
  have "wp (fw_flow_key p) (\<lambda>_. True)"
    by (auto simp: fw_flow_key_def Let_def wp_rules)
  then show ?thesis by (auto simp: wp_iff)
qed

lemma xdp_fw_prog_total: "\<exists>v t'. xdp_fw_prog upd t port p = Some (v, t')"
  using fw_flow_key_total [of p] by (auto simp: xdp_fw_prog_def Let_def split: option.splits)

lemma opened_by_Cons [simp]: "opened_by key h \<Longrightarrow> opened_by key (e # h)"
  by (auto simp: opened_by_def)

lemma fw_run_table:
  assumes "hash_update_ok upd" "fw_run upd t h" "t key = Some leaf"
  shows "opened_by key h"
  using assms(2,3)
proof (induction arbitrary: leaf)
  case (fw_packet t h port p v t')
  obtain k where k: "fw_flow_key p = Some k" using fw_flow_key_total by blast
  show ?case
  proof (cases "t key")
    case (Some l)
    then show ?thesis using fw_packet.IH by simp
  next
    case None
    then obtain k' where "k = Some k'" "port \<noteq> B_PORT" "biflow k' = key"
      using fw_packet.hyps(2) fw_packet.prems assms(1) k
      by (auto simp: xdp_fw_prog_def hash_update_ok_def Let_def split: option.splits if_splits)
        (metis fun_upd_other option.distinct(1))+
    then show ?thesis using k by (auto simp: opened_by_def)
  qed
qed simp

text \<open>
  What the table cannot tell apart: the same protocol and the same addresses and the same ports,
  each pair in any order.
\<close>

definition same_entry :: "flow_ctx_table_key \<Rightarrow> flow_ctx_table_key \<Rightarrow> bool" where
  "same_entry k k' \<longleftrightarrow> fw_ip_proto k = fw_ip_proto k' \<and>
     {#ip_src k, ip_dst k#} = {#ip_src k', ip_dst k'#} \<and> {#l4_src k, l4_dst k#} = {#l4_src k', l4_dst k'#}"

lemma opened_by_iff:
  "opened_by (biflow k) h \<longleftrightarrow>
    (\<exists>port p v k'. (port, p, v) \<in> set h \<and> port \<noteq> B_PORT \<and> fw_flow_key p = Some (Some k') \<and> same_entry k k')"
  unfolding opened_by_def same_entry_def using biflow_equal_iff by fastforce


definition demo_frame :: bytes where
  "demo_frame = replicate 12 0 @ [8, 0] @ [0x45, 0, 0, 0, 0, 0, 0, 0, 0, 6, 0, 0, 1, 0, 0, 0, 2, 0, 0, 0] @ [1, 0, 2, 0, 0, 0, 0, 0]"

lemma demo_frame_key:
  "fw_flow_key demo_frame = Some (Some \<lparr>fw_ip_proto = 6, l4_src = 1, l4_dst = 2, ip_src = 1, ip_dst = 2\<rparr>)"
proof -
  have "wp (fw_flow_key demo_frame)
      (\<lambda>k. k = Some \<lparr>fw_ip_proto = 6, l4_src = 1, l4_dst = 2, ip_src = 1, ip_dst = 2\<rparr>)"
    by (simp add: fw_flow_key_def demo_frame_def wp_rules nth_append)
  then show ?thesis by (auto simp: wp_iff)
qed


end
