(* ===== verification/Electrode.thy ===== *)
theory Electrode
  imports Csum Net_Headers
begin

text \<open>
  The Paxos offload of src/examples/electrode/fast_kern.c: the dispatcher, the leader's counting
  of PrepareOK messages, the replica's handling of Prepare messages with the buffer it hands to
  user space, and the reply built in place.

  The build switches \<open>FAST_REPLY\<close>, \<open>FAST_QUORUM_PRUNE\<close> and \<open>KLEE_VERIFICATION\<close> are booleans.
  Under \<open>KLEE_VERIFICATION\<close> the next program is a function call whose result is dropped;
  otherwise it is a tail call, which runs the program registered at the index and does not
  return. \<open>bpf_ringbuf_reserve\<close> is a parameter: it returns a buffer of unspecified contents, or
  fails.
\<close>

section \<open>State\<close>

definition CLUSTER_SIZE :: nat where "CLUSTER_SIZE = 3"
definition QUORUM_SIZE :: nat where "QUORUM_SIZE = (CLUSTER_SIZE + 1) div 2"
definition QUORUM_BITSET_ENTRY :: u32 where "QUORUM_BITSET_ENTRY = 1024"
definition FAST_REPLICA_MAX :: u32 where "FAST_REPLICA_MAX = 100"
definition NONFRAG_MAGIC :: u32 where "NONFRAG_MAGIC = 0x20050318"
definition MAGIC_LEN :: nat where [simp]: "MAGIC_LEN = 4"
definition PREPARE_TYPE_LEN :: nat where [simp]: "PREPARE_TYPE_LEN = 33"
definition REQUEST_TYPE_LEN :: nat where [simp]: "REQUEST_TYPE_LEN = 33"
definition PREPAREOK_TYPE_LEN :: nat where [simp]: "PREPAREOK_TYPE_LEN = 35"
definition MYPREPAREOK_TYPE_LEN :: nat where [simp]: "MYPREPAREOK_TYPE_LEN = 24"
definition FAST_PAXOS_DATA_LEN :: nat where [simp]: "FAST_PAXOS_DATA_LEN = 12"
definition MTU :: nat where "MTU = 1500"
definition MAX_DATA_LEN :: nat where "MAX_DATA_LEN = 64"
definition REQ_MAX_DATA_LEN :: nat where "REQ_MAX_DATA_LEN = 128"

datatype replica_status = STATUS_NORMAL | STATUS_VIEW_CHANGE | STATUS_RECOVERING

record paxos_configure =
  leader_addr :: u32
  leader_port :: u16
  leader_eth :: bytes

record paxos_quorum =
  q_view :: u32
  q_opnum :: u32
  q_bitset :: u32

record paxos_ctr_state =
  replica_state :: replica_status
  myIdx :: u32
  leaderIdx :: u32
  batchSize :: u32
  cview :: u64
  clastOp :: u64

record fast_maps =
  map_configure :: "u32 \<rightharpoonup> paxos_configure"
  map_ctr_state :: "u32 \<rightharpoonup> paxos_ctr_state"
  map_msg_lastOp :: "u32 \<rightharpoonup> u64"
  map_quorum :: "u32 \<rightharpoonup> paxos_quorum"
  batch_context :: "u32 \<rightharpoonup> u32"
  map_prepare_buffer :: "bytes list"
  map_request_buffer :: "bytes list"

record fast_env =
  ringbuf_reserve :: "fast_maps \<Rightarrow> nat \<Rightarrow> bytes option"
  FAST_REPLY :: bool
  FAST_QUORUM_PRUNE :: bool
  KLEE_VERIFICATION :: bool
  progs_registered :: "nat \<Rightarrow> bool"

definition ringbuf_ok :: "fast_env \<Rightarrow> bool" where
  "ringbuf_ok E \<longleftrightarrow> (\<forall>m n b. ringbuf_reserve E m n = Some b \<longrightarrow> length b = n)"

type_synonym fast_result = "(int \<times> bytes \<times> fast_maps) option"

text \<open>Running the program at index \<open>i\<close> of \<open>map_progs_xdp\<close>, and passing the packet afterwards.\<close>

definition run_prog :: "fast_env \<Rightarrow> nat \<Rightarrow> (bytes \<Rightarrow> fast_maps \<Rightarrow> fast_result) \<Rightarrow> bytes \<Rightarrow> fast_maps \<Rightarrow> fast_result" where
  "run_prog E i f p m =
     (if KLEE_VERIFICATION E then do { (r, p, m) \<leftarrow> f p m; Some (XDP_PASS, p, m) }
      else if progs_registered E i then f p m
      else Some (XDP_PASS, p, m))"

definition FAST_PROG_XDP_HANDLE_PREPARE :: nat where "FAST_PROG_XDP_HANDLE_PREPARE = 0"
definition FAST_PROG_XDP_HANDLE_PREPAREOK :: nat where "FAST_PROG_XDP_HANDLE_PREPAREOK = 2"
definition FAST_PROG_XDP_WRITE_BUFFER :: nat where "FAST_PROG_XDP_WRITE_BUFFER = 3"
definition FAST_PROG_XDP_PREPARE_REPLY :: nat where "FAST_PROG_XDP_PREPARE_REPLY = 4"

definition udp_payload :: nat where [simp]: "udp_payload = sizeof_eth + sizeof_iphdr + sizeof_udphdr"

section \<open>The reply (\<open>PrepareFastReply_main\<close>)\<close>

text \<open>\<open>MyPrepareOK\<close>, written over the type string from byte 13 on.\<close>

definition my_prepare_ok :: bytes where
  "my_prepare_ok = [0x4D, 0x79, 0x50, 0x72, 0x65, 0x70, 0x61, 0x72, 0x65, 0x4F, 0x4B]"

fun st_bytes :: "bytes \<Rightarrow> nat \<Rightarrow> bytes \<Rightarrow> bytes option" where
  "st_bytes p off [] = Some p"
| "st_bytes p off (b # bs) = do { p \<leftarrow> st8 p off b; st_bytes p (off + 1) bs }"

definition reply_headers_out :: "bytes \<Rightarrow> nat \<Rightarrow> paxos_configure \<Rightarrow> bytes option" where
  "reply_headers_out p payload leaderInfo =
     (let ip = sizeof_eth; udp = sizeof_eth + sizeof_iphdr in
      do { dest \<leftarrow> ld16 p (udp + 2);
           p \<leftarrow> st16 p udp dest;
           p \<leftarrow> st16 p (udp + 2) (leader_port leaderInfo);
           p \<leftarrow> st16 p (udp + 4) (of_nat (payload - udp));
           p \<leftarrow> st16 p (udp + 6) 0;
           p \<leftarrow> st16 p (ip + 2) (of_nat (payload - udp + sizeof_iphdr));
           daddr \<leftarrow> ld32 p (ip + 16);
           p \<leftarrow> st32 p (ip + 12) daddr;
           p \<leftarrow> st32 p (ip + 16) (leader_addr leaderInfo);
           (csum, p) \<leftarrow> compute_ip_checksum p ip;
           p \<leftarrow> st16 p (ip + 10) csum;
           tmp_mac \<leftarrow> ldn p 6 6; h_dest \<leftarrow> ldn p 0 6;
           p \<leftarrow> stn p 6 h_dest;
           stn p 0 tmp_mac })"

definition PrepareFastReply_main :: "bytes \<Rightarrow> fast_maps \<Rightarrow> fast_result" where
  "PrepareFastReply_main p m =
     (let payload = udp_payload in
      if payload + MAGIC_LEN + 8 + PREPARE_TYPE_LEN + FAST_PAXOS_DATA_LEN + 8 \<ge> length p then Some (XDP_PASS, p, m)
      else case (map_msg_lastOp m 0, map_ctr_state m 0) of
        (Some msg_lastOp, Some ctr_state) \<Rightarrow>
          (case map_configure m (leaderIdx ctr_state) of None \<Rightarrow> Some (XDP_PASS, p, m)
           | Some leaderInfo \<Rightarrow>
             do { p \<leftarrow> st32 p payload NONFRAG_MAGIC;
                  let payload = payload + 4;
                  p \<leftarrow> st64 p payload (of_nat MYPREPAREOK_TYPE_LEN);
                  let payload = payload + 8;
                  p \<leftarrow> st_bytes p (payload + 13) my_prepare_ok;
                  let payload = payload + MYPREPAREOK_TYPE_LEN;
                  p \<leftarrow> st32 p payload (ucast (cview ctr_state));
                  p \<leftarrow> st32 p (payload + 4) (ucast msg_lastOp);
                  p \<leftarrow> st32 p (payload + 8) (myIdx ctr_state);
                  let payload = payload + FAST_PAXOS_DATA_LEN;
                  if payload + 8 * 3 + 4 > length p then Some (XDP_PASS, p, m)
                  else do {
                    p \<leftarrow> st64 p payload (8 * 2 + 4);
                    p \<leftarrow> st64 p (payload + 8) (cview ctr_state);
                    p \<leftarrow> st64 p (payload + 16) msg_lastOp;
                    let payload = payload + 8 * 3;
                    p \<leftarrow> st32 p payload (myIdx ctr_state);
                    let payload = payload + 4;
                    p \<leftarrow> reply_headers_out p payload leaderInfo;
                    Some (XDP_TX, p, m) } })
      | _ \<Rightarrow> Some (XDP_PASS, p, m))"

section \<open>Buffering for user space\<close>

text \<open>The copy loop writes every byte of the buffer that the packet has.\<close>

fun ring_copy :: "nat \<Rightarrow> bytes \<Rightarrow> nat \<Rightarrow> bytes \<Rightarrow> nat \<Rightarrow> nat \<Rightarrow> bytes option" where
  "ring_copy 0 p payload pt base i = Some pt"
| "ring_copy (Suc k) p payload pt base i =
     do { pt \<leftarrow> if payload + i + 1 \<le> length p then do { b \<leftarrow> ld8 p (payload + i); st8 pt (base + i) b } else Some pt;
          ring_copy k p payload pt base (i + 1) }"

definition WriteBuffer_main :: "fast_env \<Rightarrow> bytes \<Rightarrow> fast_maps \<Rightarrow> fast_result" where
  "WriteBuffer_main E p m =
     (let payload = udp_payload + MAGIC_LEN + 8 + PREPARE_TYPE_LEN + FAST_PAXOS_DATA_LEN in
      if payload \<ge> length p then Some (XDP_PASS, p, m)
      else if payload + MAX_DATA_LEN < length p then Some (XDP_PASS, p, m)
      else case ringbuf_reserve E m MAX_DATA_LEN of None \<Rightarrow> Some (XDP_PASS, p, m)
        | Some pt \<Rightarrow>
          do { pt \<leftarrow> ring_copy MAX_DATA_LEN p payload pt 0 0;
               let m = m\<lparr>map_prepare_buffer := map_prepare_buffer m @ [pt]\<rparr>;
               run_prog E FAST_PROG_XDP_PREPARE_REPLY PrepareFastReply_main p m })"

section \<open>Prepare messages\<close>

definition HandlePrepare_main :: "fast_env \<Rightarrow> bytes \<Rightarrow> fast_maps \<Rightarrow> fast_result" where
  "HandlePrepare_main E p m =
     (let payload = udp_payload in
      if payload + MAGIC_LEN + 8 + PREPARE_TYPE_LEN + FAST_PAXOS_DATA_LEN > length p then Some (XDP_PASS, p, m)
      else
        let payload = payload + MAGIC_LEN + 8 + PREPARE_TYPE_LEN in
        do { v \<leftarrow> ld32 p payload; l \<leftarrow> ld32 p (payload + 4); b \<leftarrow> ld32 p (payload + 8);
             let msg_view = (ucast v :: u64); let msg_lastOp = (ucast l :: u64); let msg_batchStart = (ucast b :: u64);
             case (map_msg_lastOp m 0, map_ctr_state m 0) of
               (Some _, Some ctr_state) \<Rightarrow>
                 if replica_state ctr_state \<noteq> STATUS_NORMAL then Some (XDP_DROP, p, m)
                 else if msg_view < cview ctr_state then Some (XDP_DROP, p, m)
                 else if msg_view > cview ctr_state then Some (XDP_PASS, p, m)
                 else if msg_lastOp \<le> clastOp ctr_state then
                   run_prog E FAST_PROG_XDP_PREPARE_REPLY PrepareFastReply_main p m
                 else if msg_batchStart > clastOp ctr_state + 1 then Some (XDP_PASS, p, m)
                 else
                   let m = m\<lparr>map_msg_lastOp := (map_msg_lastOp m)(0 \<mapsto> msg_lastOp),
                             map_ctr_state := (map_ctr_state m)(0 \<mapsto> ctr_state\<lparr>clastOp := msg_lastOp\<rparr>)\<rparr> in
                   run_prog E FAST_PROG_XDP_WRITE_BUFFER (WriteBuffer_main E) p m
             | _ \<Rightarrow> Some (XDP_PASS, p, m) })"

section \<open>PrepareOK messages\<close>

definition popcount :: "u32 \<Rightarrow> nat" where
  "popcount w = length (filter (bit w) [0..<32])"

text \<open>\<open>1 << msg_replicaIdx\<close> is undefined in C for 32 and more: \<open>None\<close>.\<close>

definition HandlePrepareOK_main :: "bytes \<Rightarrow> fast_maps \<Rightarrow> fast_result" where
  "HandlePrepareOK_main p m =
     (if FAST_PAXOS_DATA_LEN > length p then Some (XDP_DROP, p, m)
      else do {
        msg_view \<leftarrow> ld32 p 0; msg_opnum \<leftarrow> ld32 p 4; msg_replicaIdx \<leftarrow> ld32 p 8;
        let idx = msg_opnum AND (QUORUM_BITSET_ENTRY - 1);
        case map_quorum m idx of None \<Rightarrow> Some (XDP_PASS, p, m)
        | Some entry \<Rightarrow>
          if q_view entry \<noteq> msg_view \<or> q_opnum entry \<noteq> msg_opnum then Some (XDP_PASS, p, m)
          else if 32 \<le> unat msg_replicaIdx then None
          else
            let entry = entry\<lparr>q_bitset := q_bitset entry OR push_bit (unat msg_replicaIdx) 1\<rparr>;
                m = m\<lparr>map_quorum := (map_quorum m)(idx \<mapsto> entry)\<rparr>;
                count = popcount (q_bitset entry) in
            if count \<noteq> QUORUM_SIZE - 1 then Some (XDP_DROP, p, m) else Some (XDP_PASS, p, m) })"

section \<open>Request messages\<close>

definition HandleRequest_main :: "fast_env \<Rightarrow> bytes \<Rightarrow> fast_maps \<Rightarrow> fast_result" where
  "HandleRequest_main E p m =
     (let ip = sizeof_eth; udp = sizeof_eth + sizeof_iphdr;
          payload = udp_payload + (MAGIC_LEN + 8 + REQUEST_TYPE_LEN + FAST_PAXOS_DATA_LEN) in
      if payload > length p then Some (XDP_PASS, p, m)
      else case (batch_context m 0, map_ctr_state m 0) of
        (Some counter, Some ctr_state) \<Rightarrow>
          if batchSize ctr_state = 0 then None
          else
            let num = (counter + 1) mod batchSize ctr_state; m = m\<lparr>batch_context := (batch_context m)(0 \<mapsto> num)\<rparr> in
            if num = 0 then Some (XDP_PASS, p, m)
            else if payload + REQ_MAX_DATA_LEN < length p then Some (XDP_PASS, p, m)
            else (case ringbuf_reserve E m (REQ_MAX_DATA_LEN + 2 + 4) of None \<Rightarrow> Some (XDP_DROP, p, m)
                  | Some pt \<Rightarrow>
                    do { source \<leftarrow> ld16 p udp; pt \<leftarrow> st16 pt 0 source;
                         saddr \<leftarrow> ld32 p (ip + 12); pt \<leftarrow> st32 pt 2 saddr;
                         pt \<leftarrow> ring_copy REQ_MAX_DATA_LEN p payload pt 6 0;
                         Some (XDP_DROP, p, m\<lparr>map_request_buffer := map_request_buffer m @ [pt]\<rparr>) })
      | _ \<Rightarrow> Some (XDP_PASS, p, m))"

section \<open>Message types (compute_message_type.c)\<close>

fun chars_at :: "bytes \<Rightarrow> nat \<Rightarrow> (nat \<times> u8) list \<Rightarrow> bool option" where
  "chars_at p payload [] = Some True"
| "chars_at p payload ((i, c) # cs) =
     do { b \<leftarrow> ld8 p (payload + i); if b = c then chars_at p payload cs else Some False }"

definition type_is :: "bytes \<Rightarrow> nat \<Rightarrow> nat \<Rightarrow> (nat \<times> u8) list \<Rightarrow> bool option" where
  "type_is p payload len cs = (if payload + len < length p then chars_at p payload cs else Some False)"

definition compute_message_type :: "bytes \<Rightarrow> nat \<Rightarrow> int option" where
  "compute_message_type p payload =
     do { prepare \<leftarrow> type_is p payload PREPARE_TYPE_LEN [(10, 0x76), (11, 0x72), (19, 0x50), (20, 0x72),
            (21, 0x65), (22, 0x70), (23, 0x61), (24, 0x72), (25, 0x65), (26, 0x4D)];
          if prepare then Some 0 else
     do { request \<leftarrow> type_is p payload REQUEST_TYPE_LEN [(10, 0x76), (11, 0x72), (19, 0x52), (20, 0x65),
            (21, 0x71), (22, 0x75), (23, 0x65), (24, 0x73), (25, 0x74), (26, 0x4D)];
          if request then Some 1 else
     do { prepareok \<leftarrow> type_is p payload PREPAREOK_TYPE_LEN [(10, 0x76), (11, 0x72), (19, 0x50), (20, 0x72),
            (21, 0x65), (22, 0x70), (23, 0x61), (24, 0x72), (25, 0x65), (26, 0x4F)];
          if prepareok then Some 2 else
     do { myprepareok \<leftarrow> type_is p payload MYPREPAREOK_TYPE_LEN [(10, 0x76), (11, 0x72), (13, 0x4D), (14, 0x79),
            (15, 0x50), (16, 0x72)];
          Some (if myprepareok then 2 else - 1) } } } }"

section \<open>Dispatch (\<open>fastPaxos_main\<close>)\<close>

definition fastPaxos_main :: "fast_env \<Rightarrow> bytes \<Rightarrow> fast_maps \<Rightarrow> fast_result" where
  "fastPaxos_main E p m =
     (let ip = sizeof_eth; udp = sizeof_eth + sizeof_iphdr; payload = udp_payload in
      if ip + sizeof_iphdr > length p then Some (XDP_PASS, p, m)
      else if udp + sizeof_udphdr > length p then Some (XDP_PASS, p, m)
      else do {
        dest \<leftarrow> ld16 p (udp + 2);
        if dest \<noteq> 12345 then Some (XDP_PASS, p, m) else do {
        protocol \<leftarrow> ld8 p (ip + 9);
        if protocol \<noteq> 10 then Some (XDP_PASS, p, m)
        else if payload + MAGIC_LEN > length p then Some (XDP_PASS, p, m) else do {
        magic \<leftarrow> chars_at p payload [(0, 0x18), (1, 0x03), (2, 0x05), (3, 0x20)];
        if \<not> magic then Some (XDP_PASS, p, m) else
        let payload = payload + MAGIC_LEN in
        if payload + 8 > length p then Some (XDP_PASS, p, m) else do {
        typeLen \<leftarrow> ld64 p payload;
        let payload = payload + 8;
        if unat typeLen \<ge> MTU \<or> payload + unat typeLen > length p then Some (XDP_PASS, p, m) else do {
        msg_type \<leftarrow> compute_message_type p payload;
        if FAST_REPLY E \<and> msg_type = 0 then
          run_prog E FAST_PROG_XDP_HANDLE_PREPARE (HandlePrepare_main E) p m
        else if FAST_QUORUM_PRUNE E \<and> msg_type = 2 then
          (case map_msg_lastOp m 0 of None \<Rightarrow> Some (XDP_PASS, p, m)
           | Some _ \<Rightarrow>
             run_prog E FAST_PROG_XDP_HANDLE_PREPAREOK HandlePrepareOK_main p
               (m\<lparr>map_msg_lastOp := (map_msg_lastOp m)(0 \<mapsto> of_nat (payload + unat typeLen))\<rparr>))
        else Some (XDP_PASS, p, m) } } } } })"

end
