(* ===== verification/Electrode_Consensus.thy ===== *)
theory Electrode_Consensus
  imports Electrode
begin

text \<open>
  What the offloaded Paxos steps guarantee: the programs stay inside the packet, a replica's log
  position only moves forward and without gaps, the leader wakes user space at the quorum, and
  quorums intersect.
\<close>

section \<open>Memory safety\<close>

lemma st_bytes_safe: "off + length bs \<le> length p \<Longrightarrow> wp (st_bytes p off bs) (\<lambda>q. length q = length p)"
proof (induction bs arbitrary: p off)
  case (Cons b bs)
  then show ?case
    by (auto simp: wp_bind wp_st8 intro: wp_mono [OF Cons.IH])
qed simp

lemma st_bytes_bind:
  "length p = n \<Longrightarrow> off + length bs \<le> n \<Longrightarrow> (\<And>q. length q = n \<Longrightarrow> wp (f q) Q) \<Longrightarrow> wp (st_bytes p off bs \<bind> f) Q"
  by (auto simp: wp_bind intro!: wp_mono [OF st_bytes_safe])

lemma checksum_bind:
  "length p = n \<Longrightarrow> ip + 20 \<le> n \<Longrightarrow> (\<And>c q. length q = n \<Longrightarrow> wp (f (c, q)) Q) \<Longrightarrow> wp (compute_ip_checksum p ip \<bind> f) Q"
  by (simp add: compute_ip_checksum_result)

lemma reply_headers_out_safe:
  "42 \<le> length p \<Longrightarrow> wp (reply_headers_out p payload l) (\<lambda>q. length q = length p)"
  unfolding reply_headers_out_def Let_def
  apply (rule safe_start [of p])
  apply (erule safe_elims, simp)+
  apply (erule checksum_bind, simp)
  apply (simp only: prod.case)
  apply (erule safe_elims, simp)+
  apply simp
  done

text \<open>A program leaves the maps as they are and the length of the packet, too.\<close>

lemma PrepareFastReply_safe:
  "wp (PrepareFastReply_main p m) (\<lambda>(r, q, m'). m' = m \<and> length q = length p \<and> (r = XDP_PASS \<or> r = XDP_TX))"
proof -
  have h: "wp (reply_headers_out q payload l \<bind> (\<lambda>q. Some (XDP_TX, q, m)))
      (\<lambda>(r, q, m'). m' = m \<and> length q = length p \<and> (r = 2 \<or> r = 3))"
    if "length q = length p" "42 \<le> length p" for q payload l
    using that by (auto simp: wp_bind intro!: wp_mono [OF reply_headers_out_safe])
  show ?thesis
    unfolding PrepareFastReply_main_def Let_def
    apply (auto split: option.splits)
    apply (rule safe_start [of p])
    apply (erule safe_elims, simp)+
    apply (erule st_bytes_bind, simp add: my_prepare_ok_def)
    apply (erule safe_elims, simp)+
    apply (rule safe_if, simp)
    apply (subgoal_tac "118 \<le> length p")
    apply (erule safe_elims, simp)+
    apply (rule h; simp)
    apply simp
    done
qed

lemma run_prog_safe:
  assumes "wp (f p m) (\<lambda>(r, q, m'). Q m' \<and> 0 \<le> r \<and> r \<le> 4)" "Q m"
  shows "wp (run_prog E i f p m) (\<lambda>(r, q, m'). Q m' \<and> 0 \<le> r \<and> r \<le> 4)"
  using assms by (auto simp: run_prog_def wp_bind elim!: wp_mono)

lemma reply_run_safe:
  "Q m \<Longrightarrow> wp (run_prog E i PrepareFastReply_main p m) (\<lambda>(r, q, m'). Q m' \<and> 0 \<le> r \<and> r \<le> 4)"
  by (intro run_prog_safe wp_mono [OF PrepareFastReply_safe]) auto

lemma ring_copy_safe:
  "base + i + k \<le> length pt \<Longrightarrow> wp (ring_copy k p payload pt base i) (\<lambda>q. length q = length pt)"
proof (induction k arbitrary: pt i)
  case (Suc k)
  have "wp (ring_copy k p payload qt base (Suc i)) (\<lambda>q. length q = length pt)" if "length qt = length pt" for qt
    using Suc.IH [of "Suc i" qt] Suc.prems that by simp
  then show ?case using Suc.prems by (auto simp: wp_bind wp_ld8 wp_st8)
qed simp

text \<open>The replica's log position, that only \<open>HandlePrepare_main\<close> moves.\<close>

lemma WriteBuffer_safe:
  assumes "ringbuf_ok E" "\<And>b. Q (m\<lparr>map_prepare_buffer := b\<rparr>)"
  shows "wp (WriteBuffer_main E p m) (\<lambda>(r, q, m'). Q m' \<and> 0 \<le> r \<and> r \<le> 4)"
proof -
  have m: "Q m" using assms(2) [of "map_prepare_buffer m"] by simp
  have "wp (ring_copy MAX_DATA_LEN p payload pt 0 0) (\<lambda>q.
      wp (run_prog E i PrepareFastReply_main p (m\<lparr>map_prepare_buffer := map_prepare_buffer m @ [q]\<rparr>))
        (\<lambda>(r, q, m'). Q m' \<and> 0 \<le> r \<and> r \<le> 4))"
    if "ringbuf_reserve E m MAX_DATA_LEN = Some pt" for pt payload i
    using that assms by (intro wp_mono [OF ring_copy_safe] reply_run_safe) (auto simp: ringbuf_ok_def)
  then show ?thesis
    using m by (auto simp: WriteBuffer_main_def Let_def wp_bind split: option.splits)
qed

definition log_frame :: "fast_maps \<Rightarrow> fast_maps \<Rightarrow> bool" where
  "log_frame m m' \<longleftrightarrow> map_ctr_state m' = map_ctr_state m \<and> map_configure m' = map_configure m \<and> map_quorum m' = map_quorum m"

definition prepare_fields :: "bytes \<Rightarrow> nat \<times> nat \<times> nat" where
  "prepare_fields p = (le_val (take 4 (drop 87 p)), le_val (take 4 (drop 91 p)), le_val (take 4 (drop 95 p)))"

definition accepts :: "paxos_ctr_state \<Rightarrow> nat \<times> nat \<times> nat \<Rightarrow> bool" where
  "accepts c msg = (case msg of (v, l, b) \<Rightarrow>
     replica_state c = STATUS_NORMAL \<and> v = unat (cview c) \<and> unat (clastOp c) < l \<and> b \<le> unat (clastOp c) + 1)"

text \<open>\<open>HandlePrepare_main\<close> either leaves the log position or accepts the message and moves to its last operation.\<close>

lemma HandlePrepare_result:
  assumes "ringbuf_ok E"
  shows "wp (HandlePrepare_main E p m) (\<lambda>(r, q, m'). 0 \<le> r \<and> r \<le> 4 \<and>
    (log_frame m m' \<or> (\<exists>c. map_ctr_state m 0 = Some c \<and> 99 \<le> length p \<and> accepts c (prepare_fields p) \<and>
       log_frame (m\<lparr>map_ctr_state := (map_ctr_state m)(0 \<mapsto> c\<lparr>clastOp := of_nat (fst (snd (prepare_fields p)))\<rparr>)\<rparr>) m')))"
proof -
  have r: "wp (run_prog E i PrepareFastReply_main p m) P"
    if "\<And>r q m'. log_frame m m' \<Longrightarrow> 0 \<le> r \<Longrightarrow> r \<le> 4 \<Longrightarrow> P (r, q, m')" for i P
    by (rule wp_mono [OF reply_run_safe [where Q = "log_frame m"]]) (use that in \<open>auto simp: log_frame_def\<close>)
  have w: "wp (run_prog E i (WriteBuffer_main E) p m2) P"
    if "\<And>r q m'. log_frame m2 m' \<Longrightarrow> 0 \<le> r \<Longrightarrow> r \<le> 4 \<Longrightarrow> P (r, q, m')" for i m2 P
    by (rule wp_mono [OF run_prog_safe [where Q = "log_frame m2", OF WriteBuffer_safe [OF assms]]])
      (use that in \<open>auto simp: log_frame_def\<close>)
  show ?thesis
  proof (cases "99 \<le> length p")
    case True
    obtain v l b where ld: "ld32 p 87 = Some v" "ld32 p 91 = Some l" "ld32 p 95 = Some b"
      and u: "prepare_fields p = (unat v, unat l, unat b)"
      by (rule that [of "of_nat (le_val (take 4 (drop 87 p)))" "of_nat (le_val (take 4 (drop 91 p)))"
            "of_nat (le_val (take 4 (drop 95 p)))"])
        (use True in \<open>simp_all add: ld32_def ldn_def prepare_fields_def unat_ld32\<close>)
    have c: "unat (ucast v :: u64) = unat v" "unat (ucast l :: u64) = unat l" "unat (ucast b :: u64) = unat b"
      by (simp_all add: unat_ucast_up)
    have n: "(of_nat (unat l) :: u64) = ucast l" by (rule of_nat_unat)
    show ?thesis
    proof (cases "map_ctr_state m 0")
      case (Some c0)
      have acc: "accepts c0 (prepare_fields p)"
        if "replica_state c0 = STATUS_NORMAL" "\<not> ucast v < cview c0" "\<not> cview c0 < ucast v"
          "\<not> (ucast l :: u64) \<le> clastOp c0" "\<not> clastOp c0 + 1 < ucast b"
      proof -
        have "unat (clastOp c0) < unat l" using that(4) c by (simp add: word_le_nat_alt)
        then have "unat (clastOp c0 + 1) = unat (clastOp c0) + 1"
          using unat_lt_u32 [of l] by (intro unat_inc) simp
        then show ?thesis
          using that c by (simp add: accepts_def u word_less_nat_alt word_le_nat_alt)
      qed
      show ?thesis
        using True Some acc
        by (auto simp: HandlePrepare_main_def Let_def ld u n log_frame_def intro!: r w split: option.splits)
    next
      case None
      then show ?thesis using True by (simp add: HandlePrepare_main_def Let_def ld log_frame_def split: option.splits)
    qed
  next
    case False
    then show ?thesis by (simp add: HandlePrepare_main_def log_frame_def)
  qed
qed

section \<open>The replica's log\<close>

text \<open>A run of the replica: the Prepare messages it has seen, newest first.\<close>

inductive replica_run :: "fast_env \<Rightarrow> fast_maps \<Rightarrow> (nat \<times> nat \<times> nat) list \<Rightarrow> fast_maps \<Rightarrow> bool" for E m where
  replica_start: "replica_run E m [] m"
| replica_prepare: "replica_run E m h m' \<Longrightarrow> HandlePrepare_main E p m' = Some (r, q, m'') \<Longrightarrow>
    replica_run E m (if 99 \<le> length p then prepare_fields p # h else h) m''"

definition log_covered :: "paxos_ctr_state \<Rightarrow> paxos_ctr_state \<Rightarrow> (nat \<times> nat \<times> nat) list \<Rightarrow> bool" where
  "log_covered c0 c h \<longleftrightarrow> replica_state c = replica_state c0 \<and> cview c = cview c0 \<and> myIdx c = myIdx c0 \<and>
     leaderIdx c = leaderIdx c0 \<and> clastOp c0 \<le> clastOp c \<and>
     (\<forall>op. unat (clastOp c0) < op \<and> op \<le> unat (clastOp c) \<longrightarrow>
        (\<exists>(v, l, b) \<in> set h. v = unat (cview c) \<and> b \<le> op \<and> op \<le> l))"

lemma log_covered_mono: "log_covered c0 c h \<Longrightarrow> set h \<subseteq> set h' \<Longrightarrow> log_covered c0 c h'"
  unfolding log_covered_def by blast

lemma log_covered_accept:
  assumes "log_covered c0 c h" "accepts c (v, l, b)" "l < 2 ^ 32"
  shows "log_covered c0 (c\<lparr>clastOp := of_nat l\<rparr>) ((v, l, b) # h)"
proof -
  have l: "unat (of_nat l :: u64) = l" using assms(3) by (simp add: unat_of_nat)
  have le: "clastOp c \<le> of_nat l" using assms(2) by (simp add: accepts_def word_le_nat_alt l)
  have "\<exists>(v', l', b') \<in> set ((v, l, b) # h). v' = unat (cview c) \<and> b' \<le> op \<and> op \<le> l'"
    if "unat (clastOp c0) < op" "op \<le> l" for op
  proof (cases "op \<le> unat (clastOp c)")
    case True
    then show ?thesis using assms(1) that unfolding log_covered_def by fastforce
  next
    case False
    then show ?thesis using assms(2) that by (auto simp: accepts_def)
  qed
  then show ?thesis
    using assms(1) le unfolding log_covered_def by (auto simp: l intro: order_trans)
qed

lemma prepare_fields_bound: "fst (snd (prepare_fields p)) < 2 ^ 32"
  using le_val_bound [of "take 4 (drop 91 p)"] power_increasing [of "length (take 4 (drop 91 p))" 4 "256 :: nat"]
  by (simp add: prepare_fields_def)

text \<open>
  Property C15. A replica's log position moves forward only, inside its view, and without gaps:
  after any sequence of Prepare messages every operation between the initial and the final
  \<open>lastOp\<close> is covered by a received message of the replica's view, and the handler returns on
  every message.
\<close>

theorem replica_log_without_gaps:
  assumes "ringbuf_ok E" and "replica_run E m h m'" and "map_ctr_state m 0 = Some c0"
  shows "(\<exists>c. map_ctr_state m' 0 = Some c \<and> log_covered c0 c h) \<and>
    (\<exists>r q m''. HandlePrepare_main E p m' = Some (r, q, m''))"
proof
  show "\<exists>r q m''. HandlePrepare_main E p m' = Some (r, q, m'')"
    using HandlePrepare_result [OF assms(1), of p m'] by (auto simp: wp_iff)
  show "\<exists>c. map_ctr_state m' 0 = Some c \<and> log_covered c0 c h"
    using assms(2)
  proof induction
    case replica_start
    then show ?case using assms(3) by (simp add: log_covered_def)
  next
    case (replica_prepare h m' p r q m'')
    then obtain c where c: "map_ctr_state m' 0 = Some c" "log_covered c0 c h" by blast
    obtain v l b where f: "prepare_fields p = (v, l, b)" by (cases "prepare_fields p") auto
    have "l < 2 ^ 32" using prepare_fields_bound [of p] f by simp
    then have "accepts c (v, l, b) \<Longrightarrow> log_covered c0 (c\<lparr>clastOp := of_nat l\<rparr>) ((v, l, b) # h)"
      using log_covered_accept [OF c(2)] by blast
    moreover have "log_covered c0 c ((v, l, b) # h)" using c(2) by (rule log_covered_mono) auto
    ultimately show ?case
      using HandlePrepare_result [OF assms(1), of p m'] replica_prepare.hyps(2) c f
      by (auto simp: log_frame_def)
  qed
qed

section \<open>Quorums\<close>

text \<open>Majorities as an interface: sets of members large enough that any two of them meet.\<close>

locale quorum_system =
  fixes members :: "nat set" and threshold :: nat
  assumes finite_members: "finite members"
    and majority: "card members < 2 * threshold"
begin

lemma quorums_meet:
  assumes "Q \<subseteq> members" "Q' \<subseteq> members" "threshold \<le> card Q" "threshold \<le> card Q'"
  shows "Q \<inter> Q' \<noteq> {}"
proof
  assume "Q \<inter> Q' = {}"
  then have "card (Q \<union> Q') = card Q + card Q'"
    using assms(1,2) finite_members by (intro card_Un_disjoint) (auto intro: finite_subset)
  moreover have "card (Q \<union> Q') \<le> card members"
    using assms(1,2) finite_members by (intro card_mono) auto
  ultimately show False using assms(3,4) majority by linarith
qed

end

interpretation electrode_quorum: quorum_system "{0..<CLUSTER_SIZE}" QUORUM_SIZE
  by unfold_locales (simp_all add: CLUSTER_SIZE_def QUORUM_SIZE_def)

lemma popcount_card: "popcount w = card {i. i < 32 \<and> bit w i}"
proof -
  have "popcount w = card (set (filter (bit w) [0..<32]))"
    unfolding popcount_def by (rule distinct_card [symmetric]) simp
  also have "set (filter (bit w) [0..<32]) = {i. i < 32 \<and> bit w i}" by auto
  finally show ?thesis .
qed

definition ok_fields :: "bytes \<Rightarrow> u32 \<times> u32 \<times> nat" where
  "ok_fields p = (of_nat (le_val (take 4 p)), of_nat (le_val (take 4 (drop 4 p))), le_val (take 4 (drop 8 p)))"

fun prepare_oks :: "fast_maps \<Rightarrow> bytes list \<Rightarrow> (int list \<times> fast_maps) option" where
  "prepare_oks m [] = Some ([], m)"
| "prepare_oks m (p # ps) =
     do { (v, q, m) \<leftarrow> HandlePrepareOK_main p m; (vs, m) \<leftarrow> prepare_oks m ps; Some (v # vs, m) }"

definition op_slot :: "u32 \<Rightarrow> u32" where
  "op_slot op = op AND (QUORUM_BITSET_ENTRY - 1)"

lemma HandlePrepareOK_result:
  assumes "12 \<le> length p" "ok_fields p = (v, op, r)" "r < 32"
    "map_quorum m (op_slot op) = Some \<lparr>q_view = v, q_opnum = op, q_bitset = w\<rparr>"
  shows "HandlePrepareOK_main p m = Some
    (if popcount (w OR push_bit r 1) = QUORUM_SIZE - 1 then XDP_PASS else XDP_DROP, p,
     m\<lparr>map_quorum := (map_quorum m)(op_slot op \<mapsto> \<lparr>q_view = v, q_opnum = op, q_bitset = w OR push_bit r 1\<rparr>)\<rparr>)"
proof -
  have "ld32 p 0 = Some v" "ld32 p 4 = Some op" "ld32 p 8 = Some (of_nat r)"
    using assms(1,2) by (auto simp: ld32_def ldn_def ok_fields_def)
  moreover have "unat (of_nat r :: u32) = r" using assms(3) by (simp add: unat_of_nat)
  ultimately show ?thesis
    using assms(1,3,4) by (simp add: HandlePrepareOK_main_def op_slot_def)
qed

lemma prepare_oks_result:
  assumes "map_quorum m (op_slot op) = Some \<lparr>q_view = v, q_opnum = op, q_bitset = w\<rparr>"
    "\<And>p. p \<in> set ps \<Longrightarrow> 12 \<le> length p \<and> (\<exists>r < 32. ok_fields p = (v, op, r))"
  shows "\<exists>vs m' w'. prepare_oks m ps = Some (vs, m') \<and> length vs = length ps \<and>
    map_quorum m' (op_slot op) = Some \<lparr>q_view = v, q_opnum = op, q_bitset = w'\<rparr> \<and>
    {i. i < 32 \<and> bit w' i} = {i. i < 32 \<and> bit w i} \<union> (\<lambda>p. snd (snd (ok_fields p))) ` set ps \<and>
    (ps \<noteq> [] \<longrightarrow> (last vs = XDP_PASS \<longleftrightarrow> popcount w' = QUORUM_SIZE - 1))"
  using assms
proof (induction ps arbitrary: m w)
  case (Cons p ps)
  obtain r where r: "ok_fields p = (v, op, r)" "r < 32" "12 \<le> length p" using Cons.prems(2) [of p] by auto
  let ?w = "w OR push_bit r 1"
  let ?m = "m\<lparr>map_quorum := (map_quorum m)(op_slot op \<mapsto> \<lparr>q_view = v, q_opnum = op, q_bitset = ?w\<rparr>)\<rparr>"
  note step = HandlePrepareOK_result [OF r(3,1,2) Cons.prems(1)]
  obtain vs m' w' where ih: "prepare_oks ?m ps = Some (vs, m')" "length vs = length ps"
    "map_quorum m' (op_slot op) = Some \<lparr>q_view = v, q_opnum = op, q_bitset = w'\<rparr>"
    "{i. i < 32 \<and> bit w' i} = {i. i < 32 \<and> bit ?w i} \<union> (\<lambda>p. snd (snd (ok_fields p))) ` set ps"
    "ps \<noteq> [] \<longrightarrow> (last vs = XDP_PASS \<longleftrightarrow> popcount w' = QUORUM_SIZE - 1)"
    using Cons.IH [of ?m ?w] Cons.prems(2) by auto
  have bits: "{i. i < 32 \<and> bit ?w i} = {i. i < 32 \<and> bit w i} \<union> {r}"
    using r(2) by (auto simp: bit_simps)
  have w: "w' = ?w" if "ps = []" using that ih(1,3) by auto
  let ?v = "if popcount ?w = QUORUM_SIZE - 1 then XDP_PASS else XDP_DROP"
  have "prepare_oks m (p # ps) = Some (?v # vs, m')" by (simp add: step ih(1) del: push_bit_of_1)
  moreover have "last (?v # vs) = XDP_PASS \<longleftrightarrow> popcount w' = QUORUM_SIZE - 1"
    using ih(2,5) w by (cases "ps = []") (auto simp del: push_bit_of_1)
  moreover have "{i. i < 32 \<and> bit w' i} =
      {i. i < 32 \<and> bit w i} \<union> (\<lambda>p. snd (snd (ok_fields p))) ` set (p # ps)"
    unfolding ih(4) bits by (simp add: r(1))
  ultimately show ?case using ih(2,3) by auto
qed simp

text \<open>
  Property C16. The leader counts distinct replicas: starting from an empty bitset, the last of a
  sequence of PrepareOK messages for one view and operation is handed to user space if and only if
  exactly \<open>QUORUM_SIZE - 1\<close> different replicas have answered by then, however often each did. With
  the leader itself they are then a quorum, which meets every other quorum of the cluster.
\<close>

theorem prepare_ok_quorum:
  assumes "map_quorum m (op_slot op) = Some \<lparr>q_view = v, q_opnum = op, q_bitset = 0\<rparr>" and "ps \<noteq> []"
    and "\<And>p. p \<in> set ps \<Longrightarrow> 12 \<le> length p \<and> (\<exists>r < 32. ok_fields p = (v, op, r))"
  defines "heard \<equiv> (\<lambda>p. snd (snd (ok_fields p))) ` set ps"
  shows "\<exists>vs m'. prepare_oks m ps = Some (vs, m') \<and>
    (last vs = XDP_PASS \<longleftrightarrow> card heard = QUORUM_SIZE - 1) \<and>
    (last vs = XDP_PASS \<and> heard \<subseteq> {0..<CLUSTER_SIZE} \<and> leader < CLUSTER_SIZE \<and> leader \<notin> heard \<longrightarrow>
      (\<forall>Q. Q \<subseteq> {0..<CLUSTER_SIZE} \<and> QUORUM_SIZE \<le> card Q \<longrightarrow> Q \<inter> insert leader heard \<noteq> {}))"
proof -
  obtain vs m' w' where r: "prepare_oks m ps = Some (vs, m')"
    "{i. i < 32 \<and> bit w' i} = heard" "last vs = XDP_PASS \<longleftrightarrow> popcount w' = QUORUM_SIZE - 1"
    using prepare_oks_result [OF assms(1), of ps, OF assms(3)] assms(2) unfolding heard_def by auto
  have pass: "last vs = XDP_PASS \<longleftrightarrow> card heard = QUORUM_SIZE - 1"
    using r(2,3) by (simp add: popcount_card)
  have "Q \<inter> insert leader heard \<noteq> {}"
    if "card heard = QUORUM_SIZE - 1" "heard \<subseteq> {0..<CLUSTER_SIZE}" "leader < CLUSTER_SIZE" "leader \<notin> heard"
      "Q \<subseteq> {0..<CLUSTER_SIZE}" "QUORUM_SIZE \<le> card Q" for Q
  proof (rule electrode_quorum.quorums_meet [OF that(5) _ that(6)])
    show "insert leader heard \<subseteq> {0..<CLUSTER_SIZE}" using that by auto
    show "QUORUM_SIZE \<le> card (insert leader heard)"
      using that by (simp add: heard_def)
  qed
  then show ?thesis using r(1) pass by auto
qed

definition demo_fast :: fast_maps where
  "demo_fast = \<lparr>map_configure = Map.empty,
     map_ctr_state = [0 \<mapsto> \<lparr>replica_state = STATUS_NORMAL, myIdx = 1, leaderIdx = 0, batchSize = 1, cview = 1, clastOp = 4\<rparr>],
     map_msg_lastOp = [0 \<mapsto> 4], map_quorum = [op_slot 5 \<mapsto> \<lparr>q_view = 1, q_opnum = 5, q_bitset = 0\<rparr>],
     batch_context = Map.empty, map_prepare_buffer = [], map_request_buffer = []\<rparr>"

definition demo_ok :: bytes where
  "demo_ok = [1, 0, 0, 0, 5, 0, 0, 0, 2, 0, 0, 0]"

theorem prepare_ok_quorum_witness:
  "\<exists>vs m'. prepare_oks demo_fast [demo_ok, demo_ok] = Some (vs, m') \<and> last vs = XDP_PASS"
proof -
  have f: "ok_fields demo_ok = (1, 5, 2)" by (simp add: ok_fields_def demo_ok_def)
  have q: "map_quorum demo_fast (op_slot 5) = Some \<lparr>q_view = 1, q_opnum = 5, q_bitset = 0\<rparr>"
    by (simp add: demo_fast_def)
  have "\<exists>vs m'. prepare_oks demo_fast [demo_ok, demo_ok] = Some (vs, m') \<and>
      (last vs = XDP_PASS \<longleftrightarrow> card ((\<lambda>p. snd (snd (ok_fields p))) ` set [demo_ok, demo_ok]) = QUORUM_SIZE - 1)"
    using prepare_ok_quorum [OF q, of "[demo_ok, demo_ok]" 0] f by (fastforce simp: demo_ok_def)
  then show ?thesis by (simp add: f QUORUM_SIZE_def CLUSTER_SIZE_def)
qed

definition demo_fast_env :: fast_env where
  "demo_fast_env = \<lparr>ringbuf_reserve = (\<lambda>m n. Some (replicate n 0)), FAST_REPLY = True, FAST_QUORUM_PRUNE = True,
     KLEE_VERIFICATION = True, progs_registered = (\<lambda>_. True)\<rparr>"

lemma demo_ringbuf_ok: "ringbuf_ok demo_fast_env"
  by (simp add: ringbuf_ok_def demo_fast_env_def)

text \<open>
  The witness: a replica at operation 4 of view 1 receives the Prepare message for the
  operations 5 and 6, and its log ends at 6, covered by that message.
\<close>

definition demo_prepare :: bytes where
  "demo_prepare = replicate 87 0 @ [1, 0, 0, 0, 6, 0, 0, 0, 5, 0, 0, 0] @ replicate 20 0"

lemma demo_prepare_accepted:
  "wp (HandlePrepare_main demo_fast_env demo_prepare demo_fast) (\<lambda>(r, q, m').
    \<exists>c. map_ctr_state m' 0 = Some c \<and> clastOp c = 6 \<and> cview c = 1)"
proof -
  let ?c = "\<lparr>replica_state = STATUS_NORMAL, myIdx = 1, leaderIdx = 0, batchSize = 1, cview = 1, clastOp = 6\<rparr>"
  let ?m = "demo_fast\<lparr>map_msg_lastOp := (map_msg_lastOp demo_fast)(0 \<mapsto> 6), map_ctr_state := (map_ctr_state demo_fast)(0 \<mapsto> ?c)\<rparr>"
  have ld: "ld32 demo_prepare 87 = Some 1" "ld32 demo_prepare 91 = Some 6" "ld32 demo_prepare 95 = Some 5"
    by (simp_all add: demo_prepare_def ld32_def ldn_def)
  have "wp (run_prog demo_fast_env FAST_PROG_XDP_WRITE_BUFFER (WriteBuffer_main demo_fast_env) demo_prepare ?m)
      (\<lambda>(r, q, m'). map_ctr_state m' 0 = Some ?c \<and> 0 \<le> r \<and> r \<le> 4)"
    by (rule run_prog_safe [where Q = "\<lambda>m'. map_ctr_state m' 0 = Some ?c", OF WriteBuffer_safe [OF demo_ringbuf_ok]]) simp_all
  then have w: "wp (run_prog demo_fast_env FAST_PROG_XDP_WRITE_BUFFER (WriteBuffer_main demo_fast_env) demo_prepare ?m)
      (\<lambda>(r, q, m'). \<exists>c. map_ctr_state m' 0 = Some c \<and> clastOp c = 6 \<and> cview c = 1)"
    by (rule wp_mono) auto
  have "HandlePrepare_main demo_fast_env demo_prepare demo_fast =
      run_prog demo_fast_env FAST_PROG_XDP_WRITE_BUFFER (WriteBuffer_main demo_fast_env) demo_prepare ?m"
    by (simp add: HandlePrepare_main_def ld) (simp add: demo_prepare_def demo_fast_def)
  then show ?thesis using w by simp
qed

theorem replica_log_without_gaps_witness:
  "\<exists>m' c0 c. replica_run demo_fast_env demo_fast [(1, 6, 5)] m' \<and>
    map_ctr_state demo_fast 0 = Some c0 \<and> clastOp c0 = 4 \<and> map_ctr_state m' 0 = Some c \<and> clastOp c = 6 \<and>
    log_covered c0 c [(1, 6, 5)]"
proof -
  obtain r q m' c where s: "HandlePrepare_main demo_fast_env demo_prepare demo_fast = Some (r, q, m')"
      "map_ctr_state m' 0 = Some c" "clastOp c = 6"
    using demo_prepare_accepted by (auto simp: wp_iff)
  have f: "prepare_fields demo_prepare = (1, 6, 5)" "99 \<le> length demo_prepare"
    by (simp_all add: prepare_fields_def demo_prepare_def)
  have run: "replica_run demo_fast_env demo_fast [(1, 6, 5)] m'"
    using replica_run.replica_prepare [OF replica_run.replica_start s(1)] f by simp
  obtain c0 where c0: "map_ctr_state demo_fast 0 = Some c0" "clastOp c0 = 4" by (simp add: demo_fast_def)
  then show ?thesis
    using replica_log_without_gaps [OF demo_ringbuf_ok run c0(1)] run s by auto
qed

section \<open>Dispatch\<close>

text \<open>
  The dispatcher never offloads a UDP datagram: it tests the protocol field of the
  IP header against 10, where UDP is 17, so every UDP packet is passed on unchanged with the maps
  unchanged, whatever its port and contents.
\<close>

lemma electrode_ignores_udp:
  assumes "34 \<le> length p" and "p ! 23 = IPPROTO_UDP"
  shows "fastPaxos_main E p m = Some (XDP_PASS, p, m)"
proof -
  have "wp (fastPaxos_main E p m) (\<lambda>r. r = (XDP_PASS, p, m))"
    using assms unfolding fastPaxos_main_def Let_def by (simp add: wp_rules)
  then show ?thesis by (simp add: wp_iff)
qed

lemma electrode_ignores_udp_witness:
  "fastPaxos_main demo_fast_env (replicate 23 0 @ [17] @ replicate 76 0) demo_fast =
    Some (XDP_PASS, replicate 23 0 @ [17] @ replicate 76 0, demo_fast)"
  by (rule electrode_ignores_udp) (simp_all add: nth_append)

end
