(* ===== verification/Electrode_Broadcast.thy ===== *)
theory Electrode_Broadcast
  imports Electrode_Consensus Packet_Program
begin

text \<open>
  The Paxos offload as the cross-program case study has it, src/examples/cross_prog/fast_kern.c.
  It differs from the copy in src/examples/electrode in that the port and protocol tests and the
  lengths are in network byte order, that \<open>fastPaxos_main\<close> moves the head of the packet to the
  Paxos header before it calls \<open>HandlePrepareOK_main\<close>, which moves it back for the messages it
  passes, and in the program for outgoing packets, \<open>FastBroadCast_main\<close>, with which the leader
  multicasts. The handlers it calls are functions, whose verdicts are dropped.

  The helpers \<open>bpf_xdp_adjust_head\<close> and \<open>bpf_xdp_adjust_tail\<close> are parameters: \<open>None\<close> is a failure,
  which leaves the packet as it was. \<open>bpf_clone_redirect\<close> adds a copy of the packet to a list.
\<close>

section \<open>The programs\<close>

record xp_env =
  xp_adjust_head :: "int \<Rightarrow> bytes \<Rightarrow> bytes option"
  xp_adjust_tail :: "int \<Rightarrow> bytes \<Rightarrow> bytes option"
  xp_ringbuf_reserve :: "fast_maps \<Rightarrow> nat \<Rightarrow> bytes option"
  XP_FAST_REPLY :: bool
  XP_FAST_QUORUM_PRUNE :: bool

definition moved_head :: "xp_env \<Rightarrow> int \<Rightarrow> bytes \<Rightarrow> bytes" where
  "moved_head E d p = (case xp_adjust_head E d p of None \<Rightarrow> p | Some q \<Rightarrow> q)"

definition moved_tail :: "xp_env \<Rightarrow> int \<Rightarrow> bytes \<Rightarrow> bytes" where
  "moved_tail E d p = (case xp_adjust_tail E d p of None \<Rightarrow> p | Some q \<Rightarrow> q)"

subsection \<open>Handlers\<close>

definition xp_HandlePrepareOK_main :: "xp_env \<Rightarrow> bytes \<Rightarrow> fast_maps \<Rightarrow> fast_result" where
  "xp_HandlePrepareOK_main E p m =
     (if FAST_PAXOS_DATA_LEN > length p then Some (XDP_DROP, p, m)
      else do {
        msg_view \<leftarrow> ld32 p 0; msg_opnum \<leftarrow> ld32 p 4; msg_replicaIdx \<leftarrow> ld32 p 8;
        let idx = msg_opnum AND (QUORUM_BITSET_ENTRY - 1);
        case map_quorum m idx of None \<Rightarrow> Some (XDP_PASS, p, m)
        | Some entry \<Rightarrow>
          if q_view entry \<noteq> msg_view \<or> q_opnum entry \<noteq> msg_opnum then Some (XDP_PASS, p, m)
          else if 32 \<le> unat msg_replicaIdx then None
          else
            let entry = entry\<lparr>q_bitset := q_bitset entry OR push_bit (unat msg_replicaIdx) 1\<rparr>;
                m = m\<lparr>map_quorum := (map_quorum m)(idx \<mapsto> entry)\<rparr>;
                count = popcount (q_bitset entry) in
            if count \<noteq> QUORUM_SIZE - 1 then Some (XDP_DROP, p, m)
            else (case map_msg_lastOp m 0 of None \<Rightarrow> Some (XDP_PASS, p, m)
                  | Some context \<Rightarrow> Some (XDP_PASS, moved_head E (- sint (ucast context :: u32)) p, m)) })"

text \<open>As in electrode, but with the lengths in network byte order.\<close>

definition xp_reply_headers :: "bytes \<Rightarrow> nat \<Rightarrow> paxos_configure \<Rightarrow> bytes option" where
  "xp_reply_headers p payload leaderInfo =
     (let ip = sizeof_eth; udp = sizeof_eth + sizeof_iphdr in
      do { dest \<leftarrow> ld16 p (udp + 2);
           p \<leftarrow> st16 p udp dest;
           p \<leftarrow> st16 p (udp + 2) (leader_port leaderInfo);
           p \<leftarrow> st16 p (udp + 4) (bswap16 (of_nat (payload - udp)));
           p \<leftarrow> st16 p (udp + 6) 0;
           p \<leftarrow> st16 p (ip + 2) (bswap16 (of_nat (payload - udp + sizeof_iphdr)));
           daddr \<leftarrow> ld32 p (ip + 16);
           p \<leftarrow> st32 p (ip + 12) daddr;
           p \<leftarrow> st32 p (ip + 16) (leader_addr leaderInfo);
           (csum, p) \<leftarrow> compute_ip_checksum p ip;
           p \<leftarrow> st16 p (ip + 10) csum;
           tmp_mac \<leftarrow> ldn p 6 6; h_dest \<leftarrow> ldn p 0 6;
           p \<leftarrow> stn p 6 h_dest;
           stn p 0 tmp_mac })"

definition xp_PrepareFastReply_main :: "xp_env \<Rightarrow> bytes \<Rightarrow> fast_maps \<Rightarrow> fast_result" where
  "xp_PrepareFastReply_main E p m =
     (let payload = udp_payload in
      if payload + MAGIC_LEN + 8 + PREPARE_TYPE_LEN + FAST_PAXOS_DATA_LEN + 8 \<ge> length p then Some (XDP_PASS, p, m)
      else case (map_msg_lastOp m 0, map_ctr_state m 0) of
        (Some msg_lastOp, Some ctr_state) \<Rightarrow>
          (case map_configure m (leaderIdx ctr_state) of None \<Rightarrow> Some (XDP_PASS, p, m)
           | Some leaderInfo \<Rightarrow>
             do { p \<leftarrow> st32 p payload NONFRAG_MAGIC;
                  let payload = payload + 4;
                  p \<leftarrow> st64 p payload (of_nat MYPREPAREOK_TYPE_LEN);
                  let payload = payload + 8;
                  p \<leftarrow> st_bytes p (payload + 13) my_prepare_ok;
                  let payload = payload + MYPREPAREOK_TYPE_LEN;
                  p \<leftarrow> st32 p payload (ucast (cview ctr_state));
                  p \<leftarrow> st32 p (payload + 4) (ucast msg_lastOp);
                  p \<leftarrow> st32 p (payload + 8) (myIdx ctr_state);
                  let payload = payload + FAST_PAXOS_DATA_LEN;
                  if payload + 8 * 3 + 4 > length p then Some (XDP_PASS, p, m)
                  else do {
                    p \<leftarrow> st64 p payload (8 * 2 + 4);
                    p \<leftarrow> st64 p (payload + 8) (cview ctr_state);
                    p \<leftarrow> st64 p (payload + 16) msg_lastOp;
                    let payload = payload + 8 * 3;
                    p \<leftarrow> st32 p payload (myIdx ctr_state);
                    let payload = payload + 4;
                    p \<leftarrow> xp_reply_headers p payload leaderInfo;
                    Some (XDP_TX, moved_tail E (int payload - int (length p)) p, m) } })
      | _ \<Rightarrow> Some (XDP_PASS, p, m))"

definition called :: "fast_result \<Rightarrow> fast_result" where
  "called f = do { (r, p, m) \<leftarrow> f; Some (XDP_PASS, p, m) }"

definition xp_WriteBuffer_main :: "xp_env \<Rightarrow> bytes \<Rightarrow> fast_maps \<Rightarrow> fast_result" where
  "xp_WriteBuffer_main E p m =
     (let payload = udp_payload + MAGIC_LEN + 8 + PREPARE_TYPE_LEN + FAST_PAXOS_DATA_LEN in
      if payload \<ge> length p then Some (XDP_PASS, p, m)
      else if payload + MAX_DATA_LEN < length p then Some (XDP_PASS, p, m)
      else case xp_ringbuf_reserve E m MAX_DATA_LEN of None \<Rightarrow> Some (XDP_PASS, p, m)
        | Some pt \<Rightarrow>
          do { pt \<leftarrow> ring_copy MAX_DATA_LEN p payload pt 0 0;
               let m = m\<lparr>map_prepare_buffer := map_prepare_buffer m @ [pt]\<rparr>;
               called (xp_PrepareFastReply_main E p m) })"

definition xp_HandlePrepare_main :: "xp_env \<Rightarrow> bytes \<Rightarrow> fast_maps \<Rightarrow> fast_result" where
  "xp_HandlePrepare_main E p m =
     (let payload = udp_payload in
      if payload + MAGIC_LEN + 8 + PREPARE_TYPE_LEN + FAST_PAXOS_DATA_LEN > length p then Some (XDP_PASS, p, m)
      else
        let payload = payload + MAGIC_LEN + 8 + PREPARE_TYPE_LEN in
        do { v \<leftarrow> ld32 p payload; l \<leftarrow> ld32 p (payload + 4); b \<leftarrow> ld32 p (payload + 8);
             let msg_view = (ucast v :: u64); let msg_lastOp = (ucast l :: u64); let msg_batchStart = (ucast b :: u64);
             case (map_msg_lastOp m 0, map_ctr_state m 0) of
               (Some _, Some ctr_state) \<Rightarrow>
                 if replica_state ctr_state \<noteq> STATUS_NORMAL then Some (XDP_DROP, p, m)
                 else if msg_view < cview ctr_state then Some (XDP_DROP, p, m)
                 else if msg_view > cview ctr_state then Some (XDP_PASS, p, m)
                 else if msg_lastOp \<le> clastOp ctr_state then called (xp_PrepareFastReply_main E p m)
                 else if msg_batchStart > clastOp ctr_state + 1 then Some (XDP_PASS, p, m)
                 else
                   let m = m\<lparr>map_msg_lastOp := (map_msg_lastOp m)(0 \<mapsto> msg_lastOp),
                             map_ctr_state := (map_ctr_state m)(0 \<mapsto> ctr_state\<lparr>clastOp := msg_lastOp\<rparr>)\<rparr> in
                   called (xp_WriteBuffer_main E p m)
             | _ \<Rightarrow> Some (XDP_PASS, p, m) })"

subsection \<open>Dispatch\<close>

definition prepare_chars :: "(nat \<times> u8) list" where
  "prepare_chars = [(10, 0x76), (11, 0x72), (19, 0x50), (20, 0x72), (21, 0x65), (22, 0x70), (23, 0x61), (24, 0x72), (25, 0x65), (26, 0x4D)]"

definition prepareok_chars :: "(nat \<times> u8) list" where
  "prepareok_chars = [(10, 0x76), (11, 0x72), (19, 0x50), (20, 0x72), (21, 0x65), (22, 0x70), (23, 0x61), (24, 0x72), (25, 0x65), (26, 0x4F)]"

definition myprepareok_chars :: "(nat \<times> u8) list" where
  "myprepareok_chars = [(10, 0x76), (11, 0x72), (13, 0x4D), (14, 0x79), (15, 0x50), (16, 0x72)]"

definition offload_prepareok :: "xp_env \<Rightarrow> nat \<Rightarrow> bytes \<Rightarrow> fast_maps \<Rightarrow> fast_result" where
  "offload_prepareok E start p m =
     (case map_msg_lastOp m 0 of None \<Rightarrow> Some (XDP_PASS, p, m)
      | Some _ \<Rightarrow>
        let m = m\<lparr>map_msg_lastOp := (map_msg_lastOp m)(0 \<mapsto> of_nat start)\<rparr> in
        called (xp_HandlePrepareOK_main E (moved_head E (int start) p) m))"

definition xp_fastPaxos_main :: "xp_env \<Rightarrow> bytes \<Rightarrow> fast_maps \<Rightarrow> fast_result" where
  "xp_fastPaxos_main E p m =
     (let ip = sizeof_eth; udp = sizeof_eth + sizeof_iphdr; payload = udp_payload in
      if ip + sizeof_iphdr > length p then Some (XDP_PASS, p, m)
      else if udp + sizeof_udphdr > length p then Some (XDP_PASS, p, m)
      else do {
        dest \<leftarrow> ld16 p (udp + 2);
        if dest \<noteq> bswap16 12345 then Some (XDP_PASS, p, m) else do {
        protocol \<leftarrow> ld8 p (ip + 9);
        if protocol \<noteq> IPPROTO_UDP then Some (XDP_PASS, p, m)
        else if payload + MAGIC_LEN > length p then Some (XDP_PASS, p, m) else do {
        magic \<leftarrow> chars_at p payload [(0, 0x18), (1, 0x03), (2, 0x05), (3, 0x20)];
        if \<not> magic then Some (XDP_PASS, p, m) else
        let payload = payload + MAGIC_LEN in
        if payload + 8 > length p then Some (XDP_PASS, p, m) else do {
        typeLen \<leftarrow> ld64 p payload;
        let payload = payload + 8;
        if unat typeLen \<ge> MTU \<or> payload + unat typeLen > length p then Some (XDP_PASS, p, m) else do {
        prepare \<leftarrow> (if XP_FAST_REPLY E then type_is p payload PREPARE_TYPE_LEN prepare_chars else Some False);
        if prepare then called (xp_HandlePrepare_main E p m) else do {
        ok \<leftarrow> (if XP_FAST_QUORUM_PRUNE E then type_is p payload PREPAREOK_TYPE_LEN prepareok_chars else Some False);
        if ok then offload_prepareok E (payload + unat typeLen) p m else do {
        myok \<leftarrow> (if XP_FAST_QUORUM_PRUNE E then type_is p payload MYPREPAREOK_TYPE_LEN myprepareok_chars else Some False);
        if myok then offload_prepareok E (payload + unat typeLen) p m
        else Some (XDP_PASS, p, m) } } } } } } })"

subsection \<open>Multicast (\<open>FastBroadCast_main\<close>)\<close>

definition BROADCAST_SIGN_BIT :: u32 where "BROADCAST_SIGN_BIT = 0x80000000"

definition clear_quorum :: "fast_maps \<Rightarrow> u32 \<Rightarrow> u32 \<Rightarrow> fast_maps" where
  "clear_quorum m msg_view msg_lastOp =
     (let idx = msg_lastOp AND (QUORUM_BITSET_ENTRY - 1) in
      case map_quorum m idx of None \<Rightarrow> m
      | Some entry \<Rightarrow>
        if q_view entry \<noteq> msg_view \<or> q_opnum entry \<noteq> msg_lastOp then
          m\<lparr>map_quorum := (map_quorum m)(idx \<mapsto> \<lparr>q_view = msg_view, q_opnum = msg_lastOp, q_bitset = 0\<rparr>)\<rparr>
        else m)"

text \<open>
  From the second reading of \<open>data_end\<close> on. \<open>bpf_map_lookup_elem\<close> takes the address of \<open>id\<close>, a
  single byte, for a key of four: the three bytes behind it are the argument \<open>pad\<close>.
\<close>

definition address_copy :: "bytes \<Rightarrow> u8 \<Rightarrow> u32 \<Rightarrow> fast_maps \<Rightarrow> bytes \<Rightarrow> (int \<times> bytes) option" where
  "address_copy pad rid msg_view m p =
     (let ip = sizeof_eth; udp = sizeof_eth + sizeof_iphdr; payload = udp_payload + MAGIC_LEN in
      if payload + 8 > length p then Some (TC_ACT_OK, p)
      else do {
        typeLen \<leftarrow> ld64 p payload;
        let type_str = payload + 8;
        if type_str + 5 \<ge> length p then Some (TC_ACT_SHOT, p)
        else if unat typeLen \<ge> MTU \<or> type_str + unat typeLen > length p then Some (TC_ACT_SHOT, p)
        else
          let payload = type_str + unat typeLen in
          if payload + FAST_PAXOS_DATA_LEN > length p then Some (TC_ACT_SHOT, p)
          else do {
            p \<leftarrow> st32 p payload msg_view;
            p \<leftarrow> st8 p type_str 0x73;
            p \<leftarrow> st8 p (type_str + 1) 0x70;
            case map_configure m (of_nat (le_val (rid # pad))) of None \<Rightarrow> Some (TC_ACT_SHOT, p)
            | Some replicaInfo \<Rightarrow>
              do { p \<leftarrow> st16 p (udp + 2) (leader_port replicaInfo);
                   p \<leftarrow> st16 p (udp + 6) 0;
                   p \<leftarrow> st32 p (ip + 16) (leader_addr replicaInfo);
                   (csum, p) \<leftarrow> compute_ip_checksum p ip;
                   p \<leftarrow> st16 p (ip + 10) csum;
                   p \<leftarrow> stn p 0 (leader_eth replicaInfo);
                   Some (TC_ACT_OK, p) } } })"

definition FastBroadCast_main :: "bytes \<Rightarrow> fast_maps \<Rightarrow> bytes \<Rightarrow> (int \<times> bytes \<times> fast_maps \<times> bytes list) option" where
  "FastBroadCast_main pad m p =
     (let ip = sizeof_eth; udp = sizeof_eth + sizeof_iphdr; payload = udp_payload; ok = Some (TC_ACT_OK, p, m, []) in
      if ip + sizeof_iphdr > length p then ok
      else do {
        protocol \<leftarrow> ld8 p (ip + 9);
        if protocol \<noteq> IPPROTO_UDP then ok
        else if udp + sizeof_udphdr > length p then ok else do {
        source \<leftarrow> ld16 p udp;
        if source \<noteq> bswap16 12345 then ok
        else if payload + MAGIC_LEN > length p then ok else do {
        magic \<leftarrow> chars_at p payload [(0, 0x18), (1, 0x03), (2, 0x05), (3, 0x20)];
        if \<not> magic then ok else
        let payload = payload + MAGIC_LEN in
        if payload + 8 > length p then ok else do {
        typeLen \<leftarrow> ld64 p payload;
        let type_str = payload + 8;
        if type_str + 5 \<ge> length p then ok
        else if unat typeLen \<ge> MTU \<or> type_str + unat typeLen > length p then ok else
        let payload = type_str + unat typeLen in
        if payload + FAST_PAXOS_DATA_LEN > length p then ok else do {
        view_bits \<leftarrow> ld32 p payload;
        let is_broadcast = view_bits AND BROADCAST_SIGN_BIT;
        let msg_view = view_bits XOR is_broadcast;
        msg_lastOp \<leftarrow> ld32 p (payload + 4);
        msg_type \<leftarrow> compute_message_type p type_str;
        let m = (if msg_type = 0 then clear_quorum m msg_view msg_lastOp else m);
        if is_broadcast = 0 then Some (TC_ACT_OK, p, m, [])
        else case map_ctr_state m 0 of None \<Rightarrow> Some (TC_ACT_OK, p, m, [])
          | Some ctr_state \<Rightarrow>
            do { t0 \<leftarrow> ld8 p type_str; t1 \<leftarrow> ld8 p (type_str + 1);
                 let first = (t0 = 0x73 \<and> t1 = 0x70);
                 let rid = (if first then if leaderIdx ctr_state = 0 then 1 else 0 else t0);
                 let nxt = rid + 1;
                 let nxt = nxt + (if leaderIdx ctr_state = scast nxt then 1 else 0);
                 p \<leftarrow> st8 p type_str nxt;
                 p \<leftarrow> (if first then st8 p (type_str + 1) 0x4D else Some p);
                 let clones = (if sint nxt < int CLUSTER_SIZE then [p] else []);
                 (action, p) \<leftarrow> address_copy pad rid msg_view m p;
                 Some (action, p, m, clones) } } } } } })"

text \<open>
  A clone is sent through the same hook: the packets that leave for one packet sent, with fuel
  for their number.
\<close>

fun egress :: "nat \<Rightarrow> bytes \<Rightarrow> fast_maps \<Rightarrow> bytes list \<Rightarrow> ((int \<times> bytes) list \<times> fast_maps) option" where
  "egress n pad m [] = Some ([], m)"
| "egress 0 pad m (p # ps) = None"
| "egress (Suc n) pad m (p # ps) =
     do { (action, q, m, clones) \<leftarrow> FastBroadCast_main pad m p;
          (outs, m) \<leftarrow> egress n pad m (clones @ ps);
          Some ((action, q) # outs, m) }"

section \<open>What the leader multicasts\<close>

definition magic :: bytes where
  "magic = [0x18, 0x03, 0x05, 0x20]"

lemma length_magic [simp]: "length magic = 4"
  by (simp add: magic_def)

definition paxos_frame :: "bytes \<Rightarrow> bytes \<Rightarrow> bytes \<Rightarrow> bytes \<Rightarrow> bytes \<Rightarrow> bytes \<Rightarrow> bytes" where
  "paxos_frame eth ip udp tstr data rest =
     eth @ ip @ udp @ magic @ le_bytes 8 (length tstr) @ tstr @ data @ rest"

definition paxos_wf :: "bytes \<Rightarrow> bytes \<Rightarrow> bytes \<Rightarrow> bytes \<Rightarrow> bytes \<Rightarrow> bool" where
  "paxos_wf eth ip udp tstr data \<longleftrightarrow> length eth = 14 \<and> length ip = 20 \<and> ip ! 9 = IPPROTO_UDP \<and>
     length udp = 8 \<and> take 2 udp = [0x30, 0x39] \<and> 5 \<le> length tstr \<and> length tstr < MTU \<and> length data = 12"

text \<open>The copy for the replica \<open>r\<close>, with its view number \<open>v\<close>.\<close>

definition stamped_to :: "bytes \<Rightarrow> u32 \<Rightarrow> bytes" where
  "stamped_to ip addr = (let h = put (put ip 16 (le_bytes 4 (unat addr))) 10 [0, 0]; s = sum16 h in
     put h 10 (le_bytes 2 (unat (of_nat (65535 - (s mod 65536 + s div 65536) mod 65536) :: u16))))"

definition copy_for :: "paxos_configure \<Rightarrow> u32 \<Rightarrow> bytes \<Rightarrow> bytes \<Rightarrow> bytes \<Rightarrow> bytes \<Rightarrow> bytes \<Rightarrow> bytes \<Rightarrow> bytes" where
  "copy_for r v eth ip udp tstr data rest =
     paxos_frame (leader_eth r @ drop 6 eth) (stamped_to ip (leader_addr r))
       (take 2 udp @ le_bytes 2 (unat (leader_port r)) @ take 2 (drop 4 udp) @ [0, 0])
       ([0x73, 0x70] @ drop 2 tstr) (le_bytes 4 (unat v) @ drop 4 data) rest"

lemma ld64_frame:
  assumes "length eth = 14" "length ip = 20" "length udp = 8" "length tstr < MTU"
  shows "ld64 (paxos_frame eth ip udp tstr data rest) 46 = Some (of_nat (length tstr))"
proof -
  have "le_val (le_bytes 8 (length tstr)) = length tstr" using assms(4) by (simp add: le_val_le_bytes MTU_def)
  then show ?thesis using assms by (simp add: ld64_def ldn_def paxos_frame_def)
qed

lemma unat_tstr: "length tstr < MTU \<Longrightarrow> unat (of_nat (length tstr) :: u64) = length tstr"
  by (simp add: unat_of_nat MTU_def)

lemma compute_ip_checksum_segment:
  assumes "length eth = 14" "length ip = 20"
  defines "s \<equiv> sum16 (put ip 10 [0, 0])"
  shows "compute_ip_checksum (eth @ ip @ rest) 14 =
    Some (of_nat (65535 - (s mod 65536 + s div 65536) mod 65536), eth @ put ip 10 [0, 0] @ rest)"
  using compute_ip_checksum_result [of 14 "eth @ ip @ rest"] assms by (simp add: put_append1 put_append2)

lemma address_copy_result:
  assumes "length eth = 14" "length ip = 20" "length udp = 8" "5 \<le> length tstr" "length tstr < MTU" "length data = 12"
    and conf: "map_configure m (of_nat (le_val (rid # pad))) = Some r" "length (leader_eth r) = 6"
  shows "address_copy pad rid v m (paxos_frame eth ip udp tstr data rest) =
    Some (TC_ACT_OK, copy_for r v eth ip udp tstr data rest)"
proof -
  let ?p = "paxos_frame eth ip udp tstr data rest"
  have l: "length ?p = 66 + length tstr + length rest" using assms by (simp add: paxos_frame_def)
  have ty: "put (put tstr 0 [0x73]) (Suc 0) [0x70] = [0x73, 0x70] @ drop 2 tstr"
    using assms(4) by (simp add: put_def Suc_le_eq numeral_2_eq_2)
  have udp: "put (put udp 2 (le_bytes 2 n)) 6 [0, 0] = take 2 udp @ le_bytes 2 n @ take 2 (drop 4 udp) @ [0, 0]" for n
    using assms(3) by (simp add: put_def drop_take)
  have eth: "put eth 0 (leader_eth r) = leader_eth r @ drop 6 eth" using conf(2) by (simp add: put_def)
  have data: "put data 0 (le_bytes 4 (unat v)) = le_bytes 4 (unat v) @ drop 4 data" by (simp add: put_def)
  have tl: "Suc 0 \<le> length tstr" "Suc (Suc 0) \<le> length tstr" "\<not> MTU \<le> length tstr" using assms(4,5) by auto
  have tlen: "Suc (Suc (length tstr - 2)) = length tstr" using tl(2) by simp
  let ?t = "(take 2 udp @ le_bytes 2 (unat (leader_port r)) @ take 2 (drop 4 udp) @ [0, 0]) @ magic @ le_bytes 8 (length tstr) @
      ([0x73, 0x70] @ drop 2 tstr) @ (le_bytes 4 (unat v) @ drop 4 data) @ rest"
  let ?ip = "put ip 16 (le_bytes 4 (unat (leader_addr r)))"
  have cs: "wp (compute_ip_checksum (eth @ ?ip @ ?t) 14) (\<lambda>x. wp (st16 (snd x) 24 (fst x)) (\<lambda>q. wp (stn q 0 (leader_eth r))
      (\<lambda>q. q = copy_for r v eth ip udp tstr data rest)))"
    using assms by (simp add: compute_ip_checksum_segment wp_rules seg_simps copy_for_def stamped_to_def paxos_frame_def
        Let_def put_put_same tlen eth)
  have "wp (address_copy pad rid v m ?p) (\<lambda>x. x = (TC_ACT_OK, copy_for r v eth ip udp tstr data rest))"
    using cs unfolding address_copy_def Let_def
    by (simp add: l ld64_frame unat_tstr assms conf [simplified] wp_rules case_prod_beta tl)
      (simp add: paxos_frame_def seg_simps assms data ty udp tl)
  then show ?thesis by (auto simp: wp_iff)
qed

lemma chars_at_result:
  "\<forall>(i, c) \<in> set cs. off + i < length p \<Longrightarrow> chars_at p off cs = Some (\<forall>(i, c) \<in> set cs. p ! (off + i) = c)"
  by (induction p off cs rule: chars_at.induct) (auto simp: ld8_def)

definition is_prepare :: "bytes \<Rightarrow> bool" where
  "is_prepare tstr \<longleftrightarrow> length tstr = PREPARE_TYPE_LEN \<and> (\<forall>(i, c) \<in> set prepare_chars. tstr ! i = c)"

lemma frame_nth:
  assumes "length eth = 14" "length ip = 20" "length udp = 8" "i < length tstr"
  shows "paxos_frame eth ip udp tstr data rest ! (54 + i) = tstr ! i"
  using assms by (simp add: paxos_frame_def nth_append)

lemma frame_magic:
  assumes "length eth = 14" "length ip = 20" "length udp = 8"
  shows "chars_at (paxos_frame eth ip udp tstr data rest) 42 [(0, 0x18), (Suc 0, 0x03), (2, 0x05), (3, 0x20)] = Some True"
  using assms by (subst chars_at_result) (simp_all add: paxos_frame_def nth_append magic_def)

lemma chars_at_frame:
  assumes "length eth = 14" "length ip = 20" "length udp = 8" "\<forall>(i, c) \<in> set cs. i < length tstr"
  shows "chars_at (paxos_frame eth ip udp tstr data rest) 54 cs = Some (\<forall>(i, c) \<in> set cs. tstr ! i = c)"
proof -
  let ?p = "paxos_frame eth ip udp tstr data rest"
  have "chars_at ?p 54 cs = Some (\<forall>(i, c) \<in> set cs. ?p ! (54 + i) = c)"
    by (rule chars_at_result) (use assms in \<open>auto simp: paxos_frame_def\<close>)
  also have "(\<forall>(i, c) \<in> set cs. ?p ! (54 + i) = c) \<longleftrightarrow> (\<forall>(i, c) \<in> set cs. tstr ! i = c)"
    using assms frame_nth [OF assms(1-3)] by (intro ball_cong refl) fastforce
  finally show ?thesis .
qed

lemma compute_message_type_prepare:
  assumes "length eth = 14" "length ip = 20" "length udp = 8" "is_prepare tstr" "length data = 12"
  shows "compute_message_type (paxos_frame eth ip udp tstr data rest) 54 = Some 0"
proof -
  have "chars_at (paxos_frame eth ip udp tstr data rest) 54 prepare_chars = Some True"
    using assms(1-4) by (subst chars_at_frame) (auto simp: is_prepare_def prepare_chars_def)
  then have "type_is (paxos_frame eth ip udp tstr data rest) 54 33 prepare_chars = Some True"
    using assms by (simp add: type_is_def paxos_frame_def is_prepare_def del: chars_at.simps)
  then show ?thesis by (simp add: compute_message_type_def prepare_chars_def)
qed

lemma st8_frame:
  assumes "length eth = 14" "length ip = 20" "length udp = 8" "i < length tstr" "j = 54 + i"
  shows "st8 (paxos_frame eth ip udp tstr data rest) j x = Some (paxos_frame eth ip udp (put tstr i [x]) data rest)"
  using assms by (simp add: st8_def stn_put paxos_frame_def seg_simps Suc_le_eq)

lemma copy_for_drop: "drop 2 tstr' = drop 2 tstr \<Longrightarrow> length tstr' = length tstr \<Longrightarrow>
    copy_for r v eth ip udp tstr' data rest = copy_for r v eth ip udp tstr data rest"
  by (simp add: copy_for_def)

definition msg_view_bits :: "bytes \<Rightarrow> u32" where
  "msg_view_bits data = of_nat (le_val (take 4 data))"

definition msg_op :: "bytes \<Rightarrow> u32" where
  "msg_op data = of_nat (le_val (take 4 (drop 4 data)))"

text \<open>One run on a frame that has to be multicast: the copy and the clone.\<close>

definition chosen :: "u32 \<Rightarrow> bytes \<Rightarrow> u8" where
  "chosen leader tstr = (if tstr ! 0 = 0x73 \<and> tstr ! 1 = 0x70 then if leader = 0 then 1 else 0 else tstr ! 0)"

definition next_id :: "u32 \<Rightarrow> u8 \<Rightarrow> u8" where
  "next_id leader rid = rid + 1 + (if leader = scast (rid + 1) then 1 else 0)"

definition cloned_type :: "u32 \<Rightarrow> bytes \<Rightarrow> bytes" where
  "cloned_type leader tstr = next_id leader (chosen leader tstr) # (if tstr ! 0 = 0x73 \<and> tstr ! 1 = 0x70 then 0x4D else tstr ! 1) # drop 2 tstr"

lemma clear_quorum_frame [simp]:
  "map_ctr_state (clear_quorum m v l) = map_ctr_state m" "map_configure (clear_quorum m v l) = map_configure m"
  "map_msg_lastOp (clear_quorum m v l) = map_msg_lastOp m"
  by (simp_all add: clear_quorum_def Let_def split: option.splits)

lemma clear_quorum_idem [simp]: "clear_quorum (clear_quorum m v l) v l = clear_quorum m v l"
  by (simp add: clear_quorum_def Let_def split: option.splits)

lemma FastBroadCast_step:
  assumes wf: "paxos_wf eth ip udp tstr data" "is_prepare tstr"
    and b: "msg_view_bits data AND BROADCAST_SIGN_BIT \<noteq> 0" and c: "map_ctr_state m 0 = Some c"
    and conf: "map_configure m (of_nat (le_val (chosen (leaderIdx c) tstr # pad))) = Some r" "length (leader_eth r) = 6"
  defines "v \<equiv> msg_view_bits data XOR (msg_view_bits data AND BROADCAST_SIGN_BIT)"
  shows "FastBroadCast_main pad m (paxos_frame eth ip udp tstr data rest) =
    Some (TC_ACT_OK, copy_for r v eth ip udp tstr data rest, clear_quorum m v (msg_op data),
      if sint (next_id (leaderIdx c) (chosen (leaderIdx c) tstr)) < 3
      then [paxos_frame eth ip udp (cloned_type (leaderIdx c) tstr) data rest] else [])"
proof -
  have len: "length eth = 14" "length ip = 20" "length udp = 8" "length data = 12" "length tstr = 33" "ip ! 9 = 17"
    "take 2 udp = [0x30, 0x39]" "length tstr < MTU" "5 \<le> length tstr"
    using wf by (auto simp: paxos_wf_def is_prepare_def MTU_def)
  let ?p = "paxos_frame eth ip udp tstr data rest" and ?n = "next_id (leaderIdx c) (chosen (leaderIdx c) tstr)"
  let ?t = "cloned_type (leaderIdx c) tstr" and ?first = "tstr ! 0 = 0x73 \<and> tstr ! 1 = 0x70"
  have l: "length ?p = 99 + length rest" using len by (simp add: paxos_frame_def)
  have hdr: "ld8 ?p 23 = Some 17" "ld16 ?p 34 = Some (bswap16 12345)"
    "ld32 ?p 87 = Some (msg_view_bits data)" "ld32 ?p 91 = Some (msg_op data)" "ld8 ?p 54 = Some (tstr ! 0)" "ld8 ?p 55 = Some (tstr ! 1)"
    using len by (simp_all add: ld8_def ld16_def ld32_def ldn_def paxos_frame_def nth_append msg_view_bits_def msg_op_def bswap16_def)
  have t1: "put tstr 0 [?n] = ?n # drop 1 tstr" "put (?n # drop 1 tstr) 1 [0x4D] = ?n # 0x4D # drop 2 tstr"
    "?n # drop 1 tstr = ?n # tstr ! 1 # drop 2 tstr"
    using len Cons_nth_drop_Suc [of 1 tstr] by (auto simp: put_def numeral_2_eq_2)
  have st: "st8 ?p 54 ?n = Some (paxos_frame eth ip udp (?n # drop 1 tstr) data rest)"
    "st8 (paxos_frame eth ip udp (?n # drop 1 tstr) data rest) 55 0x4D = Some (paxos_frame eth ip udp (?n # 0x4D # drop 2 tstr) data rest)"
    using len st8_frame [of eth ip udp 0 tstr 54 data rest ?n] st8_frame [of eth ip udp 1 "?n # drop 1 tstr" 55 data rest "0x4D"]
    unfolding t1(1,2) by simp_all
  have ac: "address_copy pad (chosen (leaderIdx c) tstr) v (clear_quorum m v (msg_op data)) (paxos_frame eth ip udp t' data rest) =
      Some (TC_ACT_OK, copy_for r v eth ip udp tstr data rest)" if "drop 2 t' = drop 2 tstr" "length t' = length tstr" for t'
    using address_copy_result [of eth ip udp t' data "clear_quorum m v (msg_op data)" "chosen (leaderIdx c) tstr" pad r v rest]
      copy_for_drop [OF that] that len conf by simp
  have ct: "?t = ?n # (if ?first then 0x4D else tstr ! 1) # drop 2 tstr" by (simp add: cloned_type_def)
  have ce: "(if tstr ! 0 = 0x73 \<and> tstr ! Suc 0 = 0x70 then if leaderIdx c = 0 then 1 else 0 else tstr ! 0) = chosen (leaderIdx c) tstr"
    by (simp add: chosen_def)
  have ne: "chosen (leaderIdx c) tstr + 1 + (if leaderIdx c = scast (chosen (leaderIdx c) tstr + 1) then 1 else 0) = ?n"
    by (simp add: next_id_def)
  have fin: "(if tstr ! 0 = 0x73 \<and> tstr ! 1 = 0x70 then st8 (paxos_frame eth ip udp (?n # drop 1 tstr) data rest) 55 0x4D
      else Some (paxos_frame eth ip udp (?n # drop 1 tstr) data rest)) = Some (paxos_frame eth ip udp ?t data rest)"
  proof (cases ?first)
    case True
    show ?thesis unfolding ct if_P [OF True] by (rule st(2))
  next
    case False
    show ?thesis unfolding ct if_not_P [OF False] t1(3) by (rule refl)
  qed
  have fin2: "(if tstr ! 0 = 0x73 \<and> tstr ! Suc 0 = 0x70
      then st8 (paxos_frame eth ip udp (?n # drop (Suc 0) tstr) data rest) (udp_payload + MAGIC_LEN + 8 + 1) 0x4D
      else Some (paxos_frame eth ip udp (?n # drop (Suc 0) tstr) data rest)) = Some (paxos_frame eth ip udp ?t data rest)"
  proof -
    have off: "udp_payload + MAGIC_LEN + 8 + 1 = 55" by simp
    show ?thesis unfolding off using fin unfolding One_nat_def .
  qed
  have ct2: "drop 2 ?t = drop 2 tstr" "length ?t = length tstr" using len by (simp_all add: cloned_type_def)
  show ?thesis
    unfolding FastBroadCast_main_def Let_def
    using fin2 ac [OF ct2]
    by (simp add: l hdr frame_magic len ld64_frame unat_tstr compute_message_type_prepare wf(2) MTU_def b c
      v_def [symmetric] ce ne st CLUSTER_SIZE_def del: chars_at.simps split del: if_split)
qed

lemma cloned_is_prepare:
  assumes "paxos_wf eth ip udp tstr data" "is_prepare tstr"
  shows "paxos_wf eth ip udp (cloned_type l tstr) data" "is_prepare (cloned_type l tstr)"
  using assms by (auto simp: paxos_wf_def is_prepare_def cloned_type_def prepare_chars_def nth_Cons')

text \<open>Who gets a copy, for each leader of the cluster of three.\<close>

lemma next_id_cases:
  "next_id 0 1 = 2" "next_id 0 2 = 3" "next_id 1 0 = 2" "next_id 1 2 = 3" "next_id 2 0 = 1" "next_id 2 1 = 3"
  by (simp_all add: next_id_def)

lemma chosen_first: "chosen l (0x73 # 0x70 # ts) = (if l = 0 then 1 else 0)"
  by (simp add: chosen_def)

lemma chosen_clone: "chosen l (cloned_type l' tstr) = (if next_id l' (chosen l' tstr) = 0x73 \<and> cloned_type l' tstr ! 1 = 0x70
    then if l = 0 then 1 else 0 else next_id l' (chosen l' tstr))"
  by (simp add: chosen_def cloned_type_def)

definition other_replicas :: "u32 \<Rightarrow> u32 list" where
  "other_replicas leader = filter (\<lambda>i. i \<noteq> leader) [0, 1, 2]"

lemma multicast_two:
  assumes wf: "paxos_wf eth ip udp tstr data" "is_prepare tstr" "tstr = 0x73 # 0x70 # ts"
    and b: "msg_view_bits data AND BROADCAST_SIGN_BIT \<noteq> 0" and c: "map_ctr_state m 0 = Some c"
    and conf: "\<And>i. i < 3 \<Longrightarrow> map_configure m i = Some (conf i) \<and> length (leader_eth (conf i)) = 6"
    and ids: "(i, j) \<in> {(1, 2), (0, 2), (0, 1)}" "chosen (leaderIdx c) tstr = i" "next_id (leaderIdx c) i = j" "next_id (leaderIdx c) j = 3"
  defines "v \<equiv> msg_view_bits data XOR (msg_view_bits data AND BROADCAST_SIGN_BIT)"
  shows "egress (Suc (Suc n)) [0, 0, 0] m [paxos_frame eth ip udp tstr data rest] =
    Some ([(TC_ACT_OK, copy_for (conf (ucast i)) v eth ip udp tstr data rest), (TC_ACT_OK, copy_for (conf (ucast j)) v eth ip udp tstr data rest)],
      clear_quorum m v (msg_op data))"
proof -
  let ?l = "leaderIdx c" and ?t = "cloned_type (leaderIdx c) tstr"
  have key: "of_nat (le_val [k, 0, 0, 0]) = (ucast k :: u32)" for k :: u8 by simp
  have lt: "(ucast i :: u32) < 3" "(ucast j :: u32) < 3" "sint j < 3" using ids(1) by auto
  have cj: "chosen ?l ?t = j" using ids by (auto simp: chosen_clone)
  have s1: "FastBroadCast_main [0, 0, 0] m (paxos_frame eth ip udp tstr data rest) =
      Some (TC_ACT_OK, copy_for (conf (ucast i)) v eth ip udp tstr data rest, clear_quorum m v (msg_op data), [paxos_frame eth ip udp ?t data rest])"
    using FastBroadCast_step [OF wf(1,2) b c, of "[0, 0, 0]" "conf (ucast i)" rest] conf [OF lt(1)] lt(3)
    unfolding ids(2) key ids(3) v_def by simp
  have s2: "FastBroadCast_main [0, 0, 0] (clear_quorum m v (msg_op data)) (paxos_frame eth ip udp ?t data rest) =
      Some (TC_ACT_OK, copy_for (conf (ucast j)) v eth ip udp ?t data rest, clear_quorum m v (msg_op data), [])"
    using FastBroadCast_step [OF cloned_is_prepare [OF wf(1,2), of ?l] b, where m = "clear_quorum m v (msg_op data)" and c = c and pad = "[0, 0, 0]" and r = "conf (ucast j)" and rest = rest] c conf [OF lt(2)]
    unfolding cj key ids(4) v_def by simp
  have "copy_for (conf (ucast j)) v eth ip udp ?t data rest = copy_for (conf (ucast j)) v eth ip udp tstr data rest"
    by (rule copy_for_drop) (use wf(2) in \<open>simp_all add: cloned_type_def is_prepare_def\<close>)
  then show ?thesis by (simp add: s1 s2)
qed

lemma egress_multicast:
  assumes "paxos_wf eth ip udp tstr data" "is_prepare tstr" "tstr = 0x73 # 0x70 # ts"
    and "msg_view_bits data AND BROADCAST_SIGN_BIT \<noteq> 0" and "map_ctr_state m 0 = Some c" "leaderIdx c < 3"
    and "\<And>i. i < 3 \<Longrightarrow> map_configure m i = Some (conf i) \<and> length (leader_eth (conf i)) = 6"
  defines "v \<equiv> msg_view_bits data XOR (msg_view_bits data AND BROADCAST_SIGN_BIT)"
  shows "egress (2 + n) [0, 0, 0] m [paxos_frame eth ip udp tstr data rest] =
    Some (map (\<lambda>i. (TC_ACT_OK, copy_for (conf i) v eth ip udp tstr data rest)) (other_replicas (leaderIdx c)),
      clear_quorum m v (msg_op data))"
proof -
  have "leaderIdx c \<in> {0, 1, 2}"
  proof -
    have "unat (leaderIdx c) < 3" using assms(6) by (simp add: word_less_nat_alt)
    then have "unat (leaderIdx c) = 0 \<or> unat (leaderIdx c) = 1 \<or> unat (leaderIdx c) = 2" by auto
    then show ?thesis by (auto simp: word_unat_eq_iff)
  qed
  then consider "leaderIdx c = 0" | "leaderIdx c = 1" | "leaderIdx c = 2" by auto
  then show ?thesis
  proof cases
    case 1
    then show ?thesis
      using multicast_two [OF assms(1-5,7), of 1 2 n rest] unfolding v_def
      by (simp add: assms(3) chosen_first next_id_cases other_replicas_def)
  next
    case 2
    then show ?thesis
      using multicast_two [OF assms(1-5,7), of 0 2 n rest] unfolding v_def
      by (simp add: assms(3) chosen_first next_id_cases other_replicas_def)
  next
    case 3
    then show ?thesis
      using multicast_two [OF assms(1-5,7), of 0 1 n rest] unfolding v_def
      by (simp add: assms(3) chosen_first next_id_cases other_replicas_def)
  qed
qed

text \<open>
  Property C21. Multicast: a Prepare message that the leader sends with the broadcast bit leaves the
  host exactly once for every other replica of the cluster, addressed to it, with the broadcast
  bit cleared, the type string restored and everything else as it was, and the leader's quorum
  slot is ready for its operation. The recursion through the hook ends after two packets. The
  three bytes behind \<open>id\<close> on the stack have to be zero.
\<close>

theorem multicast_reaches_replicas:
  assumes "paxos_wf eth ip udp tstr data" "is_prepare tstr" "tstr = 0x73 # 0x70 # ts"
    and "msg_view_bits data AND BROADCAST_SIGN_BIT \<noteq> 0" and "map_ctr_state m 0 = Some c" "leaderIdx c < 3"
    and "\<And>i. i < 3 \<Longrightarrow> map_configure m i = Some (conf i) \<and> length (leader_eth (conf i)) = 6"
  defines "v \<equiv> msg_view_bits data XOR (msg_view_bits data AND BROADCAST_SIGN_BIT)"
  shows "egress (2 + n) [0, 0, 0] m [paxos_frame eth ip udp tstr data rest] =
    Some (map (\<lambda>i. (TC_ACT_OK, copy_for (conf i) v eth ip udp tstr data rest)) (other_replicas (leaderIdx c)),
      clear_quorum m v (msg_op data))"
  unfolding v_def by (rule egress_multicast [OF assms(1-7)])

section \<open>PrepareOK messages at the leader\<close>

definition is_prepareok :: "bytes \<Rightarrow> bool" where
  "is_prepareok tstr \<longleftrightarrow> length tstr = PREPAREOK_TYPE_LEN \<and> (\<forall>(i, c) \<in> set prepareok_chars. tstr ! i = c)"

lemma type_is_frame:
  assumes "length eth = 14" "length ip = 20" "length udp = 8" "is_prepareok tstr" "length data = 12" "\<forall>(i, c) \<in> set cs. i < 35" "n \<le> 35"
  shows "type_is (paxos_frame eth ip udp tstr data rest) 54 n cs = Some (\<forall>(i, c) \<in> set cs. tstr ! i = c)"
proof -
  have "length (paxos_frame eth ip udp tstr data rest) = 101 + length rest"
    using assms by (simp add: paxos_frame_def is_prepareok_def)
  then show ?thesis
    using assms chars_at_frame [OF assms(1-3), of cs tstr data rest] by (auto simp: type_is_def is_prepareok_def)
qed

lemma xp_HandlePrepareOK_result:
  assumes "12 \<le> length p" "ok_fields p = (v, l, r)" "r < 32"
    "map_quorum m (op_slot l) = Some \<lparr>q_view = v, q_opnum = l, q_bitset = w\<rparr>" "map_msg_lastOp m 0 = Some (of_nat start)" "start < 2000"
  defines "m' \<equiv> m\<lparr>map_quorum := (map_quorum m)(op_slot l \<mapsto> \<lparr>q_view = v, q_opnum = l, q_bitset = w OR push_bit r 1\<rparr>)\<rparr>"
  shows "xp_HandlePrepareOK_main E p m = Some
    (if popcount (w OR push_bit r 1) = QUORUM_SIZE - 1 then (XDP_PASS, moved_head E (- int start) p, m') else (XDP_DROP, p, m'))"
proof -
  have ld: "ld32 p 0 = Some v" "ld32 p 4 = Some l" "ld32 p 8 = Some (of_nat r)"
    using assms(1,2) by (auto simp: ld32_def ldn_def ok_fields_def)
  have r: "unat (of_nat r :: u32) = r" using assms(3) by (simp add: unat_of_nat)
  have st: "sint (ucast (of_nat start :: u64) :: u32) = int start"
  proof -
    have "(ucast (of_nat start :: u64) :: u32) = of_nat start" by (rule bit_word_eqI) (auto simp: bit_simps)
    moreover have "sint (of_nat start :: u32) = int start"
      using assms(6) by (simp add: signed_of_nat signed_take_bit_int_eq_self)
    ultimately show ?thesis by simp
  qed
  show ?thesis
    using assms(1,3-5) by (simp add: xp_HandlePrepareOK_main_def op_slot_def ld r st m'_def Let_def)
qed

lemma xp_fastPaxos_prepareok:
  assumes len: "length eth = 14" "length ip = 20" "length udp = 8" "length data = 12" "is_prepareok tstr"
    and hdr: "ip ! 9 = IPPROTO_UDP" "take 2 (drop 2 udp) = [0x30, 0x39]" and E: "XP_FAST_QUORUM_PRUNE E"
  shows "xp_fastPaxos_main E (paxos_frame eth ip udp tstr data rest) m = offload_prepareok E 89 (paxos_frame eth ip udp tstr data rest) m"
proof -
  let ?p = "paxos_frame eth ip udp tstr data rest"
  have tl: "length tstr = 35" "length tstr < MTU" using len(5) by (simp_all add: is_prepareok_def MTU_def)
  have l: "length ?p = 101 + length rest" using len tl by (simp add: paxos_frame_def)
  have ld: "ld8 ?p 23 = Some 17" "ld16 ?p 36 = Some (bswap16 12345)"
    using len hdr by (simp_all add: ld8_def ld16_def ldn_def paxos_frame_def nth_append bswap16_def)
  have "type_is ?p 54 33 prepare_chars = Some (\<forall>(i, c) \<in> set prepare_chars. tstr ! i = c)"
    using len by (intro type_is_frame) (auto simp: prepare_chars_def)
  moreover have "tstr ! 26 = 0x4F" using len(5) by (simp add: is_prepareok_def prepareok_chars_def)
  ultimately have "type_is ?p 54 33 prepare_chars = Some False" by (simp add: prepare_chars_def)
  moreover have "type_is ?p 54 35 prepareok_chars = Some (\<forall>(i, c) \<in> set prepareok_chars. tstr ! i = c)"
    using len by (intro type_is_frame) (auto simp: prepareok_chars_def)
  then have "type_is ?p 54 35 prepareok_chars = Some True" using len(5) by (simp add: is_prepareok_def)
  ultimately show ?thesis
    unfolding xp_fastPaxos_main_def Let_def
    by (simp add: l ld frame_magic len ld64_frame [OF len(1-3) tl(2)] unat_tstr tl MTU_def E del: chars_at.simps)
qed

text \<open>
  A PrepareOK message that reaches the leader is counted from its own fields, which
  follow the type string. But the verdict of the handler is dropped with the call: a message
  below or above the quorum is not discarded, it is passed on, and without its Ethernet, IP and
  UDP headers, because only the handler's accepting path moves the head of the packet back.
\<close>

definition prepareok_frame :: "u32 \<Rightarrow> u32 \<Rightarrow> bytes \<Rightarrow> bool" where
  "prepareok_frame v l p \<longleftrightarrow> (\<exists>eth ip udp tstr data rest. p = paxos_frame eth ip udp tstr data rest \<and>
     length eth = 14 \<and> length ip = 20 \<and> length udp = 8 \<and> length data = 12 \<and> is_prepareok tstr \<and>
     ip ! 9 = IPPROTO_UDP \<and> take 2 (drop 2 udp) = [0x30, 0x39] \<and> (\<exists>r < 32. ok_fields data = (v, l, r)))"

definition replica_of :: "bytes \<Rightarrow> nat" where
  "replica_of p = snd (snd (ok_fields (drop 89 p)))"

text \<open>
  What user space gets of a frame \<open>p\<close>: a frame of the same length with the same Paxos message, or
  the Paxos message alone. (Nothing is promised of bytes in front of the packet when its head is
  moved back.)
\<close>

definition delivered :: "bool \<Rightarrow> bytes \<Rightarrow> bytes \<Rightarrow> bool" where
  "delivered whole p q \<longleftrightarrow> (if whole then length q = length p \<and> drop 89 q = drop 89 p else q = drop 89 p)"

lemma prepareok_counted:
  assumes p: "prepareok_frame v l p" and E: "XP_FAST_QUORUM_PRUNE E" "adjust_head_ok (xp_adjust_head E)"
      "xp_adjust_head E 89 p \<noteq> None" "xp_adjust_head E (- 89) (drop 89 p) \<noteq> None"
    and m: "map_msg_lastOp m 0 \<noteq> None" "map_quorum m (op_slot l) = Some \<lparr>q_view = v, q_opnum = l, q_bitset = w\<rparr>"
  shows "\<exists>q m'. xp_fastPaxos_main E p m = Some (XDP_PASS, q, m') \<and> map_msg_lastOp m' 0 \<noteq> None \<and> replica_of p < 32 \<and>
    map_quorum m' (op_slot l) = Some \<lparr>q_view = v, q_opnum = l, q_bitset = w OR push_bit (replica_of p) 1\<rparr> \<and>
    delivered (popcount (w OR push_bit (replica_of p) 1) = QUORUM_SIZE - 1) p q"
proof -
  obtain eth ip udp tstr data rest r where pf: "p = paxos_frame eth ip udp tstr data rest"
    and len: "length eth = 14" "length ip = 20" "length udp = 8" "length data = 12" "is_prepareok tstr"
    and hdr: "ip ! 9 = IPPROTO_UDP" "take 2 (drop 2 udp) = [0x30, 0x39]" and f: "ok_fields data = (v, l, r)" "r < 32"
    using p by (auto simp: prepareok_frame_def)
  let ?m = "m\<lparr>map_msg_lastOp := (map_msg_lastOp m)(0 \<mapsto> of_nat 89)\<rparr>" and ?w = "w OR push_bit r 1"
  have tl: "length tstr = 35" using len(5) by (simp add: is_prepareok_def)
  have d: "drop 89 p = data @ rest" using len tl by (simp add: pf paxos_frame_def)
  obtain q0 where q0: "xp_adjust_head E 89 p = Some q0" using E(3) by auto
  then have mh: "moved_head E (int 89) p = data @ rest" using adjust_head_pull [OF E(2) q0] d by (simp add: moved_head_def)
  obtain q where q: "xp_adjust_head E (- 89) (data @ rest) = Some q" using E(4) d by auto
  have up: "delivered True p (moved_head E (- int 89) (data @ rest))"
    using adjust_head_push [OF E(2) q] q d len tl by (simp add: delivered_def moved_head_def pf paxos_frame_def)
  have okf: "12 \<le> length (data @ rest)" "ok_fields (data @ rest) = (v, l, r)" using len f by (simp_all add: ok_fields_def)
  then have rep: "replica_of p = r" by (simp add: replica_of_def d)
  have "offload_prepareok E 89 p m = called (xp_HandlePrepareOK_main E (data @ rest) ?m)"
    using m(1) mh by (auto simp: offload_prepareok_def Let_def)
  then have x: "xp_fastPaxos_main E p m = called (xp_HandlePrepareOK_main E (data @ rest) ?m)"
    using xp_fastPaxos_prepareok [OF len hdr E(1), of rest m] by (simp add: pf)
  show ?thesis
    using xp_HandlePrepareOK_result [OF okf f(2), of ?m w 89 E] m(2) up d f(2)
    unfolding x rep by (auto simp: called_def delivered_def)
qed

section \<open>Multicast and quorum\<close>

lemma prepareoks_counted:
  assumes "XP_FAST_QUORUM_PRUNE E" "adjust_head_ok (xp_adjust_head E)"
    and "\<And>p. p \<in> set ps \<Longrightarrow> prepareok_frame v l p \<and> xp_adjust_head E 89 p \<noteq> None \<and> xp_adjust_head E (- 89) (drop 89 p) \<noteq> None"
    and "map_msg_lastOp m 0 \<noteq> None" "map_quorum m (op_slot l) = Some \<lparr>q_view = v, q_opnum = l, q_bitset = w\<rparr>"
  shows "\<exists>outs m' w'. run_all (\<lambda>m p. xp_fastPaxos_main E p m) ps m = Some (outs, m') \<and> length outs = length ps \<and>
    map_quorum m' (op_slot l) = Some \<lparr>q_view = v, q_opnum = l, q_bitset = w'\<rparr> \<and>
    {i. i < 32 \<and> bit w' i} = {i. i < 32 \<and> bit w i} \<union> replica_of ` set ps \<and>
    (\<forall>i < length ps. fst (outs ! i) = XDP_PASS \<and>
      delivered (card ({i. i < 32 \<and> bit w i} \<union> replica_of ` set (take (Suc i) ps)) = QUORUM_SIZE - 1) (ps ! i) (snd (outs ! i)))"
  using assms(3-5)
proof (induction ps arbitrary: m w)
  case (Cons p ps)
  let ?w = "w OR push_bit (replica_of p) 1"
  obtain q m1 where s: "xp_fastPaxos_main E p m = Some (XDP_PASS, q, m1)" "map_msg_lastOp m1 0 \<noteq> None" "replica_of p < 32"
    "map_quorum m1 (op_slot l) = Some \<lparr>q_view = v, q_opnum = l, q_bitset = ?w\<rparr>"
    "delivered (popcount ?w = QUORUM_SIZE - 1) p q"
    using prepareok_counted [OF _ assms(1,2) _ _ Cons.prems(2,3), of p] Cons.prems(1) [of p] by auto
  have bits: "{i. i < 32 \<and> bit ?w i} = {i. i < 32 \<and> bit w i} \<union> {replica_of p}"
    using s(3) by (auto simp: bit_simps)
  obtain outs m' w' where ih: "run_all (\<lambda>m p. xp_fastPaxos_main E p m) ps m1 = Some (outs, m')" "length outs = length ps"
    "map_quorum m' (op_slot l) = Some \<lparr>q_view = v, q_opnum = l, q_bitset = w'\<rparr>"
    "{i. i < 32 \<and> bit w' i} = {i. i < 32 \<and> bit ?w i} \<union> replica_of ` set ps"
    "\<forall>i < length ps. fst (outs ! i) = XDP_PASS \<and>
      delivered (card ({i. i < 32 \<and> bit ?w i} \<union> replica_of ` set (take (Suc i) ps)) = QUORUM_SIZE - 1) (ps ! i) (snd (outs ! i))"
    using Cons.IH [OF _ s(2,4)] Cons.prems(1) by auto
  let ?outs = "(XDP_PASS, q) # outs"
  have now: "delivered (card (insert (replica_of p) {i. i < 32 \<and> bit w i}) = QUORUM_SIZE - 1) p q"
    using s(5) unfolding popcount_card bits by simp
  have later: "\<forall>i < length ps. fst (outs ! i) = XDP_PASS \<and>
      delivered (card (insert (replica_of p) ({i. i < 32 \<and> bit w i} \<union> replica_of ` set (take (Suc i) ps))) = QUORUM_SIZE - 1)
        (ps ! i) (snd (outs ! i))"
    using ih(5) unfolding bits by simp
  have "fst (?outs ! i) = XDP_PASS \<and>
      delivered (card ({i. i < 32 \<and> bit w i} \<union> replica_of ` set (take (Suc i) (p # ps))) = QUORUM_SIZE - 1) ((p # ps) ! i) (snd (?outs ! i))"
    if "i < length (p # ps)" for i
    using that now later by (cases i) simp_all
  moreover have "{i. i < 32 \<and> bit w' i} = {i. i < 32 \<and> bit w i} \<union> replica_of ` set (p # ps)"
    unfolding ih(4) bits by simp
  ultimately show ?case using s(1) ih(1-3) by auto
qed simp

text \<open>
  Property C20. The round trip of an operation, through the two programs of the leader. After
  \<open>FastBroadCast_main\<close> has multicast the Prepare message of an operation that its quorum slot did
  not hold before, \<open>fastPaxos_main\<close> is run on any sequence of PrepareOK frames for it. Then the
  bitset of the slot is the set of replicas that answered, however often. Every frame gets XDP_PASS,
  for the dispatcher drops the handler's verdict, but only a frame at which exactly \<open>QUORUM_SIZE - 1\<close>
  different replicas have answered goes up at its full length; the others go up without
  their first 89 bytes. A second multicast of the same message, a retransmission, keeps the
  answers. Conditions: built with the quorum offload, replica numbers below 32, the kernel
  grants the moves of the head of the packet, an entry in the map that holds the offset.
\<close>

theorem multicast_then_quorum:
  assumes "paxos_wf eth ip udp tstr data" "is_prepare tstr" "tstr = 0x73 # 0x70 # ts"
    and "msg_view_bits data AND BROADCAST_SIGN_BIT \<noteq> 0" and "map_ctr_state m 0 = Some c" "leaderIdx c < 3"
    and "\<And>i. i < 3 \<Longrightarrow> map_configure m i = Some (conf i) \<and> length (leader_eth (conf i)) = 6"
    and "map_quorum m (op_slot (msg_op data)) = Some e" "q_view e \<noteq> v \<or> q_opnum e \<noteq> msg_op data"
    and "map_msg_lastOp m 0 \<noteq> None" and "XP_FAST_QUORUM_PRUNE E" and "adjust_head_ok (xp_adjust_head E)"
    and "\<And>p. p \<in> set ps \<Longrightarrow> prepareok_frame v (msg_op data) p \<and>
      xp_adjust_head E 89 p \<noteq> None \<and> xp_adjust_head E (- 89) (drop 89 p) \<noteq> None"
    and v: "v = msg_view_bits data XOR (msg_view_bits data AND BROADCAST_SIGN_BIT)"
  shows "\<exists>copies m' outs m'' w. egress (2 + n) [0, 0, 0] m [paxos_frame eth ip udp tstr data rest] = Some (copies, m') \<and>
    run_all (\<lambda>m p. xp_fastPaxos_main E p m) ps m' = Some (outs, m'') \<and>
    map_quorum m'' (op_slot (msg_op data)) = Some \<lparr>q_view = v, q_opnum = msg_op data, q_bitset = w\<rparr> \<and>
    {i. i < 32 \<and> bit w i} = replica_of ` set ps \<and> length outs = length ps \<and>
    (\<forall>i < length ps. fst (outs ! i) = XDP_PASS \<and>
      delivered (card (replica_of ` set (take (Suc i) ps)) = QUORUM_SIZE - 1) (ps ! i) (snd (outs ! i))) \<and>
    clear_quorum m'' v (msg_op data) = m''"
proof -
  let ?m = "clear_quorum m v (msg_op data)"
  have q: "map_quorum ?m (op_slot (msg_op data)) = Some \<lparr>q_view = v, q_opnum = msg_op data, q_bitset = 0\<rparr>"
    using assms(8,9) by (auto simp: clear_quorum_def op_slot_def)
  have l: "map_msg_lastOp ?m 0 \<noteq> None" using assms(10) by simp
  obtain outs m'' w where r: "run_all (\<lambda>m p. xp_fastPaxos_main E p m) ps ?m = Some (outs, m'')" "length outs = length ps"
    "map_quorum m'' (op_slot (msg_op data)) = Some \<lparr>q_view = v, q_opnum = msg_op data, q_bitset = w\<rparr>"
    "{i. i < 32 \<and> bit w i} = replica_of ` set ps"
    "\<forall>i < length ps. fst (outs ! i) = XDP_PASS \<and>
      delivered (card (replica_of ` set (take (Suc i) ps)) = QUORUM_SIZE - 1) (ps ! i) (snd (outs ! i))"
    using prepareoks_counted [OF assms(11,12,13) l q, of ps] by auto
  have "clear_quorum m'' v (msg_op data) = m''"
    using r(3) by (simp add: clear_quorum_def op_slot_def)
  then show ?thesis
    using egress_multicast [OF assms(1-7), of n rest] r unfolding v [symmetric] by auto
qed

section \<open>Examples\<close>

definition demo_prepare_type :: bytes where
  "demo_prepare_type = [0x73, 0x70, 0x65, 0x63, 0x70, 0x61, 0x78, 0x6F, 0x73, 0x2E, 0x76, 0x72, 0x2E, 0x70, 0x72, 0x6F, 0x74, 0x6F, 0x2E, 0x50, 0x72, 0x65, 0x70, 0x61, 0x72, 0x65, 0x4D, 0x65, 0x73, 0x73, 0x61, 0x67, 0x65]"

definition demo_prepareok_type :: bytes where
  "demo_prepareok_type = [0x73, 0x70, 0x65, 0x63, 0x70, 0x61, 0x78, 0x6F, 0x73, 0x2E, 0x76, 0x72, 0x2E, 0x70, 0x72, 0x6F, 0x74, 0x6F, 0x2E, 0x50, 0x72, 0x65, 0x70, 0x61, 0x72, 0x65, 0x4F, 0x4B, 0x4D, 0x65, 0x73, 0x73, 0x61, 0x67, 0x65]"

definition demo_ip :: bytes where "demo_ip = replicate 9 0 @ [17] @ replicate 10 0"
definition demo_udp :: bytes where "demo_udp = [0x30, 0x39, 0x30, 0x39] @ replicate 4 0"
definition demo_prepare_data :: bytes where "demo_prepare_data = [1, 0, 0, 0x80, 9, 0, 0, 0, 9, 0, 0, 0]"
definition demo_ok_data :: bytes where "demo_ok_data = [1, 0, 0, 0, 9, 0, 0, 0, 2, 0, 0, 0]"

definition demo_replica :: "u32 \<Rightarrow> paxos_configure" where
  "demo_replica i = \<lparr>leader_addr = i, leader_port = 0x3930, leader_eth = replicate 6 (ucast i)\<rparr>"

definition demo_leader :: fast_maps where
  "demo_leader = demo_fast\<lparr>map_configure := (\<lambda>i. Some (demo_replica i)),
     map_quorum := (\<lambda>_. Some \<lparr>q_view = 0, q_opnum = 0, q_bitset = 0\<rparr>)\<rparr>"

definition demo_xp_env :: xp_env where
  "demo_xp_env = \<lparr>xp_adjust_head = (\<lambda>d p. if d < 0 then Some (replicate (nat (- d)) 0 @ p)
       else if nat d \<le> length p then Some (drop (nat d) p) else None),
     xp_adjust_tail = (\<lambda>d p. None), xp_ringbuf_reserve = (\<lambda>m n. None), XP_FAST_REPLY = True, XP_FAST_QUORUM_PRUNE = True\<rparr>"

lemma demo_prepare_wf:
  "paxos_wf (replicate 14 0) demo_ip demo_udp demo_prepare_type demo_prepare_data" "is_prepare demo_prepare_type"
  "demo_prepare_type = 0x73 # 0x70 # drop 2 demo_prepare_type"
  "msg_view_bits demo_prepare_data AND BROADCAST_SIGN_BIT \<noteq> 0" "msg_op demo_prepare_data = 9"
  "msg_view_bits demo_prepare_data XOR (msg_view_bits demo_prepare_data AND BROADCAST_SIGN_BIT) = 1"
  by (simp_all add: paxos_wf_def demo_ip_def demo_udp_def demo_prepare_type_def demo_prepare_data_def nth_append MTU_def
      is_prepare_def prepare_chars_def msg_view_bits_def msg_op_def BROADCAST_SIGN_BIT_def)

lemma demo_leader_conf: "map_configure demo_leader i = Some (demo_replica i) \<and> length (leader_eth (demo_replica i)) = 6"
  by (simp add: demo_leader_def demo_replica_def)

lemma demo_leader_state:
  "map_ctr_state demo_leader 0 = Some \<lparr>replica_state = STATUS_NORMAL, myIdx = 1, leaderIdx = 0, batchSize = 1, cview = 1, clastOp = 4\<rparr>"
  by (simp add: demo_leader_def demo_fast_def)

theorem multicast_reaches_replicas_witness:
  "\<exists>a b m'. egress 2 [0, 0, 0] demo_leader [paxos_frame (replicate 14 0) demo_ip demo_udp demo_prepare_type demo_prepare_data []] =
    Some ([(TC_ACT_OK, copy_for (demo_replica 1) 1 (replicate 14 0) demo_ip demo_udp demo_prepare_type demo_prepare_data []),
      (TC_ACT_OK, copy_for (demo_replica 2) 1 (replicate 14 0) demo_ip demo_udp demo_prepare_type demo_prepare_data [])], m')"
  using multicast_reaches_replicas [OF demo_prepare_wf(1-4) demo_leader_state _ demo_leader_conf, of 0 "[]"]
  by (simp add: demo_prepare_wf(6) other_replicas_def)

text \<open>Replica 2 answers operation 9, twice, then replica 0: the third message is above the quorum.\<close>

definition demo_prepareok :: "u8 \<Rightarrow> bytes" where
  "demo_prepareok r = paxos_frame (replicate 14 0) demo_ip demo_udp demo_prepareok_type [1, 0, 0, 0, 9, 0, 0, 0, r, 0, 0, 0] [7]"

lemma demo_prepareok_frame: "r < 32 \<Longrightarrow> prepareok_frame 1 9 (demo_prepareok r)"
proof -
  assume r: "r < 32"
  have "is_prepareok demo_prepareok_type"
    by (simp add: is_prepareok_def demo_prepareok_type_def prepareok_chars_def)
  moreover have "unat r < 32" using r by (simp add: word_less_nat_alt)
  ultimately show ?thesis
    unfolding prepareok_frame_def demo_prepareok_def
    by (intro exI [of _ "replicate 14 0"] exI [of _ demo_ip] exI [of _ demo_udp] exI [of _ demo_prepareok_type]
        exI [of _ "[1, 0, 0, 0, 9, 0, 0, 0, r, 0, 0, 0]"] exI [of _ "[7]"])
      (simp add: demo_ip_def demo_udp_def nth_append ok_fields_def)
qed

lemma demo_prepareok_grants:
  "xp_adjust_head demo_xp_env 89 (demo_prepareok r) \<noteq> None" "xp_adjust_head demo_xp_env (- 89) p \<noteq> None"
  "adjust_head_ok (xp_adjust_head demo_xp_env)" "XP_FAST_QUORUM_PRUNE demo_xp_env"
  by (simp_all add: demo_xp_env_def demo_prepareok_def paxos_frame_def demo_ip_def demo_udp_def demo_prepareok_type_def
      adjust_head_ok_def)

lemma demo_replica_of: "replica_of (demo_prepareok r) = unat r"
  by (simp add: replica_of_def demo_prepareok_def paxos_frame_def demo_ip_def demo_udp_def demo_prepareok_type_def ok_fields_def)

theorem multicast_then_quorum_witness:
  "\<exists>copies m' q1 q2 q3 m''. egress 2 [0, 0, 0] demo_leader [paxos_frame (replicate 14 0) demo_ip demo_udp demo_prepare_type demo_prepare_data []] =
      Some (copies, m') \<and>
    run_all (\<lambda>m p. xp_fastPaxos_main demo_xp_env p m) [demo_prepareok 2, demo_prepareok 2, demo_prepareok 0] m' =
      Some ([(XDP_PASS, q1), (XDP_PASS, q2), (XDP_PASS, q3)], m'') \<and>
    length q1 = 102 \<and> length q2 = 102 \<and> length q3 = 13"
proof -
  let ?ps = "[demo_prepareok 2, demo_prepareok 2, demo_prepareok 0]"
  have q: "map_quorum demo_leader (op_slot (msg_op demo_prepare_data)) = Some \<lparr>q_view = 0, q_opnum = 0, q_bitset = 0\<rparr>"
    and l: "map_msg_lastOp demo_leader 0 \<noteq> None"
    by (simp_all add: demo_leader_def demo_fast_def)
  have ps: "prepareok_frame 1 (msg_op demo_prepare_data) p \<and> xp_adjust_head demo_xp_env 89 p \<noteq> None \<and>
      xp_adjust_head demo_xp_env (- 89) (drop 89 p) \<noteq> None" if "p \<in> set ?ps" for p
    using that demo_prepareok_frame demo_prepareok_grants(1,2) by (auto simp: demo_prepare_wf(5))
  obtain copies m' outs m'' where r: "egress 2 [0, 0, 0] demo_leader [paxos_frame (replicate 14 0) demo_ip demo_udp demo_prepare_type demo_prepare_data []] =
      Some (copies, m')" "run_all (\<lambda>m p. xp_fastPaxos_main demo_xp_env p m) ?ps m' = Some (outs, m'')" "length outs = 3"
    "\<forall>i < 3. fst (outs ! i) = XDP_PASS \<and>
      delivered (card (replica_of ` set (take (Suc i) ?ps)) = QUORUM_SIZE - 1) (?ps ! i) (snd (outs ! i))"
    using multicast_then_quorum [where n = 0 and rest = "[]" and ps = ?ps and v = 1,
        OF demo_prepare_wf(1-4) demo_leader_state _ demo_leader_conf q _ l demo_prepareok_grants(4,3) ps]
      demo_prepare_wf(5,6) by auto
  obtain a b c where o: "outs = [a, b, c]"
    using r(3) by (auto simp: numeral_3_eq_3 length_Suc_conv)
  have len: "length (demo_prepareok x) = 102" for x
    by (simp add: demo_prepareok_def paxos_frame_def demo_ip_def demo_udp_def demo_prepareok_type_def)
  have "fst a = XDP_PASS \<and> length (snd a) = 102" "fst b = XDP_PASS \<and> length (snd b) = 102" "fst c = XDP_PASS \<and> length (snd c) = 13"
    using r(4) [rule_format, of 0] r(4) [rule_format, of 1] r(4) [rule_format, of 2]
    by (simp_all add: o demo_replica_of delivered_def len QUORUM_SIZE_def CLUSTER_SIZE_def)
  then show ?thesis using r(1,2) unfolding o by (metis prod.collapse)
qed

end
