(* ===== verification/Electrode_Requests.thy ===== *)
theory Electrode_Requests
  imports Electrode_Broadcast
begin

text \<open>
  The handling of client requests, \<open>HandleRequest_main\<close> in src/examples/electrode/fast_kern.c and
  its copy in src/examples/cross_prog/fast_kern.c: the program keeps requests in a ring buffer and
  lets one of every \<open>batchSize\<close> requests through, which tells user space to fetch the batch.

  The abstract specification is a batcher: the number of requests waiting since the last one that
  was let through, and the queue of the requests kept. The program refines it.
\<close>

section \<open>The copy of the cross-program case study\<close>

definition xp_HandleRequest_main :: "xp_env \<Rightarrow> bytes \<Rightarrow> fast_maps \<Rightarrow> fast_result" where
  "xp_HandleRequest_main E p m =
     (let ip = sizeof_eth; udp = sizeof_eth + sizeof_iphdr;
          payload = udp_payload + (MAGIC_LEN + 8 + REQUEST_TYPE_LEN + FAST_PAXOS_DATA_LEN) in
      if payload > length p then Some (XDP_PASS, p, m)
      else case (batch_context m 0, map_ctr_state m 0) of
        (Some counter, Some ctr_state) \<Rightarrow>
          if batchSize ctr_state = 0 then None
          else
            let num = (counter + 1) mod batchSize ctr_state; m = m\<lparr>batch_context := (batch_context m)(0 \<mapsto> num)\<rparr> in
            if num = 0 then Some (XDP_PASS, p, m)
            else if payload + REQ_MAX_DATA_LEN < length p then Some (XDP_PASS, p, m)
            else (case xp_ringbuf_reserve E m (REQ_MAX_DATA_LEN + 2 + 4) of None \<Rightarrow> Some (XDP_DROP, p, m)
                  | Some pt \<Rightarrow>
                    do { source \<leftarrow> ld16 p udp; pt \<leftarrow> st16 pt 0 source;
                         saddr \<leftarrow> ld32 p (ip + 12); pt \<leftarrow> st32 pt 2 saddr;
                         pt \<leftarrow> ring_copy REQ_MAX_DATA_LEN p payload pt 6 0;
                         Some (XDP_DROP, p, m\<lparr>map_request_buffer := map_request_buffer m @ [pt]\<rparr>) })
      | _ \<Rightarrow> Some (XDP_PASS, p, m))"

lemma xp_HandleRequest_eq:
  "xp_ringbuf_reserve X = ringbuf_reserve E \<Longrightarrow> xp_HandleRequest_main X p m = HandleRequest_main E p m"
  by (simp only: xp_HandleRequest_main_def HandleRequest_main_def)

section \<open>The batcher\<close>

record request_batch =
  waiting :: nat
  batch_queue :: "bytes list"

text \<open>What is kept of a request: the port and the address of the client, and the data.\<close>

definition request_record :: "bytes \<Rightarrow> bytes" where
  "request_record p = take 2 (drop 34 p) @ take 4 (drop 26 p) @ drop 99 p"

definition short_request :: "bytes \<Rightarrow> bool" where
  "short_request p \<longleftrightarrow> length p \<le> 99 + REQ_MAX_DATA_LEN"

definition batch_request :: "nat \<Rightarrow> bytes \<Rightarrow> request_batch \<Rightarrow> int \<times> request_batch" where
  "batch_request n p s =
     (let k = (waiting s + 1) mod n; s' = s\<lparr>waiting := k\<rparr> in
      if k = 0 \<or> \<not> short_request p then (XDP_PASS, s')
      else (XDP_DROP, s'\<lparr>batch_queue := batch_queue s @ [request_record p]\<rparr>))"

fun batch_requests :: "nat \<Rightarrow> request_batch \<Rightarrow> bytes list \<Rightarrow> int list \<times> request_batch" where
  "batch_requests n s [] = ([], s)"
| "batch_requests n s (p # ps) =
     (let (v, s) = batch_request n p s; (vs, s) = batch_requests n s ps in (v # vs, s))"

text \<open>The program on a sequence of packets.\<close>

fun handle_requests :: "fast_env \<Rightarrow> fast_maps \<Rightarrow> bytes list \<Rightarrow> (int list \<times> fast_maps) option" where
  "handle_requests E m [] = Some ([], m)"
| "handle_requests E m (p # ps) =
     do { (v, q, m) \<leftarrow> HandleRequest_main E p m; (vs, m) \<leftarrow> handle_requests E m ps; Some (v # vs, m) }"

text \<open>A buffer of the ring represents a request that it starts with; the rest of it is unspecified.\<close>

definition represents :: "nat \<Rightarrow> fast_maps \<Rightarrow> request_batch \<Rightarrow> bool" where
  "represents n m s \<longleftrightarrow>
     (\<exists>c cs. batch_context m 0 = Some c \<and> unat c = waiting s \<and> waiting s < n \<and>
        map_ctr_state m 0 = Some cs \<and> unat (batchSize cs) = n) \<and>
     list_all2 (\<lambda>pt r. take (length r) pt = r) (map_request_buffer m) (batch_queue s)"

section \<open>The program refines the batcher\<close>

lemma ring_copy_result:
  "base + i + k \<le> length pt \<Longrightarrow> length p \<le> payload + i + k \<Longrightarrow> payload + i \<le> length p \<Longrightarrow>
    ring_copy k p payload pt base i = Some (put pt (base + i) (drop (payload + i) p))"
proof (induction k arbitrary: pt i)
  case 0
  then show ?case by (simp add: put_def)
next
  case (Suc k)
  show ?case
  proof (cases "payload + i < length p")
    case True
    have p: "drop (payload + i) p = p ! (payload + i) # drop (payload + Suc i) p"
      using True by (simp add: Cons_nth_drop_Suc)
    have "put (put pt (base + i) [x]) (Suc (base + i)) xs = put pt (base + i) (x # xs)"
      if "base + i < length pt" for x xs
      using that by (simp add: put_def add.commute)
    then show ?thesis
      using Suc.prems True Suc.IH [of "Suc i" "put pt (base + i) [p ! (payload + i)]"]
      by (simp add: ld8_def st8_def stn_put p)
  next
    case False
    have stop: "length p \<le> payload + i' \<Longrightarrow> ring_copy j p payload pt base i' = Some pt" for j i'
      by (induction j arbitrary: i') simp_all
    show ?thesis using False stop [of "Suc i" k] by (simp add: put_def)
  qed
qed

lemma batch_counter:
  assumes "represents n m s"
  obtains c cs where "batch_context m 0 = Some c" "map_ctr_state m 0 = Some cs" "batchSize cs \<noteq> 0"
    "unat ((c + 1) mod batchSize cs) = (waiting s + 1) mod n" "unat (batchSize cs) = n"
proof -
  obtain c cs where c: "batch_context m 0 = Some c" "unat c = waiting s" "waiting s < n"
      "map_ctr_state m 0 = Some cs" "unat (batchSize cs) = n"
    using assms by (auto simp: represents_def)
  have n: "batchSize cs \<noteq> 0" "n < 2 ^ 32" using c(3,5) unat_lt_u32 [of "batchSize cs"] by auto
  have "unat (c + 1) = waiting s + 1" using unat_inc [of c] c n(2) by simp
  then show ?thesis using that c n(1) by (simp add: unat_mod_distrib)
qed

lemma request_step:
  assumes "represents n m s" and "99 \<le> length p"
    and "ringbuf_ok E" and "\<forall>m. ringbuf_reserve E m (REQ_MAX_DATA_LEN + 2 + 4) \<noteq> None"
  shows "\<exists>m'. HandleRequest_main E p m = Some (fst (batch_request n p s), p, m') \<and>
    represents n m' (snd (batch_request n p s))"
proof -
  obtain c cs where c: "batch_context m 0 = Some c" "map_ctr_state m 0 = Some cs" "batchSize cs \<noteq> 0"
      "unat ((c + 1) mod batchSize cs) = (waiting s + 1) mod n" "unat (batchSize cs) = n"
    by (rule batch_counter [OF assms(1)])
  define num where "num = (c + 1) mod batchSize cs"
  define m1 where "m1 = m\<lparr>batch_context := (batch_context m)(0 \<mapsto> num)\<rparr>"
  have k: "unat num = (waiting s + 1) mod n" "n \<noteq> 0"
    using c(3-5) unat_eq_zero [of "batchSize cs"] by (simp_all add: num_def)
  then have z: "num = 0 \<longleftrightarrow> (waiting s + 1) mod n = 0" by (metis unat_eq_zero)
  have m0: "num = 0 \<Longrightarrow> m\<lparr>batch_context := (batch_context m)(0 \<mapsto> 0)\<rparr> = m1" by (simp add: m1_def)
  have r: "represents n m1 (s\<lparr>waiting := (waiting s + 1) mod n\<rparr>)"
    using assms(1) c k by (auto simp: represents_def m1_def)
  obtain b where b: "ringbuf_reserve E m1 (REQ_MAX_DATA_LEN + 2 + 4) = Some b" using assms(4) by blast
  have l: "length b = 134" using assms(3) b by (auto simp: ringbuf_ok_def REQ_MAX_DATA_LEN_def)
  define pt where "pt = put (put (put b 0 (take 2 (drop 34 p))) 2 (take 4 (drop 26 p))) 6 (drop 99 p)"
  have copy: "ring_copy 128 p 99 (put (put b 0 (take 2 (drop 34 p))) 2 (take 4 (drop 26 p))) 6 0 = Some pt"
    if "short_request p"
    using that assms(2) l ring_copy_result [of 6 0 128 "put (put b 0 (take 2 (drop 34 p))) 2 (take 4 (drop 26 p))" p 99]
    by (simp add: pt_def short_request_def REQ_MAX_DATA_LEN_def)
  have kept: "take (length (request_record p)) pt = request_record p" if "short_request p"
    using that assms(2) l by (simp add: pt_def request_record_def put_def short_request_def REQ_MAX_DATA_LEN_def
        flip: numeral_2_eq_2)
  have "HandleRequest_main E p m = (if num = 0 \<or> \<not> short_request p then Some (XDP_PASS, p, m1)
      else Some (XDP_DROP, p, m1\<lparr>map_request_buffer := map_request_buffer m1 @ [pt]\<rparr>))"
    using assms(2) c(1-3) b l copy m0
    by (auto simp: HandleRequest_main_def Let_def num_def [symmetric] m1_def [symmetric] short_request_def
        ld16_def ld32_def st16_def st32_def ldn_def stn_put le_bytes_ld16 le_bytes_ld32 REQ_MAX_DATA_LEN_def)
  moreover have "represents n (m1\<lparr>map_request_buffer := map_request_buffer m1 @ [pt]\<rparr>)
      (s\<lparr>waiting := (waiting s + 1) mod n, batch_queue := batch_queue s @ [request_record p]\<rparr>)" if "short_request p"
    using r kept [OF that] by (auto simp: represents_def list_all2_appendI m1_def)
  ultimately show ?thesis
    using r z by (auto simp: batch_request_def Let_def)
qed

section \<open>Sequences of requests\<close>

lemma requests_run:
  assumes "represents n m s" and "list_all (\<lambda>p. 99 \<le> length p) ps"
    and "ringbuf_ok E" and "\<forall>m. ringbuf_reserve E m (REQ_MAX_DATA_LEN + 2 + 4) \<noteq> None"
  shows "\<exists>m'. handle_requests E m ps = Some (fst (batch_requests n s ps), m') \<and>
    represents n m' (snd (batch_requests n s ps))"
  using assms(1,2)
proof (induction ps arbitrary: m s)
  case (Cons p ps)
  obtain m1 where m1: "HandleRequest_main E p m = Some (fst (batch_request n p s), p, m1)"
      "represents n m1 (snd (batch_request n p s))"
    using request_step [OF Cons.prems(1) _ assms(3,4), of p] Cons.prems(2) by auto
  with Cons.IH [OF m1(2)] Cons.prems(2) show ?case by (auto simp: case_prod_beta Let_def)
qed simp

text \<open>Of short requests, the batcher lets every \<open>n\<close>-th through, and keeps the others in order.\<close>

lemma batch_requests_count:
  "waiting s < n \<Longrightarrow> list_all short_request ps \<Longrightarrow>
    length (filter (\<lambda>v. v = XDP_PASS) (fst (batch_requests n s ps))) = (waiting s + length ps) div n \<and>
    waiting (snd (batch_requests n s ps)) = (waiting s + length ps) mod n"
proof (induction ps arbitrary: s)
  case (Cons p ps)
  let ?s = "snd (batch_request n p s)"
  have w: "waiting ?s = (waiting s + 1) mod n" by (simp add: batch_request_def Let_def)
  have v: "fst (batch_request n p s) = (if (waiting s + 1) mod n = 0 then XDP_PASS else XDP_DROP)"
    using Cons.prems by (simp add: batch_request_def Let_def)
  have "(waiting s + Suc (length ps)) div n = (if (waiting s + 1) mod n = 0 then 1 else 0) +
      ((waiting s + 1) mod n + length ps) div n \<and>
      (waiting s + Suc (length ps)) mod n = ((waiting s + 1) mod n + length ps) mod n"
  proof (cases "waiting s + 1 = n")
    case True
    then have "waiting s + Suc (length ps) = n + length ps" "0 < n" by auto
    then show ?thesis using True by (simp only: div_add_self1 mod_add_self1) simp
  qed (use Cons.prems(1) in auto)
  then show ?case
    using Cons.IH [of ?s] Cons.prems w v by (simp add: case_prod_beta Let_def XDP_PASS_def XDP_DROP_def)
qed simp

lemma batch_requests_kept:
  "length (filter (\<lambda>v. v = XDP_PASS) (fst (batch_requests n s ps))) + length (batch_queue (snd (batch_requests n s ps))) =
    length ps + length (batch_queue s)"
proof (induction ps arbitrary: s)
  case (Cons p ps)
  then show ?case
    using Cons.IH [of "snd (batch_request n p s)"]
    by (auto simp: case_prod_beta Let_def batch_request_def XDP_PASS_def XDP_DROP_def)
qed simp

text \<open>
  Property C17. \<open>HandleRequest_main\<close> refines the batcher on every sequence of requests with
  complete headers, as long as the ring buffer has room and the counter starts below the batch
  size: its verdicts are the batcher's, the counter is the number of requests waiting, and the
  ring holds, in order, the port, address and data of each request that was not let through. Of
  requests whose data fits, exactly every \<open>n\<close>-th goes to user space and all the others are kept.
\<close>

theorem requests_refine_batcher:
  assumes "represents n m s" and "list_all (\<lambda>p. 99 \<le> length p) ps" and "ringbuf_ok E"
    and "\<forall>m. ringbuf_reserve E m (REQ_MAX_DATA_LEN + 2 + 4) \<noteq> None"
  shows "\<exists>vs m' s'. handle_requests E m ps = Some (vs, m') \<and> batch_requests n s ps = (vs, s') \<and> represents n m' s' \<and>
    length (filter (\<lambda>v. v = XDP_PASS) vs) + length (map_request_buffer m') =
      length ps + length (map_request_buffer m) \<and>
    (list_all short_request ps \<longrightarrow> length (filter (\<lambda>v. v = XDP_PASS) vs) = (waiting s + length ps) div n)"
proof -
  obtain m' where m': "handle_requests E m ps = Some (fst (batch_requests n s ps), m')"
      "represents n m' (snd (batch_requests n s ps))"
    using requests_run [OF assms] by blast
  have "length (map_request_buffer m) = length (batch_queue s)"
      "length (map_request_buffer m') = length (batch_queue (snd (batch_requests n s ps)))" "waiting s < n"
    using assms(1) m'(2) by (auto simp: represents_def list_all2_lengthD)
  with m' batch_requests_kept [of n s ps] batch_requests_count [of s n ps] show ?thesis
    by (auto simp: prod_eq_iff)
qed

definition demo_batch :: fast_maps where
  "demo_batch = demo_fast\<lparr>batch_context := [0 \<mapsto> 0],
     map_ctr_state := [0 \<mapsto> \<lparr>replica_state = STATUS_NORMAL, myIdx = 0, leaderIdx = 0, batchSize = 2, cview = 0, clastOp = 0\<rparr>],
     map_request_buffer := []\<rparr>"

theorem requests_refine_batcher_witness:
  "\<exists>vs m' s'. handle_requests demo_fast_env demo_batch [replicate 100 1, replicate 120 2, replicate 110 3] = Some (vs, m') \<and>
    length (filter (\<lambda>v. v = XDP_PASS) vs) = 1 \<and> length (map_request_buffer m') = 2"
proof -
  let ?ps = "[replicate 100 1, replicate 120 2, replicate 110 3] :: bytes list"
  have r: "represents 2 demo_batch \<lparr>waiting = 0, batch_queue = []\<rparr>"
    by (simp add: represents_def demo_batch_def)
  show ?thesis
    using requests_refine_batcher [OF r _ demo_ringbuf_ok, of ?ps]
    by (auto simp: demo_fast_env_def short_request_def REQ_MAX_DATA_LEN_def demo_batch_def)
qed

text \<open>
  A full ring buffer loses the request: the packet is dropped though nothing holds its data, where
  \<open>WriteBuffer_main\<close> passes the packet on in the same situation.
\<close>

lemma full_ring_loses_request:
  assumes "represents n m s" "(waiting s + 1) mod n \<noteq> 0" "99 \<le> length p" "short_request p"
    and "\<forall>m. ringbuf_reserve E m (REQ_MAX_DATA_LEN + 2 + 4) = None"
  shows "\<exists>m'. HandleRequest_main E p m = Some (XDP_DROP, p, m') \<and> map_request_buffer m' = map_request_buffer m"
proof -
  obtain c cs where c: "batch_context m 0 = Some c" "map_ctr_state m 0 = Some cs" "batchSize cs \<noteq> 0"
      "unat ((c + 1) mod batchSize cs) = (waiting s + 1) mod n"
    by (rule batch_counter [OF assms(1)])
  have "(c + 1) mod batchSize cs \<noteq> 0" using assms(2) c(4) by (metis unat_0)
  then show ?thesis
    using assms(3-5) c(1-3) by (simp add: HandleRequest_main_def Let_def short_request_def)
qed

end
