(* ===== verification/Crab.thy ===== *)
theory Crab
  imports Csum Net_Headers
begin

text \<open>
  The TCP load balancer of src/examples/crab/lb_kern.c: it answers a SYN by sending it to one of
  the target servers, with the client's original destination in a TCP option, so that the target
  can redirect the connection to itself.

  The header parsers are those of the ebpf-se submodule, not part of the repository: they are
  parameters, functions from the packet and the cursor to the returned type, the new cursor and
  the position of the header. So are the kernel helpers \<open>bpf_xdp_adjust_head\<close>,
  \<open>bpf_csum_diff\<close> and \<open>bpf_get_prandom_u32\<close>. The build switch \<open>RAND\<close> is a boolean.
\<close>

section \<open>Data (lb_kern.h)\<close>

definition MAX_OPT_WORDS :: nat where "MAX_OPT_WORDS = 10"
definition REDIR_OPT_TYPE :: u8 where "REDIR_OPT_TYPE = 42"

record redir_opt =
  ropt_type :: u8
  ropt_size :: u8
  ropt_ip :: u32
  ropt_nop :: u16

definition redir_opt_bytes :: "redir_opt \<Rightarrow> bytes" where
  "redir_opt_bytes r = [ropt_type r, ropt_size r] @ le_bytes 4 (unat (ropt_ip r)) @ le_bytes 2 (unat (ropt_nop r))"

definition sizeof_redir_opt :: nat where [simp]: "sizeof_redir_opt = 8"

record ipv4_psd_header =
  src_addr :: u32
  dst_addr :: u32
  psd_zero :: u8
  psd_proto :: u8
  psd_len :: u16

definition psd_bytes :: "ipv4_psd_header \<Rightarrow> bytes" where
  "psd_bytes h = le_bytes 4 (unat (src_addr h)) @ le_bytes 4 (unat (dst_addr h)) @
     [psd_zero h, psd_proto h] @ le_bytes 2 (unat (psd_len h))"

record crab_maps =
  targets_map :: "u32 \<rightharpoonup> u32"
  macs_map :: "u32 \<rightharpoonup> bytes"
  targets_count :: "u32 \<rightharpoonup> u32"
  cpu_rr_idx :: "u32 \<rightharpoonup> u32"

type_synonym hdr_parser = "bytes \<Rightarrow> nat \<Rightarrow> int \<times> nat \<times> nat"

record crab_env =
  crab_adjust_head :: "int \<Rightarrow> bytes \<Rightarrow> bytes option"
  crab_csum_diff :: csum_diff_fn
  get_prandom_u32 :: u32
  parse_ethhdr :: hdr_parser
  parse_iphdr :: hdr_parser
  parse_tcphdr :: hdr_parser
  RAND :: bool

section \<open>Choosing a target\<close>

text \<open>The remainder by a count of 0 is undefined in C: \<open>None\<close>.\<close>

definition get_target_idx_rand :: "crab_env \<Rightarrow> crab_maps \<Rightarrow> u32 option" where
  "get_target_idx_rand E m =
     (let idx = get_prandom_u32 E in
      case targets_count m 0 of None \<Rightarrow> Some idx
      | Some count \<Rightarrow> if count = 0 then None else Some (idx mod count))"

definition get_target_idx_rr :: "crab_maps \<Rightarrow> (u32 \<times> crab_maps) option" where
  "get_target_idx_rr m =
     (case targets_count m 0 of None \<Rightarrow> Some (0, m)
      | Some count \<Rightarrow>
        (case cpu_rr_idx m 0 of None \<Rightarrow> Some (0, m)
         | Some rr_idx \<Rightarrow>
           if count = 0 then None
           else Some (rr_idx mod count, m\<lparr>cpu_rr_idx := (cpu_rr_idx m)(0 \<mapsto> rr_idx + 1)\<rparr>)))"

definition get_target_idx :: "crab_env \<Rightarrow> crab_maps \<Rightarrow> (u32 \<times> crab_maps) option" where
  "get_target_idx E m =
     (if RAND E then do { key \<leftarrow> get_target_idx_rand E m; Some (key, m) } else get_target_idx_rr m)"

text \<open>Writes the address of the target at \<open>daddr\<close>; the first component is the return value.\<close>

definition get_target :: "crab_env \<Rightarrow> bytes \<Rightarrow> nat \<Rightarrow> crab_maps \<Rightarrow> (int \<times> bytes \<times> crab_maps) option" where
  "get_target E p daddr m =
     do { (key, m) \<leftarrow> get_target_idx E m;
          case targets_map m key of None \<Rightarrow> Some (- 1, p, m)
          | Some target \<Rightarrow> do { p \<leftarrow> st32 p daddr target; Some (0, p, m) } }"

definition update_macs :: "crab_maps \<Rightarrow> u32 \<Rightarrow> bytes \<Rightarrow> nat \<Rightarrow> (int \<times> bytes) option" where
  "update_macs m dst_ip p ethh =
     do { h_dest \<leftarrow> ldn p ethh 6;
          p \<leftarrow> stn p (ethh + 6) h_dest;
          case macs_map m dst_ip of None \<Rightarrow> Some (- 1, p)
          | Some target \<Rightarrow> do { p \<leftarrow> stn p ethh target; Some (0, p) } }"

section \<open>Redirecting a SYN (\<open>handle_syn\<close>)\<close>

fun opt_csum_loop :: "csum_diff_fn \<Rightarrow> nat \<Rightarrow> bytes \<Rightarrow> nat \<Rightarrow> u32 \<Rightarrow> u32 option" where
  "opt_csum_loop csum_diff 0 p opt csum = Some csum"
| "opt_csum_loop csum_diff (Suc n) p opt csum =
     (if length p < opt + 4 then Some csum
      else do { w \<leftarrow> ldn p opt 4; opt_csum_loop csum_diff n p (opt + 4) (ucast (csum_diff [] w (ucast csum))) })"

text \<open>From the checksum of the IP header on: the new TCP header with the option and its checksum.\<close>

definition syn_tcp :: "crab_env \<Rightarrow> bytes \<Rightarrow> nat \<Rightarrow> bytes \<Rightarrow> u32 \<Rightarrow> (int \<times> bytes) option" where
  "syn_tcp E p iph tcph_old old_daddr =
     (let tcph = iph + sizeof_iphdr in
      if length p < tcph + sizeof_tcphdr then Some (XDP_ABORTED, p) else
      do { p \<leftarrow> stn p tcph tcph_old;
           b \<leftarrow> ld8 p (tcph + 12);
           p \<leftarrow> st8 p (tcph + 12) ((b AND 0x0F) OR push_bit 4 (drop_bit 4 b + 2));
           let ptr = tcph + sizeof_tcphdr;
           if length p < ptr + sizeof_redir_opt then Some (XDP_ABORTED, p) else
      do { let ropt = \<lparr>ropt_type = REDIR_OPT_TYPE, ropt_size = 6, ropt_ip = old_daddr, ropt_nop = 0x0101\<rparr>;
           p \<leftarrow> stn p ptr (redir_opt_bytes ropt);
           p \<leftarrow> st16 p (tcph + 16) 0;
           bs \<leftarrow> ldn p tcph (sizeof_tcphdr + sizeof_redir_opt);
           let csum = (ucast (crab_csum_diff E [] bs 0) :: u32);
           csum \<leftarrow> opt_csum_loop (crab_csum_diff E) MAX_OPT_WORDS p (ptr + sizeof_redir_opt) csum;
           let csum = (ucast (csum_reduce_helper csum) :: u32);
           saddr \<leftarrow> ld32 p (iph + 12);
           daddr \<leftarrow> ld32 p (iph + 16);
           tot_len \<leftarrow> ld16 p (iph + 2);
           let psdh = \<lparr>src_addr = saddr, dst_addr = daddr, psd_zero = 0, psd_proto = IPPROTO_TCP,
                       psd_len = bswap16 (bswap16 tot_len - of_nat sizeof_iphdr)\<rparr>;
           let csum = (ucast (crab_csum_diff E [] (psd_bytes psdh) (ucast csum)) :: u32);
           p \<leftarrow> st16 p (tcph + 16) (NOT (csum_reduce_helper csum));
           Some (XDP_TX, p) } })"

definition handle_syn :: "crab_env \<Rightarrow> crab_maps \<Rightarrow> bytes \<Rightarrow> nat \<Rightarrow> nat \<Rightarrow> nat \<Rightarrow> (int \<times> bytes \<times> crab_maps) option" where
  "handle_syn E m p ethh iph tcph =
     do { ethh_old \<leftarrow> ldn p ethh sizeof_eth;
          iph_old \<leftarrow> ldn p iph sizeof_iphdr;
          old_daddr \<leftarrow> ld32 p (iph + 16);
          tcph_old \<leftarrow> ldn p tcph sizeof_tcphdr;
          case crab_adjust_head E (0 - int sizeof_redir_opt) p of None \<Rightarrow> Some (XDP_ABORTED, p, m)
          | Some p \<Rightarrow>
            if length p < sizeof_eth then Some (XDP_ABORTED, p, m) else
     do { p \<leftarrow> stn p 0 ethh_old;
          let iph = sizeof_eth;
          if length p < iph + sizeof_iphdr then Some (XDP_ABORTED, p, m) else
     do { p \<leftarrow> stn p iph iph_old;
          tot_len \<leftarrow> ld16 p (iph + 2);
          p \<leftarrow> st16 p (iph + 2) (bswap16 (bswap16 tot_len + of_nat sizeof_redir_opt));
          (r, p, m) \<leftarrow> get_target E p (iph + 16) m;
          if r \<noteq> 0 then Some (XDP_ABORTED, p, m) else
     do { daddr \<leftarrow> ld32 p (iph + 16);
          (r, p) \<leftarrow> update_macs m daddr p 0;
          if r \<noteq> 0 then Some (XDP_ABORTED, p, m) else
     do { p \<leftarrow> st16 p (iph + 10) 0;
          bs \<leftarrow> ldn p iph sizeof_iphdr;
          p \<leftarrow> st16 p (iph + 10) (NOT (csum_reduce_helper (ucast (crab_csum_diff E [] bs 0))));
          (action, p) \<leftarrow> syn_tcp E p iph tcph_old old_daddr;
          Some (action, p, m) } } } } }"

section \<open>The program\<close>

text \<open>
  \<open>ETH_P_IP\<close> in network byte order is 8 on a little-endian host. The flags of the TCP header are
  the bits of its byte 13: \<open>syn\<close> is bit 1, \<open>ack\<close> bit 4.
\<close>

definition xdp_prog_simple :: "crab_env \<Rightarrow> crab_maps \<Rightarrow> bytes \<Rightarrow> (int \<times> bytes \<times> crab_maps) option" where
  "xdp_prog_simple E m p =
     (let (nh_type, pos, ethh) = parse_ethhdr E p 0 in
      if nh_type \<noteq> 8 then Some (XDP_PASS, p, m) else
      let (ip_type, pos, iph) = parse_iphdr E p pos in
      if ip_type \<noteq> uint IPPROTO_TCP then Some (XDP_PASS, p, m) else
      let (r, pos, tcph) = parse_tcphdr E p pos in
      if r < 0 then Some (XDP_ABORTED, p, m) else
      do { flags \<leftarrow> ld8 p (tcph + 13);
           if bit flags 4 then Some (XDP_PASS, p, m)
           else if bit flags 1 then handle_syn E m p ethh iph tcph
           else Some (XDP_PASS, p, m) })"

end
