(* ===== verification/Crab_Redirect.thy ===== *)
theory Crab_Redirect
  imports Crab
begin

text \<open>
  What the SYN path of Crab sends: the contents and both checksums of the redirected packet, and
  the fairness of the round-robin choice of targets. \<open>csum_diff_ok\<close> is what the program relies on
  of \<open>bpf_csum_diff\<close>: the low 32 bits of its result are the one's complement sum of the buffer
  and the seed. \<open>parsers_ok\<close> is what it relies on of the header parsers.
\<close>

section \<open>Checksums of concatenated buffers\<close>

definition csum_diff_ok :: "csum_diff_fn \<Rightarrow> bool" where
  "csum_diff_ok f \<longleftrightarrow> (\<forall>bs seed. length bs mod 4 = 0 \<longrightarrow>
     oc (unat (ucast (f [] bs seed) :: u32)) = oc (sum16 bs + unat (ucast seed :: u32)))"

lemma csum_diff_u32:
  assumes "csum_diff_ok f" "length bs mod 4 = 0"
  shows "oc (unat (ucast (f [] bs (ucast (c :: u32))) :: u32)) = oc (sum16 bs + unat c)"
proof -
  have "(ucast (ucast c :: u64) :: u32) = c"
    by (rule bit_word_eqI) (auto simp: bit_simps)
  then show ?thesis using assms by (auto simp: csum_diff_ok_def)
qed

lemma csum_diff_0:
  "csum_diff_ok f \<Longrightarrow> length bs mod 4 = 0 \<Longrightarrow> oc (unat (ucast (f [] bs 0) :: u32)) = oc (sum16 bs)"
  using csum_diff_u32 [of f bs 0] by simp

lemma opt_csum_loop_sum:
  assumes "csum_diff_ok f" "length p - opt \<le> 4 * n" "(length p - opt) mod 4 = 0" "opt \<le> length p"
  shows "wp (opt_csum_loop f n p opt c) (\<lambda>r. oc (unat r) = oc (unat c + sum16 (drop opt p)))"
  using assms
proof (induction n arbitrary: opt c)
  case 0
  then show ?case by simp
next
  case (Suc n)
  show ?case
  proof (cases "length p < opt + 4")
    case True
    then have "length p = opt" using Suc.prems by presburger
    then show ?thesis by simp
  next
    case False
    let ?w = "take 4 (drop opt p)" and ?c = "ucast (f [] (take 4 (drop opt p)) (ucast c)) :: u32"
    have "length ?w mod 4 = 0" using False by simp
    note c = csum_diff_u32 [OF Suc.prems(1) this, of c]
    have d: "sum16 (drop opt p) = sum16 ?w + sum16 (drop (opt + 4) p)"
      using sum16_split [of 4 "drop opt p"] False by (simp add: add.commute)
    have "(length p - (opt + 4)) mod 4 = 0" using Suc.prems(3) False by presburger
    then have "wp (opt_csum_loop f n p (opt + 4) ?c) (\<lambda>r. oc (unat r) = oc (unat ?c + sum16 (drop (opt + 4) p)))"
      using Suc.prems False by (intro Suc.IH) auto
    then show ?thesis
      using False c d oc_add_left [of "unat ?c" "sum16 (drop (opt + 4) p)"] oc_add_left [of "sum16 ?w + unat c" "sum16 (drop (opt + 4) p)"]
      by (simp add: wp_rules algebra_simps)
  qed
qed


section \<open>The redirected segment\<close>

text \<open>
  The IPv4 pseudo header of the segment after the IP header \<open>ip\<close>: both addresses, the protocol
  and the length of the segment.
\<close>

definition ip_tot_len :: "bytes \<Rightarrow> u16" where
  "ip_tot_len ip = bswap16 (of_nat (le_val (take 2 (drop 2 ip))))"

definition pseudo_header :: "bytes \<Rightarrow> bytes" where
  "pseudo_header ip = drop 12 ip @ [0, 6] @ le_bytes 2 (unat (bswap16 (ip_tot_len ip - 20)))"

definition redirect_option :: "bytes \<Rightarrow> bytes" where
  "redirect_option ip = [42, 6] @ drop 16 ip @ [1, 1]"

definition longer_doff :: "u8 \<Rightarrow> u8" where
  "longer_doff b = (b AND 0x0F) OR push_bit 4 (drop_bit 4 b + 2)"

lemma sum16_stamp:
  assumes "even off" "off + 2 \<le> length h" "take 2 (drop off h) = [0, 0]"
  shows "sum16 (put h off (le_bytes 2 (unat (k :: u16)))) = sum16 h + unat k"
  using sum16_put2 [of off h "unat k"] assms unat_lt_u16 [of k] by simp

lemma crab_fold_valid:
  assumes "oc (unat c) = oc (sum16 h)" "even off" "off + 2 \<le> length h" "take 2 (drop off h) = [0, 0]"
  shows "csum_valid (put h off (le_bytes 2 (unat (NOT (csum_reduce_helper c)))))"
proof -
  have "oc (sum16 h + unat (NOT (csum_reduce_helper c))) = 65535"
    using crab_fold.fold_fn_verifies [of c] assms(1) by (metis oc_add_left)
  then show ?thesis using assms by (simp add: csum_valid_def sum16_stamp)
qed

lemma psd_bytes_pseudo_header:
  assumes "length ip = 20"
  shows "psd_bytes \<lparr>src_addr = of_nat (le_val (take 4 (drop 12 ip))), dst_addr = of_nat (le_val (drop 16 ip)),
      psd_zero = 0, psd_proto = 6, psd_len = bswap16 (bswap16 (of_nat (le_val (take 2 (drop 2 ip)))) - 20)\<rparr> = pseudo_header ip"
proof -
  have "drop 12 ip = take 4 (drop 12 ip) @ drop 16 ip"
    using append_take_drop_id [of 4 "drop 12 ip"] by simp
  then show ?thesis
    using assms by (simp add: psd_bytes_def pseudo_header_def ip_tot_len_def le_bytes_ld32)
qed

lemma redir_opt_bytes_option:
  assumes "length ip = 20"
  shows "redir_opt_bytes \<lparr>ropt_type = REDIR_OPT_TYPE, ropt_size = 6,
      ropt_ip = of_nat (le_val (drop 16 ip)), ropt_nop = 0x0101\<rparr> = redirect_option ip"
proof -
  have "le_bytes 2 257 = [1, 1]" by (simp add: numeral_2_eq_2)
  then show ?thesis using assms by (simp add: redir_opt_bytes_def redirect_option_def REDIR_OPT_TYPE_def le_bytes_ld32)
qed

lemma syn_tcp_correct:
  assumes cd: "csum_diff_ok (crab_csum_diff E)"
    and len: "length eth = 14" "length ip = 20" "length a = 20" "length b = 8" "length tcp = 20" "length ip0 = 20"
    and rest: "length rest \<le> 40" "length rest mod 4 = 0"
  shows "wp (syn_tcp E (eth @ ip @ a @ b @ rest) 14 tcp (of_nat (le_val (drop 16 ip0))))
    (\<lambda>(r, q). r = XDP_TX \<and> (\<exists>k. let tcp' = put (put tcp 12 [longer_doff (tcp ! 12)]) 16 (le_bytes 2 (unat (k :: u16))) in
       q = eth @ ip @ tcp' @ redirect_option ip0 @ rest \<and>
       csum_valid (pseudo_header ip @ tcp' @ redirect_option ip0 @ rest)))"
proof -
  define t where "t = put (put tcp 12 [longer_doff (tcp ! 12)]) 16 [0, 0]"
  define h where "h = pseudo_header ip @ t @ redirect_option ip0 @ rest"
  have lo: "length (redirect_option ip0) = 8" using len by (simp add: redirect_option_def)
  have lt: "length t = 20" using len by (simp add: t_def)
  have t2: "put (put tcp 12 [longer_doff (tcp ! 12)]) 16 (le_bytes 2 k) = put t 16 (le_bytes 2 k)" for k
    using len by (simp add: t_def put_put_same)
  have lp: "length (pseudo_header ip) = 12" using len by (simp add: pseudo_header_def)
  let ?c0 = "ucast (crab_csum_diff E [] (t @ redirect_option ip0) 0) :: u32"
  have c0: "oc (unat ?c0) = oc (sum16 (t @ redirect_option ip0))"
    using lt lo by (intro csum_diff_0 cd) simp
  have sum: "sum16 h = sum16 (pseudo_header ip) + (sum16 (t @ redirect_option ip0) + sum16 rest)"
    using lp lt lo by (simp add: h_def sum16_append)
  have z: "take 2 (drop 28 h) = [0, 0]"
    using lp lt len by (simp add: h_def t_def slice_put_same)
  have loop: "wp (opt_csum_loop (crab_csum_diff E) MAX_OPT_WORDS (eth @ ip @ t @ redirect_option ip0 @ rest) 62 ?c0)
      (\<lambda>r. oc (unat r) = oc (sum16 (t @ redirect_option ip0) + sum16 rest))"
    using opt_csum_loop_sum [OF cd, of "eth @ ip @ t @ redirect_option ip0 @ rest" 62 10 ?c0] len lt lo rest c0
    by (simp add: MAX_OPT_WORDS_def oc_add_left [of "unat ?c0", symmetric] oc_add_left)
  have fin: "csum_valid (put h 28 (le_bytes 2 (unat (NOT (csum_reduce_helper
      (ucast (crab_csum_diff E [] (pseudo_header ip) (ucast (ucast (csum_reduce_helper c) :: u32)))))))))"
    if "oc (unat c) = oc (sum16 (t @ redirect_option ip0) + sum16 rest)" for c
  proof -
    have "unat (ucast (csum_reduce_helper c) :: u32) = oc (unat c)"
      by (simp add: unat_ucast_up unat_csum_reduce_helper)
    then show ?thesis
      using csum_diff_u32 [OF cd, of "pseudo_header ip" "ucast (csum_reduce_helper c)"] that sum z lp lt len
      by (intro crab_fold_valid) (simp_all add: oc_add_right h_def)
  qed
  show ?thesis
    unfolding syn_tcp_def longer_doff_def [symmetric]
    apply (simp add: wp_rules seg_simps len put_whole lo redir_opt_bytes_option psd_bytes_pseudo_header Let_def lt t_def [symmetric] t2
      del: opt_csum_loop.simps)
    apply (rule wp_mono [OF loop])
    apply (rule exI, rule conjI, rule refl)
    using lp lt
    apply (drule_tac c = x in fin)
    apply (simp add: h_def seg_simps)
    done
qed

lemma get_target_idx_frame:
  "get_target_idx E m = Some (key, m') \<Longrightarrow> targets_map m' = targets_map m \<and> macs_map m' = macs_map m"
  by (auto simp: get_target_idx_def get_target_idx_rr_def split: if_splits option.splits bind_splits)

section \<open>The redirected packet\<close>

definition redirected_ip :: "bytes \<Rightarrow> u32 \<Rightarrow> u16 \<Rightarrow> bytes" where
  "redirected_ip ip target c =
     put (put (put ip 2 (le_bytes 2 (unat (bswap16 (ip_tot_len ip + 8))))) 16 (le_bytes 4 (unat target)))
       10 (le_bytes 2 (unat c))"

definition redirected_tcp :: "bytes \<Rightarrow> u16 \<Rightarrow> bytes" where
  "redirected_tcp tcp c = put (put tcp 12 [longer_doff (tcp ! 12)]) 16 (le_bytes 2 (unat c))"

lemma glue: "take n (drop a q) @ drop (a + n) q = drop a q"
  by (metis add.commute append_take_drop_id drop_drop)

lemma get_target_wp:
  assumes "get_target_idx E m = Some (key, m')" "targets_map m key = Some target"
  shows "wp (get_target E p d m) Q \<longleftrightarrow> d + 4 \<le> length p \<and> Q (0, put p d (le_bytes 4 (unat target)), m')"
  using assms get_target_idx_frame [OF assms(1)] by (simp add: get_target_def wp_rules)

lemma update_macs_wp:
  assumes "macs_map m target = Some mac" "length mac = 6" "length eth = 14"
  shows "wp (update_macs m target (eth @ p) 0) Q \<longleftrightarrow> Q (0, (mac @ take 6 eth @ drop 12 eth) @ p)"
proof -
  have "put (put eth 6 (take 6 eth)) 0 mac = mac @ take 6 eth @ drop 12 eth"
    using assms by (simp add: put_def)
  then show ?thesis using assms by (simp add: update_macs_def wp_rules seg_simps)
qed

lemma handle_syn_reaches:
  fixes eth ip tcp rest mac :: bytes and target :: u32
  defines "ip1 \<equiv> put (put ip 2 (le_bytes 2 (unat (bswap16 (ip_tot_len ip + 8))))) 16 (le_bytes 4 (unat target))"
  assumes len: "length eth = 14" "length ip = 20" "length tcp = 20"
    and head: "crab_adjust_head E (- 8) (eth @ ip @ tcp @ rest) = Some (q1 @ q2 @ q3 @ q4 @ rest)"
    and qq: "length q1 = 14" "length q2 = 20" "length q3 = 20" "length q4 = 8"
    and idx: "get_target_idx E m = Some (key, m')"
    and target: "targets_map m key = Some target" "macs_map m target = Some mac" "length mac = 6"
    and syn: "\<And>c. c = NOT (csum_reduce_helper (ucast (crab_csum_diff E [] (put ip1 10 [0, 0]) 0))) \<Longrightarrow>
      wp (syn_tcp E ((mac @ take 6 eth @ drop 12 eth) @ redirected_ip ip target c @ q3 @ q4 @ rest) 14 tcp
        (of_nat (le_val (drop 16 ip)))) (\<lambda>x. Q (fst x, snd x, m'))"
  shows "wp (handle_syn E m (eth @ ip @ tcp @ rest) 0 14 34) Q"
proof -
  have m: "macs_map m' target = Some mac" using get_target_idx_frame [OF idx] target by simp
  have ip1: "length ip1 = 20" "drop 16 ip1 = le_bytes 4 (unat target)"
    using len by (simp_all add: ip1_def drop_put_end)
  have ri: "redirected_ip ip target c = put ip1 10 (le_bytes 2 (unat c))" for c
    by (simp add: redirected_ip_def ip1_def)
  show ?thesis
    unfolding handle_syn_def
    using syn
    by (simp add: head wp_rules len qq seg_simps put_whole get_target_wp [OF idx target(1)] ip_tot_len_def [symmetric]
        ip1_def [symmetric] ip1 ri le_val_word update_macs_wp [OF m target(3)] target(3) put_put_same case_prod_beta)
qed

lemma moved_head_split:
  assumes "adjust_head_ok (crab_adjust_head E)" "length eth = 14" "length ip = 20" "length tcp = 20"
    "crab_adjust_head E (- 8) (eth @ ip @ tcp @ rest) = Some q"
  obtains q1 q2 q3 q4 where "q = q1 @ q2 @ q3 @ q4 @ rest" "length q1 = 14" "length q2 = 20" "length q3 = 20" "length q4 = 8"
proof -
  have q: "drop 8 q = eth @ ip @ tcp @ rest" "length q = 62 + length rest"
    using adjust_head_push [OF assms(1,5)] assms(2-4) by auto
  have r: "drop 62 q = rest" using arg_cong [OF q(1), of "drop 54"] assms(2-4) by simp
  have "q = take 14 q @ take 20 (drop 14 q) @ take 20 (drop 34 q) @ take 8 (drop 54 q) @ rest"
    using glue [of 20 14 q] glue [of 20 34 q] glue [of 8 54 q] r by simp
  then show thesis by (rule that) (use q(2) in auto)
qed

lemma handle_syn_correct:
  assumes cd: "csum_diff_ok (crab_csum_diff E)" and ah: "adjust_head_ok (crab_adjust_head E)"
    and len: "length eth = 14" "length ip = 20" "length tcp = 20"
    and rest: "length rest \<le> 40" "length rest mod 4 = 0"
    and head: "crab_adjust_head E (- 8) (eth @ ip @ tcp @ rest) = Some q"
    and idx: "get_target_idx E m = Some (key, m')"
    and target: "targets_map m key = Some target" "macs_map m target = Some mac" "length mac = 6"
  shows "wp (handle_syn E m (eth @ ip @ tcp @ rest) 0 14 34) (\<lambda>(r, p, m''). r = XDP_TX \<and> m'' = m' \<and>
      (\<exists>c k. p = (mac @ take 6 eth @ drop 12 eth) @ redirected_ip ip target c @ redirected_tcp tcp k @ redirect_option ip @ rest \<and>
        csum_valid (redirected_ip ip target c) \<and>
        csum_valid (pseudo_header (redirected_ip ip target c) @ redirected_tcp tcp k @ redirect_option ip @ rest)))"
proof -
  obtain q1 q2 q3 q4 where q: "q = q1 @ q2 @ q3 @ q4 @ rest" and
      qq: "length q1 = 14" "length q2 = 20" "length q3 = 20" "length q4 = 8"
    using moved_head_split [OF ah len head] .
  let ?ip1 = "put (put ip 2 (le_bytes 2 (unat (bswap16 (ip_tot_len ip + 8))))) 16 (le_bytes 4 (unat target))"
  have l1: "length ?ip1 = 20" using len by simp
  show ?thesis
  proof (rule handle_syn_reaches [OF len head [unfolded q] qq idx target])
    fix c assume c: "c = NOT (csum_reduce_helper (ucast (crab_csum_diff E [] (put ?ip1 10 [0, 0]) 0)))"
    have "csum_valid (put (put ?ip1 10 [0, 0]) 10 (le_bytes 2 (unat c)))"
      unfolding c using l1 by (intro crab_fold_valid csum_diff_0 cd) (simp_all add: slice_put_same)
    then have v: "csum_valid (redirected_ip ip target c)"
      using l1 by (simp add: redirected_ip_def put_put_same)
    have l2: "length (redirected_ip ip target c) = 20" using l1 by (simp add: redirected_ip_def)
    have le: "length (mac @ take 6 eth @ drop 12 eth) = 14" using len target by simp
    show "wp (syn_tcp E ((mac @ take 6 eth @ drop 12 eth) @ redirected_ip ip target c @ q3 @ q4 @ rest) 14 tcp
        (of_nat (le_val (drop 16 ip)))) (\<lambda>x. case (fst x, snd x, m') of (r, p, m'') \<Rightarrow> r = XDP_TX \<and> m'' = m' \<and>
      (\<exists>c k. p = (mac @ take 6 eth @ drop 12 eth) @ redirected_ip ip target c @ redirected_tcp tcp k @ redirect_option ip @ rest \<and>
        csum_valid (redirected_ip ip target c) \<and>
        csum_valid (pseudo_header (redirected_ip ip target c) @ redirected_tcp tcp k @ redirect_option ip @ rest)))"
      by (rule wp_mono [OF syn_tcp_correct [OF cd le l2 _ _ len(3) len(2) rest]])
        (use qq v in \<open>(auto simp: redirected_tcp_def Let_def, blast)\<close>)
  qed
qed


section \<open>The program\<close>

text \<open>The data offset field has four bits: 14 and 15 wrap to 0 and 1.\<close>

lemma longer_doff_field: "unat (drop_bit 4 (longer_doff b)) = (unat (drop_bit 4 b) + 2) mod 16"
proof -
  have "drop_bit 4 (longer_doff b) = take_bit 4 (drop_bit 4 b + 2)"
    unfolding longer_doff_def by (rule bit_word_eqI) (auto simp: bit_simps)
  moreover have "unat b < 2 ^ LENGTH(8)" by (rule unsigned_less)
  then have "unat (drop_bit 4 b) < 16" unfolding unsigned_drop_bit_eq unfolding drop_bit_eq_div by (simp add: take_bit_eq_mod less_mult_imp_div_less)
  then have "unat (drop_bit 4 b + 2) = unat (drop_bit 4 b) + 2" by (subst unat_add_small) simp_all
  moreover have "unat (take_bit 4 x) = unat x mod 16" for x :: u8
    unfolding unsigned_take_bit_eq unfolding take_bit_eq_mod by simp
  ultimately show ?thesis by metis
qed

lemma redirected_doff:
  "length tcp = 20 \<Longrightarrow> unat (drop_bit 4 (redirected_tcp tcp k ! 12)) = (unat (drop_bit 4 (tcp ! 12)) + 2) mod 16"
  by (simp add: redirected_tcp_def put_def nth_append longer_doff_field)

text \<open>
  An untagged Ethernet frame with an IPv4 header without options and a TCP header whose data
  offset fits the frame, and what the parsers return for it.
\<close>

definition tcp_frame :: "bytes \<Rightarrow> bytes \<Rightarrow> bytes \<Rightarrow> bytes \<Rightarrow> bool" where
  "tcp_frame eth ip tcp rest \<longleftrightarrow> length eth = 14 \<and> length ip = 20 \<and> length tcp = 20 \<and>
     drop 12 eth = [8, 0] \<and> ip ! 0 = 0x45 \<and> ip ! 9 = 6 \<and>
     (let doff = unat (drop_bit 4 (tcp ! 12)) in 5 \<le> doff \<and> 4 * doff \<le> 20 + length rest)"

definition parsers_ok :: "crab_env \<Rightarrow> bool" where
  "parsers_ok E \<longleftrightarrow> (\<forall>eth ip tcp rest. tcp_frame eth ip tcp rest \<longrightarrow>
     (let p = eth @ ip @ tcp @ rest in
      parse_ethhdr E p 0 = (8, 14, 0) \<and> parse_iphdr E p 14 = (6, 34, 14) \<and>
      (\<exists>n pos. parse_tcphdr E p 34 = (int n, pos, 34))))"

lemma xdp_prog_simple_syn:
  assumes "parsers_ok E" "tcp_frame eth ip tcp rest" "bit (tcp ! 13) 1" "\<not> bit (tcp ! 13) 4"
  shows "xdp_prog_simple E m (eth @ ip @ tcp @ rest) = handle_syn E m (eth @ ip @ tcp @ rest) 0 14 34"
proof -
  let ?p = "eth @ ip @ tcp @ rest"
  obtain n pos where "parse_ethhdr E ?p 0 = (8, 14, 0)" "parse_iphdr E ?p 14 = (6, 34, 14)"
      "parse_tcphdr E ?p 34 = (int n, pos, 34)"
    using assms(1,2) unfolding parsers_ok_def Let_def by blast
  then show ?thesis
    using assms(2-4) by (simp add: xdp_prog_simple_def tcp_frame_def ld8_def nth_append)
qed

text \<open>
  Property C25. A SYN that the load balancer accepts leaves as a SYN for the chosen target: the
  frame is addressed to the target's MAC address from the address it arrived at, the IP header
  has the target as destination, a length 8 larger and a valid checksum, behind the TCP header
  come the redirection option with the original destination and then the rest of the frame,
  unchanged, and the TCP checksum with its pseudo header is valid. The data offset is 2 larger
  modulo 16: it is right for up to 32 bytes of options and wraps for 36 and 40. The maps are those
  after the choice of the target. The frame is untagged IPv4 without IP options, SYN and not ACK,
  with at most 40 bytes, a multiple of 4, after the fixed TCP header, so without payload; the
  parsers and helpers are as documented, the kernel grants 8 bytes of headroom and the target has
  a MAC address.
\<close>

theorem syn_is_redirected:
  assumes "csum_diff_ok (crab_csum_diff E)" "adjust_head_ok (crab_adjust_head E)" "parsers_ok E"
    and "tcp_frame eth ip tcp rest" "bit (tcp ! 13) 1" "\<not> bit (tcp ! 13) 4"
    and "length rest \<le> 40" "length rest mod 4 = 0"
    and "crab_adjust_head E (- 8) (eth @ ip @ tcp @ rest) = Some q"
    and "get_target_idx E m = Some (key, m')"
    and "targets_map m key = Some target" "macs_map m target = Some mac" "length mac = 6"
  shows "\<exists>c k. let ip' = redirected_ip ip target c; tcp' = redirected_tcp tcp k; opt = redirect_option ip in
    xdp_prog_simple E m (eth @ ip @ tcp @ rest) =
      Some (XDP_TX, mac @ take 6 eth @ [8, 0] @ ip' @ tcp' @ opt @ rest, m') \<and>
    unat (drop_bit 4 (tcp' ! 12)) = (unat (drop_bit 4 (tcp ! 12)) + 2) mod 16 \<and>
    csum_valid ip' \<and> csum_valid (pseudo_header ip' @ tcp' @ opt @ rest)"
proof -
  have "length eth = 14" "length ip = 20" "length tcp = 20" "drop 12 eth = [8, 0]"
    using assms(4) by (auto simp: tcp_frame_def)
  with handle_syn_correct [OF assms(1,2) this(1-3) assms(7-)] redirected_doff show ?thesis
    unfolding xdp_prog_simple_syn [OF assms(3-6)] by (auto simp: wp_iff Let_def)
qed

section \<open>Round robin\<close>

fun rr_choices :: "nat \<Rightarrow> crab_maps \<Rightarrow> u32 list option" where
  "rr_choices 0 m = Some []"
| "rr_choices (Suc n) m = do { (i, m) \<leftarrow> get_target_idx_rr m; is \<leftarrow> rr_choices n m; Some (i # is) }"

lemma rr_choices_eq:
  assumes "targets_count m 0 = Some c" "c \<noteq> 0" "cpu_rr_idx m 0 = Some i"
  shows "rr_choices n m = Some (map (\<lambda>j. (i + of_nat j) mod c) [0..<n])"
  using assms
proof (induction n arbitrary: m i)
  case (Suc n)
  let ?m = "m\<lparr>cpu_rr_idx := (cpu_rr_idx m)(0 \<mapsto> i + 1)\<rparr>"
  have "rr_choices n ?m = Some (map (\<lambda>j. (i + 1 + of_nat j) mod c) [0..<n])"
    using Suc.prems by (intro Suc.IH) auto
  moreover have "map (\<lambda>j. (i + of_nat j) mod c) [0..<Suc n] = i mod c # map (\<lambda>j. (i + 1 + of_nat j) mod c) [0..<n]"
    by (simp add: upt_conv_Cons map_Suc_upt [symmetric] o_def add.assoc del: upt_Suc)
  ultimately show ?case
    using Suc.prems by (simp add: get_target_idx_rr_def del: upt_Suc)
qed simp


text \<open>Any \<open>n\<close> consecutive values of a counter meet each residue modulo \<open>n\<close> once.\<close>

lemma count_list_distinct: "distinct xs \<Longrightarrow> x \<in> set xs \<Longrightarrow> count_list xs x = 1"
  by (induction xs) auto

lemma residue_window:
  fixes n a r :: nat
  assumes "r < n"
  shows "count_list (map (\<lambda>j. (a + j) mod n) [0..<n]) r = 1"
proof -
  have inj: "inj_on (\<lambda>j. (a + j) mod n) {0..<n}"
  proof (rule inj_onI)
    fix x y assume xy: "x \<in> {0..<n}" "y \<in> {0..<n}" "(a + x) mod n = (a + y) mod n"
    have same: "x = y" if "x \<le> y" "y < n" "(a + x) mod n = (a + y) mod n" for x y
    proof -
      have "n dvd y - x" using that mod_eq_dvd_iff_nat [of "a + x" "a + y" n] by simp
      then show ?thesis using that by (auto dest: dvd_imp_le)
    qed
    show "x = y"
    proof (cases "x \<le> y")
      case True
      then show ?thesis using same xy by simp
    next
      case False
      then show ?thesis using same [of y x] xy by simp
    qed
  qed
  then have d: "distinct (map (\<lambda>j. (a + j) mod n) [0..<n])"
    by (simp add: distinct_map)
  have "(\<lambda>j. (a + j) mod n) ` {0..<n} = {0..<n}"
    using inj by (intro card_subset_eq) (use assms in \<open>auto simp: card_image\<close>)
  then have "r \<in> set (map (\<lambda>j. (a + j) mod n) [0..<n])" using assms by auto
  with d show ?thesis by (rule count_list_distinct)
qed

lemma residue_rounds:
  fixes n a r :: nat
  assumes "r < n"
  shows "count_list (map (\<lambda>j. (a + j) mod n) [0..<k * n]) r = k"
proof (induction k)
  case (Suc k)
  have "[0..<Suc k * n] = [0..<k * n] @ map (\<lambda>j. k * n + j) [0..<n]"
    using upt_add_eq_append [of 0 "k * n" n] map_add_upt [of "k * n" n] by (simp add: add.commute)
  moreover have "(a + (k * n + j)) mod n = (a + j) mod n" for j
    using mod_mult_self1 [of "a + j" k n] by (simp only: ac_simps)
  ultimately show ?case
    using Suc residue_window [OF assms, of a] by (simp add: o_def del: upt_Suc)
qed simp

lemma rr_index_unat:
  assumes "unat i + j < 2 ^ 32"
  shows "unat ((i + of_nat j :: u32) mod c) = (unat i + j) mod unat c"
proof -
  have "unat (of_nat j :: u32) = j" using assms by (simp add: unat_of_nat)
  then have "unat (i + of_nat j) = unat i + j" using assms by (simp add: unat_add_small)
  then show ?thesis by (simp add: unat_mod)
qed

text \<open>
  Round-robin selection is fair: as long as the 32-bit counter does not wrap around,
  \<open>k\<close> rounds over \<open>c\<close> targets choose every target exactly \<open>k\<close> times.
\<close>

lemma round_robin_fair:
  assumes "targets_count m 0 = Some c" "cpu_rr_idx m 0 = Some i" "t < c"
    and "unat i + k * unat c \<le> 2 ^ 32"
  shows "\<exists>is. rr_choices (k * unat c) m = Some is \<and> count_list is t = k"
proof -
  let ?f = "\<lambda>j. (i + of_nat j) mod c"
  have c: "c \<noteq> 0" "unat t < unat c" using assms(3) by (auto simp: word_less_nat_alt)
  have "count_list (map ?f [0..<k * unat c]) t = count_list (map unat (map ?f [0..<k * unat c])) (unat t)"
    by (rule count_list_map_conv [symmetric]) (simp add: inj_def word_unat_eq_iff)
  also have "map unat (map ?f [0..<k * unat c]) = map (\<lambda>j. (unat i + j) mod unat c) [0..<k * unat c]"
    using assms(4) rr_index_unat [of i _ c] by (auto intro!: map_cong)
  also have "count_list \<dots> (unat t) = k" using c(2) by (rule residue_rounds)
  finally show ?thesis using rr_choices_eq [OF assms(1) c(1) assms(2)] by simp
qed


section \<open>Examples\<close>

definition demo_crab_env :: crab_env where
  "demo_crab_env = \<lparr>
     crab_adjust_head = (\<lambda>d p. if d < 0 then Some (replicate (nat (- d)) 0 @ p)
       else if nat d \<le> length p then Some (drop (nat d) p) else None),
     crab_csum_diff = (\<lambda>old new seed. of_nat (oc (sum16 new + unat (ucast seed :: u32)))),
     get_prandom_u32 = 0,
     parse_ethhdr = (\<lambda>p pos. (8, 14, 0)), parse_iphdr = (\<lambda>p pos. (6, 34, 14)), parse_tcphdr = (\<lambda>p pos. (20, 54, 34)),
     RAND = False\<rparr>"

definition demo_crab_maps :: crab_maps where
  "demo_crab_maps = \<lparr>targets_map = [0 \<mapsto> 7, 1 \<mapsto> 9, 2 \<mapsto> 11],
     macs_map = (\<lambda>_. Some (replicate 6 5)), targets_count = [0 \<mapsto> 3], cpu_rr_idx = [0 \<mapsto> 4]\<rparr>"

lemma demo_csum_diff_ok: "csum_diff_ok (crab_csum_diff demo_crab_env)"
proof -
  have "unat (ucast (of_nat (oc n) :: u64) :: u32) = oc n" for n
  proof -
    have "oc n < 2 ^ 32" using oc_le [of n] by simp
    moreover from this have "unat (of_nat (oc n) :: u64) = oc n" by (simp add: unat_of_nat)
    ultimately show ?thesis by (simp add: unat_ucast_small)
  qed
  then show ?thesis by (simp add: csum_diff_ok_def demo_crab_env_def)
qed

lemma demo_crab_parsers_ok: "parsers_ok demo_crab_env"
  by (auto simp: parsers_ok_def demo_crab_env_def Let_def intro: exI [of _ "20 :: nat"])

lemma demo_crab_head_ok: "adjust_head_ok (crab_adjust_head demo_crab_env)"
  by (simp add: adjust_head_ok_def demo_crab_env_def)

definition demo_syn_eth :: bytes where "demo_syn_eth = replicate 12 1 @ [8, 0]"
definition demo_syn_ip :: bytes where "demo_syn_ip = [0x45, 0, 0, 40] @ replicate 5 0 @ [6] @ replicate 10 3"
definition demo_syn_tcp :: bytes where "demo_syn_tcp = replicate 12 0 @ [0x50, 2] @ replicate 6 0"

theorem syn_is_redirected_witness:
  "\<exists>c k. let ip' = redirected_ip demo_syn_ip 9 c; tcp' = redirected_tcp demo_syn_tcp k; opt = redirect_option demo_syn_ip in
    xdp_prog_simple demo_crab_env demo_crab_maps (demo_syn_eth @ demo_syn_ip @ demo_syn_tcp @ []) =
      Some (XDP_TX, replicate 6 5 @ take 6 demo_syn_eth @ [8, 0] @ ip' @ tcp' @ opt @ [],
        demo_crab_maps\<lparr>cpu_rr_idx := (cpu_rr_idx demo_crab_maps)(0 \<mapsto> 5)\<rparr>) \<and>
    unat (drop_bit 4 (tcp' ! 12)) = (unat (drop_bit 4 (demo_syn_tcp ! 12)) + 2) mod 16 \<and>
    csum_valid ip' \<and> csum_valid (pseudo_header ip' @ tcp' @ opt @ [])"
proof (rule syn_is_redirected [OF demo_csum_diff_ok demo_crab_head_ok demo_crab_parsers_ok])
  show "tcp_frame demo_syn_eth demo_syn_ip demo_syn_tcp []"
    by (simp add: tcp_frame_def demo_syn_eth_def demo_syn_ip_def demo_syn_tcp_def nth_append Let_def)
  show "get_target_idx demo_crab_env demo_crab_maps =
      Some (1, demo_crab_maps\<lparr>cpu_rr_idx := (cpu_rr_idx demo_crab_maps)(0 \<mapsto> 5)\<rparr>)"
    by (simp add: get_target_idx_def get_target_idx_rr_def demo_crab_env_def demo_crab_maps_def)
qed (simp_all add: demo_syn_eth_def demo_syn_ip_def demo_syn_tcp_def nth_append demo_crab_maps_def demo_crab_env_def)

lemma round_robin_fair_witness:
  "\<exists>is. rr_choices (2 * unat (3 :: u32)) demo_crab_maps = Some is \<and> count_list is 1 = 2"
  by (rule round_robin_fair [of _ _ 4]) (simp_all add: demo_crab_maps_def)

end
