(* ===== verification/Assert_Spec.thy ===== *)
theory Assert_Spec
  imports Prelude
begin

text \<open>
  The run-time assertions of assert_spec.h: macros in the verified program register
  conditions on the return value and on memory in global arrays, and \<open>BPF_RETURN\<close> checks
  them all. Memory is a function from addresses to bytes; an array with its counter is a
  list; \<open>constants_buffer\<close> is the part of the buffer written so far, so that
  \<open>constants_buffer_ptr\<close> is its length. A failing assertion is \<open>Inl\<close>; \<open>None\<close> is an
  index outside \<open>expected_not_returns\<close>.
\<close>

type_synonym memory = "nat \<Rightarrow> u8"

definition mem_read :: "memory \<Rightarrow> nat \<Rightarrow> nat \<Rightarrow> bytes" where
  "mem_read mem a n = map mem [a..<a + n]"

definition MAX_CONSTANTS :: nat where "MAX_CONSTANTS = 10"
definition CONSTANTS_BUFFER_SIZE :: nat where "CONSTANTS_BUFFER_SIZE = 80000"
definition MAX_LEADS_TO_ACTION :: nat where "MAX_LEADS_TO_ACTION = 10"
definition MAX_IF_ACTIONS :: nat where "MAX_IF_ACTIONS = 10"
definition MAX_IFS :: nat where "MAX_IFS = 10"

datatype assert_error =
    Assert_failed | Contradiction | Invalid_code | Table_full | Buffer_full
  | Wrong_return | Forbidden_return | Constant_changed | Wrong_leads_to | Wrong_if_action | Wrong_if

record assert_state =
  expected_return :: int
  expected_not_returns :: "bool list"
  constants :: "(nat \<times> nat) list"
  constants_buffer :: bytes
  leads_to :: "int list"
  if_actions :: "(int \<times> nat \<times> bytes \<times> bool) list"
  ifs :: "(nat \<times> bytes \<times> bool) list"

definition assert_init :: assert_state where
  "assert_init = \<lparr>expected_return = -1, expected_not_returns = replicate 5 False, constants = [],
     constants_buffer = [], leads_to = [], if_actions = [], ifs = []\<rparr>"

definition not_return_at :: "assert_state \<Rightarrow> int \<Rightarrow> bool option" where
  "not_return_at st v =
     (if 0 \<le> v \<and> nat v < length (expected_not_returns st)
      then Some (expected_not_returns st ! nat v) else None)"

definition set_expected_return :: "assert_state \<Rightarrow> int \<Rightarrow> (assert_error + assert_state) option" where
  "set_expected_return st value =
     do { forbidden \<leftarrow> not_return_at st value;
          Some (if forbidden then Inl Contradiction else Inr (st\<lparr>expected_return := value\<rparr>)) }"

definition set_expected_not_return :: "assert_state \<Rightarrow> int \<Rightarrow> (assert_error + assert_state) option" where
  "set_expected_not_return st value =
     (if \<not> value \<le> 4 then Some (Inl Invalid_code)
      else if value = expected_return st then Some (Inl Contradiction)
      else if value < 0 then None
      else Some (Inr (st\<lparr>expected_not_returns := (expected_not_returns st)[nat value := True]\<rparr>)))"

definition add_constant :: "memory \<Rightarrow> assert_state \<Rightarrow> nat \<Rightarrow> nat \<Rightarrow> assert_error + assert_state" where
  "add_constant mem st ptr len =
     (if \<not> length (constants st) < MAX_CONSTANTS then Inl Table_full
      else if \<not> length (constants_buffer st) + len \<le> CONSTANTS_BUFFER_SIZE then Inl Buffer_full
      else Inr (st\<lparr>constants := constants st @ [(ptr, len)],
                   constants_buffer := constants_buffer st @ mem_read mem ptr len\<rparr>))"

definition add_leads_to :: "assert_state \<Rightarrow> bool \<Rightarrow> int \<Rightarrow> assert_error + assert_state" where
  "add_leads_to st condition return_value =
     (if condition then
        if \<not> length (leads_to st) < MAX_LEADS_TO_ACTION then Inl Table_full
        else Inr (st\<lparr>leads_to := leads_to st @ [return_value]\<rparr>)
      else Inr st)"

definition add_if_action :: "assert_state \<Rightarrow> int \<Rightarrow> nat \<Rightarrow> bytes \<Rightarrow> bool \<Rightarrow> assert_error + assert_state" where
  "add_if_action st return_value addr value if_bool =
     (if \<not> length (if_actions st) < MAX_IF_ACTIONS then Inl Table_full
      else Inr (st\<lparr>if_actions := if_actions st @ [(return_value, addr, value, if_bool)]\<rparr>))"

definition add_if :: "assert_state \<Rightarrow> nat \<Rightarrow> bytes \<Rightarrow> bool \<Rightarrow> assert_error + assert_state" where
  "add_if st addr value if_bool =
     (if \<not> length (ifs st) < MAX_IFS then Inl Table_full
      else Inr (st\<lparr>ifs := ifs st @ [(addr, value, if_bool)]\<rparr>))"

text \<open>The macros that register conditions.\<close>

definition BPF_ASSERT_IF_THEN :: "assert_state \<Rightarrow> bool \<Rightarrow> nat \<Rightarrow> bytes \<Rightarrow> bool \<Rightarrow> assert_error + assert_state" where
  "BPF_ASSERT_IF_THEN st condition target value eq_bool =
     (if condition then add_if st target value eq_bool else Inr st)"

definition BPF_ASSERT_END_EQ_ADDR :: "memory \<Rightarrow> assert_state \<Rightarrow> nat \<Rightarrow> nat \<Rightarrow> nat \<Rightarrow> assert_error + assert_state" where
  "BPF_ASSERT_END_EQ_ADDR mem st target addr n = add_if st target (mem_read mem addr n) True"

text \<open>The checks at the end of the run, loop by loop.\<close>

fun check_constants :: "memory \<Rightarrow> bytes \<Rightarrow> nat \<Rightarrow> (nat \<times> nat) list \<Rightarrow> bool" where
  "check_constants mem buf ptr [] = True"
| "check_constants mem buf ptr ((a, n) # cs) =
     (if mem_read mem a n = take n (drop ptr buf) then check_constants mem buf (ptr + n) cs else False)"

fun check_if_actions :: "memory \<Rightarrow> int \<Rightarrow> (int \<times> nat \<times> bytes \<times> bool) list \<Rightarrow> bool" where
  "check_if_actions mem r [] = True"
| "check_if_actions mem r ((rv, a, v, b) # xs) =
     (if rv = r then
        let eq = (mem_read mem a (length v) = v); eq = (if b then eq else \<not> eq) in
        if eq then check_if_actions mem r xs else False
      else check_if_actions mem r xs)"

fun check_ifs :: "memory \<Rightarrow> (nat \<times> bytes \<times> bool) list \<Rightarrow> bool" where
  "check_ifs mem [] = True"
| "check_ifs mem ((a, v, b) # xs) =
     (let eq = (mem_read mem a (length v) = v); eq = (if b then eq else \<not> eq) in
      if eq then check_ifs mem xs else False)"

definition run_unrestricted_asserts :: "memory \<Rightarrow> assert_state \<Rightarrow> int \<Rightarrow> (assert_error + int) option" where
  "run_unrestricted_asserts mem st return_value =
     (if \<not> (expected_return st = -1 \<or> expected_return st = return_value) then Some (Inl Wrong_return)
      else do {
        forbidden \<leftarrow> not_return_at st return_value;
        if forbidden then Some (Inl Forbidden_return)
        else if \<not> check_constants mem (constants_buffer st) 0 (constants st) then Some (Inl Constant_changed)
        else if \<not> list_all (\<lambda>v. return_value = v) (leads_to st) then Some (Inl Wrong_leads_to)
        else if \<not> check_if_actions mem return_value (if_actions st) then Some (Inl Wrong_if_action)
        else if \<not> check_ifs mem (ifs st) then Some (Inl Wrong_if)
        else Some (Inr return_value) })"

text \<open>
  A program under assertions returns \<open>(assert_error + 'a) option\<close>: \<open>andThen\<close> goes on only when
  no assertion has failed. \<open>BPF_ASSERT\<close> is the plain assertion, \<open>BPF_RETURN\<close> runs the
  registered checks before it returns.
\<close>

definition andThen :: "('e + 'a) option \<Rightarrow> ('a \<Rightarrow> ('e + 'b) option) \<Rightarrow> ('e + 'b) option" where
  "andThen m f = m \<bind> (\<lambda>r. case r of Inl e \<Rightarrow> Some (Inl e) | Inr x \<Rightarrow> f x)"

definition BPF_ASSERT :: "bool \<Rightarrow> (assert_error + unit) option" where
  "BPF_ASSERT x = Some (if x then Inr () else Inl Assert_failed)"

definition BPF_RETURN :: "memory \<Rightarrow> assert_state \<Rightarrow> int \<Rightarrow> 'a \<Rightarrow> (assert_error + int \<times> 'a) option" where
  "BPF_RETURN mem st v result =
     andThen (run_unrestricted_asserts mem st v) (\<lambda>r. Some (Inr (r, result)))"

section \<open>The abstract contract\<close>

text \<open>
  What the programmer asserted: the constants as pairs of an address and the bytes it held
  when it was declared constant.
\<close>

fun snapshots :: "bytes \<Rightarrow> (nat \<times> nat) list \<Rightarrow> (nat \<times> bytes) list" where
  "snapshots buf [] = []"
| "snapshots buf ((a, n) # cs) = (a, take n buf) # snapshots (drop n buf) cs"

definition contract :: "memory \<Rightarrow> assert_state \<Rightarrow> int \<Rightarrow> bool" where
  "contract mem st r \<longleftrightarrow>
     (expected_return st \<in> {-1, r}) \<and> \<not> expected_not_returns st ! nat r \<and>
     (\<forall>(a, bs) \<in> set (snapshots (constants_buffer st) (constants st)). mem_read mem a (length bs) = bs) \<and>
     (\<forall>v \<in> set (leads_to st). v = r) \<and>
     (\<forall>(rv, a, v, b) \<in> set (if_actions st). rv = r \<longrightarrow> (mem_read mem a (length v) = v) = b) \<and>
     (\<forall>(a, v, b) \<in> set (ifs st). (mem_read mem a (length v) = v) = b)"

definition assert_wf :: "assert_state \<Rightarrow> bool" where
  "assert_wf st \<longleftrightarrow>
     length (expected_not_returns st) = 5 \<and>
     (expected_return st = -1 \<or> 0 \<le> expected_return st \<and> expected_return st < 5 \<and>
        \<not> expected_not_returns st ! nat (expected_return st)) \<and>
     length (constants st) \<le> MAX_CONSTANTS \<and>
     length (constants_buffer st) = sum_list (map snd (constants st)) \<and>
     length (constants_buffer st) \<le> CONSTANTS_BUFFER_SIZE \<and>
     length (leads_to st) \<le> MAX_LEADS_TO_ACTION \<and> length (if_actions st) \<le> MAX_IF_ACTIONS \<and>
     length (ifs st) \<le> MAX_IFS"

lemma length_mem_read [simp]: "length (mem_read mem a n) = n"
  by (simp add: mem_read_def)

lemma assert_wf_init: "assert_wf assert_init"
  by (simp add: assert_wf_def assert_init_def MAX_CONSTANTS_def CONSTANTS_BUFFER_SIZE_def
      MAX_LEADS_TO_ACTION_def MAX_IF_ACTIONS_def MAX_IFS_def)

lemma snapshots_append:
  "length buf = sum_list (map snd cs) \<Longrightarrow>
    snapshots (buf @ bs) (cs @ [(a, length bs)]) = snapshots buf cs @ [(a, bs)]"
proof (induction cs arbitrary: buf)
  case (Cons c cs)
  then show ?case by (cases c) simp
qed simp

lemma check_constants_iff:
  "length buf = ptr + sum_list (map snd cs) \<Longrightarrow>
    check_constants mem buf ptr cs =
      (\<forall>(a, bs) \<in> set (snapshots (drop ptr buf) cs). mem_read mem a (length bs) = bs)"
proof (induction cs arbitrary: ptr)
  case (Cons c cs)
  obtain a n where c: "c = (a, n)" by fastforce
  have "drop n (drop ptr buf) = drop (ptr + n) buf" by (simp add: add.commute)
  then show ?case
    using Cons.IH [of "ptr + n"] Cons.prems by (simp add: c min_absorb2 add.assoc)
qed simp

lemma check_if_actions_iff:
  "check_if_actions mem r xs = (\<forall>(rv, a, v, b) \<in> set xs. rv = r \<longrightarrow> (mem_read mem a (length v) = v) = b)"
  by (induction mem r xs rule: check_if_actions.induct) (auto simp: Let_def)

lemma check_ifs_iff: "check_ifs mem xs = (\<forall>(a, v, b) \<in> set xs. (mem_read mem a (length v) = v) = b)"
  by (induction mem xs rule: check_ifs.induct) (auto simp: Let_def)

lemma not_return_at_wf: "assert_wf st \<Longrightarrow> 0 \<le> r \<Longrightarrow> r < 5 \<Longrightarrow> not_return_at st r = Some (expected_not_returns st ! nat r)"
  by (simp add: not_return_at_def assert_wf_def)

lemma andThen_simps [simp]:
  "andThen (Some (Inr x)) f = f x"
  "andThen (Some (Inl e)) f = Some (Inl e)"
  "andThen None f = None"
  by (simp_all add: andThen_def)

lemma BPF_ASSERT_simps [simp]: "BPF_ASSERT True = Some (Inr ())" "BPF_ASSERT False = Some (Inl Assert_failed)"
  by (simp_all add: BPF_ASSERT_def)

text \<open>
  The registration functions of assert_spec.h keep the tables well formed: no
  table or buffer overflows, the buffer holds exactly the registered constants, and no return
  value is both expected and forbidden.
\<close>

lemma assert_tables_invariant:
  assumes "assert_wf st"
  shows "(\<forall>st'. set_expected_return st v = Some (Inr st') \<longrightarrow> assert_wf st') \<and>
    (\<forall>st'. set_expected_not_return st v = Some (Inr st') \<longrightarrow> assert_wf st') \<and>
    (\<forall>st'. add_constant mem st a n = Inr st' \<longrightarrow> assert_wf st' \<and>
       snapshots (constants_buffer st') (constants st') =
         snapshots (constants_buffer st) (constants st) @ [(a, mem_read mem a n)]) \<and>
    (\<forall>st'. add_leads_to st c v = Inr st' \<longrightarrow> assert_wf st') \<and>
    (\<forall>st'. add_if_action st v a bs b = Inr st' \<longrightarrow> assert_wf st') \<and>
    (\<forall>st'. add_if st a bs b = Inr st' \<longrightarrow> assert_wf st')"
proof (intro conjI allI impI)
  fix st'
  show "assert_wf st'" if "set_expected_return st v = Some (Inr st')"
    using that assms by (auto simp: set_expected_return_def not_return_at_def assert_wf_def
        bind_eq_Some_conv split: if_splits)
  show "assert_wf st'" if "set_expected_not_return st v = Some (Inr st')"
    using that assms by (auto simp: set_expected_not_return_def assert_wf_def nth_list_update split: if_splits)
  show "assert_wf st'" if "add_constant mem st a n = Inr st'"
    using that assms by (auto simp: add_constant_def assert_wf_def split: if_splits)
  show "snapshots (constants_buffer st') (constants st') =
      snapshots (constants_buffer st) (constants st) @ [(a, mem_read mem a n)]"
    if "add_constant mem st a n = Inr st'"
    using that assms snapshots_append [of "constants_buffer st" "constants st" "mem_read mem a n" a]
    by (auto simp: add_constant_def assert_wf_def split: if_splits)
  show "assert_wf st'" if "add_leads_to st c v = Inr st'"
    using that assms by (auto simp: add_leads_to_def assert_wf_def split: if_splits)
  show "assert_wf st'" if "add_if_action st v a bs b = Inr st'"
    using that assms by (auto simp: add_if_action_def assert_wf_def split: if_splits)
  show "assert_wf st'" if "add_if st a bs b = Inr st'"
    using that assms by (auto simp: add_if_def assert_wf_def split: if_splits)
qed

lemma assert_tables_invariant_witness:
  "assert_wf (assert_init\<lparr>constants := [(7, 2)], constants_buffer := [0, 0]\<rparr>)"
proof -
  have "mem_read (\<lambda>_. 0) 7 2 = [0, 0]" by (simp add: mem_read_def upt_rec)
  then have "add_constant (\<lambda>_. 0) assert_init 7 2 =
      Inr (assert_init\<lparr>constants := [(7, 2)], constants_buffer := [0, 0]\<rparr>)"
    by (simp add: add_constant_def assert_init_def MAX_CONSTANTS_def CONSTANTS_BUFFER_SIZE_def)
  then show ?thesis
    using assert_tables_invariant [OF assert_wf_init, where mem = "\<lambda>_. 0" and a = 7 and n = 2] by blast
qed

text \<open>
  Property C33. The end-of-run check is exact: for a valid return code it passes, returning
  that code, if and only if the contract registered during the run holds (expected and
  forbidden return values, memory that had to stay constant, leads-to conditions, conditional
  and unconditional equalities); otherwise it stops at an assertion.
\<close>

theorem run_asserts_exact:
  assumes "assert_wf st" and "0 \<le> r" and "r < 5"
  shows "(run_unrestricted_asserts mem st r = Some (Inr r)) = contract mem st r \<and>
    (\<not> contract mem st r \<longrightarrow> (\<exists>e. run_unrestricted_asserts mem st r = Some (Inl e)))"
proof -
  have c: "check_constants mem (constants_buffer st) 0 (constants st) =
      (\<forall>(a, bs) \<in> set (snapshots (constants_buffer st) (constants st)). mem_read mem a (length bs) = bs)"
    using check_constants_iff [of "constants_buffer st" 0 "constants st" mem] assms(1)
    by (simp add: assert_wf_def)
  have l: "list_all (\<lambda>v. r = v) (leads_to st) = (\<forall>v \<in> set (leads_to st). v = r)"
    by (auto simp: list_all_iff)
  show ?thesis
    unfolding run_unrestricted_asserts_def contract_def not_return_at_wf [OF assms] c l
      check_if_actions_iff check_ifs_iff
    by auto
qed

theorem run_asserts_exact_witness:
  "run_unrestricted_asserts (\<lambda>_. 1) (assert_init\<lparr>constants := [(7, 1)], constants_buffer := [0]\<rparr>) 2 \<noteq> Some (Inr 2)"
proof -
  let ?st = "assert_init\<lparr>constants := [(7, 1)], constants_buffer := [0]\<rparr>"
  have "assert_wf ?st"
    by (simp add: assert_wf_def assert_init_def MAX_CONSTANTS_def CONSTANTS_BUFFER_SIZE_def
      MAX_LEADS_TO_ACTION_def MAX_IF_ACTIONS_def MAX_IFS_def)
  moreover have "\<not> contract (\<lambda>_. 1) ?st 2" by (simp add: contract_def assert_init_def mem_read_def)
  ultimately show ?thesis using run_asserts_exact [of ?st 2 "\<lambda>_. 1"] by simp
qed

end
