(* ===== verification/Crab_Assert.thy ===== *)
theory Crab_Assert
  imports Crab_Redirect Assert_Spec
begin

text \<open>
  Crab with the assertions of assert_spec.h, src/examples/crab_assert/lb_kern.c, as the verified
  build runs it. The program is that of src/examples/crab, with assertions on what the SYN path
  leaves unchanged, on what it writes, and on the verdict.

  In the memory that the assertions read, the context is at address 0, with \<open>data\<close> at 0 and
  \<open>data_end\<close> at 4, and the packet at \<open>data\<close>; \<open>b\<close> is the value of \<open>data\<close>, which moves when the head
  of the packet is moved.
\<close>

definition ctx_memory :: "nat \<Rightarrow> bytes \<Rightarrow> memory" where
  "ctx_memory b p a =
     (if a < 8 then (le_bytes 4 b @ le_bytes 4 (b + length p)) ! a
      else if b \<le> a \<and> a < b + length p then p ! (a - b) else 0)"

section \<open>The program\<close>

definition asserted_get_target :: "crab_env \<Rightarrow> bytes \<Rightarrow> nat \<Rightarrow> crab_maps \<Rightarrow>
    (assert_error + int \<times> bytes \<times> crab_maps) option" where
  "asserted_get_target E p daddr m =
     andThen (if RAND E then BPF_ASSERT False else Some (Inr ())) (\<lambda>_. map_option Inr (get_target E p daddr m))"

definition asserted_update_macs :: "crab_maps \<Rightarrow> u32 \<Rightarrow> nat \<Rightarrow> bytes \<Rightarrow> nat \<Rightarrow> assert_state \<Rightarrow>
    (assert_error + int \<times> bytes \<times> assert_state) option" where
  "asserted_update_macs m dst_ip b p ethh st =
     andThen (Some (BPF_ASSERT_END_EQ_ADDR (ctx_memory b p) st (b + ethh + 6) (b + ethh) 6)) (\<lambda>st.
     do { h_dest \<leftarrow> ldn p ethh 6;
          p \<leftarrow> stn p (ethh + 6) h_dest;
          andThen (Some (add_constant (ctx_memory b p) st (b + ethh + 6) 6)) (\<lambda>st.
          case macs_map m dst_ip of None \<Rightarrow> Some (Inr (- 1, p, st))
          | Some target \<Rightarrow>
            do { p \<leftarrow> stn p ethh target;
                 andThen (Some (add_constant (ctx_memory b p) st (b + ethh) 6)) (\<lambda>st.
                 Some (Inr (0, p, st))) }) })"

text \<open>The assertions at the beginning of \<open>handle_syn\<close>.\<close>

definition syn_contract :: "nat \<Rightarrow> bytes \<Rightarrow> nat \<Rightarrow> nat \<Rightarrow> nat \<Rightarrow> assert_state \<Rightarrow> (assert_error + assert_state) option" where
  "syn_contract b p ethh iph tcph st =
     andThen (set_expected_return st XDP_TX) (\<lambda>st.
     andThen (Some (BPF_ASSERT_IF_THEN st True 0 (le_bytes 4 (b - sizeof_redir_opt)) True)) (\<lambda>st.
     andThen (Some (add_constant (ctx_memory b p) st 4 4)) (\<lambda>st.
     andThen (Some (BPF_ASSERT_END_EQ_ADDR (ctx_memory b p) st (b + ethh + 6 - sizeof_redir_opt) (b + ethh) 6)) (\<lambda>st.
     do { tot_len \<leftarrow> ld16 p (iph + 2);
          andThen (Some (BPF_ASSERT_IF_THEN st True (b + iph + 2 - sizeof_redir_opt)
            (le_bytes 2 (unat (bswap16 (bswap16 tot_len + of_nat sizeof_redir_opt)))) True)) (\<lambda>st.
     do { daddr \<leftarrow> ld32 p (iph + 16);
          let expected_ropt = \<lparr>ropt_type = REDIR_OPT_TYPE, ropt_size = 6, ropt_ip = daddr, ropt_nop = 0x0101\<rparr>;
          Some (BPF_ASSERT_IF_THEN st True (b + tcph + sizeof_tcphdr - sizeof_redir_opt)
            (redir_opt_bytes expected_ropt) True) }) }))))"

definition asserted_syn_tcp :: "crab_env \<Rightarrow> nat \<Rightarrow> bytes \<Rightarrow> nat \<Rightarrow> bytes \<Rightarrow> u32 \<Rightarrow> assert_state \<Rightarrow>
    (assert_error + int \<times> bytes \<times> assert_state) option" where
  "asserted_syn_tcp E b p iph tcph_old old_daddr st =
     (let tcph = iph + sizeof_iphdr in
      if length p < tcph + sizeof_tcphdr then Some (Inr (XDP_ABORTED, p, st)) else
      do { p \<leftarrow> stn p tcph tcph_old;
           doff \<leftarrow> ld8 p (tcph + 12);
           p \<leftarrow> st8 p (tcph + 12) ((doff AND 0x0F) OR push_bit 4 (drop_bit 4 doff + 2));
           let ptr = tcph + sizeof_tcphdr;
           if length p < ptr + sizeof_redir_opt then Some (Inr (XDP_ABORTED, p, st)) else
      do { let ropt = \<lparr>ropt_type = REDIR_OPT_TYPE, ropt_size = 6, ropt_ip = old_daddr, ropt_nop = 0x0101\<rparr>;
           p \<leftarrow> stn p ptr (redir_opt_bytes ropt);
           andThen (Some (add_constant (ctx_memory b p) st (b + ptr) sizeof_redir_opt)) (\<lambda>st.
      do { p \<leftarrow> st16 p (tcph + 16) 0;
           bs \<leftarrow> ldn p tcph (sizeof_tcphdr + sizeof_redir_opt);
           let csum = (ucast (crab_csum_diff E [] bs 0) :: u32);
           csum \<leftarrow> opt_csum_loop (crab_csum_diff E) MAX_OPT_WORDS p (ptr + sizeof_redir_opt) csum;
           let csum = (ucast (csum_reduce_helper csum) :: u32);
           saddr \<leftarrow> ld32 p (iph + 12);
           daddr \<leftarrow> ld32 p (iph + 16);
           tot_len \<leftarrow> ld16 p (iph + 2);
           let psdh = \<lparr>src_addr = saddr, dst_addr = daddr, psd_zero = 0, psd_proto = IPPROTO_TCP,
                       psd_len = bswap16 (bswap16 tot_len - of_nat sizeof_iphdr)\<rparr>;
           let csum = (ucast (crab_csum_diff E [] (psd_bytes psdh) (ucast csum)) :: u32);
           p \<leftarrow> st16 p (tcph + 16) (NOT (csum_reduce_helper csum));
           andThen (Some (add_constant (ctx_memory b p) st (b + tcph) sizeof_tcphdr)) (\<lambda>st.
           Some (Inr (XDP_TX, p, st))) }) } })"

text \<open>The result is the verdict, the new \<open>data\<close>, the packet, the maps and the registered assertions.\<close>

definition asserted_handle_syn :: "crab_env \<Rightarrow> crab_maps \<Rightarrow> nat \<Rightarrow> bytes \<Rightarrow> nat \<Rightarrow> nat \<Rightarrow> nat \<Rightarrow> assert_state \<Rightarrow>
    (assert_error + int \<times> nat \<times> bytes \<times> crab_maps \<times> assert_state) option" where
  "asserted_handle_syn E m b p ethh iph tcph st =
     andThen (syn_contract b p ethh iph tcph st) (\<lambda>st.
     do { ethh_old \<leftarrow> ldn p ethh sizeof_eth;
          iph_old \<leftarrow> ldn p iph sizeof_iphdr;
          old_daddr \<leftarrow> ld32 p (iph + 16);
          tcph_old \<leftarrow> ldn p tcph sizeof_tcphdr;
          case crab_adjust_head E (0 - int sizeof_redir_opt) p of None \<Rightarrow> Some (Inr (XDP_ABORTED, b, p, m, st))
          | Some p \<Rightarrow>
            let b = b - sizeof_redir_opt in
            if length p < sizeof_eth then Some (Inr (XDP_ABORTED, b, p, m, st)) else
     do { p \<leftarrow> stn p 0 ethh_old;
          let iph = sizeof_eth;
          if length p < iph + sizeof_iphdr then Some (Inr (XDP_ABORTED, b, p, m, st)) else
     do { p \<leftarrow> stn p iph iph_old;
          tot_len \<leftarrow> ld16 p (iph + 2);
          p \<leftarrow> st16 p (iph + 2) (bswap16 (bswap16 tot_len + of_nat sizeof_redir_opt));
          andThen (Some (add_constant (ctx_memory b p) st (b + iph + 2) 2)) (\<lambda>st.
          andThen (asserted_get_target E p (iph + 16) m) (\<lambda>(r, p, m).
          if r \<noteq> 0 then Some (Inr (XDP_ABORTED, b, p, m, st)) else
          andThen (Some (add_constant (ctx_memory b p) st (b + iph + 16) 4)) (\<lambda>st.
     do { daddr \<leftarrow> ld32 p (iph + 16);
          andThen (asserted_update_macs m daddr b p 0 st) (\<lambda>(r, p, st).
          if r \<noteq> 0 then Some (Inr (XDP_ABORTED, b, p, m, st)) else
          andThen (Some (add_constant (ctx_memory b p) st b sizeof_eth)) (\<lambda>st.
     do { p \<leftarrow> st16 p (iph + 10) 0;
          bs \<leftarrow> ldn p iph sizeof_iphdr;
          p \<leftarrow> st16 p (iph + 10) (NOT (csum_reduce_helper (ucast (crab_csum_diff E [] bs 0))));
          andThen (Some (add_constant (ctx_memory b p) st (b + iph) sizeof_iphdr)) (\<lambda>st.
          andThen (asserted_syn_tcp E b p iph tcph_old old_daddr st) (\<lambda>(action, p, st).
          Some (Inr (action, b, p, m, st)))) })) }))) } } })"

definition asserted_xdp_prog :: "crab_env \<Rightarrow> crab_maps \<Rightarrow> nat \<Rightarrow> bytes \<Rightarrow> (assert_error + int \<times> bytes \<times> crab_maps) option" where
  "asserted_xdp_prog E m b p =
     (let (nh_type, pos, ethh) = parse_ethhdr E p 0 in
      andThen (Some (add_leads_to assert_init (nh_type \<noteq> 8) XDP_PASS)) (\<lambda>st.
      if nh_type \<noteq> 8 then BPF_RETURN (ctx_memory b p) st XDP_PASS (p, m) else
      let (ip_type, pos, iph) = parse_iphdr E p pos in
      andThen (Some (add_leads_to st (ip_type \<noteq> uint IPPROTO_TCP) XDP_PASS)) (\<lambda>st.
      if ip_type \<noteq> uint IPPROTO_TCP then BPF_RETURN (ctx_memory b p) st XDP_PASS (p, m) else
      let (r, pos, tcph) = parse_tcphdr E p pos in
      if r < 0 then BPF_RETURN (ctx_memory b p) st XDP_ABORTED (p, m) else
      do { flags \<leftarrow> ld8 p (tcph + 13);
           if bit flags 4 then BPF_RETURN (ctx_memory b p) st XDP_PASS (p, m)
           else if bit flags 1 then
             andThen (asserted_handle_syn E m b p ethh iph tcph st) (\<lambda>(action, b, p, m, st).
             BPF_RETURN (ctx_memory b p) st action (p, m))
           else BPF_RETURN (ctx_memory b p) st XDP_PASS (p, m) })))"

section \<open>Memory and tables\<close>

lemma wp_andThen [wp_rules]:
  "wp (andThen m f) Q = wp m (\<lambda>r. case r of Inl e \<Rightarrow> Q (Inl e) | Inr x \<Rightarrow> wp (f x) Q)"
  by (auto simp: andThen_def wp_def split: option.splits sum.splits)

lemma eq_Some_wp: "m = Some y \<longleftrightarrow> wp m (\<lambda>x. x = y)"
  by (auto simp: wp_iff)

lemma not_wp_None: "\<not> wp m (\<lambda>_. True) \<longleftrightarrow> m = None"
  by (cases m) simp_all

lemma mem_read_eqI: "length bs = n \<Longrightarrow> (\<And>i. i < n \<Longrightarrow> mem (a + i) = bs ! i) \<Longrightarrow> mem_read mem a n = bs"
  by (rule nth_equalityI) (simp_all add: mem_read_def)

lemma mem_read_packet: "8 \<le> b \<Longrightarrow> off + n \<le> length p \<Longrightarrow> mem_read (ctx_memory b p) (b + off) n = take n (drop off p)"
  by (rule mem_read_eqI) (auto simp: ctx_memory_def)

lemma mem_read_packet_0: "8 \<le> b \<Longrightarrow> n \<le> length p \<Longrightarrow> mem_read (ctx_memory b p) b n = take n p"
  using mem_read_packet [of b 0 n p] by simp

lemma mem_read_data: "mem_read (ctx_memory b p) 0 4 = le_bytes 4 b"
  by (rule mem_read_eqI) (auto simp: ctx_memory_def nth_append)

lemma mem_read_data_end: "mem_read (ctx_memory b p) 4 4 = le_bytes 4 (b + length p)"
  by (rule mem_read_eqI) (auto simp: ctx_memory_def nth_append)

lemmas mem_reads = mem_read_packet mem_read_packet_0 mem_read_data mem_read_data_end

text \<open>
  The tables after the SYN path has registered the constants \<open>cs\<close>, as addresses with their values,
  and the conditions \<open>fs\<close> on the end of the run.
\<close>

definition asserted :: "(nat \<times> bytes) list \<Rightarrow> (nat \<times> bytes) list \<Rightarrow> assert_state" where
  "asserted cs fs = assert_init\<lparr>expected_return := XDP_TX, constants := map (\<lambda>(a, v). (a, length v)) cs,
     constants_buffer := concat (map snd cs), ifs := map (\<lambda>(a, v). (a, v, True)) fs\<rparr>"

lemma add_constant_asserted:
  "length cs < MAX_CONSTANTS \<Longrightarrow> sum_list (map (length \<circ> snd) cs) + n \<le> CONSTANTS_BUFFER_SIZE \<Longrightarrow>
    add_constant mem (asserted cs fs) a n = Inr (asserted (cs @ [(a, mem_read mem a n)]) fs)"
  by (simp add: add_constant_def asserted_def length_concat o_def)

lemma add_if_asserted:
  "length fs < MAX_IFS \<Longrightarrow> BPF_ASSERT_IF_THEN (asserted cs fs) True a v True = Inr (asserted cs (fs @ [(a, v)]))"
  "length fs < MAX_IFS \<Longrightarrow> BPF_ASSERT_END_EQ_ADDR mem (asserted cs fs) a a' n = Inr (asserted cs (fs @ [(a, mem_read mem a' n)]))"
  by (simp_all add: add_if_def BPF_ASSERT_IF_THEN_def BPF_ASSERT_END_EQ_ADDR_def asserted_def)

lemma check_constants_values:
  "(\<And>a v. (a, v) \<in> set cs \<Longrightarrow> mem_read mem a (length v) = v) \<Longrightarrow>
    check_constants mem (buf @ concat (map snd cs)) (length buf) (map (\<lambda>(a, v). (a, length v)) cs)"
proof (induction cs arbitrary: buf)
  case (Cons c cs)
  obtain a v where c: "c = (a, v)" by fastforce
  have "check_constants mem ((buf @ v) @ concat (map snd cs)) (length (buf @ v)) (map (\<lambda>(a, v). (a, length v)) cs)"
    using Cons.prems by (intro Cons.IH) auto
  moreover have "mem_read mem a (length v) = v" using Cons.prems c by simp
  ultimately show ?case by (simp add: c)
qed simp

lemma asserted_return:
  assumes "list_all (\<lambda>(a, v). mem_read mem a (length v) = v) (cs @ fs)"
  shows "BPF_RETURN mem (asserted cs fs) XDP_TX x = Some (Inr (XDP_TX, x))"
proof -
  have "check_constants mem (concat (map snd cs)) 0 (map (\<lambda>(a, v). (a, length v)) cs)"
    using check_constants_values [of cs mem "[]"] assms by (auto simp: list_all_iff)
  moreover have "check_ifs mem (map (\<lambda>(a, v). (a, v, True)) fs)"
    using assms by (auto simp: check_ifs_iff list_all_iff)
  ultimately show ?thesis
    by (simp add: BPF_RETURN_def run_unrestricted_asserts_def asserted_def assert_init_def not_return_at_def)
qed

lemma asserted_aborted: "BPF_RETURN mem (asserted cs fs) XDP_ABORTED x = Some (Inl Wrong_return)"
  by (simp add: BPF_RETURN_def run_unrestricted_asserts_def asserted_def)

lemmas assert_tables = add_constant_asserted add_if_asserted MAX_CONSTANTS_def CONSTANTS_BUFFER_SIZE_def MAX_IFS_def

section \<open>The SYN path\<close>

definition syn_ends :: "nat \<Rightarrow> bytes \<Rightarrow> bytes \<Rightarrow> (nat \<times> bytes) list" where
  "syn_ends d eth ip = [(0, le_bytes 4 d), (d + 6, take 6 eth),
     (d + 16, le_bytes 2 (unat (bswap16 (ip_tot_len ip + 8)))), (d + 54, redirect_option ip)]"

lemma syn_contract_registers:
  assumes "length eth = 14" "length ip = 20" "length tcp = 20"
  shows "syn_contract (d + 8) (eth @ ip @ tcp @ rest) 0 14 34 assert_init =
    Some (Inr (asserted [(4, le_bytes 4 (d + 62 + length rest))] (syn_ends d eth ip)))"
proof -
  have i: "set_expected_return assert_init XDP_TX = Some (Inr (asserted [] []))"
    by (simp add: set_expected_return_def not_return_at_def assert_init_def asserted_def)
  show ?thesis
    unfolding eq_Some_wp syn_contract_def i
    using assms by (simp add: wp_rules assert_tables mem_reads syn_ends_def redir_opt_bytes_option ip_tot_len_def add.commute add.left_commute)
qed

lemma opt_csum_loop_total: "\<exists>r. opt_csum_loop f n p opt c = Some r"
proof (induction n arbitrary: opt c)
  case (Suc n)
  then show ?case by (simp add: ldn_def)
qed simp


text \<open>The end of the path registers the option and the TCP header, and does what the release build does.\<close>

lemma asserted_syn_tcp_result:
  assumes len: "length eth = 14" "length ip = 20" "length a = 20" "length bb = 8" "length tcp = 20" "length ip0 = 20"
    and d: "8 \<le> d" and cs: "length cs < 9" "sum_list (map (length \<circ> snd) cs) \<le> 1000"
  shows "\<exists>k. let tcp' = redirected_tcp tcp k; q = eth @ ip @ tcp' @ redirect_option ip0 @ rest in
    asserted_syn_tcp E d (eth @ ip @ a @ bb @ rest) 14 tcp (of_nat (le_val (drop 16 ip0))) (asserted cs fs) =
      Some (Inr (XDP_TX, q, asserted (cs @ [(d + 54, redirect_option ip0), (d + 34, tcp')]) fs)) \<and>
    syn_tcp E (eth @ ip @ a @ bb @ rest) 14 tcp (of_nat (le_val (drop 16 ip0))) = Some (XDP_TX, q)"
proof -
  define t where "t = put (put tcp 12 [longer_doff (tcp ! 12)]) 16 [0, 0]"
  have lo: "length (redirect_option ip0) = 8" using len by (simp add: redirect_option_def)
  have lt: "length t = 20" using len by (simp add: t_def)
  have t2: "put (put tcp 12 [longer_doff (tcp ! 12)]) 16 (le_bytes 2 k) = put t 16 (le_bytes 2 k)" for k
    using len by (simp add: t_def put_put_same)
  let ?c0 = "ucast (crab_csum_diff E [] (t @ redirect_option ip0) 0) :: u32"
  obtain x where x: "opt_csum_loop (crab_csum_diff E) MAX_OPT_WORDS (eth @ ip @ t @ redirect_option ip0 @ rest) 62 ?c0 = Some x"
    using opt_csum_loop_total by blast
  define k where "k = NOT (csum_reduce_helper (ucast (crab_csum_diff E [] (pseudo_header ip)
    (ucast (ucast (csum_reduce_helper x) :: u32)))))"
  have "syn_tcp E (eth @ ip @ a @ bb @ rest) 14 tcp (of_nat (le_val (drop 16 ip0))) =
      Some (XDP_TX, eth @ ip @ put t 16 (le_bytes 2 (unat k)) @ redirect_option ip0 @ rest)"
    unfolding eq_Some_wp syn_tcp_def longer_doff_def [symmetric]
    by (simp add: wp_rules seg_simps len put_whole lo redir_opt_bytes_option psd_bytes_pseudo_header lt t_def [symmetric] t2 x k_def
      del: opt_csum_loop.simps)
  moreover have "asserted_syn_tcp E d (eth @ ip @ a @ bb @ rest) 14 tcp (of_nat (le_val (drop 16 ip0))) (asserted cs fs) =
      Some (Inr (XDP_TX, eth @ ip @ put t 16 (le_bytes 2 (unat k)) @ redirect_option ip0 @ rest,
        asserted (cs @ [(d + 54, redirect_option ip0), (d + 34, put t 16 (le_bytes 2 (unat k)))]) fs))"
    unfolding eq_Some_wp asserted_syn_tcp_def longer_doff_def [symmetric]
    using d cs
    by (simp add: wp_rules seg_simps len put_whole lo redir_opt_bytes_option psd_bytes_pseudo_header lt t_def [symmetric] t2 x k_def
      assert_tables mem_reads del: opt_csum_loop.simps)
  ultimately show ?thesis by (auto simp: redirected_tcp_def t2 Let_def)
qed


lemma asserted_get_target_wp:
  assumes "\<not> RAND E" "get_target_idx E m = Some (key, m')" "targets_map m key = Some target"
  shows "wp (asserted_get_target E p a m) Q \<longleftrightarrow> a + 4 \<le> length p \<and> Q (Inr (0, put p a (le_bytes 4 (unat target)), m'))"
  using assms by (simp add: asserted_get_target_def wp_map_option get_target_wp [OF assms(2,3)])

lemma asserted_update_macs_result:
  assumes "macs_map m target = Some mac" "length mac = 6" "length eth = 14" "8 \<le> d"
    "length cs < 8" "sum_list (map (length \<circ> snd) cs) \<le> 500" "length fs < 10"
  shows "asserted_update_macs m target d (eth @ p) 0 (asserted cs fs) =
    Some (Inr (0, (mac @ take 6 eth @ drop 12 eth) @ p,
      asserted (cs @ [(d + 6, take 6 eth), (d, mac)]) (fs @ [(d + 6, take 6 eth)])))"
proof -
  have "put (put eth 6 (take 6 eth)) 0 mac = mac @ take 6 eth @ drop 12 eth"
    using assms by (simp add: put_def)
  then show ?thesis
    unfolding eq_Some_wp using assms
    by (simp add: asserted_update_macs_def wp_rules seg_simps assert_tables mem_reads slice_put_same)
qed

text \<open>What the SYN path has registered when it is done.\<close>

definition syn_constants :: "nat \<Rightarrow> nat \<Rightarrow> bytes \<Rightarrow> bytes \<Rightarrow> bytes \<Rightarrow> bytes \<Rightarrow> u32 \<Rightarrow> bytes \<Rightarrow> (nat \<times> bytes) list" where
  "syn_constants d n mac eth ip ip' target tcp' =
     [(4, le_bytes 4 (d + 62 + n)), (d + 16, le_bytes 2 (unat (bswap16 (ip_tot_len ip + 8)))),
      (d + 30, le_bytes 4 (unat target)), (d + 6, take 6 eth), (d, mac), (d, mac @ take 6 eth @ drop 12 eth),
      (d + 14, ip'), (d + 54, redirect_option ip), (d + 34, tcp')]"

lemma asserted_handle_syn_reaches:
  fixes eth ip tcp rest mac :: bytes and target :: u32
  defines "ip1 \<equiv> put (put ip 2 (le_bytes 2 (unat (bswap16 (ip_tot_len ip + 8))))) 16 (le_bytes 4 (unat target))"
  assumes len: "length eth = 14" "length ip = 20" "length tcp = 20" and d: "8 \<le> d" and r: "\<not> RAND E"
    and head: "crab_adjust_head E (- 8) (eth @ ip @ tcp @ rest) = Some (q1 @ q2 @ q3 @ q4 @ rest)"
    and qq: "length q1 = 14" "length q2 = 20" "length q3 = 20" "length q4 = 8"
    and idx: "get_target_idx E m = Some (key, m')"
    and target: "targets_map m key = Some target" "macs_map m target = Some mac" "length mac = 6"
  shows "\<exists>c k. let ip' = redirected_ip ip target c; tcp' = redirected_tcp tcp k;
      q = (mac @ take 6 eth @ drop 12 eth) @ ip' @ tcp' @ redirect_option ip @ rest in
    asserted_handle_syn E m (d + 8) (eth @ ip @ tcp @ rest) 0 14 34 assert_init =
      Some (Inr (XDP_TX, d, q, m', asserted (syn_constants d (length rest) mac eth ip ip' target tcp')
        (syn_ends d eth ip @ [(d + 6, take 6 eth)]))) \<and>
    handle_syn E m (eth @ ip @ tcp @ rest) 0 14 34 = Some (XDP_TX, q, m')"
proof -
  have m: "macs_map m' target = Some mac" using get_target_idx_frame [OF idx] target by simp
  have ip1: "length ip1 = 20" "drop 16 ip1 = le_bytes 4 (unat target)"
      "take 2 (drop 2 ip1) = le_bytes 2 (unat (bswap16 (ip_tot_len ip + 8)))"
    using len by (simp_all add: ip1_def drop_put_end slice_put_disjoint slice_put_same)
  define c where "c = NOT (csum_reduce_helper (ucast (crab_csum_diff E [] (put ip1 10 [0, 0]) 0)))"
  have ri: "redirected_ip ip target c' = put ip1 10 (le_bytes 2 (unat c'))" for c'
    by (simp add: redirected_ip_def ip1_def)
  have li: "length (redirected_ip ip target c) = 20" using ip1 by (simp add: ri)
  have le: "length (mac @ take 6 eth @ drop 12 eth) = 14" using len target by simp
  let ?cs = "[(4, le_bytes 4 (d + 62 + length rest)), (d + 16, le_bytes 2 (unat (bswap16 (ip_tot_len ip + 8)))),
      (d + 30, le_bytes 4 (unat target)), (d + 6, take 6 eth), (d, mac), (d, mac @ take 6 eth @ drop 12 eth),
      (d + 14, redirected_ip ip target c)]" and ?fs = "syn_ends d eth ip @ [(d + 6, take 6 eth)]"
  have lc: "length ?cs < 9" "sum_list (map (length \<circ> snd) ?cs) \<le> 1000" using len target li by simp_all
  obtain k where k: "let tcp' = redirected_tcp tcp k; q = (mac @ take 6 eth @ drop 12 eth) @ redirected_ip ip target c @ tcp' @ redirect_option ip @ rest in
    asserted_syn_tcp E d ((mac @ take 6 eth @ drop 12 eth) @ redirected_ip ip target c @ q3 @ q4 @ rest) 14 tcp (of_nat (le_val (drop 16 ip))) (asserted ?cs ?fs) =
      Some (Inr (XDP_TX, q, asserted (?cs @ [(d + 54, redirect_option ip), (d + 34, tcp')]) ?fs)) \<and>
    syn_tcp E ((mac @ take 6 eth @ drop 12 eth) @ redirected_ip ip target c @ q3 @ q4 @ rest) 14 tcp (of_nat (le_val (drop 16 ip))) = Some (XDP_TX, q)"
    using asserted_syn_tcp_result [OF le li qq(3,4) len(3,2) d lc] by blast
  let ?tcp = "redirected_tcp tcp k"
  let ?q = "(mac @ take 6 eth @ drop 12 eth) @ redirected_ip ip target c @ ?tcp @ redirect_option ip @ rest"
  have release: "handle_syn E m (eth @ ip @ tcp @ rest) 0 14 34 = Some (XDP_TX, ?q, m')"
    unfolding eq_Some_wp
    by (rule handle_syn_reaches [OF len head qq idx target])
      (use k in \<open>simp add: Let_def c_def [symmetric] ip1_def [symmetric]\<close>)
  have ka: "asserted_syn_tcp E d ((mac @ take 6 eth @ drop 12 eth) @ redirected_ip ip target c @ q3 @ q4 @ rest) 14 tcp
      (of_nat (le_val (drop 16 ip))) (asserted ?cs ?fs) =
      Some (Inr (XDP_TX, ?q, asserted (?cs @ [(d + 54, redirect_option ip), (d + 34, ?tcp)]) ?fs))"
    using k by (simp add: Let_def)
  have ad: "16 + d = d + 16" "d + 14 + 16 = d + 30" by simp_all
  have sl: "length (syn_ends d eth ip) = 4" by (simp add: syn_ends_def)
  have "asserted_handle_syn E m (d + 8) (eth @ ip @ tcp @ rest) 0 14 34 assert_init =
      Some (Inr (XDP_TX, d, ?q, m', asserted (syn_constants d (length rest) mac eth ip (redirected_ip ip target c) target ?tcp) ?fs))"
    unfolding eq_Some_wp asserted_handle_syn_def syn_contract_registers [OF len]
    using ka d
    by (simp add: head wp_rules len qq seg_simps put_whole asserted_get_target_wp [OF r idx target(1)] ip_tot_len_def [symmetric]
        ip1_def [symmetric] ip1 ri le_val_word asserted_update_macs_result [OF m target(3)] target(3) put_put_same case_prod_beta
        assert_tables mem_reads sl ad slice_put_same c_def [symmetric] syn_constants_def)
  with release show ?thesis by (auto simp: Let_def)
qed


text \<open>All of it holds of the packet that is sent.\<close>

lemma syn_assertions_hold:
  assumes "length eth = 14" "length ip = 20" "length tcp = 20" "length mac = 6" "8 \<le> d"
  shows "list_all (\<lambda>(a, v). mem_read (ctx_memory d ((mac @ take 6 eth @ drop 12 eth) @ redirected_ip ip target c @
      redirected_tcp tcp k @ redirect_option ip @ rest)) a (length v) = v)
    (syn_constants d (length rest) mac eth ip (redirected_ip ip target c) target (redirected_tcp tcp k) @
      syn_ends d eth ip @ [(d + 6, take 6 eth)])"
proof -
  have l: "length (redirected_ip ip target c) = 20" "length (redirected_tcp tcp k) = 20" "length (redirect_option ip) = 8"
    using assms by (simp_all add: redirected_ip_def redirected_tcp_def redirect_option_def)
  have s: "take 2 (drop 2 (redirected_ip ip target c)) = le_bytes 2 (unat (bswap16 (ip_tot_len ip + 8)))"
      "drop 16 (redirected_ip ip target c) = le_bytes 4 (unat target)"
    using assms by (simp_all add: redirected_ip_def slice_put_disjoint slice_put_same drop_put_below drop_put_end)
  show ?thesis
    using assms by (simp add: syn_constants_def syn_ends_def mem_reads l s add.assoc)
qed

section \<open>Paths that stop\<close>

text \<open>Both builds stop with \<open>XDP_ABORTED\<close>, the verified one with the expectation of \<open>XDP_TX\<close> registered.\<close>

definition both_abort :: "crab_env \<Rightarrow> crab_maps \<Rightarrow> nat \<Rightarrow> bytes \<Rightarrow> bool" where
  "both_abort E m b p \<longleftrightarrow>
     (\<exists>b' q m' cs fs. asserted_handle_syn E m b p 0 14 34 assert_init = Some (Inr (XDP_ABORTED, b', q, m', asserted cs fs))) \<and>
     (\<exists>q m'. handle_syn E m p 0 14 34 = Some (XDP_ABORTED, q, m'))"

lemma both_abortI:
  "wp (asserted_handle_syn E m b p 0 14 34 assert_init) (\<lambda>x. \<exists>b q m' cs fs. x = Inr (XDP_ABORTED, b, q, m', asserted cs fs)) \<Longrightarrow>
    wp (handle_syn E m p 0 14 34) (\<lambda>x. fst x = XDP_ABORTED) \<Longrightarrow> both_abort E m b p"
  unfolding wp_iff both_abort_def by (metis prod.collapse)

lemma asserted_no_target:
  assumes len: "length eth = 14" "length ip = 20" "length tcp = 20" and d: "8 \<le> d" and r: "\<not> RAND E"
    and head: "crab_adjust_head E (- 8) (eth @ ip @ tcp @ rest) = Some (q1 @ q2 @ q3 @ q4 @ rest)"
    and qq: "length q1 = 14" "length q2 = 20" "length q3 = 20" "length q4 = 8"
    and idx: "get_target_idx E m = Some (key, m')" "targets_map m key = None"
  shows "both_abort E m (d + 8) (eth @ ip @ tcp @ rest)"
proof -
  have t': "get_target E p a m = Some (- 1, p, m')" for p a
    using idx get_target_idx_frame [OF idx(1)] by (simp add: get_target_def)
  then have t: "asserted_get_target E p a m = Some (Inr (- 1, p, m'))" for p a
    using r by (simp add: asserted_get_target_def)
  have "wp (asserted_handle_syn E m (d + 8) (eth @ ip @ tcp @ rest) 0 14 34 assert_init)
      (\<lambda>x. \<exists>b q m' cs fs. x = Inr (XDP_ABORTED, b, q, m', asserted cs fs))"
    unfolding asserted_handle_syn_def syn_contract_registers [OF len]
    using d by (simp add: head wp_rules len qq seg_simps put_whole t assert_tables) blast
  moreover have "wp (handle_syn E m (eth @ ip @ tcp @ rest) 0 14 34) (\<lambda>x. fst x = XDP_ABORTED)"
    unfolding handle_syn_def by (simp add: head wp_rules len qq seg_simps put_whole t')
  ultimately show ?thesis by (rule both_abortI)
qed

lemma asserted_no_mac:
  assumes len: "length eth = 14" "length ip = 20" "length tcp = 20" and d: "8 \<le> d" and r: "\<not> RAND E"
    and head: "crab_adjust_head E (- 8) (eth @ ip @ tcp @ rest) = Some (q1 @ q2 @ q3 @ q4 @ rest)"
    and qq: "length q1 = 14" "length q2 = 20" "length q3 = 20" "length q4 = 8"
    and idx: "get_target_idx E m = Some (key, m')" "targets_map m key = Some target" "macs_map m target = None"
  shows "both_abort E m (d + 8) (eth @ ip @ tcp @ rest)"
proof -
  have m: "macs_map m' target = None" using get_target_idx_frame [OF idx(1)] idx(3) by simp
  have u: "wp (asserted_update_macs m' target b (eth @ p) 0 (asserted cs fs)) (\<lambda>x. \<exists>q cs' fs'. x = Inr (- 1, q, asserted cs' fs'))"
    if "length cs < 8" "sum_list (map (length \<circ> snd) cs) \<le> 500" "length fs < 10" for b p cs fs
    using that m len by (simp add: asserted_update_macs_def wp_rules assert_tables) blast
  have u': "wp (update_macs m' target (eth @ p) 0) Q \<longleftrightarrow> Q (- 1, put eth 6 (take 6 eth) @ p)" for p Q
    using m len by (simp add: update_macs_def wp_rules seg_simps)
  have sl: "length (syn_ends d eth ip) = 4" by (simp add: syn_ends_def)
  have "wp (asserted_handle_syn E m (d + 8) (eth @ ip @ tcp @ rest) 0 14 34 assert_init)
      (\<lambda>x. \<exists>b q m' cs fs. x = Inr (XDP_ABORTED, b, q, m', asserted cs fs))"
    unfolding asserted_handle_syn_def syn_contract_registers [OF len]
    using d
    apply (simp add: head wp_rules len qq seg_simps put_whole asserted_get_target_wp [OF r idx(1,2)] le_val_word drop_put_end assert_tables sl)
    by (rule wp_mono [OF u]) (auto simp: sl, blast)
  moreover have "wp (handle_syn E m (eth @ ip @ tcp @ rest) 0 14 34) (\<lambda>x. fst x = XDP_ABORTED)"
    unfolding handle_syn_def
    by (simp add: head wp_rules len qq seg_simps put_whole get_target_wp [OF idx(1,2)] le_val_word drop_put_end u')
  ultimately show ?thesis by (rule both_abortI)
qed

text \<open>The two builds on the SYN path.\<close>

lemma asserted_syn_cases:
  fixes eth ip tcp rest :: bytes
  assumes len: "length eth = 14" "length ip = 20" "length tcp = 20" and d: "8 \<le> d" and r: "\<not> RAND E"
    and ah: "adjust_head_ok (crab_adjust_head E)" and macs: "\<And>t mac. macs_map m t = Some mac \<Longrightarrow> length mac = 6"
  defines "p \<equiv> eth @ ip @ tcp @ rest"
  obtains (sent) q m' cs fs where "asserted_handle_syn E m (d + 8) p 0 14 34 assert_init = Some (Inr (XDP_TX, d, q, m', asserted cs fs))"
      "handle_syn E m p 0 14 34 = Some (XDP_TX, q, m')" "list_all (\<lambda>(a, v). mem_read (ctx_memory d q) a (length v) = v) (cs @ fs)"
  | (aborted) "both_abort E m (d + 8) p"
  | (undefined) "asserted_handle_syn E m (d + 8) p 0 14 34 assert_init = None" "handle_syn E m p 0 14 34 = None"
proof (cases "crab_adjust_head E (- 8) p")
  case None
  then have "both_abort E m (d + 8) p"
    unfolding both_abort_def asserted_handle_syn_def handle_syn_def p_def syn_contract_registers [OF len]
    by (auto simp: ldn_def ld32_def len)
  then show thesis by (rule aborted)
next
  case (Some q0)
  obtain q1 q2 q3 q4 where q0: "q0 = q1 @ q2 @ q3 @ q4 @ rest" and
      qq: "length q1 = 14" "length q2 = 20" "length q3 = 20" "length q4 = 8"
    using moved_head_split [OF ah len Some [unfolded p_def]] .
  note head = Some [unfolded q0 p_def]
  consider (none) "get_target_idx E m = None" | (untargeted) key m1 where "get_target_idx E m = Some (key, m1)" "targets_map m key = None"
    | (unknown) key m1 target where "get_target_idx E m = Some (key, m1)" "targets_map m key = Some target" "macs_map m target = None"
    | (ok) key m1 target mac where "get_target_idx E m = Some (key, m1)" "targets_map m key = Some target" "macs_map m target = Some mac"
    by (metis not_None_eq surj_pair)
  then show thesis
  proof cases
    case none
    have "\<not> wp (handle_syn E m p 0 14 34) (\<lambda>_. True)"
      unfolding p_def by (simp add: handle_syn_def head wp_rules len qq seg_simps get_target_def none)
    moreover have "\<not> wp (asserted_handle_syn E m (d + 8) p 0 14 34 assert_init) (\<lambda>_. True)"
      unfolding p_def asserted_handle_syn_def syn_contract_registers [OF len]
      by (simp add: head wp_rules len qq seg_simps assert_tables asserted_get_target_def get_target_def none r)
    ultimately show thesis by (intro undefined) (simp_all only: not_wp_None)
  next
    case untargeted
    then show thesis unfolding p_def by (intro aborted [unfolded p_def] asserted_no_target [OF len d r head qq])
  next
    case unknown
    then show thesis unfolding p_def by (intro aborted [unfolded p_def] asserted_no_mac [OF len d r head qq])
  next
    case ok
    have l: "length mac = 6" by (rule macs [OF ok(3)])
    from asserted_handle_syn_reaches [OF len d r head qq ok l] show thesis
      using syn_assertions_hold [OF len l d] unfolding Let_def p_def by (blast intro: sent [unfolded p_def])
  qed
qed


section \<open>The assertions of the program\<close>

lemma leads_to_return:
  "v = XDP_PASS \<or> v = XDP_ABORTED \<and> \<not> c \<Longrightarrow>
    andThen (Some (add_leads_to assert_init c XDP_PASS)) (\<lambda>st. BPF_RETURN mem st v x) = Some (Inr (v, x))"
  by (auto simp: add_leads_to_def assert_init_def MAX_LEADS_TO_ACTION_def BPF_RETURN_def run_unrestricted_asserts_def
      not_return_at_def numeral_eq_Suc)

text \<open>
  A packet that does not reach \<open>handle_syn\<close> violates no assertion, whatever the parsers return, and
  is treated as in the release build.
\<close>

definition reaches_syn :: "crab_env \<Rightarrow> bytes \<Rightarrow> bool" where
  "reaches_syn E p =
     (let (nh_type, pos, ethh) = parse_ethhdr E p 0; (ip_type, pos, iph) = parse_iphdr E p pos;
          (r, pos, tcph) = parse_tcphdr E p pos in
      nh_type = 8 \<and> ip_type = uint IPPROTO_TCP \<and> 0 \<le> r \<and> (\<exists>f. ld8 p (tcph + 13) = Some f \<and> bit f 1 \<and> \<not> bit f 4))"

lemma other_packets_satisfy_assertions:
  assumes "\<not> reaches_syn E p"
  shows "asserted_xdp_prog E m b p = map_option Inr (xdp_prog_simple E m p)"
proof -
  note ret = leads_to_return [of XDP_PASS False "ctx_memory b p" "(p, m)"] leads_to_return [of XDP_PASS True "ctx_memory b p" "(p, m)"]
    leads_to_return [of XDP_ABORTED False "ctx_memory b p" "(p, m)"]
  have l: "add_leads_to st False v = Inr st" for st v by (simp add: add_leads_to_def)
  show ?thesis
    using assms ret [unfolded l]
    by (cases "parse_ethhdr E p 0"; cases "parse_iphdr E p (fst (snd (parse_ethhdr E p 0)))")
      (auto simp: asserted_xdp_prog_def xdp_prog_simple_def reaches_syn_def l bind_eq_None_conv split: prod.splits option.splits bind_splits)
qed

text \<open>
  Property C26. The assertions in crab_assert say exactly when a SYN is redirected, in the build with
  round-robin targets (the one with random targets, RAND, stops on every SYN: \<open>random_build_fails\<close>).
  On a TCP segment with SYN and without ACK, in a frame without VLAN tag and IP options, the verified
  build and the release build do the same, except
  that where the release build gives up (no room for the option, no target, no MAC address of the
  target), the verified build stops, because \<open>XDP_TX\<close> was expected. On the packets it sends, every
  assertion holds: the head moved by the size of the option, the end stayed, the source MAC address
  is the old destination, the length grew by the option, the option carries the old destination,
  and no header is written again after it was finished. The parsers and the kernel's move of the
  head are as documented, MAC addresses have 6 bytes, and the frame starts 16 bytes or more behind
  the start of the memory.
\<close>

theorem crab_assertions_exact:
  assumes "parsers_ok E" "adjust_head_ok (crab_adjust_head E)" "\<not> RAND E" "8 \<le> d"
    and "\<And>t mac. macs_map m t = Some mac \<Longrightarrow> length mac = 6"
    and "tcp_frame eth ip tcp rest" "bit (tcp ! 13) 1" "\<not> bit (tcp ! 13) 4"
  shows "asserted_xdp_prog E m (d + 8) (eth @ ip @ tcp @ rest) =
    (case xdp_prog_simple E m (eth @ ip @ tcp @ rest) of None \<Rightarrow> None
     | Some (v, q, m') \<Rightarrow> Some (if v = XDP_TX then Inr (v, q, m') else Inl Wrong_return))"
proof -
  let ?p = "eth @ ip @ tcp @ rest"
  have len: "length eth = 14" "length ip = 20" "length tcp = 20" using assms(6) by (auto simp: tcp_frame_def)
  obtain n pos where pr: "parse_ethhdr E ?p 0 = (8, 14, 0)" "parse_iphdr E ?p 14 = (6, 34, 14)"
      "parse_tcphdr E ?p 34 = (int n, pos, 34)"
    using assms(1,6) unfolding parsers_ok_def Let_def by blast
  have a: "asserted_xdp_prog E m (d + 8) ?p = andThen (asserted_handle_syn E m (d + 8) ?p 0 14 34 assert_init)
      (\<lambda>(action, b, p, m, st). BPF_RETURN (ctx_memory b p) st action (p, m))"
    using assms(7,8) len by (simp add: asserted_xdp_prog_def pr add_leads_to_def ld8_def nth_append)
  show ?thesis
  proof (rule asserted_syn_cases [where rest = rest, OF len assms(4,3,2,5)])
    fix q m' cs fs
    assume "asserted_handle_syn E m (d + 8) ?p 0 14 34 assert_init = Some (Inr (XDP_TX, d, q, m', asserted cs fs))"
      "handle_syn E m ?p 0 14 34 = Some (XDP_TX, q, m')" "list_all (\<lambda>(a, v). mem_read (ctx_memory d q) a (length v) = v) (cs @ fs)"
    then show ?thesis
      unfolding a xdp_prog_simple_syn [OF assms(1,6-8)] using asserted_return [of "ctx_memory d q" cs fs] by simp
  next
    assume "both_abort E m (d + 8) ?p"
    then show ?thesis
      unfolding a xdp_prog_simple_syn [OF assms(1,6-8)] by (auto simp: both_abort_def asserted_aborted [simplified])
  next
    assume "asserted_handle_syn E m (d + 8) ?p 0 14 34 assert_init = None" "handle_syn E m ?p 0 14 34 = None"
    then show ?thesis unfolding a xdp_prog_simple_syn [OF assms(1,6-8)] by simp
  qed
qed

text \<open>
  The build with random targets cannot be verified: \<open>get_target_idx_rand\<close> starts with an assertion
  that it is not traversed, and every SYN for which there is room reaches it.
\<close>

lemma random_build_fails:
  assumes "length eth = 14" "length ip = 20" "length tcp = 20" "8 \<le> d" "RAND E"
    and "crab_adjust_head E (- 8) (eth @ ip @ tcp @ rest) = Some q" "adjust_head_ok (crab_adjust_head E)"
  shows "asserted_handle_syn E m (d + 8) (eth @ ip @ tcp @ rest) 0 14 34 assert_init = Some (Inl Assert_failed)"
proof -
  obtain q1 q2 q3 q4 where "q = q1 @ q2 @ q3 @ q4 @ rest" and
      qq: "length q1 = 14" "length q2 = 20" "length q3 = 20" "length q4 = 8"
    using moved_head_split [OF assms(7,1-3,6)] .
  then show ?thesis
    unfolding eq_Some_wp asserted_handle_syn_def syn_contract_registers [OF assms(1-3)]
    using assms by (simp add: wp_rules seg_simps assert_tables asserted_get_target_def)
qed

lemma demo_syn_frame: "tcp_frame demo_syn_eth demo_syn_ip demo_syn_tcp []"
  by (simp add: tcp_frame_def demo_syn_eth_def demo_syn_ip_def demo_syn_tcp_def nth_append Let_def)

lemma demo_syn_sent:
  "\<exists>q m'. xdp_prog_simple demo_crab_env demo_crab_maps (demo_syn_eth @ demo_syn_ip @ demo_syn_tcp @ []) = Some (XDP_TX, q, m')"
proof -
  let ?p = "demo_syn_eth @ demo_syn_ip @ demo_syn_tcp @ []"
  have len: "length demo_syn_eth = 14" "length demo_syn_ip = 20" "length demo_syn_tcp = 20"
    using demo_syn_frame by (auto simp: tcp_frame_def)
  have head: "crab_adjust_head demo_crab_env (- 8) ?p = Some (replicate 8 0 @ ?p)"
    by (simp add: demo_crab_env_def)
  obtain q1 q2 q3 q4 where q: "replicate 8 0 @ ?p = q1 @ q2 @ q3 @ q4 @ []" and
      qq: "length q1 = 14" "length q2 = 20" "length q3 = 20" "length q4 = 8"
    using moved_head_split [OF demo_crab_head_ok len head] .
  have idx: "get_target_idx demo_crab_env demo_crab_maps =
      Some (1, demo_crab_maps\<lparr>cpu_rr_idx := (cpu_rr_idx demo_crab_maps)(0 \<mapsto> 5)\<rparr>)"
    by (simp add: get_target_idx_def get_target_idx_rr_def demo_crab_env_def demo_crab_maps_def)
  have "\<exists>q m'. handle_syn demo_crab_env demo_crab_maps ?p 0 14 34 = Some (XDP_TX, q, m')"
    using asserted_handle_syn_reaches [OF len _ _ head [unfolded q] qq idx, of 16 9 "replicate 6 5"]
    by (auto simp: Let_def demo_crab_env_def demo_crab_maps_def)
  then show ?thesis
    using xdp_prog_simple_syn [OF demo_crab_parsers_ok demo_syn_frame] by (simp add: demo_syn_tcp_def nth_append)
qed

theorem crab_assertions_exact_witness:
  "\<exists>q m'. asserted_xdp_prog demo_crab_env demo_crab_maps 24 (demo_syn_eth @ demo_syn_ip @ demo_syn_tcp @ []) = Some (Inr (XDP_TX, q, m'))"
proof -
  have "asserted_xdp_prog demo_crab_env demo_crab_maps (16 + 8) (demo_syn_eth @ demo_syn_ip @ demo_syn_tcp @ []) =
    (case xdp_prog_simple demo_crab_env demo_crab_maps (demo_syn_eth @ demo_syn_ip @ demo_syn_tcp @ []) of None \<Rightarrow> None
     | Some (v, q, m') \<Rightarrow> Some (if v = XDP_TX then Inr (v, q, m') else Inl Wrong_return))"
    by (rule crab_assertions_exact [OF demo_crab_parsers_ok demo_crab_head_ok _ _ _ demo_syn_frame])
      (simp_all add: demo_crab_env_def demo_crab_maps_def demo_syn_tcp_def nth_append split: if_splits)
  then show ?thesis using demo_syn_sent by auto
qed

end
