(* ===== verification/Csum_Bench.thy ===== *)
theory Csum_Bench
  imports Csum Net_Headers
begin

text \<open>
  The checksum benchmark of src/examples/fw/xdp_csum_kern.c: it sums the IP header of every IPv4
  packet 32 times, stores each sum, counts the packet and drops it. The field of the checksum is
  not cleared and the sum is carried from one round to the next, so the field is not a checksum
  in the end. \<open>bpf_csum_diff\<close> is a parameter; the counters are an array, of which the program uses
  entry 23.
\<close>

definition LOOP_LEN :: nat where "LOOP_LEN = 32"

text \<open>Exchanges the MAC addresses in 16-bit words; its call is commented out in the source.\<close>

definition swap_src_dst_mac :: "bytes \<Rightarrow> bytes option" where
  "swap_src_dst_mac p =
     do { dst0 \<leftarrow> ld16 p 0; dst1 \<leftarrow> ld16 p 2; dst2 \<leftarrow> ld16 p 4;
          w \<leftarrow> ld16 p 6; p \<leftarrow> st16 p 0 w;
          w \<leftarrow> ld16 p 8; p \<leftarrow> st16 p 2 w;
          w \<leftarrow> ld16 p 10; p \<leftarrow> st16 p 4 w;
          p \<leftarrow> st16 p 6 dst0; p \<leftarrow> st16 p 8 dst1; st16 p 10 dst2 }"

definition bench_csum_fold :: "u32 \<Rightarrow> u16" where
  "bench_csum_fold csum = ucast (NOT ((csum AND 0xFFFF) + drop_bit 16 csum))"

definition bench_ipv4_csum :: "csum_diff_fn \<Rightarrow> bytes \<Rightarrow> nat \<Rightarrow> nat \<Rightarrow> u32 \<Rightarrow> u32 option" where
  "bench_ipv4_csum csum_diff p data_start data_size csum =
     do { bs \<leftarrow> ldn p data_start data_size;
          let csum = (ucast (csum_diff [] bs (ucast csum)) :: u32);
          Some (ucast (bench_csum_fold csum)) }"

fun csum_bench_loop :: "csum_diff_fn \<Rightarrow> nat \<Rightarrow> bytes \<Rightarrow> nat \<Rightarrow> u32 \<Rightarrow> bytes option" where
  "csum_bench_loop csum_diff 0 p iph csum = Some p"
| "csum_bench_loop csum_diff (Suc n) p iph csum =
     do { csum \<leftarrow> bench_ipv4_csum csum_diff p iph sizeof_iphdr csum;
          p \<leftarrow> st16 p (iph + 10) (ucast csum);
          csum_bench_loop csum_diff n p iph csum }"

definition csum_bench :: "csum_diff_fn \<Rightarrow> (u32 \<rightharpoonup> u64) \<Rightarrow> bytes \<Rightarrow> (int \<times> bytes \<times> (u32 \<rightharpoonup> u64)) option" where
  "csum_bench csum_diff rxcnt p =
     (if length p < sizeof_eth then Some (XDP_DROP, p, rxcnt)
      else do {
        h_proto \<leftarrow> ld16 p 12;
        if h_proto \<noteq> bswap16 0x0800 then Some (XDP_DROP, p, rxcnt)
        else let iph = sizeof_eth in
          if length p < iph + sizeof_iphdr then Some (XDP_DROP, p, rxcnt)
          else do {
            p \<leftarrow> csum_bench_loop csum_diff LOOP_LEN p iph 0;
            case rxcnt 23 of None \<Rightarrow> Some (XDP_DROP, p, rxcnt)
            | Some value \<Rightarrow> Some (XDP_DROP, p, rxcnt(23 \<mapsto> value + 1)) } })"

lemma swap_src_dst_mac_swaps:
  assumes "length dst = 6" "length src = 6"
  shows "swap_src_dst_mac (dst @ src @ rest) = Some (src @ dst @ rest)"
proof -
  have w: "\<exists>a b c. bs = a @ b @ c \<and> length a = 2 \<and> length b = 2 \<and> length c = 2" if "length bs = 6" for bs :: bytes
  proof -
    have eq: "bs = take 2 bs @ take 2 (drop 2 bs) @ drop 4 bs" using append_take_drop_id [of 2 "drop 2 bs"] by simp
    show ?thesis
      by (rule exI [of _ "take 2 bs"], rule exI [of _ "take 2 (drop 2 bs)"], rule exI [of _ "drop 4 bs"], rule conjI [OF eq])
        (use that in simp)
  qed
  obtain a b c where d: "dst = a @ b @ c" "length a = 2" "length b = 2" "length c = 2" using w [OF assms(1)] by blast
  obtain a' b' c' where s: "src = a' @ b' @ c'" "length a' = 2" "length b' = 2" "length c' = 2" using w [OF assms(2)] by blast
  have "wp (swap_src_dst_mac (dst @ src @ rest)) (\<lambda>q. q = src @ dst @ rest)"
    by (simp add: swap_src_dst_mac_def wp_rules seg_simps d s le_bytes_ld16 put_whole)
  then show ?thesis by (auto simp: wp_iff)
qed

text \<open>The last round overwrites what the rounds before it stored.\<close>

lemma csum_bench_loop_result:
  "iph + 20 \<le> length p \<Longrightarrow>
    \<exists>c :: u16. csum_bench_loop f (Suc n) p iph s = Some (put p (iph + 10) (le_bytes 2 (unat c)))"
proof (induction n arbitrary: p s)
  case 0
  then show ?case
    by (simp add: bench_ipv4_csum_def ldn_def st16_def stn_put) blast
next
  case (Suc n)
  let ?c = "ucast (bench_csum_fold (ucast (f [] (take 20 (drop iph p)) (ucast s)))) :: u32"
  let ?p = "put p (iph + 10) (le_bytes 2 (unat (ucast ?c :: u16)))"
  obtain c :: u16 where "csum_bench_loop f (Suc n) ?p iph ?c = Some (put ?p (iph + 10) (le_bytes 2 (unat c)))"
    using Suc.IH [of ?p ?c] Suc.prems by auto
  then show ?case
    using Suc.prems by (auto simp: bench_ipv4_csum_def ldn_def st16_def stn_put put_put_same simp del: csum_bench_loop.simps
        simp: csum_bench_loop.simps(2) [of f "Suc n"])
qed

text \<open>
  The benchmark never lets a packet through: whatever the helper returns, a packet is dropped, an
  IPv4 packet with a complete header is counted, and only its checksum field is written.
\<close>

lemma csum_bench_drops:
  "wp (csum_bench f rxcnt p) (\<lambda>(v, q, cnt). v = XDP_DROP \<and>
    (if 34 \<le> length p \<and> take 2 (drop 12 p) = [8, 0]
     then cnt = (case rxcnt 23 of None \<Rightarrow> rxcnt | Some n \<Rightarrow> rxcnt(23 \<mapsto> n + 1)) \<and> (\<exists>c :: u16. q = put p 24 (le_bytes 2 (unat c)))
     else q = p \<and> cnt = rxcnt))"
proof -
  have eq: "(of_nat (le_val bs) = (8 :: u16)) = (bs = [8, 0])" if "length bs = 2" for bs
  proof -
    have "le_bytes 2 8 = [8, 0]" "unat (8 :: u16) = 8" by (simp add: numeral_2_eq_2, simp)
    then have "le_bytes 2 (unat (8 :: u16)) = [8, 0]" by (simp only:)
    then show ?thesis using le_bytes_ld16 [OF that] that by (metis le_val_word16)
  qed
  have b: "bswap16 0x0800 = 8" by (simp add: bswap16_def)
  have loop: "\<exists>c :: u16. csum_bench_loop f LOOP_LEN p 14 0 = Some (put p 24 (le_bytes 2 (unat c)))" if "34 \<le> length p"
  proof -
    have "LOOP_LEN = Suc 31" by (simp add: LOOP_LEN_def)
    then show ?thesis using csum_bench_loop_result [of 14 p f 31 0] that by (simp del: csum_bench_loop.simps)
  qed
  show ?thesis
    using loop by (auto simp: csum_bench_def wp_rules b eq Let_def split: option.splits) blast+
qed

end
