(* ===== verification/Router.thy ===== *)
theory Router
  imports Net_Headers Packet_Program
begin

text \<open>
  The IPv4 router of src/examples/linux-sample-ipv4-router/xdp_router_ipv4.c: an exact-match table,
  a longest-prefix-match table with an ARP table behind it, and per-verdict counters.

  The lookup in the trie and \<open>bpf_redirect_map\<close> are parameters.
\<close>

section \<open>Data\<close>

definition ETH_P_8021Q :: u16 where "ETH_P_8021Q = 0x8100"
definition ETH_P_8021AD :: u16 where "ETH_P_8021AD = 0x88A8"
definition ETH_P_IP_router :: u16 where "ETH_P_IP_router = 0x0800"
definition ETH_P_ARP :: u16 where "ETH_P_ARP = 0x0806"

record trie_value =
  prefix :: bytes
  src_value :: u64
  trie_ifindex :: u32
  metric :: u32
  gw :: u32

record arp_entry =
  arp_mac :: u64
  arp_dst :: u32

record direct_map =
  arp :: arp_entry
  direct_ifindex :: u32
  direct_mac :: u64

record datarec =
  processed :: u64
  dropped :: u64
  issue :: u64
  xdp_pass :: u64
  xdp_drop :: u64
  xdp_redirect :: u64

text \<open>The key of the trie: the prefix length and the four bytes of the address.\<close>

type_synonym key_4 = "u32 \<times> bytes"

record router_maps =
  lpm_map :: "key_4 \<rightharpoonup> trie_value"
  arp_table :: "u32 \<rightharpoonup> u64"
  exact_match :: "u32 \<rightharpoonup> direct_map"
  rx_cnt :: "u32 \<rightharpoonup> datarec"

record router_env =
  redirect_map :: "u32 \<Rightarrow> int"

definition count_rec :: "(datarec \<Rightarrow> datarec) \<Rightarrow> router_maps \<Rightarrow> router_maps" where
  "count_rec f m = m\<lparr>rx_cnt := (rx_cnt m)(0 := map_option f (rx_cnt m 0))\<rparr>"

section \<open>Routing\<close>

datatype route = Forward u64 u64 u32 | Punt | No_route

definition addr_key :: "u32 \<Rightarrow> key_4" where
  "addr_key daddr = (32, [ucast (daddr AND 0xFF), ucast (drop_bit 8 daddr AND 0xFF),
     ucast (drop_bit 16 daddr AND 0xFF), ucast (drop_bit 24 daddr AND 0xFF)])"

definition trie_route :: "router_maps \<Rightarrow> u32 \<Rightarrow> route" where
  "trie_route m daddr =
     (case lpm_map m (addr_key daddr) of None \<Rightarrow> No_route
      | Some prefix_value \<Rightarrow>
        (case arp_table m daddr of
           Some dest_mac \<Rightarrow> Forward (src_value prefix_value) dest_mac (trie_ifindex prefix_value)
         | None \<Rightarrow>
           if gw prefix_value = 0 then No_route
           else (case arp_table m (gw prefix_value) of None \<Rightarrow> Punt
                 | Some dest_mac \<Rightarrow> Forward (src_value prefix_value) dest_mac (trie_ifindex prefix_value))))"

definition find_route :: "router_maps \<Rightarrow> u32 \<Rightarrow> route" where
  "find_route m daddr =
     (case exact_match m daddr of
        Some direct_entry \<Rightarrow>
          if direct_mac direct_entry \<noteq> 0 \<and> arp_mac (arp direct_entry) \<noteq> 0
          then Forward (direct_mac direct_entry) (arp_mac (arp direct_entry)) (direct_ifindex direct_entry)
          else trie_route m daddr
      | None \<Rightarrow> trie_route m daddr)"

section \<open>The program\<close>

definition router_drop :: "bytes \<Rightarrow> router_maps \<Rightarrow> (int \<times> bytes \<times> router_maps) option" where
  "router_drop p m = Some (XDP_DROP, p, count_rec (\<lambda>r. r\<lparr>xdp_drop := xdp_drop r + 1\<rparr>) m)"

definition router_pass :: "bytes \<Rightarrow> router_maps \<Rightarrow> (int \<times> bytes \<times> router_maps) option" where
  "router_pass p m = Some (XDP_PASS, p, count_rec (\<lambda>r. r\<lparr>xdp_pass := xdp_pass r + 1\<rparr>) m)"

definition route_ip :: "router_env \<Rightarrow> bytes \<Rightarrow> nat \<Rightarrow> router_maps \<Rightarrow> (int \<times> bytes \<times> router_maps) option" where
  "route_ip E p iph m =
     (if iph + sizeof_iphdr > length p then router_drop p m
      else do {
        daddr \<leftarrow> ld32 p (iph + 16);
        case find_route m daddr of
          No_route \<Rightarrow> router_drop p m
        | Punt \<Rightarrow> router_pass p m
        | Forward src_mac dest_mac forward_to \<Rightarrow>
            do { p \<leftarrow> stn p 0 (take 6 (le_bytes 8 (unat dest_mac)));
                 p \<leftarrow> stn p 6 (take 6 (le_bytes 8 (unat src_mac)));
                 if redirect_map E forward_to = XDP_REDIRECT
                 then Some (XDP_REDIRECT, p, count_rec (\<lambda>r. r\<lparr>xdp_redirect := xdp_redirect r + 1\<rparr>) m)
                 else router_drop p m } })"

definition xdp_router_ipv4_prog :: "router_env \<Rightarrow> bytes \<Rightarrow> router_maps \<Rightarrow> (int \<times> bytes \<times> router_maps) option" where
  "xdp_router_ipv4_prog E p m =
     (let m = count_rec (\<lambda>r. r\<lparr>processed := processed r + 1\<rparr>) m; nh_off = sizeof_eth in
      if nh_off > length p then router_drop p m
      else do {
        h_proto \<leftarrow> ld16 p 12;
        let vlan = (h_proto = bswap16 ETH_P_8021Q \<or> h_proto = bswap16 ETH_P_8021AD);
        if vlan \<and> nh_off + 4 > length p then router_drop p m
        else do {
          h_proto \<leftarrow> if vlan then ld16 p (nh_off + 2) else Some h_proto;
          let nh_off = (if vlan then nh_off + 4 else nh_off);
          if bswap16 h_proto = ETH_P_ARP then router_pass p m
          else if bswap16 h_proto = ETH_P_IP_router then route_ip E p nh_off m
          else router_drop p m } })"

section \<open>Every packet is routed and counted\<close>

text \<open>The counters balance when the packets processed are those passed, dropped and redirected.\<close>

definition balanced :: "datarec \<Rightarrow> bool" where
  "balanced r \<longleftrightarrow> processed r = xdp_pass r + xdp_drop r + xdp_redirect r"

text \<open>
  The IPv4 destination of a frame, with or without one VLAN tag, when it is an IPv4 frame with a
  complete header.
\<close>

definition etype_at :: "bytes \<Rightarrow> nat \<Rightarrow> u16" where
  "etype_at p off = bswap16 (of_nat (le_val (take 2 (drop off p))))"

definition ip_offset :: "bytes \<Rightarrow> nat" where
  "ip_offset p = (if etype_at p 12 \<in> {0x8100, 0x88A8} then 18 else 14)"

definition ip_dst :: "bytes \<Rightarrow> u32 option" where
  "ip_dst p = (if ip_offset p + 20 \<le> length p \<and> etype_at p (ip_offset p - 2) = 0x0800
     then Some (of_nat (le_val (take 4 (drop (ip_offset p + 16) p)))) else None)"

definition mac_bytes :: "u64 \<Rightarrow> bytes" where
  "mac_bytes v = take 6 (le_bytes 8 (unat v))"

text \<open>
  What the tables say of a destination, stated on the tables alone. An entry of the exact table
  counts if it has both MAC addresses. Otherwise the best match in the trie gives the port and
  the source MAC address, and the ARP table the destination MAC address: of the destination
  itself or, if it is not there, of the gateway.
\<close>

definition exact_entry :: "router_maps \<Rightarrow> u32 \<Rightarrow> direct_map \<Rightarrow> bool" where
  "exact_entry m d x \<longleftrightarrow> exact_match m d = Some x \<and> direct_mac x \<noteq> 0 \<and> arp_mac (arp x) \<noteq> 0"

definition trie_entry :: "router_maps \<Rightarrow> u32 \<Rightarrow> trie_value \<Rightarrow> bool" where
  "trie_entry m d t \<longleftrightarrow> (\<forall>x. \<not> exact_entry m d x) \<and> lpm_map m (32, le_bytes 4 (unat d)) = Some t"

inductive forwards :: "router_maps \<Rightarrow> u32 \<Rightarrow> u64 \<Rightarrow> u64 \<Rightarrow> u32 \<Rightarrow> bool" for m d where
  fwd_exact: "exact_entry m d x \<Longrightarrow> forwards m d (direct_mac x) (arp_mac (arp x)) (direct_ifindex x)"
| fwd_neighbour: "trie_entry m d t \<Longrightarrow> arp_table m d = Some mac \<Longrightarrow> forwards m d (src_value t) mac (trie_ifindex t)"
| fwd_gateway: "trie_entry m d t \<Longrightarrow> arp_table m d = None \<Longrightarrow> gw t \<noteq> 0 \<Longrightarrow> arp_table m (gw t) = Some mac \<Longrightarrow>
    forwards m d (src_value t) mac (trie_ifindex t)"

text \<open>A route through a gateway whose MAC address is not known: the kernel has to resolve it.\<close>

definition unresolved :: "router_maps \<Rightarrow> u32 \<Rightarrow> bool" where
  "unresolved m d \<longleftrightarrow> arp_table m d = None \<and> (\<exists>t. trie_entry m d t \<and> gw t \<noteq> 0 \<and> arp_table m (gw t) = None)"

definition is_arp :: "bytes \<Rightarrow> bool" where
  "is_arp p \<longleftrightarrow> ip_offset p \<le> length p \<and> etype_at p (ip_offset p - 2) = 0x0806"

definition kernel_resolves :: "router_maps \<Rightarrow> bytes \<Rightarrow> bool" where
  "kernel_resolves m p \<longleftrightarrow> is_arp p \<or> (\<exists>d. ip_dst p = Some d \<and> unresolved m d)"

definition sent_to :: "router_env \<Rightarrow> router_maps \<Rightarrow> bytes \<Rightarrow> bytes \<Rightarrow> bool" where
  "sent_to E m p q \<longleftrightarrow> (\<exists>d smac dmac i. ip_dst p = Some d \<and> forwards m d smac dmac i \<and>
     redirect_map E i = XDP_REDIRECT \<and> q = mac_bytes dmac @ mac_bytes smac @ drop 12 p)"

definition routed :: "router_env \<Rightarrow> router_maps \<Rightarrow> bytes \<Rightarrow> int \<times> bytes \<Rightarrow> bool" where
  "routed E m p x = (case x of (v, q) \<Rightarrow> length q = length p \<and> drop 12 q = drop 12 p \<and>
     (if kernel_resolves m p then v = XDP_PASS \<and> q = p
      else if \<exists>q. sent_to E m p q then v = XDP_REDIRECT \<and> sent_to E m p q
      else v = XDP_DROP))"

lemma low_byte: "ucast (w AND 0xFF :: u32) = (of_nat (unat w mod 256) :: u8)"
proof -
  have "w AND 0xFF = take_bit 8 w" by (simp add: take_bit_eq_mask mask_eq_exp_minus_1)
  then have t: "unat (w AND 0xFF) = unat w mod 256"
    by (simp only: unsigned_take_bit_eq) (simp add: take_bit_eq_mod)
  have "(of_nat (unat (w AND 0xFF)) :: u8) = ucast (w AND 0xFF)" by (rule of_nat_unat)
  then show ?thesis unfolding t by simp
qed

lemma le_bytes_4: "le_bytes 4 n = [of_nat (n mod 256), of_nat (n div 256 mod 256), of_nat (n div 65536 mod 256),
    of_nat (n div 16777216 mod 256)]"
proof -
  have "(4 :: nat) = Suc (Suc (Suc (Suc 0)))" by simp
  then show ?thesis by (simp only: le_bytes.simps div_mult2_eq [symmetric]) simp
qed

lemma addr_key_eq: "addr_key d = (32, le_bytes 4 (unat d))"
proof -
  have u: "unat (drop_bit k d) = unat d div 2 ^ k" for k
    using unat_lt_u32 [of d] by (simp only: unsigned_drop_bit_eq) (simp add: drop_bit_eq_div take_bit_nat_eq_self)
  show ?thesis
    by (simp only: addr_key_def low_byte le_bytes_4 u) simp
qed
lemma trie_route_iff:
  assumes "\<And>x. \<not> exact_entry m d x"
  shows "trie_route m d = Forward smac dmac i \<longleftrightarrow> forwards m d smac dmac i"
    and "trie_route m d = Punt \<longleftrightarrow> unresolved m d"
  using assms by (auto simp: trie_route_def addr_key_eq trie_entry_def forwards.simps unresolved_def split: option.split)

lemma find_route_trie: "(\<And>x. \<not> exact_entry m d x) \<Longrightarrow> find_route m d = trie_route m d"
  by (auto simp: find_route_def exact_entry_def split: option.split)

lemma find_route_iff:
  "find_route m d = Forward smac dmac i \<longleftrightarrow> forwards m d smac dmac i"
  "find_route m d = Punt \<longleftrightarrow> unresolved m d"
proof -
  have "(find_route m d = Forward smac dmac i \<longleftrightarrow> forwards m d smac dmac i) \<and> (find_route m d = Punt \<longleftrightarrow> unresolved m d)"
  proof (cases "\<exists>x. exact_entry m d x")
    case True
    then obtain x where x: "exact_entry m d x" by blast
    then have "find_route m d = Forward (direct_mac x) (arp_mac (arp x)) (direct_ifindex x)"
      by (simp add: find_route_def exact_entry_def)
    moreover have "exact_entry m d y \<longleftrightarrow> y = x" for y using x by (auto simp: exact_entry_def)
    ultimately show ?thesis using x by (auto simp: forwards.simps unresolved_def trie_entry_def)
  next
    case False
    then show ?thesis using trie_route_iff [of m d] find_route_trie [of m d] by simp
  qed
  then show "find_route m d = Forward smac dmac i \<longleftrightarrow> forwards m d smac dmac i"
    "find_route m d = Punt \<longleftrightarrow> unresolved m d" by blast+
qed

lemma forwards_rx_cnt [simp]:
  "forwards (m\<lparr>rx_cnt := c\<rparr>) = forwards m" "unresolved (m\<lparr>rx_cnt := c\<rparr>) = unresolved m"
  by (intro ext; simp add: forwards.simps unresolved_def exact_entry_def trie_entry_def)+

definition counted :: "datarec \<Rightarrow> int \<Rightarrow> datarec" where
  "counted r v = (let r = r\<lparr>processed := processed r + 1\<rparr> in
     if v = XDP_PASS then r\<lparr>xdp_pass := xdp_pass r + 1\<rparr>
     else if v = XDP_DROP then r\<lparr>xdp_drop := xdp_drop r + 1\<rparr>
     else r\<lparr>xdp_redirect := xdp_redirect r + 1\<rparr>)"

lemma balanced_counted: "balanced r \<Longrightarrow> balanced (counted r v)"
  by (simp add: balanced_def counted_def Let_def)

lemma count_rec_Some: "rx_cnt m 0 = Some r \<Longrightarrow> count_rec f m = m\<lparr>rx_cnt := (rx_cnt m)(0 \<mapsto> f r)\<rparr>"
  by (simp add: count_rec_def)

lemma trie_route_rx_cnt [simp]: "trie_route (m\<lparr>rx_cnt := c\<rparr>) d = trie_route m d"
  by (simp add: trie_route_def split: option.split)

lemma find_route_rx_cnt [simp]: "find_route (m\<lparr>rx_cnt := c\<rparr>) d = find_route m d"
  by (simp add: find_route_def split: option.split)

definition router_ok :: "router_env \<Rightarrow> router_maps \<Rightarrow> datarec \<Rightarrow> bytes \<Rightarrow> int \<times> bytes \<times> router_maps \<Rightarrow> bool" where
  "router_ok E m r p x = (case x of (v, q, m') \<Rightarrow>
     routed E m p (v, q) \<and> m' = m\<lparr>rx_cnt := (rx_cnt m)(0 \<mapsto> counted r v)\<rparr>)"

definition seen :: "datarec \<Rightarrow> router_maps \<Rightarrow> router_maps" where
  "seen r m = m\<lparr>rx_cnt := (rx_cnt m)(0 \<mapsto> r\<lparr>processed := processed r + 1\<rparr>)\<rparr>"

lemma rx_cnt_seen: "rx_cnt (seen r m) 0 = Some (r\<lparr>processed := processed r + 1\<rparr>)"
  by (simp add: seen_def)

lemma router_drop_ok:
  assumes "length q = length p" "drop 12 q = drop 12 p" "\<not> kernel_resolves m p" "\<And>q. \<not> sent_to E m p q"
  shows "wp (router_drop q (seen r m)) (router_ok E m r p)"
  using assms by (simp add: router_drop_def router_ok_def routed_def counted_def Let_def count_rec_Some [OF rx_cnt_seen])
    (simp add: seen_def)

lemma router_pass_ok: "kernel_resolves m p \<Longrightarrow> wp (router_pass p (seen r m)) (router_ok E m r p)"
  by (simp add: router_pass_def router_ok_def routed_def counted_def Let_def count_rec_Some [OF rx_cnt_seen])
    (simp add: seen_def)

lemma no_ip_drop_ok:
  "\<not> is_arp p \<Longrightarrow> ip_dst p = None \<Longrightarrow> wp (router_drop p (seen r m)) (router_ok E m r p)"
  by (rule router_drop_ok) (auto simp: kernel_resolves_def sent_to_def)

lemma put_macs:
  assumes "14 \<le> length p"
  shows "put (put p 0 (mac_bytes dmac)) 6 (mac_bytes smac) = mac_bytes dmac @ mac_bytes smac @ drop 12 p"
  using assms by (simp add: mac_bytes_def put_def)

lemma length_mac_bytes [simp]: "length (mac_bytes v) = 6"
  by (simp add: mac_bytes_def)

lemma redirect_ok:
  assumes "sent_to E m p q" "\<not> kernel_resolves m p" "12 \<le> length p"
  shows "router_ok E m r p (4, q, count_rec (\<lambda>r. r\<lparr>xdp_redirect := xdp_redirect r + 1\<rparr>) (seen r m))"
proof -
  have "length q = length p" "drop 12 q = drop 12 p" using assms(1,3) by (auto simp: sent_to_def)
  then show ?thesis
    using assms by (simp add: router_ok_def routed_def counted_def Let_def count_rec_Some [OF rx_cnt_seen])
      (auto simp: seen_def)
qed

text \<open>The destination decides: no two rules of \<open>forwards\<close> apply to it, and none if it is unresolved.\<close>

lemma forwards_unique:
  "forwards m d smac dmac i \<Longrightarrow> forwards m d smac' dmac' i' \<Longrightarrow> smac' = smac \<and> dmac' = dmac \<and> i' = i"
  "forwards m d smac dmac i \<Longrightarrow> \<not> unresolved m d"
  by (simp_all flip: find_route_iff)

lemma route_ip_ok:
  assumes "14 \<le> iph" "iph + 20 \<le> length p \<Longrightarrow> ip_dst p = Some (of_nat (le_val (take 4 (drop (iph + 16) p))))"
    and "\<not> iph + 20 \<le> length p \<Longrightarrow> ip_dst p = None" and arp: "\<not> is_arp p"
  shows "wp (route_ip E p iph (seen r m)) (router_ok E m r p)"
proof (cases "iph + 20 \<le> length p")
  case False
  then show ?thesis using assms(3) arp by (simp add: route_ip_def no_ip_drop_ok)
next
  case True
  let ?d = "of_nat (le_val (take 4 (drop (iph + 16) p))) :: u32"
  have d: "ip_dst p = Some ?d" by (rule assms(2) [OF True])
  have f: "find_route (seen r m) d = find_route m d" for d by (simp add: seen_def)
  have len: "14 \<le> length p" using True assms(1) by simp
  let ?q = "\<lambda>smac dmac. mac_bytes dmac @ mac_bytes smac @ drop 12 p"
  have q: "length (?q smac dmac) = length p" "drop 12 (?q smac dmac) = drop 12 p" for smac dmac
    using len by simp_all
  show ?thesis
  proof (cases "find_route m ?d")
    case (Forward smac dmac i)
    then have fw: "forwards m ?d smac dmac i" by (simp add: find_route_iff)
    have k: "\<not> kernel_resolves m p" using arp d forwards_unique(2) [OF fw] by (simp add: kernel_resolves_def)
    have to: "redirect_map E i = 4 \<Longrightarrow> sent_to E m p (?q smac dmac)"
      using d fw unfolding sent_to_def by (intro exI [of _ ?d] exI [of _ smac] exI [of _ dmac] exI [of _ i]) simp
    have no: "redirect_map E i \<noteq> 4 \<Longrightarrow> \<not> sent_to E m p q'" for q'
      using d forwards_unique(1) [OF fw] by (auto simp: sent_to_def)
    show ?thesis
      using True len Forward redirect_ok [OF to k] router_drop_ok [OF q k no]
      by (auto simp: route_ip_def wp_rules f mac_bytes_def [symmetric] put_macs)
  next
    case Punt
    then have "kernel_resolves m p" using d by (simp add: kernel_resolves_def find_route_iff)
    then show ?thesis using True Punt by (simp add: route_ip_def wp_rules f router_pass_ok)
  next
    case No_route
    then have "\<not> unresolved m ?d" "\<not> forwards m ?d smac dmac i" for smac dmac i by (simp_all flip: find_route_iff)
    then have "\<not> kernel_resolves m p" "\<not> sent_to E m p q'" for q' using arp d by (auto simp: kernel_resolves_def sent_to_def)
    then show ?thesis using True No_route router_drop_ok [of p p m E] by (simp add: route_ip_def wp_rules f)
  qed
qed

lemma vlan_types: "(w = bswap16 ETH_P_8021Q \<or> w = bswap16 ETH_P_8021AD) = (bswap16 w \<in> {0x8100, 0x88A8})"
proof -
  have "w = bswap16 x \<longleftrightarrow> bswap16 w = x" for x by auto
  then show ?thesis by (simp add: ETH_P_8021Q_def ETH_P_8021AD_def)
qed

lemma xdp_router_ipv4_prog_ok:
  assumes "rx_cnt m 0 = Some r"
  shows "wp (xdp_router_ipv4_prog E p m) (router_ok E m r p)"
proof -
  have m: "count_rec (\<lambda>r. r\<lparr>processed := processed r + 1\<rparr>) m = seen r m"
    using assms by (simp add: count_rec_Some seen_def)
  have et: "bswap16 (of_nat (le_val (take 2 (drop off p)))) = etype_at p off" for off
    by (simp add: etype_at_def)
  let ?off = "ip_offset p" and ?t = "etype_at p (ip_offset p - 2)"
  have types: "(ETH_P_IP_router :: u16) = 0x0800" "ETH_P_ARP = 0x0806"
    by (simp_all add: ETH_P_IP_router_def ETH_P_ARP_def)
  have off: "14 \<le> ?off" by (simp add: ip_offset_def)
  have short: "\<not> ?off \<le> length p \<Longrightarrow> wp (router_drop p (seen r m)) (router_ok E m r p)"
    by (rule no_ip_drop_ok) (simp_all add: is_arp_def ip_dst_def)
  have arp: "?off \<le> length p \<Longrightarrow> ?t = 0x0806 \<Longrightarrow> wp (router_pass p (seen r m)) (router_ok E m r p)"
    by (rule router_pass_ok) (simp add: kernel_resolves_def is_arp_def)
  have ip: "?t = 0x0800 \<Longrightarrow> wp (route_ip E p ?off (seen r m)) (router_ok E m r p)"
    by (rule route_ip_ok [OF off]) (simp_all add: ip_dst_def is_arp_def)
  have other: "?t \<noteq> 0x0806 \<Longrightarrow> ?t \<noteq> 0x0800 \<Longrightarrow> wp (router_drop p (seen r m)) (router_ok E m r p)"
    by (rule no_ip_drop_ok) (simp_all add: is_arp_def ip_dst_def)
  show ?thesis
  proof (cases "etype_at p 12 \<in> {0x8100, 0x88A8}")
    case True
    then have "?off = 18" by (simp add: ip_offset_def)
    then show ?thesis
      unfolding xdp_router_ipv4_prog_def m vlan_types using True short arp ip other
      by (auto simp: wp_rules et Let_def types not_le)
  next
    case False
    then have "?off = 14" by (simp add: ip_offset_def)
    then show ?thesis
      unfolding xdp_router_ipv4_prog_def m vlan_types using False short arp ip other
      by (auto simp: wp_rules et Let_def types not_le)
  qed
qed

section \<open>A sequence of packets\<close>

definition router :: "router_env \<Rightarrow> router_maps \<Rightarrow> bytes \<Rightarrow> (int \<times> bytes \<times> router_maps) option" where
  "router E m p = xdp_router_ipv4_prog E p m"

lemma routed_rx_cnt [simp]: "routed E (m\<lparr>rx_cnt := c\<rparr>) = routed E m"
  by (intro ext) (simp add: routed_def kernel_resolves_def sent_to_def)

lemma rx_cnt_twice:
  "m\<lparr>rx_cnt := c, rx_cnt := (rx_cnt (m\<lparr>rx_cnt := c\<rparr>))(0 \<mapsto> r)\<rparr> = m\<lparr>rx_cnt := c(0 \<mapsto> r)\<rparr>"
  by simp

lemma counted_counts:
  "processed (counted r v) = processed r + 1"
  "xdp_redirect (counted r 4) = xdp_redirect r + 1"
  "v = 2 \<or> v = 1 \<Longrightarrow> xdp_redirect (counted r v) = xdp_redirect r"
  by (auto simp: counted_def Let_def)

text \<open>
  Property C29. The router gives every packet of a sequence the verdict its tables call for, and
  its counters balance: the packets processed are those passed, dropped and redirected. ARP
  frames, and IPv4 packets (with or without one VLAN tag) routed through a gateway that the ARP
  table does not have, are passed to the kernel unchanged. An IPv4 packet for which the tables
  have a route whose redirect succeeds is redirected through the port of that route and differs
  in the MAC addresses only: the route is the exact entry with both MAC addresses set, or else the
  entry the trie returns for the 32-bit key of the destination, with the MAC address the ARP table has for the
  destination or, failing that, for the gateway. Every other packet is dropped. No table changes.
\<close>

theorem router_routes_and_counts:
  assumes "rx_cnt m 0 = Some r" and "balanced r"
  shows "\<exists>outs r'. run_all (router E) ps m = Some (outs, m\<lparr>rx_cnt := (rx_cnt m)(0 \<mapsto> r')\<rparr>) \<and> balanced r' \<and>
    processed r' = processed r + of_nat (length ps) \<and>
    xdp_redirect r' = xdp_redirect r + of_nat (length (filter (\<lambda>x. fst x = XDP_REDIRECT) outs)) \<and>
    list_all2 (routed E m) ps outs"
  using assms
proof (induction ps arbitrary: m r)
  case Nil
  have "(rx_cnt m)(0 \<mapsto> r) = rx_cnt m" using Nil(1) by (rule fun_upd_idem)
  then show ?case using Nil by (intro exI [of _ "[]"] exI [of _ r]) simp
next
  case (Cons p ps)
  obtain v q where step: "router E m p = Some (v, q, m\<lparr>rx_cnt := (rx_cnt m)(0 \<mapsto> counted r v)\<rparr>)"
      "routed E m p (v, q)"
    using xdp_router_ipv4_prog_ok [OF Cons.prems(1), of E p] by (auto simp: wp_iff router_ok_def router_def)
  have v: "v = 4 \<or> (v = 2 \<or> v = 1)" using step(2) by (auto simp: routed_def split: if_splits)
  have "rx_cnt (m\<lparr>rx_cnt := (rx_cnt m)(0 \<mapsto> counted r v)\<rparr>) 0 = Some (counted r v)" by simp
  from Cons.IH [OF this balanced_counted [OF Cons.prems(2)]]
  obtain outs r' where ih: "run_all (router E) ps (m\<lparr>rx_cnt := (rx_cnt m)(0 \<mapsto> counted r v)\<rparr>) = Some (outs, m\<lparr>rx_cnt := (rx_cnt m)(0 \<mapsto> r')\<rparr>)"
      "balanced r'" "processed r' = processed (counted r v) + of_nat (length ps)"
      "xdp_redirect r' = xdp_redirect (counted r v) + of_nat (length (filter (\<lambda>x. fst x = XDP_REDIRECT) outs))"
      "list_all2 (routed E m) ps outs"
    unfolding routed_rx_cnt rx_cnt_twice fun_upd_upd by blast
  then show ?case
    using step v by (intro exI [of _ "(v, q) # outs"] exI [of _ r']) (auto simp: counted_counts algebra_simps simp del: fun_upd_apply)
qed

definition demo_router_maps :: router_maps where
  "demo_router_maps = \<lparr>lpm_map = (\<lambda>_. Some \<lparr>prefix = [], src_value = 5, trie_ifindex = 2, metric = 0, gw = 0\<rparr>),
     arp_table = [3 \<mapsto> 9], exact_match = Map.empty,
     rx_cnt = [0 \<mapsto> \<lparr>processed = 0, dropped = 0, issue = 0, xdp_pass = 0, xdp_drop = 0, xdp_redirect = 0\<rparr>]\<rparr>"

definition demo_router_frame :: bytes where
  "demo_router_frame = replicate 12 1 @ [8, 0] @ replicate 16 0 @ [3, 0, 0, 0]"

text \<open>
  The witness: a packet for a neighbour is redirected with both MAC addresses, an empty one is
  dropped, and both are counted.
\<close>

theorem router_routes_and_counts_witness:
  "\<exists>outs r'. run_all (router \<lparr>redirect_map = (\<lambda>_. 4)\<rparr>) [demo_router_frame, []] demo_router_maps =
      Some (outs, demo_router_maps\<lparr>rx_cnt := (rx_cnt demo_router_maps)(0 \<mapsto> r')\<rparr>) \<and> balanced r' \<and>
    processed r' = 2 \<and> outs ! 0 = (XDP_REDIRECT, [9, 0, 0, 0, 0, 0, 5, 0, 0, 0, 0, 0] @ drop 12 demo_router_frame) \<and>
    fst (outs ! 1) = XDP_DROP"
proof -
  let ?E = "\<lparr>redirect_map = (\<lambda>_. 4)\<rparr>" and ?m = demo_router_maps and ?f = demo_router_frame
  let ?r = "\<lparr>processed = 0, dropped = 0, issue = 0, xdp_pass = 0, xdp_drop = 0, xdp_redirect = 0\<rparr>"
  obtain outs r' where w: "run_all (router ?E) [?f, []] ?m = Some (outs, ?m\<lparr>rx_cnt := (rx_cnt ?m)(0 \<mapsto> r')\<rparr>)" "balanced r'"
      "processed r' = 2" "list_all2 (routed ?E ?m) [?f, []] outs"
    using router_routes_and_counts [of ?m ?r ?E "[?f, []]"] by (auto simp: demo_router_maps_def balanced_def)
  then obtain x y where o: "outs = [x, y]" "routed ?E ?m ?f x" "routed ?E ?m [] y"
    by (auto simp: list_all2_Cons1)
  have off: "ip_offset ?f = 14" "etype_at ?f 12 = 0x0800"
    by (simp_all add: ip_offset_def etype_at_def demo_router_frame_def bswap16_def)
  have ip: "ip_dst ?f = Some 3" using off by (simp add: ip_dst_def) (simp add: demo_router_frame_def)
  have fw: "forwards ?m 3 a b i \<longleftrightarrow> a = 5 \<and> b = 9 \<and> i = 2" for a b i
    by (auto simp: forwards.simps exact_entry_def trie_entry_def demo_router_maps_def)
  have k: "\<not> kernel_resolves ?m ?f"
    using ip off by (simp add: kernel_resolves_def is_arp_def unresolved_def demo_router_maps_def)
  have mac: "mac_bytes 9 = [9, 0, 0, 0, 0, 0]" "mac_bytes 5 = [5, 0, 0, 0, 0, 0]"
  proof -
    have e: "(8 :: nat) = Suc (Suc (Suc (Suc (Suc (Suc (Suc (Suc 0)))))))" by simp
    show "mac_bytes 9 = [9, 0, 0, 0, 0, 0]" "mac_bytes 5 = [5, 0, 0, 0, 0, 0]"
      by (simp_all only: mac_bytes_def e le_bytes.simps) simp_all
  qed
  have to: "sent_to ?E ?m ?f q \<longleftrightarrow> q = [9, 0, 0, 0, 0, 0, 5, 0, 0, 0, 0, 0] @ drop 12 ?f" for q
  proof -
    have "Ex (forwards ?m 3 a b) \<longleftrightarrow> a = 5 \<and> b = 9" for a b using fw by blast
    then show ?thesis by (simp add: sent_to_def ip mac)
  qed
  have "x = (XDP_REDIRECT, [9, 0, 0, 0, 0, 0, 5, 0, 0, 0, 0, 0] @ drop 12 ?f)"
  proof -
    obtain v q where x: "x = (v, q)" by fastforce
    have "\<exists>q. sent_to ?E ?m ?f q" using to by blast
    then have "v = XDP_REDIRECT \<and> sent_to ?E ?m ?f q"
      using o(2) k unfolding routed_def x prod.case by presburger
    then show ?thesis unfolding x to by blast
  qed
  moreover have "fst y = XDP_DROP"
  proof -
    have "\<not> is_arp []" "ip_dst [] = None" by (simp_all add: is_arp_def ip_dst_def ip_offset_def)
    then show ?thesis using o(3) by (cases y) (simp add: routed_def kernel_resolves_def sent_to_def)
  qed
  ultimately show ?thesis using w o(1) by auto
qed

end
