(* ===== verification/Fw_Nat.thy ===== *)
theory Fw_Nat
  imports Net_Headers Packet_Program
begin

text \<open>
  Two programs on one hook: the firewall (firewall.h) and the address translation (nat.h) of
  src/examples/evaluation-two-program-fw-nat, and the entry point of main_lifter.c that runs them
  one after the other on the same packet. The update of a hash map is a parameter: it may fail.
\<close>

section \<open>Maps and programs\<close>

record nat_maps =
  whitelist_addresses :: "u32 \<rightharpoonup> u32"
  inner2outer :: "u32 \<rightharpoonup> u32"
  outer2inner :: "u32 \<rightharpoonup> u32"

type_synonym map_update = "(u32 \<rightharpoonup> u32) \<Rightarrow> u32 \<Rightarrow> u32 \<Rightarrow> (u32 \<rightharpoonup> u32) option"

text \<open>The checks both programs start with: \<open>True\<close> when the frame has a complete IPv4 header.\<close>

definition ipv4_frame :: "bytes \<Rightarrow> bool option" where
  "ipv4_frame p =
     (if sizeof_eth > length p then Some False
      else do { h_proto \<leftarrow> ld16 p 12;
                Some (h_proto = 8 \<and> \<not> sizeof_eth + sizeof_iphdr > length p) })"

definition xdp_fw :: "nat_maps \<Rightarrow> bytes \<Rightarrow> int option" where
  "xdp_fw m p =
     do { ok \<leftarrow> ipv4_frame p;
          if \<not> ok then Some XDP_DROP
          else do { saddr \<leftarrow> ld32 p (sizeof_eth + 12);
                    Some (if whitelist_addresses m saddr = None then XDP_DROP else XDP_PASS) } }"

definition calculate_csum :: "bytes \<Rightarrow> nat \<Rightarrow> u16 option" where
  "calculate_csum p ip = ld16 p (ip + 10)"

definition getNextAvailableIPAddress :: u32 where
  "getNextAvailableIPAddress = 1"

definition nat_stamp :: "bytes \<Rightarrow> u32 \<Rightarrow> nat_maps \<Rightarrow> (int \<times> bytes \<times> nat_maps) option" where
  "nat_stamp p new_saddr m =
     do { p \<leftarrow> st32 p (sizeof_eth + 12) new_saddr;
          csum \<leftarrow> calculate_csum p sizeof_eth;
          p \<leftarrow> st16 p (sizeof_eth + 10) csum;
          Some (XDP_PASS, p, m) }"

definition xdp_nat :: "map_update \<Rightarrow> nat_maps \<Rightarrow> bytes \<Rightarrow> (int \<times> bytes \<times> nat_maps) option" where
  "xdp_nat upd m p =
     do { ok \<leftarrow> ipv4_frame p;
          if \<not> ok then Some (XDP_DROP, p, m)
          else do {
            saddr \<leftarrow> ld32 p (sizeof_eth + 12);
            case outer2inner m saddr of
              Some value \<Rightarrow> nat_stamp p value m
            | None \<Rightarrow>
                let newIP = getNextAvailableIPAddress in
                (case upd (outer2inner m) saddr newIP of None \<Rightarrow> Some (XDP_DROP, p, m)
                 | Some t \<Rightarrow>
                   let m = m\<lparr>outer2inner := t\<rparr> in
                   (case upd (inner2outer m) newIP saddr of None \<Rightarrow> Some (XDP_DROP, p, m)
                    | Some t \<Rightarrow> nat_stamp p newIP (m\<lparr>inner2outer := t\<rparr>))) } }"

definition xdp_fw_nat_combined :: "map_update \<Rightarrow> nat_maps \<Rightarrow> bytes \<Rightarrow> (int \<times> bytes \<times> nat_maps) option" where
  "xdp_fw_nat_combined upd m p =
     do { ret \<leftarrow> xdp_fw m p;
          if ret \<noteq> XDP_PASS then Some (ret, p, m) else xdp_nat upd m p }"

section \<open>What the pair guarantees\<close>

definition map_update_ok :: "map_update \<Rightarrow> bool" where
  "map_update_ok upd \<longleftrightarrow> (\<forall>t k v t'. upd t k v = Some t' \<longrightarrow> t' = t(k \<mapsto> v))"

definition saddr_of :: "bytes \<Rightarrow> u32" where
  "saddr_of p = of_nat (le_val (take 4 (drop 26 p)))"

text \<open>
  Every translation is to address 1, and whoever is registered as its owner was let in by the
  firewall.
\<close>

definition nat_inv :: "nat_maps \<Rightarrow> bool" where
  "nat_inv m \<longleftrightarrow> ran (outer2inner m) \<subseteq> {1} \<and> dom (outer2inner m) \<subseteq> dom (whitelist_addresses m) \<and>
     dom (inner2outer m) \<subseteq> {1} \<and> ran (inner2outer m) \<subseteq> dom (outer2inner m)"

definition nat_frame :: "nat_maps \<Rightarrow> nat_maps \<Rightarrow> bool" where
  "nat_frame m m' \<longleftrightarrow> whitelist_addresses m' = whitelist_addresses m \<and> outer2inner m \<subseteq>\<^sub>m outer2inner m'"

definition nat_out :: "nat_maps \<Rightarrow> bytes \<Rightarrow> int \<times> bytes \<Rightarrow> bool" where
  "nat_out m p x \<longleftrightarrow>
     fst x = XDP_DROP \<and> snd x = p \<or>
     fst x = XDP_PASS \<and> 34 \<le> length p \<and> saddr_of p \<in> dom (whitelist_addresses m) \<and> snd x = put p 26 [1, 0, 0, 0]"

lemma nat_stamp_wp:
  assumes "34 \<le> length p"
  shows "wp (nat_stamp p a m) Q \<longleftrightarrow> Q (XDP_PASS, put p 26 (le_bytes 4 (unat a)), m)"
proof -
  have "put q 24 (take 2 (drop 24 q)) = q" if "26 \<le> length q" for q :: bytes
    using split3 [of 24 q 2] that by (simp add: put_def)
  then show ?thesis using assms
    by (simp add: nat_stamp_def calculate_csum_def wp_rules le_bytes_ld16)
qed

lemma le_bytes_1: "le_bytes 4 (Suc 0) = [1, 0, 0, 0]"
proof -
  have "(4 :: nat) = Suc (Suc (Suc (Suc 0)))" by simp
  then show ?thesis by (simp only: le_bytes.simps) simp
qed

lemma le_bytes_8: "le_bytes 2 8 = [8, 0]"
proof -
  have "(2 :: nat) = Suc (Suc 0)" by simp
  then show ?thesis by (simp only: le_bytes.simps) simp
qed

lemma ipv4_frame_wp:
  "wp (ipv4_frame p) Q \<longleftrightarrow> Q (34 \<le> length p \<and> take 2 (drop 12 p) = [8, 0])"
proof -
  have "(of_nat (le_val bs) = (8 :: u16)) = (bs = [8, 0])" if "length bs = 2" for bs
    using that le_bytes_ld16 [of bs] le_bytes_8 by auto
  then have "(of_nat (le_val (take 2 (drop 12 p))) = (8 :: u16)) = (take 2 (drop 12 p) = [8, 0])" if "14 \<le> length p"
    using that by simp
  then show ?thesis by (cases "14 \<le> length p") (auto simp: ipv4_frame_def wp_rules not_less conj_commute)
qed

lemma nat_inv_register:
  assumes "nat_inv m" "whitelist_addresses m a \<noteq> None"
  shows "nat_inv (m\<lparr>outer2inner := (outer2inner m)(a \<mapsto> 1)\<rparr>)"
    and "nat_inv (m\<lparr>outer2inner := (outer2inner m)(a \<mapsto> 1), inner2outer := (inner2outer m)(1 \<mapsto> a)\<rparr>)"
  using assms by (auto simp: nat_inv_def ran_def dom_def)

lemma nat_frame_register:
  assumes "outer2inner m a = None"
  shows "nat_frame m (m\<lparr>outer2inner := (outer2inner m)(a \<mapsto> 1)\<rparr>)"
    and "nat_frame m (m\<lparr>outer2inner := (outer2inner m)(a \<mapsto> 1), inner2outer := t\<rparr>)"
  using assms by (auto simp: nat_frame_def map_le_def)

lemma nat_frame_refl: "nat_frame m m"
  by (simp add: nat_frame_def)

lemma xdp_fw_nat_combined_step:
  assumes "map_update_ok upd" "nat_inv m"
  shows "wp (xdp_fw_nat_combined upd m p) (\<lambda>(v, q, m'). nat_inv m' \<and> nat_frame m m' \<and> nat_out m p (v, q))"
proof -
  have u: "upd t k v = Some t' \<Longrightarrow> t' = t(k \<mapsto> v)" for t k v t'
    using assms(1) by (simp add: map_update_ok_def)
  have one: "outer2inner m a = Some v \<Longrightarrow> v = 1" for a v
    using assms(2) by (auto simp: nat_inv_def ran_def)
  show ?thesis
    using assms(2)
    by (auto simp: xdp_fw_nat_combined_def xdp_fw_def xdp_nat_def wp_rules ipv4_frame_wp nat_stamp_wp Let_def
        getNextAvailableIPAddress_def nat_out_def saddr_of_def le_bytes_1 nat_frame_refl nat_frame_register
        dest!: u one intro: nat_inv_register)
qed

lemma nat_frame_trans: "nat_frame a b \<Longrightarrow> nat_frame b c \<Longrightarrow> nat_frame a c"
  by (auto simp: nat_frame_def intro: map_le_trans)

lemma nat_out_frame: "nat_frame m m' \<Longrightarrow> nat_out m' p x \<Longrightarrow> nat_out m p x"
  by (simp add: nat_out_def nat_frame_def)

text \<open>
  A failed update leaves the map as it was; the pair is a packet program for every update that
  stores what it is given when it succeeds.
\<close>

definition checked_update :: "map_update \<Rightarrow> map_update" where
  "checked_update upd t k v = (if upd t k v = Some (t(k \<mapsto> v)) then Some (t(k \<mapsto> v)) else None)"

lemma checked_update_ok: "map_update_ok (checked_update upd)"
  by (auto simp: map_update_ok_def checked_update_def split: if_splits)

lemma checked_update_id: "map_update_ok upd \<Longrightarrow> checked_update upd = upd"
proof (intro ext)
  fix t k v
  assume "map_update_ok upd"
  then show "checked_update upd t k v = upd t k v"
    by (cases "upd t k v") (auto simp: map_update_ok_def checked_update_def)
qed

interpretation fw_nat: packet_program "xdp_fw_nat_combined (checked_update upd)" nat_inv nat_frame nat_out for upd
  by unfold_locales (blast intro: nat_frame_refl nat_frame_trans nat_out_frame
    xdp_fw_nat_combined_step [OF checked_update_ok])+

text \<open>
  Property C24. Firewall and address translation compose: over any sequence of packets, starting
  from consistent tables, every packet gets a verdict; a packet passes only if its source was
  white-listed, and then leaves with source address 1 and otherwise unchanged (the checksum
  field too, which is therefore stale); a dropped packet is untouched. The white list never
  changes, no registered client is forgotten, only white-listed clients are registered, and all
  of them share the one inner address.
\<close>

theorem firewall_then_nat:
  assumes "map_update_ok upd" and "nat_inv m"
  shows "\<exists>outs m'. run_all (xdp_fw_nat_combined upd) ps m = Some (outs, m') \<and>
    nat_inv m' \<and> nat_frame m m' \<and> list_all2 (nat_out m) ps outs"
  by (rule fw_nat.run_all_result [OF assms(2), of upd ps]) (use checked_update_id [OF assms(1)] in auto)

theorem firewall_then_nat_witness:
  "\<exists>outs m'. run_all (xdp_fw_nat_combined (\<lambda>t k v. Some (t(k \<mapsto> v)))) [replicate 12 0 @ [8, 0] @ replicate 20 0]
      \<lparr>whitelist_addresses = [0 \<mapsto> 1], inner2outer = Map.empty, outer2inner = Map.empty\<rparr> = Some (outs, m') \<and>
    nat_inv m' \<and> nat_frame \<lparr>whitelist_addresses = [0 \<mapsto> 1], inner2outer = Map.empty, outer2inner = Map.empty\<rparr> m' \<and>
    list_all2 (nat_out \<lparr>whitelist_addresses = [0 \<mapsto> 1], inner2outer = Map.empty, outer2inner = Map.empty\<rparr>)
      [replicate 12 0 @ [8, 0] @ replicate 20 0] outs"
  by (rule firewall_then_nat) (simp_all add: map_update_ok_def nat_inv_def)

end
