(* ===== verification/Katran_Types.thy ===== *)
theory Katran_Types
  imports Csum Net_Headers
begin

text \<open>
  The data of the Katran load balancer (src/examples/katran): the constants of
  balancer_consts.h, the structs of balancer_structs.h, the BPF maps of balancer_maps.h
  and control_data_maps.h, and the kernel helpers the program calls.

  The compile-time switches of the sources are the booleans of a configuration record.
  The kernel is a record of functions, about which nothing is known here: what a theorem
  relies on is one of the named hypotheses at the end of the theory.
\<close>

section \<open>Constants\<close>

definition FURTHER_PROCESSING :: int where [simp, hdr_consts]: "FURTHER_PROCESSING = -1"

definition BE_ETH_P_IP :: u16 where [simp, hdr_consts]: "BE_ETH_P_IP = 8"
definition BE_ETH_P_IPV6 :: u16 where [simp, hdr_consts]: "BE_ETH_P_IPV6 = 56710"
definition GUEV1_IPV6MASK :: u8 where [simp, hdr_consts]: "GUEV1_IPV6MASK = 0x30"
definition PCKT_FRAGMENTED :: u16 where [simp, hdr_consts]: "PCKT_FRAGMENTED = 65343"
definition IPV4_HDR_LEN_NO_OPT :: nat where [simp, hdr_consts]: "IPV4_HDR_LEN_NO_OPT = 20"
definition RING_SIZE :: u32 where [simp, hdr_consts]: "RING_SIZE = 127"
definition MAX_VIPS :: u32 where [simp, hdr_consts]: "MAX_VIPS = 32"
definition CONCRETE_VIP_NUM :: u32 where [simp, hdr_consts]: "CONCRETE_VIP_NUM = 7"
definition MAX_REALS :: u32 where [simp, hdr_consts]: "MAX_REALS = 256"
definition CTL_MAP_SIZE :: u32 where [simp, hdr_consts]: "CTL_MAP_SIZE = 16"
definition CH_RINGS_SIZE :: u32 where [hdr_consts]: "CH_RINGS_SIZE = MAX_VIPS * RING_SIZE"
definition STATS_MAP_SIZE :: u32 where [hdr_consts]: "STATS_MAP_SIZE = MAX_VIPS * 2"
definition MAX_SUPPORTED_CPUS :: u32 where [simp, hdr_consts]: "MAX_SUPPORTED_CPUS = 4"
definition ONE_SEC :: u64 where [simp, hdr_consts]: "ONE_SEC = 1000000000"
definition LRU_UDP_TIMEOUT :: u64 where [simp, hdr_consts]: "LRU_UDP_TIMEOUT = 30000000000"
definition F_IPV6 :: u8 where [simp, hdr_consts]: "F_IPV6 = 0x1"
definition F_HASH_NO_SRC_PORT :: u32 where [simp, hdr_consts]: "F_HASH_NO_SRC_PORT = 0x1"
definition F_LRU_BYPASS :: u32 where [simp, hdr_consts]: "F_LRU_BYPASS = 0x2"
definition F_QUIC_VIP :: u32 where [simp, hdr_consts]: "F_QUIC_VIP = 0x4"
definition F_HASH_DPORT_ONLY :: u32 where [simp, hdr_consts]: "F_HASH_DPORT_ONLY = 0x8"
definition F_SRC_ROUTING :: u32 where [simp, hdr_consts]: "F_SRC_ROUTING = 0x10"
definition F_ICMP :: u8 where [simp, hdr_consts]: "F_ICMP = 0x1"
definition F_SYN_SET :: u8 where [simp, hdr_consts]: "F_SYN_SET = 0x2"
definition DEFAULT_TTL :: u8 where [simp, hdr_consts]: "DEFAULT_TTL = 64"
definition QUIC_LONG_HEADER :: u8 where [simp, hdr_consts]: "QUIC_LONG_HEADER = 0x80"
definition QUIC_HANDSHAKE :: u8 where [simp, hdr_consts]: "QUIC_HANDSHAKE = 0x20"
definition QUIC_PACKET_TYPE_MASK :: u8 where [simp, hdr_consts]: "QUIC_PACKET_TYPE_MASK = 0x30"
definition QUIC_MIN_CONNID_LEN :: nat where [simp, hdr_consts]: "QUIC_MIN_CONNID_LEN = 8"
definition QUIC_CONNID_VERSION_V1_MAX_VAL :: int where
  [simp, hdr_consts]: "QUIC_CONNID_VERSION_V1_MAX_VAL = 0xFFFF"
definition MAX_PCKT_SIZE :: nat where [simp, hdr_consts]: "MAX_PCKT_SIZE = 1514"
definition ICMP_TOOBIG_SIZE :: nat where [simp, hdr_consts]: "ICMP_TOOBIG_SIZE = 98"
definition ICMP6_TOOBIG_SIZE :: nat where [simp, hdr_consts]: "ICMP6_TOOBIG_SIZE = 262"
definition ICMP6_TOOBIG_PAYLOAD_SIZE :: nat where
  [simp, hdr_consts]: "ICMP6_TOOBIG_PAYLOAD_SIZE = ICMP6_TOOBIG_SIZE - 6"
definition ICMP_TOOBIG_PAYLOAD_SIZE :: nat where
  [simp, hdr_consts]: "ICMP_TOOBIG_PAYLOAD_SIZE = ICMP_TOOBIG_SIZE - 6"
definition LRU_CNTRS :: u32 where [simp, hdr_consts]: "LRU_CNTRS = 0"
definition LRU_MISS_CNTR :: u32 where [simp, hdr_consts]: "LRU_MISS_CNTR = 1"
definition NEW_CONN_RATE_CNTR :: u32 where [simp, hdr_consts]: "NEW_CONN_RATE_CNTR = 2"
definition ICMP_TOOBIG_CNTRS :: u32 where [simp, hdr_consts]: "ICMP_TOOBIG_CNTRS = 4"
definition LPM_SRC_CNTRS :: u32 where [simp, hdr_consts]: "LPM_SRC_CNTRS = 5"
definition REMOTE_ENCAP_CNTRS :: u32 where [simp, hdr_consts]: "REMOTE_ENCAP_CNTRS = 6"
definition QUIC_ROUTE_STATS :: u32 where [simp, hdr_consts]: "QUIC_ROUTE_STATS = 7"
definition QUIC_CID_VERSION_STATS :: u32 where [simp, hdr_consts]: "QUIC_CID_VERSION_STATS = 8"
definition QUIC_CID_DROP_STATS :: u32 where [simp, hdr_consts]: "QUIC_CID_DROP_STATS = 9"
definition CONCRETE_QUIC_REAL_ID :: int where [simp, hdr_consts]: "CONCRETE_QUIC_REAL_ID = 3"
definition MAX_CONN_RATE :: u64 where [simp, hdr_consts]: "MAX_CONN_RATE = 125000"
definition IPIP_V4_PREFIX :: u32 where [simp, hdr_consts]: "IPIP_V4_PREFIX = 4268"
definition IPIP_V6_PREFIX1 :: u32 where [simp, hdr_consts]: "IPIP_V6_PREFIX1 = 1"
definition IPIP_V6_PREFIX2 :: u32 where [simp, hdr_consts]: "IPIP_V6_PREFIX2 = 0"
definition IPIP_V6_PREFIX3 :: u32 where [simp, hdr_consts]: "IPIP_V6_PREFIX3 = 0"
definition GUE_DPORT :: u16 where [simp, hdr_consts]: "GUE_DPORT = 6080"
definition GUE_CSUM :: u16 where [simp, hdr_consts]: "GUE_CSUM = 0"
definition INIT_JHASH_SEED :: u32 where [hdr_consts]: "INIT_JHASH_SEED = CH_RINGS_SIZE"
definition INIT_JHASH_SEED_V6 :: u32 where [hdr_consts]: "INIT_JHASH_SEED_V6 = MAX_VIPS"
definition V4_SRC_INDEX :: u32 where [simp, hdr_consts]: "V4_SRC_INDEX = 0"
definition V6_SRC_INDEX :: u32 where [simp, hdr_consts]: "V6_SRC_INDEX = 1"
definition MAX_EVENT_SIZE :: int where [simp, hdr_consts]: "MAX_EVENT_SIZE = 128"
definition TCP_NONSYN_LRUMISS :: u32 where [simp, hdr_consts]: "TCP_NONSYN_LRUMISS = 0"
definition PACKET_TOOBIG :: u32 where [simp, hdr_consts]: "PACKET_TOOBIG = 1"
definition QUIC_PACKET_DROP_NO_REAL :: u32 where [simp, hdr_consts]: "QUIC_PACKET_DROP_NO_REAL = 2"

text \<open>The \<open>bpf_htons\<close> family on the little-endian target.\<close>

definition bpf_htons :: "u16 \<Rightarrow> u16" where "bpf_htons x = bswap16 x"
definition bpf_ntohs :: "u16 \<Rightarrow> u16" where "bpf_ntohs x = bswap16 x"
definition bpf_htonl :: "u32 \<Rightarrow> u32" where "bpf_htonl x = bswap32 x"
definition bpf_ntohl :: "u32 \<Rightarrow> u32" where "bpf_ntohl x = bswap32 x"

section \<open>Structs\<close>

text \<open>
  The unions of an IPv4 and an IPv6 address are four 32-bit words, the IPv4 address being
  the first of them; \<open>ports\<close> is the pair \<open>port16\<close> read as one little-endian word.
\<close>

type_synonym addr = "u32 \<times> u32 \<times> u32 \<times> u32"

definition addr0 :: addr where "addr0 = (0, 0, 0, 0)"

definition v4_of :: "addr \<Rightarrow> u32" where
  "v4_of a = fst a"

definition set_v4 :: "addr \<Rightarrow> u32 \<Rightarrow> addr" where
  "set_v4 a x = (x, snd a)"

definition v6_word3 :: "addr \<Rightarrow> u32" where
  "v6_word3 a = snd (snd (snd a))"

record flow_key =
  src :: addr
  dst :: addr
  port0 :: u16
  port1 :: u16
  proto :: u8

definition flow_ports :: "flow_key \<Rightarrow> u32" where
  "flow_ports f = (ucast (port0 f)) OR push_bit 16 (ucast (port1 f))"

record packet_description =
  flow :: flow_key
  real_index :: u32
  pflags :: u8
  tos :: u8

text \<open>\<open>struct packet_description pckt = {};\<close>\<close>

definition pckt0 :: packet_description where
  "pckt0 = \<lparr>flow = \<lparr>src = addr0, dst = addr0, port0 = 0, port1 = 0, proto = 0\<rparr>,
            real_index = 0, pflags = 0, tos = 0\<rparr>"

record vip_definition =
  vip :: addr
  vport :: u16
  vproto :: u8

record vip_meta =
  vflags :: u32
  vip_num :: u32

record real_pos_lru =
  pos :: u32
  atime :: u64

record real_definition =
  rdst :: addr
  rflags :: u8

record lb_stats =
  v1 :: u64
  v2 :: u64

record event_metadata =
  event :: u32
  pkt_size :: u32
  data_len :: u32

text \<open>\<open>struct ctl_value\<close> is a union over eight bytes: the MAC address is its first six.\<close>

type_synonym ctl_value = u64

definition ctl_mac :: "ctl_value \<Rightarrow> bytes" where
  "ctl_mac v = take 6 (le_bytes 8 (unat v))"

section \<open>Configuration, maps, kernel\<close>

record katran_cfg =
  LPM_SRC_LOOKUP :: bool
  INLINE_DECAP_IPIP :: bool
  INLINE_DECAP_GUE :: bool
  GUE_ENCAP :: bool
  ICMP_TOOBIG_GENERATION :: bool
  KATRAN_INTROSPECTION :: bool
  KLEE_VERIFICATION :: bool

text \<open>
  Without \<open>KLEE_VERIFICATION\<close> there is one LRU map; with it there is an array of per-CPU
  maps with a fallback. A map pointer held in \<open>lru_map\<close> is one of these references.
\<close>

datatype lru_ref = Lru_single | Lru_cpu u32 | Lru_fallback

type_synonym lru_table = "flow_key \<rightharpoonup> real_pos_lru"

record katran_maps =
  vip_map :: "vip_definition \<rightharpoonup> vip_meta"
  lru_mapping :: "lru_ref \<Rightarrow> lru_table"
  lru_cpus :: "u32 \<Rightarrow> bool"
  ch_rings :: "u32 \<rightharpoonup> u32"
  reals :: "u32 \<rightharpoonup> real_definition"
  reals_stats :: "u32 \<rightharpoonup> lb_stats"
  stats :: "u32 \<rightharpoonup> lb_stats"
  quic_mapping :: "u32 \<rightharpoonup> u32"
  lpm_src_v4 :: "u32 \<Rightarrow> u32 \<rightharpoonup> u32"
  lpm_src_v6 :: "u32 \<Rightarrow> addr \<rightharpoonup> u32"
  ctl_array :: "u32 \<rightharpoonup> ctl_value"
  decap_dst :: "addr \<rightharpoonup> u32"
  pckt_srcs :: "u32 \<rightharpoonup> real_definition"
  event_pipe :: "(event_metadata \<times> u64) list"
  ktime_calls :: nat

record katran_env =
  xdp_adjust_head :: "int \<Rightarrow> bytes \<Rightarrow> bytes option"
  xdp_adjust_tail :: "int \<Rightarrow> bytes \<Rightarrow> bytes option"
  csum_diff :: csum_diff_fn
  ktime_get_ns :: "nat \<Rightarrow> u64"
  smp_processor_id :: u32
  lru_update :: "lru_table \<Rightarrow> flow_key \<Rightarrow> real_pos_lru \<Rightarrow> lru_table"

text \<open>A pointer returned by a lookup is written through: the map changes at that key.\<close>

definition stats_add :: "u32 \<Rightarrow> u64 \<Rightarrow> u64 \<Rightarrow> (u32 \<rightharpoonup> lb_stats) \<Rightarrow> (u32 \<rightharpoonup> lb_stats)" where
  "stats_add k d1 d2 m =
     (case m k of None \<Rightarrow> m | Some s \<Rightarrow> m(k \<mapsto> s\<lparr>v1 := v1 s + d1, v2 := v2 s + d2\<rparr>))"

definition bump :: "u32 \<Rightarrow> u64 \<Rightarrow> u64 \<Rightarrow> katran_maps \<Rightarrow> katran_maps" where
  "bump k d1 d2 m = m\<lparr>stats := stats_add k d1 d2 (stats m)\<rparr>"

definition ktime :: "katran_env \<Rightarrow> katran_maps \<Rightarrow> u64 \<times> katran_maps" where
  "ktime E m = (ktime_get_ns E (ktime_calls m), m\<lparr>ktime_calls := Suc (ktime_calls m)\<rparr>)"

text \<open>
  Array maps hold an element at every index below their size and nowhere else.
\<close>

definition array_map :: "u32 \<Rightarrow> (u32 \<rightharpoonup> 'v) \<Rightarrow> bool" where
  "array_map n m \<longleftrightarrow> (\<forall>k. (m k \<noteq> None) = (k < n))"

definition maps_wf :: "katran_maps \<Rightarrow> bool" where
  "maps_wf m \<longleftrightarrow>
     array_map CH_RINGS_SIZE (ch_rings m) \<and> array_map MAX_REALS (reals m) \<and>
     array_map MAX_REALS (reals_stats m) \<and> array_map STATS_MAP_SIZE (stats m) \<and>
     array_map MAX_REALS (quic_mapping m) \<and> array_map CTL_MAP_SIZE (ctl_array m) \<and>
     array_map 2 (pckt_srcs m)"

lemma array_map_stats_add [simp]: "array_map n (stats_add k a b m) = array_map n m"
  by (auto simp: array_map_def stats_add_def split: option.splits)

lemma maps_wf_bump [simp]: "maps_wf (bump k a b m) = maps_wf m"
  by (simp add: maps_wf_def bump_def)

lemma bump_fields [simp]:
  "vip_map (bump k a b m) = vip_map m" "lru_mapping (bump k a b m) = lru_mapping m"
  "lru_cpus (bump k a b m) = lru_cpus m" "ch_rings (bump k a b m) = ch_rings m"
  "reals (bump k a b m) = reals m" "reals_stats (bump k a b m) = reals_stats m"
  "quic_mapping (bump k a b m) = quic_mapping m" "ctl_array (bump k a b m) = ctl_array m"
  "decap_dst (bump k a b m) = decap_dst m" "pckt_srcs (bump k a b m) = pckt_srcs m"
  "ktime_calls (bump k a b m) = ktime_calls m" "stats (bump k a b m) = stats_add k a b (stats m)"
  by (simp_all add: bump_def)

lemma array_map_lookup: "array_map n m \<Longrightarrow> k < n \<Longrightarrow> \<exists>v. m k = Some v"
  by (auto simp: array_map_def)

subsection \<open>What the kernel helpers promise\<close>

text \<open>An LRU update stores the new binding and may evict others, never change them.\<close>

definition lru_update_ok :: "(lru_table \<Rightarrow> flow_key \<Rightarrow> real_pos_lru \<Rightarrow> lru_table) \<Rightarrow> bool" where
  "lru_update_ok f \<longleftrightarrow> (\<forall>t k v. f t k v k = Some v \<and>
     (\<forall>k'. k' \<noteq> k \<longrightarrow> f t k v k' = t k' \<or> f t k v k' = None))"

definition env_ok :: "katran_env \<Rightarrow> bool" where
  "env_ok E \<longleftrightarrow> adjust_head_ok (xdp_adjust_head E) \<and> adjust_tail_ok (xdp_adjust_tail E) \<and>
     lru_update_ok (lru_update E)"

text \<open>A concrete kernel, used by the witnesses: headroom is zero-filled, nothing is evicted.\<close>

definition demo_env :: katran_env where
  "demo_env = \<lparr>
     xdp_adjust_head = (\<lambda>d p. if d < 0 then Some (replicate (nat (- d)) 0 @ p)
                              else if nat d \<le> length p then Some (drop (nat d) p) else None),
     xdp_adjust_tail = (\<lambda>d p. if nat (- d) \<le> length p
                              then Some (take (length p - nat (- d)) p) else None),
     csum_diff = (\<lambda>old new seed. seed + of_nat (sum16 new)),
     ktime_get_ns = (\<lambda>n. 1000000000000 + of_nat n),
     smp_processor_id = 0,
     lru_update = (\<lambda>t k v. t(k \<mapsto> v))\<rparr>"

lemma demo_env_ok: "env_ok demo_env"
  by (auto simp: env_ok_def adjust_head_ok_def adjust_tail_ok_def lru_update_ok_def demo_env_def
      split: if_splits)

end
