(* ===== verification/Katran_Parsing.thy ===== *)
theory Katran_Parsing
  imports Katran_Types
begin

text \<open>
  Packet parsing and ICMP handling of Katran: pckt_parsing.h, \<open>decrement_ttl\<close> of
  balancer_helpers.h and handle_icmp.h. A packet is the bytes between \<open>data\<close> and
  \<open>data_end\<close>; a pointer is an offset into it, and \<open>data + n > data_end\<close> is
  \<open>length p < n\<close>. Functions that write return the new packet beside their result.
\<close>

section \<open>Transport headers\<close>

definition ld_addr :: "bytes \<Rightarrow> nat \<Rightarrow> addr option" where
  "ld_addr p off =
     do { a \<leftarrow> ld32 p off; b \<leftarrow> ld32 p (off + 4); c \<leftarrow> ld32 p (off + 8); d \<leftarrow> ld32 p (off + 12);
          Some (a, b, c, d) }"

definition st_addr :: "bytes \<Rightarrow> nat \<Rightarrow> addr \<Rightarrow> bytes option" where
  "st_addr p off a =
     (case a of (a0, a1, a2, a3) \<Rightarrow>
        do { p \<leftarrow> st32 p off a0; p \<leftarrow> st32 p (off + 4) a1; p \<leftarrow> st32 p (off + 8) a2;
             st32 p (off + 12) a3 })"

definition calc_offset :: "bool \<Rightarrow> bool \<Rightarrow> nat" where
  "calc_offset is_ipv6 is_icmp =
     (let off = sizeof_eth in
      if is_ipv6 then
        let off = off + sizeof_ipv6hdr in
        if is_icmp then off + (sizeof_icmp6hdr + sizeof_ipv6hdr) else off
      else
        let off = off + sizeof_iphdr in
        if is_icmp then off + (sizeof_icmphdr + sizeof_iphdr) else off)"

definition set_ports :: "bool \<Rightarrow> u16 \<Rightarrow> u16 \<Rightarrow> packet_description \<Rightarrow> packet_description" where
  "set_ports is_icmp source dest pckt =
     (if \<not> is_icmp then pckt\<lparr>flow := (flow pckt)\<lparr>port0 := source, port1 := dest\<rparr>\<rparr>
      else pckt\<lparr>flow := (flow pckt)\<lparr>port0 := dest, port1 := source\<rparr>\<rparr>)"

definition is_icmp_pckt :: "packet_description \<Rightarrow> bool" where
  "is_icmp_pckt pckt = (pflags pckt AND F_ICMP \<noteq> 0)"

text \<open>The inner \<open>None\<close> is \<open>return false\<close>.\<close>

definition parse_udp ::
  "bytes \<Rightarrow> bool \<Rightarrow> packet_description \<Rightarrow> packet_description option option" where
  "parse_udp p is_ipv6 pckt =
     (let is_icmp = is_icmp_pckt pckt; udp = calc_offset is_ipv6 is_icmp in
      if length p < udp + sizeof_udphdr then Some None
      else do { source \<leftarrow> ld16 p udp; dest \<leftarrow> ld16 p (udp + 2);
                Some (Some (set_ports is_icmp source dest pckt)) })"

definition parse_tcp ::
  "bytes \<Rightarrow> bool \<Rightarrow> packet_description \<Rightarrow> packet_description option option" where
  "parse_tcp p is_ipv6 pckt =
     (let is_icmp = is_icmp_pckt pckt; tcp = calc_offset is_ipv6 is_icmp in
      if length p < tcp + sizeof_tcphdr then Some None
      else do { tcp_flags \<leftarrow> ld8 p (tcp + 13);
                let pckt = (if bit tcp_flags 1
                            then pckt\<lparr>pflags := pflags pckt OR F_SYN_SET\<rparr> else pckt);
                source \<leftarrow> ld16 p tcp; dest \<leftarrow> ld16 p (tcp + 2);
                Some (Some (set_ports is_icmp source dest pckt)) })"

text \<open>
  In \<open>parse_quic\<close> the connection id is located and then not decoded: the function returns
  \<open>CONCRETE_QUIC_REAL_ID\<close>. The two QUIC headers are packed structs of 14 and 9 bytes;
  \<open>conn_id_lens\<close> is byte 5 of the long one.
\<close>

definition sizeof_quic_long_header :: nat where
  [simp]: "sizeof_quic_long_header = 6 + QUIC_MIN_CONNID_LEN"

definition sizeof_quic_short_header :: nat where
  [simp]: "sizeof_quic_short_header = 1 + QUIC_MIN_CONNID_LEN"

definition parse_quic :: "bytes \<Rightarrow> bool \<Rightarrow> packet_description \<Rightarrow> int option" where
  "parse_quic p is_ipv6 pckt =
     (let off = calc_offset is_ipv6 (is_icmp_pckt pckt) in
      if length p < off + sizeof_udphdr + 1 then Some FURTHER_PROCESSING
      else
        let quic_data = off + sizeof_udphdr in
        do { pkt_type \<leftarrow> ld8 p quic_data;
             if pkt_type AND QUIC_LONG_HEADER = QUIC_LONG_HEADER then
               (if length p < quic_data + sizeof_quic_long_header then Some FURTHER_PROCESSING
                else if pkt_type AND QUIC_PACKET_TYPE_MASK < QUIC_HANDSHAKE then Some FURTHER_PROCESSING
                else do { conn_id_lens \<leftarrow> ld8 p (quic_data + 5);
                          if conn_id_lens < of_nat QUIC_MIN_CONNID_LEN then Some FURTHER_PROCESSING
                          else Some CONCRETE_QUIC_REAL_ID })
             else if length p < quic_data + sizeof_quic_short_header then Some FURTHER_PROCESSING
             else Some CONCRETE_QUIC_REAL_ID })"

section \<open>Time to live\<close>

definition decrement_ttl :: "bytes \<Rightarrow> nat \<Rightarrow> bool \<Rightarrow> (int \<times> bytes) option" where
  "decrement_ttl p offset is_ipv6 =
     (if is_ipv6 then
        if length p < offset + sizeof_ipv6hdr then Some (XDP_DROP, p)
        else do { hop_limit \<leftarrow> ld8 p (offset + 7);
                  p \<leftarrow> st8 p (offset + 7) (hop_limit - 1);
                  if hop_limit - 1 = 0 then Some (XDP_DROP, p) else Some (FURTHER_PROCESSING, p) }
      else
        if length p < offset + sizeof_iphdr then Some (XDP_DROP, p)
        else do { ttl \<leftarrow> ld8 p (offset + 8);
                  p \<leftarrow> st8 p (offset + 8) (ttl - 1);
                  if ttl - 1 = 0 then Some (XDP_DROP, p)
                  else do { check \<leftarrow> ld16 p (offset + 10);
                            let csum = (ucast check + 0x0001 :: u32);
                            p \<leftarrow> st16 p (offset + 10) (ucast ((csum AND 0xFFFF) + drop_bit 16 csum));
                            Some (FURTHER_PROCESSING, p) } })"

section \<open>ICMP\<close>

definition swap_mac_and_send :: "bytes \<Rightarrow> (int \<times> bytes) option" where
  "swap_mac_and_send p =
     do { tmp_mac \<leftarrow> ldn p 6 6; eth_dest \<leftarrow> ldn p 0 6;
          p \<leftarrow> stn p 6 eth_dest; p \<leftarrow> stn p 0 tmp_mac;
          Some (XDP_TX, p) }"

definition swap_mac :: "bytes \<Rightarrow> nat \<Rightarrow> bytes option" where
  "swap_mac p orig_eth =
     do { d \<leftarrow> ldn p orig_eth 6; p \<leftarrow> stn p 6 d;
          s \<leftarrow> ldn p (orig_eth + 6) 6; p \<leftarrow> stn p 0 s;
          pr \<leftarrow> ld16 p (orig_eth + 12); st16 p 12 pr }"

definition send_icmp_reply :: "bytes \<Rightarrow> (int \<times> bytes) option" where
  "send_icmp_reply p =
     (if length p < sizeof_eth + sizeof_iphdr + sizeof_icmphdr then Some (XDP_DROP, p)
      else
        let iph = sizeof_eth; icmp_hdr = sizeof_eth + sizeof_iphdr in
        do { p \<leftarrow> st8 p icmp_hdr ICMP_ECHOREPLY;
             checksum \<leftarrow> ld16 p (icmp_hdr + 2);
             p \<leftarrow> st16 p (icmp_hdr + 2) (checksum + 0x0008);
             p \<leftarrow> st8 p (iph + 8) DEFAULT_TTL;
             tmp_addr \<leftarrow> ld32 p (iph + 16);
             saddr \<leftarrow> ld32 p (iph + 12);
             p \<leftarrow> st32 p (iph + 16) saddr;
             p \<leftarrow> st32 p (iph + 12) tmp_addr;
             p \<leftarrow> st16 p (iph + 10) 0;
             csum \<leftarrow> ipv4_csum_inline p iph 0;
             p \<leftarrow> st16 p (iph + 10) (ucast csum);
             swap_mac_and_send p })"

definition send_icmp6_reply :: "bytes \<Rightarrow> (int \<times> bytes) option" where
  "send_icmp6_reply p =
     (if length p < sizeof_eth + sizeof_ipv6hdr + sizeof_icmp6hdr then Some (XDP_DROP, p)
      else
        let ip6h = sizeof_eth; icmp_hdr = sizeof_eth + sizeof_ipv6hdr in
        do { p \<leftarrow> st8 p icmp_hdr ICMPV6_ECHO_REPLY;
             cksum \<leftarrow> ld16 p (icmp_hdr + 2);
             p \<leftarrow> st16 p (icmp_hdr + 2) (cksum - 0x0001);
             p \<leftarrow> st8 p (ip6h + 7) DEFAULT_TTL;
             tmp_addr \<leftarrow> ldn p (ip6h + 8) 16;
             daddr \<leftarrow> ldn p (ip6h + 24) 16;
             p \<leftarrow> stn p (ip6h + 8) daddr;
             p \<leftarrow> stn p (ip6h + 24) tmp_addr;
             swap_mac_and_send p })"

text \<open>
  Bit fields: \<open>ihl\<close> is the low and \<open>version\<close> the high nibble of the first byte of an IPv4
  header; \<open>priority\<close> is the low and \<open>version\<close> the high nibble of an IPv6 one.
\<close>

definition st_hi_nibble :: "bytes \<Rightarrow> nat \<Rightarrow> u8 \<Rightarrow> bytes option" where
  "st_hi_nibble p off v = do { b \<leftarrow> ld8 p off; st8 p off ((b AND 0x0F) OR push_bit 4 v) }"

definition st_lo_nibble :: "bytes \<Rightarrow> nat \<Rightarrow> u8 \<Rightarrow> bytes option" where
  "st_lo_nibble p off v = do { b \<leftarrow> ld8 p off; st8 p off ((b AND 0xF0) OR (v AND 0x0F)) }"

definition send_icmp4_too_big :: "katran_env \<Rightarrow> bytes \<Rightarrow> (int \<times> bytes) option" where
  "send_icmp4_too_big E p =
     (let headroom = sizeof_iphdr + sizeof_icmphdr in
      case xdp_adjust_head E (- int headroom) p of
        None \<Rightarrow> Some (XDP_DROP, p)
      | Some p \<Rightarrow>
        if length p < ICMP_TOOBIG_SIZE + headroom then Some (XDP_DROP, p)
        else
          let iph = sizeof_eth; icmp_hdr = iph + sizeof_iphdr; orig_iph = icmp_hdr + sizeof_icmphdr in
          do { p \<leftarrow> swap_mac p headroom;
               p \<leftarrow> st8 p icmp_hdr ICMP_DEST_UNREACH;
               p \<leftarrow> st8 p (icmp_hdr + 1) ICMP_FRAG_NEEDED;
               p \<leftarrow> st16 p (icmp_hdr + 6) (bpf_htons (of_nat (MAX_PCKT_SIZE - sizeof_eth)));
               p \<leftarrow> st16 p (icmp_hdr + 2) 0;
               csum \<leftarrow> ipv4_csum (csum_diff E) p icmp_hdr ICMP_TOOBIG_PAYLOAD_SIZE 0;
               p \<leftarrow> st16 p (icmp_hdr + 2) (ucast csum);
               p \<leftarrow> st8 p (iph + 8) DEFAULT_TTL;
               saddr \<leftarrow> ld32 p (orig_iph + 12); p \<leftarrow> st32 p (iph + 16) saddr;
               daddr \<leftarrow> ld32 p (orig_iph + 16); p \<leftarrow> st32 p (iph + 12) daddr;
               p \<leftarrow> st_hi_nibble p iph 4;
               p \<leftarrow> st_lo_nibble p iph 5;
               p \<leftarrow> st8 p (iph + 9) IPPROTO_ICMP;
               p \<leftarrow> st8 p (iph + 1) 0;
               p \<leftarrow> st16 p (iph + 2) (bpf_htons (of_nat (ICMP_TOOBIG_SIZE + headroom - sizeof_eth)));
               p \<leftarrow> st16 p (iph + 10) 0;
               csum \<leftarrow> ipv4_csum (csum_diff E) p iph sizeof_iphdr 0;
               p \<leftarrow> st16 p (iph + 10) (ucast csum);
               Some (XDP_TX, p) })"

definition send_icmp6_too_big :: "katran_env \<Rightarrow> bytes \<Rightarrow> (int \<times> bytes) option" where
  "send_icmp6_too_big E p =
     (let headroom = sizeof_ipv6hdr + sizeof_icmp6hdr in
      case xdp_adjust_head E (- int headroom) p of
        None \<Rightarrow> Some (XDP_DROP, p)
      | Some p \<Rightarrow>
        if length p < ICMP6_TOOBIG_SIZE + headroom then Some (XDP_DROP, p)
        else
          let ip6h = sizeof_eth; icmp6_hdr = ip6h + sizeof_ipv6hdr;
              orig_ip6h = icmp6_hdr + sizeof_icmp6hdr in
          do { p \<leftarrow> swap_mac p headroom;
               p \<leftarrow> st_hi_nibble p ip6h 6;
               p \<leftarrow> st_lo_nibble p ip6h 0;
               p \<leftarrow> st8 p (ip6h + 6) IPPROTO_ICMPV6;
               p \<leftarrow> st8 p (ip6h + 7) DEFAULT_TTL;
               p \<leftarrow> st16 p (ip6h + 4) (bpf_htons (of_nat ICMP6_TOOBIG_PAYLOAD_SIZE));
               p \<leftarrow> stn p (ip6h + 1) [0, 0, 0];
               saddr \<leftarrow> ldn p (orig_ip6h + 8) 16; p \<leftarrow> stn p (ip6h + 24) saddr;
               daddr \<leftarrow> ldn p (orig_ip6h + 24) 16; p \<leftarrow> stn p (ip6h + 8) daddr;
               p \<leftarrow> st8 p icmp6_hdr ICMPV6_PKT_TOOBIG;
               p \<leftarrow> st8 p (icmp6_hdr + 1) 0;
               p \<leftarrow> st32 p (icmp6_hdr + 4) (bpf_htonl (of_nat (MAX_PCKT_SIZE - sizeof_eth)));
               p \<leftarrow> st16 p (icmp6_hdr + 2) 0;
               csum \<leftarrow> ipv6_csum (csum_diff E) p icmp6_hdr ICMP6_TOOBIG_PAYLOAD_SIZE 0 ip6h;
               p \<leftarrow> st16 p (icmp6_hdr + 2) (ucast csum);
               Some (XDP_TX, p) })"

definition send_icmp_too_big :: "katran_env \<Rightarrow> bytes \<Rightarrow> bool \<Rightarrow> nat \<Rightarrow> (int \<times> bytes) option" where
  "send_icmp_too_big E p is_ipv6 pckt_size =
     (let offset = (if is_ipv6 then int pckt_size - int ICMP6_TOOBIG_SIZE
                    else int pckt_size - int ICMP_TOOBIG_SIZE) in
      case xdp_adjust_tail E (0 - offset) p of
        None \<Rightarrow> Some (XDP_DROP, p)
      | Some p \<Rightarrow> if is_ipv6 then send_icmp6_too_big E p else send_icmp4_too_big E p)"

text \<open>The parsers of ICMP messages return the action, the packet and the description.\<close>

definition parse_icmpv6 ::
  "bytes \<Rightarrow> nat \<Rightarrow> packet_description \<Rightarrow> (int \<times> bytes \<times> packet_description) option" where
  "parse_icmpv6 p off pckt =
     (if length p < off + sizeof_icmp6hdr then Some (XDP_DROP, p, pckt)
      else do {
        icmp6_type \<leftarrow> ld8 p off;
        if icmp6_type = ICMPV6_ECHO_REQUEST then
          do { (a, p) \<leftarrow> send_icmp6_reply p; Some (a, p, pckt) }
        else if icmp6_type \<noteq> ICMPV6_PKT_TOOBIG \<and> icmp6_type \<noteq> ICMPV6_DEST_UNREACH
        then Some (XDP_PASS, p, pckt)
        else
          let ip6h = off + sizeof_icmp6hdr in
          if length p < ip6h + sizeof_ipv6hdr then Some (XDP_DROP, p, pckt)
          else do { nexthdr \<leftarrow> ld8 p (ip6h + 6);
                    daddr \<leftarrow> ld_addr p (ip6h + 24);
                    saddr \<leftarrow> ld_addr p (ip6h + 8);
                    Some (FURTHER_PROCESSING, p,
                      pckt\<lparr>pflags := pflags pckt OR F_ICMP,
                           flow := (flow pckt)\<lparr>proto := nexthdr, src := daddr, dst := saddr\<rparr>\<rparr>) } })"

definition parse_icmp ::
  "bytes \<Rightarrow> nat \<Rightarrow> packet_description \<Rightarrow> (int \<times> bytes \<times> packet_description) option" where
  "parse_icmp p off pckt =
     (if length p < off + sizeof_icmphdr then Some (XDP_DROP, p, pckt)
      else do {
        type \<leftarrow> ld8 p off;
        if type = ICMP_ECHO then do { (a, p) \<leftarrow> send_icmp_reply p; Some (a, p, pckt) }
        else if type \<noteq> ICMP_DEST_UNREACH then Some (XDP_PASS, p, pckt)
        else
          let iph = off + sizeof_icmphdr in
          if length p < iph + sizeof_iphdr then Some (XDP_DROP, p, pckt)
          else do { vihl \<leftarrow> ld8 p iph;
                    if vihl AND 0x0F \<noteq> 5 then Some (XDP_DROP, p, pckt)
                    else do { protocol \<leftarrow> ld8 p (iph + 9);
                              daddr \<leftarrow> ld32 p (iph + 16);
                              saddr \<leftarrow> ld32 p (iph + 12);
                              Some (FURTHER_PROCESSING, p,
                                pckt\<lparr>pflags := pflags pckt OR F_ICMP,
                                     flow := (flow pckt)\<lparr>proto := protocol,
                                       src := set_v4 (src (flow pckt)) daddr,
                                       dst := set_v4 (dst (flow pckt)) saddr\<rparr>\<rparr>) } } })"

section \<open>Bounds of the parsers\<close>

lemma parse_udp_wp [wp_rules]:
  "wp (parse_udp p v6 pckt) Q \<longleftrightarrow>
    (let udp = calc_offset v6 (is_icmp_pckt pckt) in
     if length p < udp + 8 then Q None
     else Q (Some (set_ports (is_icmp_pckt pckt) (of_nat (le_val (take 2 (drop udp p))))
                   (of_nat (le_val (take 2 (drop (udp + 2) p)))) pckt)))"
  by (auto simp: parse_udp_def Let_def wp_rules)

lemma parse_tcp_safe: "wp (parse_tcp p v6 pckt) (\<lambda>_. True)"
  by (auto simp: parse_tcp_def Let_def wp_rules)

lemma parse_quic_safe: "wp (parse_quic p v6 pckt) (\<lambda>r. r = -1 \<or> r = 3)"
  by (auto simp: parse_quic_def Let_def wp_rules)

lemma decrement_ttl_safe:
  "wp (decrement_ttl p off v6) (\<lambda>(a, q). length q = length p \<and> (a = XDP_DROP \<or> a = FURTHER_PROCESSING))"
  by (auto simp: decrement_ttl_def Let_def wp_rules)

lemma swap_mac_and_send_safe:
  "14 \<le> length p \<Longrightarrow> wp (swap_mac_and_send p) (\<lambda>(a, q). length q = length p \<and> a = XDP_TX)"
  by (auto simp: swap_mac_and_send_def wp_rules)

lemma swap_mac_safe:
  "off + 14 \<le> length p \<Longrightarrow> wp (swap_mac p off) (\<lambda>q. length q = length p)"
  by (auto simp: swap_mac_def wp_rules)


lemma csum_inline_safe [safe_elims]:
  "length p = n \<Longrightarrow> iph + 20 \<le> n \<Longrightarrow> (\<And>x. length p = n \<Longrightarrow> wp (f x) Q) \<Longrightarrow> wp (ipv4_csum_inline p iph 0 \<bind> f) Q"
  by (simp add: wp_bind ipv4_csum_inline_wp)

lemma send_icmp_reply_safe:
  "wp (send_icmp_reply p) (\<lambda>(a, q). length q = length p \<and> (a = XDP_DROP \<or> a = XDP_TX))"
  unfolding send_icmp_reply_def Let_def swap_mac_and_send_def
  by (rule safe_start [of p]) (erule safe_elims | rule safe_intros | simp)+

lemma send_icmp6_reply_safe:
  "wp (send_icmp6_reply p) (\<lambda>(a, q). length q = length p \<and> (a = XDP_DROP \<or> a = XDP_TX))"
  unfolding send_icmp6_reply_def Let_def swap_mac_and_send_def
  by (rule safe_start [of p]) (erule safe_elims | rule safe_intros | simp)+

lemma swap_mac_safe_bind [safe_elims]:
  "length p = n \<Longrightarrow> off + 14 \<le> n \<Longrightarrow> (\<And>q. length q = n \<Longrightarrow> wp (f q) Q) \<Longrightarrow> wp (swap_mac p off \<bind> f) Q"
  by (rule safe_bind [OF swap_mac_safe]) simp_all

lemma st_nibble_safe [safe_elims]:
  "length p = n \<Longrightarrow> off < n \<Longrightarrow> (\<And>q. length q = n \<Longrightarrow> wp (f q) Q) \<Longrightarrow> wp (st_hi_nibble p off v \<bind> f) Q"
  "length p = n \<Longrightarrow> off < n \<Longrightarrow> (\<And>q. length q = n \<Longrightarrow> wp (f q) Q) \<Longrightarrow> wp (st_lo_nibble p off v \<bind> f) Q"
  by (simp_all add: st_hi_nibble_def st_lo_nibble_def wp_rules)

lemma csum_diff_safe [safe_elims]:
  "length p = n \<Longrightarrow> off + k \<le> n \<Longrightarrow> (\<And>x. length p = n \<Longrightarrow> wp (f x) Q) \<Longrightarrow>
    wp (ipv4_csum cd p off k c \<bind> f) Q"
  "length p = n \<Longrightarrow> off + k \<le> n \<Longrightarrow> ip6h + 40 \<le> n \<Longrightarrow> (\<And>x. length p = n \<Longrightarrow> wp (f x) Q) \<Longrightarrow>
    wp (ipv6_csum cd p off k c ip6h \<bind> f) Q"
  by (simp_all add: ipv4_csum_def ipv6_csum_def wp_rules Let_def)

lemma safe_ld_addr [safe_elims]:
  "length p = n \<Longrightarrow> off + 16 \<le> n \<Longrightarrow> (\<And>x. length p = n \<Longrightarrow> wp (f x) Q) \<Longrightarrow> wp (ld_addr p off \<bind> f) Q"
  by (simp add: ld_addr_def wp_rules)

lemma safe_st_addr [safe_elims]:
  "length p = n \<Longrightarrow> off + 16 \<le> n \<Longrightarrow> (\<And>q. length q = n \<Longrightarrow> wp (f q) Q) \<Longrightarrow> wp (st_addr p off a \<bind> f) Q"
  by (cases a) (simp add: st_addr_def wp_rules)

text \<open>
  The ICMP generators grow the packet by the headers they put in front of it, or drop it.
\<close>

lemma send_icmp4_too_big_safe:
  "wp (send_icmp4_too_big E p) (\<lambda>(a, q). a = XDP_DROP \<or> a = XDP_TX)"
proof (cases "xdp_adjust_head E (- int (sizeof_iphdr + sizeof_icmphdr)) p")
  case (Some q)
  show ?thesis
    unfolding send_icmp4_too_big_def Let_def Some option.case
    by (rule safe_start [of q]) (erule safe_elims | rule safe_intros | simp)+
qed (simp add: send_icmp4_too_big_def)

lemma send_icmp6_too_big_safe:
  "wp (send_icmp6_too_big E p) (\<lambda>(a, q). a = XDP_DROP \<or> a = XDP_TX)"
proof (cases "xdp_adjust_head E (- int (sizeof_ipv6hdr + sizeof_icmp6hdr)) p")
  case (Some q)
  show ?thesis
    unfolding send_icmp6_too_big_def Let_def Some option.case
    by (rule safe_start [of q]) (erule safe_elims | rule safe_intros | simp)+
qed (simp add: send_icmp6_too_big_def)

lemma send_icmp_too_big_safe:
  shows "wp (send_icmp_too_big E p v6 n) (\<lambda>(a, q). a = XDP_DROP \<or> a = XDP_TX)"
  using send_icmp4_too_big_safe send_icmp6_too_big_safe
  by (simp add: send_icmp_too_big_def Let_def split: option.split)

lemma parse_icmp_safe:
  "wp (parse_icmp p off pckt) (\<lambda>(a, q, d). length q = length p \<and>
     (a = XDP_DROP \<or> a = XDP_TX \<or> a = XDP_PASS \<or> a = FURTHER_PROCESSING) \<and> (a = FURTHER_PROCESSING \<longrightarrow> q = p))"
  unfolding parse_icmp_def Let_def
  by (rule safe_start [of p])
    (erule safe_elims | rule safe_intros safe_bind [OF send_icmp_reply_safe] | simp add: split_beta | fastforce)+

lemma parse_icmpv6_safe:
  "wp (parse_icmpv6 p off pckt) (\<lambda>(a, q, d). length q = length p \<and>
     (a = XDP_DROP \<or> a = XDP_TX \<or> a = XDP_PASS \<or> a = FURTHER_PROCESSING) \<and> (a = FURTHER_PROCESSING \<longrightarrow> q = p))"
  unfolding parse_icmpv6_def Let_def
  by (rule safe_start [of p])
    (erule safe_elims | rule safe_intros safe_bind [OF send_icmp6_reply_safe] | simp add: split_beta | fastforce)+

section \<open>Checksums under header rewriting\<close>

lemma put_other: "off + length bs \<le> length p \<Longrightarrow> i < off \<or> off + length bs \<le> i \<Longrightarrow> i < length p \<Longrightarrow>
    put p off bs ! i = p ! i"
  by (auto simp: nth_put)

text \<open>
  Adding one to a checksum with the end-around carry: \<open>decrement_ttl\<close> does it to
  compensate for the decremented byte.
\<close>

lemma inc_check:
  fixes c :: u16
  defines "s \<equiv> ucast c + 0x0001 :: u32"
  shows "unat (ucast ((s AND 0xFFFF) + drop_bit 16 s) :: u16) = (if unat c = 65535 then 1 else unat c + 1)"
proof -
  have c: "unat c < 65536" by (rule unat_lt_u16)
  have s: "unat s = unat c + 1"
    using c unat_inc [of "ucast c :: u32"] by (simp add: s_def unat_ucast_up)
  have "unat ((s AND 0xFFFF) + drop_bit 16 s) = unat s mod 65536 + unat s div 65536"
    using c s by (subst unat_add_small) (simp_all add: unat_and_ffff unat_drop_bit_16)
  then have "unat ((s AND 0xFFFF) + drop_bit 16 s) = (if unat c = 65535 then 1 else unat c + 1)"
    using c s by auto
  then show ?thesis
    using c by (subst unat_ucast_small) auto
qed

lemma decrement_ttl_v4_result:
  assumes "off + 20 \<le> length p" and "2 \<le> unat (p ! (off + 8))"
  defines "c \<equiv> of_nat (le_val (take 2 (drop (off + 10) p))) :: u16"
  shows "\<exists>w. decrement_ttl p off False =
      Some (FURTHER_PROCESSING, put (put p (off + 8) [p ! (off + 8) - 1]) (off + 10) (le_bytes 2 w)) \<and>
    w = (if unat c = 65535 then 1 else unat c + 1)"
proof -
  let ?t = "p ! (off + 8)"
  let ?p1 = "put p (off + 8) [?t - 1]"
  let ?s = "ucast c + 0x0001 :: u32"
  have nz: "?t - 1 \<noteq> 0" using assms(2) by (auto simp: word_eq_iff_unsigned)
  have c1: "take 2 (drop (off + 10) ?p1) = take 2 (drop (off + 10) p)"
    using assms(1) by (intro slice_put_disjoint) auto
  have "wp (decrement_ttl p off False) (\<lambda>r. r = (FURTHER_PROCESSING,
      put ?p1 (off + 10) (le_bytes 2 (unat (ucast ((?s AND 0xFFFF) + drop_bit 16 ?s) :: u16)))))"
    using assms(1) nz c1 by (simp add: decrement_ttl_def wp_rules Let_def c_def)
  then show ?thesis
    using inc_check [of c] by (auto simp: wp_iff)
qed

text \<open>
  \<open>decrement_ttl\<close> on an IPv4 header whose time to live is at least 2 continues
  processing, lowers that byte by one, changes no other byte but the checksum, and adjusts
  the checksum so that a header that verified before still does.
\<close>

lemma decrement_ttl_keeps_checksum:
  assumes "off + 20 \<le> length p" and "2 \<le> unat (p ! (off + 8))" and "csum_valid (ip_hdr p off)"
  shows "\<exists>q. decrement_ttl p off False = Some (FURTHER_PROCESSING, q) \<and>
    q ! (off + 8) = p ! (off + 8) - 1 \<and> csum_valid (ip_hdr q off) \<and> length q = length p \<and>
    (\<forall>i < length p. i \<notin> {off + 8, off + 10, off + 11} \<longrightarrow> q ! i = p ! i)"
proof -
  let ?h = "ip_hdr p off"
  let ?t = "p ! (off + 8)"
  define c where "c = unat (of_nat (le_val (take 2 (drop (off + 10) p))) :: u16)"
  define w where "w = (if c = 65535 then 1 else c + 1)"
  define q where "q = put (put p (off + 8) [?t - 1]) (off + 10) (le_bytes 2 w)"
  have r: "decrement_ttl p off False = Some (FURTHER_PROCESSING, q)"
    using decrement_ttl_v4_result [OF assms(1,2)] by (simp add: q_def w_def c_def)
  have cb: "c < 65536" unfolding c_def by (rule unat_lt_u16)
  have lv: "le_val (take 2 (drop 10 ?h)) = c"
    using assms(1) by (simp add: slice_ip_hdr c_def unat_ld16)
  have hq: "ip_hdr q off = put (put ?h 8 [?h ! 8 - 1]) 10 (le_bytes 2 w)"
    using assms(1) by (simp add: q_def slice_put_in)
  have "csum_valid (ip_hdr q off)"
    unfolding hq using assms cb lv by (intro ttl_decrement_valid) (auto simp: w_def)
  moreover have "q ! (off + 8) = ?t - 1"
    using assms(1) by (simp add: q_def nth_put)
  moreover have "\<forall>i < length p. i \<notin> {off + 8, off + 10, off + 11} \<longrightarrow> q ! i = p ! i"
    using assms(1) by (auto simp: q_def nth_put)
  ultimately show ?thesis using r assms(1) by (auto simp: q_def)
qed

lemma decrement_ttl_keeps_checksum_witness:
  "\<exists>q. decrement_ttl [0x45, 0, 0, 20, 0, 0, 0, 0, 64, 6, 0x6A, 0xD1, 1, 2, 3, 4, 5, 6, 7, 8] 0 False
    = Some (FURTHER_PROCESSING, q) \<and> csum_valid (ip_hdr q 0)"
proof -
  let ?p = "[0x45, 0, 0, 20, 0, 0, 0, 0, 64, 6, 0x6A, 0xD1, 1, 2, 3, 4, 5, 6, 7, 8] :: bytes"
  have "csum_valid (ip_hdr ?p 0)" by (simp add: csum_valid_def oc_def)
  moreover have "0 + 20 \<le> length ?p" "2 \<le> unat (?p ! (0 + 8))" by simp_all
  ultimately show ?thesis using decrement_ttl_keeps_checksum [of 0 ?p] by blast
qed

lemma swap_halves:
  "length e = 14 \<Longrightarrow> put (put e 6 (take 6 e)) 0 (take 6 (drop 6 e)) = take 6 (drop 6 e) @ take 6 e @ drop 12 e"
  by (simp add: put_def)

lemma send_icmp_reply_result:
  assumes "length e = 14" "length h = 20" "8 \<le> length m"
  defines "m' \<equiv> put (put m 0 [0]) 2 (le_bytes 2 (unat (of_nat (le_val (take 2 (drop 2 m))) + 8 :: u16)))"
  defines "h' \<equiv> put (put (put (put h 8 [64]) 16 (take 4 (drop 12 h))) 12 (drop 16 h)) 10 [0, 0]"
  shows "send_icmp_reply (e @ h @ m) =
    Some (XDP_TX, take 6 (drop 6 e) @ take 6 e @ drop 12 e @
       put h' 10 (le_bytes 2 (65535 - oc (sum16 h'))) @ m')"
proof -
  have m: "m \<noteq> []" using assms(3) by auto
  have "wp (send_icmp_reply (e @ h @ m)) (\<lambda>r. r = (XDP_TX, take 6 (drop 6 e) @ take 6 e @ drop 12 e @
       put h' 10 (le_bytes 2 (65535 - oc (sum16 h'))) @ m'))"
    unfolding send_icmp_reply_def Let_def swap_mac_and_send_def
    using assms(1-3) m
    by (simp add: wp_rules seg_simps)
      (simp add: slice_put_disjoint drop_put_below le_bytes_ld32 h'_def m'_def unat_stamp swap_halves)
  then show ?thesis by (simp add: wp_iff)
qed

lemma icmp_checksum_bump:
  assumes "8 \<le> length m" "m ! 0 = 8" "csum_valid m"
  defines "c \<equiv> le_val (take 2 (drop 2 m))"
  shows "csum_valid (put (put m 0 [0]) 2 (le_bytes 2 (unat (of_nat c + 8 :: u16)))) \<longleftrightarrow> c < 0xFFF8"
proof -
  let ?m1 = "put m 0 [0]"
  define w where "w = unat (of_nat c + 8 :: u16)"
  define m' where "m' = put ?m1 2 (le_bytes 2 w)"
  have cb: "c < 65536" using le_val_bound [of "take 2 (drop 2 m)"] assms(1) by (simp add: c_def)
  have wv: "w = (c + 8) mod 65536" using cb by (simp add: w_def unat_word_ariths unat_of_nat)
  have nem: "m \<noteq> []" using assms(1) by auto
  have "sum16 m' + c = sum16 ?m1 + w mod 65536"
    using sum16_put2 [of 2 ?m1 w] assms(1) nem by (simp add: m'_def c_def slice_put_disjoint)
  moreover have "sum16 ?m1 + 8 = sum16 m"
    using sum16_put1 [of 0 m 0] assms(2) nem by simp
  ultimately have s: "sum16 m' + c + 8 = sum16 m + w" using wv by simp
  have v: "sum16 m mod 65535 = 0" "sum16 m \<noteq> 0" using assms(3) by (simp_all add: csum_valid_def oc_full_iff)
  show ?thesis unfolding w_def [symmetric] m'_def [symmetric]
  proof (cases "c < 0xFFF8")
    case True
    then have "sum16 m' = sum16 m" using s wv by simp
    then show "csum_valid m' \<longleftrightarrow> c < 0xFFF8" using True assms(3) by (simp add: csum_valid_def)
  next
    case False
    then have "w = c + 8 - 65536" using cb by (simp add: wv le_mod_geq)
    then have "sum16 m = sum16 m' + 1 + 65535" using s False by simp
    then have "(sum16 m' + 1) mod 65535 = 0" using v(1) mod_add_self2 [of "sum16 m' + 1" 65535] by (simp only:)
    then have "sum16 m' mod 65535 \<noteq> 0" by (auto simp: mod_Suc split: if_splits)
    then show "csum_valid m' \<longleftrightarrow> c < 0xFFF8" using False by (simp add: csum_valid_def oc_full_iff)
  qed
qed

text \<open>
  A well-formed echo request (ICMP type 8, at least 42 bytes) is answered in
  place: MAC and IPv4 addresses swapped, time to live 64, a valid IPv4 header checksum, ICMP
  type 0, and everything behind the ICMP checksum unchanged. If the ICMP checksum of the
  request was valid, that of the reply is valid exactly when the 16-bit addition of 8 did
  not wrap: from 0xFFF8 on the end-around carry is lost.
\<close>

lemma icmp_echo_reply_correct:
  assumes "42 \<le> length p" and "p ! 34 = ICMP_ECHO" and "csum_valid (drop 34 p)"
  shows "\<exists>q. send_icmp_reply p = Some (XDP_TX, q) \<and> length q = length p \<and>
    take 6 q = take 6 (drop 6 p) \<and> take 6 (drop 6 q) = take 6 p \<and>
    take 4 (drop 26 q) = take 4 (drop 30 p) \<and> take 4 (drop 30 q) = take 4 (drop 26 p) \<and>
    q ! 22 = 64 \<and> csum_valid (ip_hdr q 14) \<and> q ! 34 = ICMP_ECHOREPLY \<and> drop 38 q = drop 38 p \<and>
    (csum_valid (drop 34 q) \<longleftrightarrow> le_val (take 2 (drop 36 p)) < 0xFFF8)"
proof -
  define e h m where "e = take 14 p" and "h = ip_hdr p 14" and "m = drop 34 p"
  define c where "c = (of_nat (le_val (take 2 (drop 2 m))) :: u16)"
  define m' where "m' = put (put m 0 [0]) 2 (le_bytes 2 (unat (c + 8)))"
  define h' where "h' = put (put (put (put h 8 [64]) 16 (take 4 (drop 12 h))) 12 (drop 16 h)) 10 [0, 0]"
  define h'' where "h'' = put h' 10 (le_bytes 2 (65535 - oc (sum16 h')))"
  define q where "q = take 6 (drop 6 e) @ take 6 e @ drop 12 e @ h'' @ m'"
  have len: "length e = 14" "length h = 20" "8 \<le> length m" "length h' = 20" "length h'' = 20"
    "length m' = length m"
    using assms(1) by (simp_all add: e_def h_def m_def h'_def h''_def m'_def)
  have nem: "m \<noteq> []" using len(3) by auto
  have p: "p = e @ h @ m" using split3 [of 14 p 20] by (simp add: e_def h_def m_def)
  have "send_icmp_reply p = Some (XDP_TX, q)"
    using send_icmp_reply_result [OF len(1-3)] by (simp add: p q_def h''_def h'_def m'_def c_def)
  moreover have "csum_valid h''"
    using stamped_header_valid [of 0 h'] len by (simp add: h''_def h'_def slice_put_same)
  moreover have "take 4 (drop 12 h'') = take 4 (drop 16 h)" "take 4 (drop 16 h'') = take 4 (drop 12 h)"
    "h'' ! 8 = 64"
    using len(2) by (simp_all add: h''_def h'_def slice_put_disjoint slice_put_same nth_put drop_put_below drop_put_end)
  moreover have "m' ! 0 = 0" "drop 4 m' = drop 4 m"
    using len(3) nem by (simp_all add: m'_def nth_put drop_put_below)
  moreover have "csum_valid m' \<longleftrightarrow> le_val (take 2 (drop 2 m)) < 0xFFF8"
    using icmp_checksum_bump [of m] len(3) assms(1-3) by (simp add: m'_def c_def m_def)
  ultimately show ?thesis
    using len by (intro exI [of _ q]) (simp add: q_def p nth_append)
qed

lemma icmp_echo_reply_correct_witness:
  "\<exists>q. send_icmp_reply (replicate 34 0 @ [8, 0, 0xF7, 0xFF, 0, 0, 0, 0]) = Some (XDP_TX, q) \<and>
    csum_valid (drop 34 q)"
proof -
  let ?p = "replicate 34 0 @ [8, 0, 0xF7, 0xFF, 0, 0, 0, 0] :: bytes"
  have "csum_valid (drop 34 ?p)" by (simp add: csum_valid_def oc_def)
  moreover have "?p ! 34 = ICMP_ECHO" by (simp add: nth_append)
  ultimately obtain q where "send_icmp_reply ?p = Some (XDP_TX, q)"
    "csum_valid (drop 34 q) \<longleftrightarrow> le_val (take 2 (drop 36 ?p)) < 0xFFF8"
    using icmp_echo_reply_correct [of ?p] by auto
  then show ?thesis by simp
qed

end
