(* ===== verification/Katran_Encap.thy ===== *)
theory Katran_Encap
  imports Katran_Parsing
begin

text \<open>
  Encapsulation: encap_helpers.h (the outer headers) and pckt_encap.h (IPIP and GUE
  encapsulation towards a real server, and the inverse decapsulation). The functions that
  return \<open>bool\<close> return it beside the packet, which the kernel may have moved already when
  a later check fails.
\<close>

section \<open>Outer headers\<close>

definition create_v4_hdr :: "bytes \<Rightarrow> nat \<Rightarrow> u8 \<Rightarrow> u32 \<Rightarrow> u32 \<Rightarrow> u16 \<Rightarrow> u8 \<Rightarrow> bytes option" where
  "create_v4_hdr p iph tos_v saddr daddr pkt_bytes proto_v =
     do { p \<leftarrow> st_hi_nibble p iph 4;
          p \<leftarrow> st_lo_nibble p iph 5;
          p \<leftarrow> st16 p (iph + 6) 0;
          p \<leftarrow> st8 p (iph + 9) proto_v;
          p \<leftarrow> st16 p (iph + 10) 0;
          p \<leftarrow> st8 p (iph + 1) tos_v;
          p \<leftarrow> st16 p (iph + 2) (bpf_htons (pkt_bytes + of_nat sizeof_iphdr));
          p \<leftarrow> st32 p (iph + 16) daddr;
          p \<leftarrow> st32 p (iph + 12) saddr;
          p \<leftarrow> st8 p (iph + 8) DEFAULT_TTL;
          csum \<leftarrow> ipv4_csum_inline p iph 0;
          st16 p (iph + 10) (ucast csum) }"

definition create_v6_hdr :: "bytes \<Rightarrow> nat \<Rightarrow> u8 \<Rightarrow> addr \<Rightarrow> addr \<Rightarrow> u16 \<Rightarrow> u8 \<Rightarrow> bytes option" where
  "create_v6_hdr p ip6h tc saddr daddr payload_len proto_v =
     do { p \<leftarrow> st_hi_nibble p ip6h 6;
          p \<leftarrow> stn p (ip6h + 1) [0, 0, 0];
          p \<leftarrow> st_lo_nibble p ip6h (drop_bit 4 (tc AND 0xF0));
          p \<leftarrow> st8 p (ip6h + 1) (push_bit 4 (tc AND 0x0F));
          p \<leftarrow> st8 p (ip6h + 6) proto_v;
          p \<leftarrow> st16 p (ip6h + 4) (bpf_htons payload_len);
          p \<leftarrow> st8 p (ip6h + 7) DEFAULT_TTL;
          p \<leftarrow> st_addr p (ip6h + 8) saddr;
          st_addr p (ip6h + 24) daddr }"

definition create_udp_hdr :: "bytes \<Rightarrow> nat \<Rightarrow> u16 \<Rightarrow> u16 \<Rightarrow> u16 \<Rightarrow> u16 \<Rightarrow> bytes option" where
  "create_udp_hdr p udph sport dport len csum =
     do { p \<leftarrow> st16 p udph sport;
          p \<leftarrow> st16 p (udph + 2) (bpf_htons dport);
          p \<leftarrow> st16 p (udph + 4) (bpf_htons len);
          st16 p (udph + 6) csum }"

section \<open>Encapsulation\<close>

text \<open>The new Ethernet header takes its destination from the control map.\<close>

definition new_eth_hdr :: "bytes \<Rightarrow> ctl_value \<Rightarrow> nat \<Rightarrow> u16 \<Rightarrow> bytes option" where
  "new_eth_hdr p cval old_eth eth_proto =
     do { p \<leftarrow> stn p 0 (ctl_mac cval);
          d \<leftarrow> ldn p old_eth 6;
          p \<leftarrow> stn p 6 d;
          st16 p 12 eth_proto }"

definition encap_v6 :: "katran_env \<Rightarrow> bytes \<Rightarrow> ctl_value \<Rightarrow> bool \<Rightarrow> packet_description \<Rightarrow>
    real_definition \<Rightarrow> u32 \<Rightarrow> (bool \<times> bytes) option" where
  "encap_v6 E p cval is_ipv6 pckt d pkt_bytes =
     (case xdp_adjust_head E (0 - int sizeof_ipv6hdr) p of
        None \<Rightarrow> Some (False, p)
      | Some p \<Rightarrow>
        let new_eth = 0; ip6h = sizeof_eth; old_eth = sizeof_ipv6hdr in
        if length p < new_eth + sizeof_eth \<or> length p < old_eth + sizeof_eth \<or>
           length p < ip6h + sizeof_ipv6hdr then Some (False, p)
        else do {
          p \<leftarrow> new_eth_hdr p cval old_eth BE_ETH_P_IPV6;
          let (proto_v, ip_suffix, payload_len) =
            (if is_ipv6 then
               (IPPROTO_IPV6, v6_word3 (src (flow pckt)) XOR ucast (port0 (flow pckt)),
                ucast (pkt_bytes + of_nat sizeof_ipv6hdr) :: u16)
             else
               (IPPROTO_IPIP, v4_of (src (flow pckt)) XOR ucast (port0 (flow pckt)),
                ucast pkt_bytes));
          let saddr = (IPIP_V6_PREFIX1, IPIP_V6_PREFIX2, IPIP_V6_PREFIX3, ip_suffix);
          p \<leftarrow> create_v6_hdr p ip6h (tos pckt) saddr (rdst d) payload_len proto_v;
          Some (True, p) })"

definition encap_v4_saddr :: "packet_description \<Rightarrow> u32" where
  "encap_v4_saddr pckt =
     (let ip_suffix = push_bit 16 (ucast (bpf_htons (port0 (flow pckt)))) XOR v4_of (src (flow pckt)) in
      (0xFFFF0000 AND ip_suffix) OR IPIP_V4_PREFIX)"

definition encap_v4 :: "katran_env \<Rightarrow> bytes \<Rightarrow> ctl_value \<Rightarrow> packet_description \<Rightarrow>
    real_definition \<Rightarrow> u32 \<Rightarrow> (bool \<times> bytes) option" where
  "encap_v4 E p cval pckt d pkt_bytes =
     (case xdp_adjust_head E (0 - int sizeof_iphdr) p of
        None \<Rightarrow> Some (False, p)
      | Some p \<Rightarrow>
        let new_eth = 0; iph = sizeof_eth; old_eth = sizeof_iphdr in
        if length p < new_eth + sizeof_eth \<or> length p < old_eth + sizeof_eth \<or>
           length p < iph + sizeof_iphdr then Some (False, p)
        else do {
          p \<leftarrow> new_eth_hdr p cval old_eth BE_ETH_P_IP;
          p \<leftarrow> create_v4_hdr p iph (tos pckt) (encap_v4_saddr pckt) (v4_of (rdst d))
                 (ucast pkt_bytes) IPPROTO_IPIP;
          Some (True, p) })"

definition gue_encap_v4 :: "katran_env \<Rightarrow> (u32 \<rightharpoonup> real_definition) \<Rightarrow> bytes \<Rightarrow> ctl_value \<Rightarrow>
    packet_description \<Rightarrow> real_definition \<Rightarrow> u32 \<Rightarrow> (bool \<times> bytes) option" where
  "gue_encap_v4 E srcs p cval pckt d pkt_bytes =
     (case srcs V4_SRC_INDEX of
        None \<Rightarrow> Some (False, p)
      | Some s \<Rightarrow>
        let ipv4_src = v4_of (rdst s);
            sport = bpf_htons (port0 (flow pckt)) XOR
                      ucast (drop_bit 16 (v4_of (src (flow pckt))) AND 0xFFFF) in
        case xdp_adjust_head E (0 - int (sizeof_iphdr + sizeof_udphdr)) p of
          None \<Rightarrow> Some (False, p)
        | Some p \<Rightarrow>
          let new_eth = 0; iph = sizeof_eth; udph = iph + sizeof_iphdr;
              old_eth = sizeof_iphdr + sizeof_udphdr in
          if length p < new_eth + sizeof_eth \<or> length p < old_eth + sizeof_eth \<or>
             length p < iph + sizeof_iphdr \<or> length p < udph + sizeof_udphdr then Some (False, p)
          else do {
            p \<leftarrow> new_eth_hdr p cval old_eth BE_ETH_P_IP;
            p \<leftarrow> create_udp_hdr p udph sport GUE_DPORT (ucast (pkt_bytes + of_nat sizeof_udphdr)) GUE_CSUM;
            p \<leftarrow> create_v4_hdr p iph (tos pckt) ipv4_src (v4_of (rdst d))
                   (ucast (pkt_bytes + of_nat sizeof_udphdr)) IPPROTO_UDP;
            Some (True, p) })"

definition gue_encap_v6 :: "katran_env \<Rightarrow> (u32 \<rightharpoonup> real_definition) \<Rightarrow> bytes \<Rightarrow> ctl_value \<Rightarrow> bool \<Rightarrow>
    packet_description \<Rightarrow> real_definition \<Rightarrow> u32 \<Rightarrow> (bool \<times> bytes) option" where
  "gue_encap_v6 E srcs p cval is_ipv6 pckt d pkt_bytes =
     (case srcs V6_SRC_INDEX of
        None \<Rightarrow> Some (False, p)
      | Some s \<Rightarrow>
        case xdp_adjust_head E (0 - int (sizeof_ipv6hdr + sizeof_udphdr)) p of
          None \<Rightarrow> Some (False, p)
        | Some p \<Rightarrow>
          let new_eth = 0; ip6h = sizeof_eth; udph = ip6h + sizeof_ipv6hdr;
              old_eth = sizeof_ipv6hdr + sizeof_udphdr in
          if length p < new_eth + sizeof_eth \<or> length p < old_eth + sizeof_eth \<or>
             length p < ip6h + sizeof_ipv6hdr \<or> length p < udph + sizeof_udphdr then Some (False, p)
          else do {
            p \<leftarrow> new_eth_hdr p cval old_eth BE_ETH_P_IPV6;
            let (sport, pkt_bytes) =
              (if is_ipv6 then
                 (ucast (v6_word3 (src (flow pckt)) AND 0xFFFF) XOR port0 (flow pckt),
                  pkt_bytes + of_nat (sizeof_ipv6hdr + sizeof_udphdr))
               else
                 (ucast (drop_bit 16 (v4_of (src (flow pckt))) AND 0xFFFF) XOR port0 (flow pckt),
                  pkt_bytes + of_nat sizeof_udphdr));
            p \<leftarrow> create_udp_hdr p udph sport GUE_DPORT (ucast pkt_bytes) GUE_CSUM;
            p \<leftarrow> create_v6_hdr p ip6h (tos pckt) (rdst s) (rdst d) (ucast pkt_bytes) IPPROTO_UDP;
            Some (True, p) })"

section \<open>Decapsulation\<close>

text \<open>
  All four decapsulations copy the outer MAC addresses in front of the inner packet and
  drop the outer headers. They do not check bounds: their callers have.
\<close>

definition decap :: "katran_env \<Rightarrow> bytes \<Rightarrow> nat \<Rightarrow> u16 \<Rightarrow> (bool \<times> bytes) option" where
  "decap E p new_eth eth_proto =
     do { s \<leftarrow> ldn p 6 6; p \<leftarrow> stn p (new_eth + 6) s;
          d \<leftarrow> ldn p 0 6; p \<leftarrow> stn p new_eth d;
          p \<leftarrow> st16 p (new_eth + 12) eth_proto;
          case xdp_adjust_head E (int new_eth) p of
            None \<Rightarrow> Some (False, p)
          | Some p \<Rightarrow> Some (True, p) }"

definition decap_v6 :: "katran_env \<Rightarrow> bytes \<Rightarrow> bool \<Rightarrow> (bool \<times> bytes) option" where
  "decap_v6 E p inner_v4 =
     decap E p sizeof_ipv6hdr (if inner_v4 then BE_ETH_P_IP else BE_ETH_P_IPV6)"

definition decap_v4 :: "katran_env \<Rightarrow> bytes \<Rightarrow> (bool \<times> bytes) option" where
  "decap_v4 E p = decap E p sizeof_iphdr BE_ETH_P_IP"

definition gue_decap_v4 :: "katran_env \<Rightarrow> bytes \<Rightarrow> (bool \<times> bytes) option" where
  "gue_decap_v4 E p = decap E p (sizeof_iphdr + sizeof_udphdr) BE_ETH_P_IP"

definition gue_decap_v6 :: "katran_env \<Rightarrow> bytes \<Rightarrow> bool \<Rightarrow> (bool \<times> bytes) option" where
  "gue_decap_v6 E p inner_v4 =
     decap E p (sizeof_ipv6hdr + sizeof_udphdr) (if inner_v4 then BE_ETH_P_IP else BE_ETH_P_IPV6)"

section \<open>What the encapsulations produce\<close>

lemma length_ctl_mac [simp]: "length (ctl_mac v) = 6"
  by (simp add: ctl_mac_def)

text \<open>The 20-byte outer header, its checksum field \<open>c\<close> and identification \<open>i\<close> apart.\<close>

definition v4_hdr :: "u8 \<Rightarrow> bytes \<Rightarrow> bytes \<Rightarrow> u32 \<Rightarrow> u32 \<Rightarrow> u16 \<Rightarrow> u8 \<Rightarrow> bytes" where
  "v4_hdr t i c saddr daddr tlen pr =
     [0x45, t] @ le_bytes 2 (unat (bpf_htons tlen)) @ i @ [0, 0, 64, pr] @ c @
     le_bytes 4 (unat saddr) @ le_bytes 4 (unat daddr)"

definition v4_hdr_stamped :: "u8 \<Rightarrow> bytes \<Rightarrow> u32 \<Rightarrow> u32 \<Rightarrow> u16 \<Rightarrow> u8 \<Rightarrow> bytes" where
  "v4_hdr_stamped t i saddr daddr tlen pr =
     v4_hdr t i (le_bytes 2 (65535 - oc (sum16 (v4_hdr t i [0, 0] saddr daddr tlen pr))))
       saddr daddr tlen pr"

lemma nibbles: "((((b AND 0x0F) OR 64) AND 0xF0) OR 5 :: u8) = 0x45"
  "((((b AND 0x0F) OR 0x60) AND 0xF0) OR 0 :: u8) = 0x60"
  by (simp_all add: bit.conj_disj_distrib2 and.assoc)

lemma v4_hdr_chain:
  assumes "length h = 20" "length n = 2" "length d = 4" "length s = 4"
  shows "put (put (put (put (put (put (put (put (put (put h 0 [x]) 0 [0x45]) 6 [0, 0]) 9 [pr]) 10 [0, 0])
      1 [t]) 2 n) 16 d) 12 s) 8 [64] =
    [0x45, t] @ n @ take 2 (drop 4 h) @ [0, 0, 64, pr] @ [0, 0] @ s @ d"
proof -
  obtain h0 h1 h2 h3 h4 h5 h6 h7 h8 h9 h10 h11 h12 h13 h14 h15 h16 h17 h18 h19 where
    "h = [h0, h1, h2, h3, h4, h5, h6, h7, h8, h9, h10, h11, h12, h13, h14, h15, h16, h17, h18, h19]"
    using assms(1) by (auto simp: length_Suc_conv numeral_eq_Suc)
  moreover obtain n0 n1 where "n = [n0, n1]" using assms(2) by (auto simp: length_Suc_conv numeral_eq_Suc)
  moreover obtain d0 d1 d2 d3 where "d = [d0, d1, d2, d3]"
    using assms(3) by (auto simp: length_Suc_conv numeral_eq_Suc)
  moreover obtain s0 s1 s2 s3 where "s = [s0, s1, s2, s3]"
    using assms(4) by (auto simp: length_Suc_conv numeral_eq_Suc)
  ultimately show ?thesis by (simp add: put_def)
qed

lemma put_v4_hdr:
  "length i = 2 \<Longrightarrow> length c = 2 \<Longrightarrow>
    put (v4_hdr t i [0, 0] saddr daddr tlen pr) 10 c = v4_hdr t i c saddr daddr tlen pr"
  by (simp add: v4_hdr_def put_def)

lemma length_v4_hdr [simp]:
  "length i = 2 \<Longrightarrow> length c = 2 \<Longrightarrow> length (v4_hdr t i c saddr daddr tlen pr) = 20"
  "length i = 2 \<Longrightarrow> length (v4_hdr_stamped t i saddr daddr tlen pr) = 20"
  by (simp_all add: v4_hdr_def v4_hdr_stamped_def)

lemma v4_hdr_stamped_valid:
  assumes "length i = 2"
  shows "csum_valid (v4_hdr_stamped t i saddr daddr tlen pr)"
proof -
  let ?h = "v4_hdr t i [0, 0] saddr daddr tlen pr"
  have "take 2 (drop 10 ?h) = [0, 0]" using assms by (simp add: v4_hdr_def)
  then have "csum_valid (put ?h 10 (le_bytes 2 (65535 - oc (sum16 ?h))))"
    using stamped_header_valid [of 0 ?h] assms by simp
  then show ?thesis using assms by (simp add: v4_hdr_stamped_def put_v4_hdr)
qed

lemma create_v4_hdr_result:
  assumes "length a = iph" "length h = 20"
  shows "create_v4_hdr (a @ h @ m) iph t saddr daddr n pr =
    Some (a @ v4_hdr_stamped t (take 2 (drop 4 h)) saddr daddr (n + 20) pr @ m)"
proof -
  let ?i = "take 2 (drop 4 h)"
  have c: "put (put (put (put (put (put (put (put (put (put h 0 [x]) 0 [0x45]) 6 [0, 0]) 9 [pr]) 10 [0, 0])
      (Suc 0) [t]) 2 (le_bytes 2 (unat (bpf_htons (n + 20))))) 16 (le_bytes 4 (unat daddr)))
      12 (le_bytes 4 (unat saddr))) 8 [64] = v4_hdr t ?i [0, 0] saddr daddr (n + 20) pr" for x
    using v4_hdr_chain [OF assms(2)] by (simp add: v4_hdr_def)
  have "wp (create_v4_hdr (a @ h @ m) iph t saddr daddr n pr)
     (\<lambda>r. r = a @ v4_hdr_stamped t ?i saddr daddr (n + 20) pr @ m)"
    unfolding create_v4_hdr_def st_hi_nibble_def st_lo_nibble_def
    using assms by (simp add: wp_rules seg_simps)
      (simp add: nth_put nibbles c put_v4_hdr unat_stamp v4_hdr_stamped_def)
  then show ?thesis by (simp add: wp_iff)
qed

lemma new_eth_hdr_result:
  assumes "length a = 14" "14 \<le> k" "k + 6 \<le> 14 + length m"
  shows "new_eth_hdr (a @ m) v k pr = Some (ctl_mac v @ take 6 (drop (k - 14) m) @ le_bytes 2 (unat pr) @ m)"
proof -
  have "wp (new_eth_hdr (a @ m) v k pr)
      (\<lambda>r. r = ctl_mac v @ take 6 (drop (k - 14) m) @ le_bytes 2 (unat pr) @ m)"
    unfolding new_eth_hdr_def using assms by (simp add: wp_rules seg_simps) (simp add: put_def)
  then show ?thesis by (simp add: wp_iff)
qed

lemma le_bytes_2: "le_bytes 2 v = [of_nat (v mod 256), of_nat (v div 256 mod 256)]"
  by (simp add: numeral_2_eq_2)

lemma take_put_below: "k \<le> off \<Longrightarrow> off \<le> length p \<Longrightarrow> take k (put p off bs) = take k p"
  by (simp add: put_def)

lemma eth_proto_bytes: "le_bytes 2 8 = [8, 0]" "le_bytes 2 56710 = [0x86, 0xDD]"
  by (simp_all add: le_bytes_2)

text \<open>
  After the kernel opened \<open>n \<ge> 20\<close> bytes in front of a packet, the new Ethernet and IP
  headers lie over the opened room and the old Ethernet header.
\<close>

lemma adjusted_segments:
  assumes "adjust_head_ok f" "f (- int n) p = Some q" "0 < n" "14 \<le> length p"
  shows "length q = n + length p" and "drop (n + 14) q = drop 14 p" and "take 6 (drop n q) = take 6 p"
    and "q = take 14 q @ take n (drop 14 q) @ drop 14 p"
proof -
  have *: "drop n q = p" "length q = n + length p"
    using adjust_head_push [OF assms(1,2)] assms(3) by auto
  then show "length q = n + length p" "drop (n + 14) q = drop 14 p" "take 6 (drop n q) = take 6 p"
    by (auto simp flip: drop_drop simp: add.commute [of n])
  then show "q = take 14 q @ take n (drop 14 q) @ drop 14 p"
    using split3 [of 14 q n] by (simp add: add.commute)
qed

lemma encap_v4_result:
  assumes "adjust_head_ok (xdp_adjust_head E)" "14 \<le> length p"
    and "xdp_adjust_head E (- 20) p = Some q"
  shows "\<exists>i. length i = 2 \<and> encap_v4 E p cval pckt d n = Some (True,
    ctl_mac cval @ take 6 p @ [8, 0] @
    v4_hdr_stamped (tos pckt) i (encap_v4_saddr pckt) (v4_of (rdst d)) (ucast n + 20) IPPROTO_IPIP @
    drop 14 p)"
proof -
  define a h where "a = take 14 q" and "h = take 20 (drop 14 q)"
  have len: "length q = 20 + length p" and q: "q = a @ h @ drop 14 p" and d: "take 6 (drop 20 q) = take 6 p"
    using adjusted_segments [OF assms(1), of 20 p q] assms(2,3) by (simp_all add: a_def h_def)
  have la: "length a = 14" and lh: "length h = 20" using len assms(2) by (simp_all add: a_def h_def)
  have d': "take 6 (drop 6 (h @ drop 14 p)) = take 6 p"
    using d la by (subst (asm) q) simp
  have "new_eth_hdr q cval 20 BE_ETH_P_IP = Some ((ctl_mac cval @ take 6 p @ [8, 0]) @ h @ drop 14 p)"
    using new_eth_hdr_result [of a 20 "h @ drop 14 p" cval BE_ETH_P_IP] la lh d'
    by (simp add: q [symmetric] eth_proto_bytes)
  then show ?thesis
    using assms(3) len assms(2) create_v4_hdr_result [of "ctl_mac cval @ take 6 p @ [8, 0]" 14 h] lh
    by (intro exI [of _ "take 2 (drop 4 h)"]) (simp add: encap_v4_def Let_def)
qed

text \<open>The kernel grants the removal of \<open>n\<close> bytes at the head of every packet of this length.\<close>

definition head_removable :: "katran_env \<Rightarrow> nat \<Rightarrow> nat \<Rightarrow> bool" where
  "head_removable E n len \<longleftrightarrow> (\<forall>p. length p = len \<longrightarrow> xdp_adjust_head E (int n) p \<noteq> None)"

text \<open>\<open>decap\<close> succeeds exactly when the kernel removes the header, and what it then leaves.\<close>

lemma decap_result:
  assumes "adjust_head_ok (xdp_adjust_head E)" and "12 \<le> n" "n + 14 \<le> length p"
  shows "wp (decap E p n pr)
    (\<lambda>(ok, q). (ok \<longrightarrow> q = take 12 p @ le_bytes 2 (unat pr) @ drop (n + 14) p) \<and> (head_removable E n (length p) \<longrightarrow> ok))"
proof -
  let ?r = "put (put (put p (n + 6) (take 6 (drop 6 p))) n (take 6 p)) (n + 12) (le_bytes 2 (unat pr))"
  have t: "take 12 p = take 6 p @ take 6 (drop 6 p)"
    using take_add [of 6 6 p] by simp
  have r: "drop n ?r = take 12 p @ le_bytes 2 (unat pr) @ drop (n + 14) p"
    unfolding t using assms(2,3) by (simp add: put_def add.commute [of 14 n])
  have "q = drop n ?r" if "xdp_adjust_head E (int n) ?r = Some q" for q
    using adjust_head_pull [OF assms(1) that] by simp
  moreover have "xdp_adjust_head E (int n) ?r \<noteq> None" if "head_removable E n (length p)"
    using that assms(2,3) by (simp add: head_removable_def)
  ultimately show ?thesis
    unfolding decap_def using assms(2,3) r by (auto simp: wp_rules take_put_below)
qed

lemma decap_succeeds:
  assumes "adjust_head_ok (xdp_adjust_head E)" "12 \<le> n" "n + 14 \<le> length p" "head_removable E n (length p)"
  shows "decap E p n pr = Some (True, take 12 p @ le_bytes 2 (unat pr) @ drop (n + 14) p)"
  using decap_result [OF assms(1-3), of pr] assms(4) by (auto simp: wp_iff)

section \<open>Bounds\<close>

lemma new_eth_hdr_safe [safe_elims]:
  "length p = n \<Longrightarrow> 14 \<le> n \<Longrightarrow> k + 6 \<le> n \<Longrightarrow> (\<And>q. length q = n \<Longrightarrow> wp (f q) Q) \<Longrightarrow>
    wp (new_eth_hdr p v k pr \<bind> f) Q"
  by (simp add: new_eth_hdr_def wp_rules)

lemma create_hdr_safe [safe_elims]:
  "length p = n \<Longrightarrow> off + 20 \<le> n \<Longrightarrow> (\<And>q. length q = n \<Longrightarrow> wp (f q) Q) \<Longrightarrow>
    wp (create_v4_hdr p off t s d len pr \<bind> f) Q"
  "length p = n \<Longrightarrow> off + 40 \<le> n \<Longrightarrow> (\<And>q. length q = n \<Longrightarrow> wp (f q) Q) \<Longrightarrow>
    wp (create_v6_hdr p off t s6 d6 len pr \<bind> f) Q"
  "length p = n \<Longrightarrow> off + 8 \<le> n \<Longrightarrow> (\<And>q. length q = n \<Longrightarrow> wp (f q) Q) \<Longrightarrow>
    wp (create_udp_hdr p off sp dp len c \<bind> f) Q"
  unfolding create_v4_hdr_def create_v6_hdr_def create_udp_hdr_def bind_assoc
  by (erule safe_elims | simp)+

text \<open>
  Every encapsulation checks the bounds it needs: no hypothesis on packet or kernel.
\<close>

lemma encap_v4_safe: "wp (encap_v4 E p v pckt d n) (\<lambda>_. True)"
proof (cases "xdp_adjust_head E (0 - int sizeof_iphdr) p")
  case (Some q)
  show ?thesis unfolding encap_v4_def Let_def Some option.case
    by (rule safe_start [of q]) (erule safe_elims | rule safe_intros | simp)+
qed (simp add: encap_v4_def)

lemma encap_v6_safe: "wp (encap_v6 E p v v6 pckt d n) (\<lambda>_. True)"
proof (cases "xdp_adjust_head E (0 - int sizeof_ipv6hdr) p")
  case (Some q)
  show ?thesis unfolding encap_v6_def Let_def Some option.case split_beta
    by (rule safe_start [of q]) (erule safe_elims | rule safe_intros | simp)+
qed (simp add: encap_v6_def)

lemma gue_encap_v4_safe: "wp (gue_encap_v4 E srcs p v pckt d n) (\<lambda>_. True)"
proof (cases "srcs V4_SRC_INDEX")
  case s: (Some s)
  show ?thesis
  proof (cases "xdp_adjust_head E (0 - int (sizeof_iphdr + sizeof_udphdr)) p")
    case (Some q)
    show ?thesis unfolding gue_encap_v4_def Let_def s Some option.case
      by (rule safe_start [of q]) (erule safe_elims | rule safe_intros | simp)+
  qed (use s in \<open>simp add: gue_encap_v4_def Let_def\<close>)
qed (simp add: gue_encap_v4_def)

lemma gue_encap_v6_safe: "wp (gue_encap_v6 E srcs p v v6 pckt d n) (\<lambda>_. True)"
proof (cases "srcs V6_SRC_INDEX")
  case s: (Some s)
  show ?thesis
  proof (cases "xdp_adjust_head E (0 - int (sizeof_ipv6hdr + sizeof_udphdr)) p")
    case (Some q)
    show ?thesis unfolding gue_encap_v6_def Let_def s Some option.case split_beta
      by (rule safe_start [of q]) (erule safe_elims | rule safe_intros | simp)+
  qed (use s in \<open>simp add: gue_encap_v6_def Let_def\<close>)
qed (simp add: gue_encap_v6_def)

lemma decap_safe: "12 \<le> n \<Longrightarrow> n + 14 \<le> length p \<Longrightarrow> wp (decap E p n pr) (\<lambda>_. True)"
  by (simp add: decap_def wp_rules)

section \<open>Properties\<close>

text \<open>
  Property C5. Encapsulation of a packet for an IPv4 real, when the kernel grants the
  headroom: the packet sent out is the MAC address of the router, the old destination MAC as
  source, the IPv4 type, a 20-byte header (no options, time to live 64, protocol IPIP, total
  length 20 more than that of the inner packet, destination the real, source derived from the
  client so that flows spread) whose checksum verifies, and then the client's IP packet, byte
  for byte.
\<close>

theorem encap_v4_correct:
  assumes "env_ok E" and "14 \<le> length p" and "xdp_adjust_head E (- 20) p \<noteq> None"
  shows "\<exists>i hdr. length i = 2 \<and>
    encap_v4 E p cval pckt d n = Some (True, ctl_mac cval @ take 6 p @ [8, 0] @ hdr @ drop 14 p) \<and>
    hdr = v4_hdr_stamped (tos pckt) i (encap_v4_saddr pckt) (v4_of (rdst d)) (ucast n + 20) IPPROTO_IPIP \<and>
    length hdr = 20 \<and> csum_valid hdr"
proof -
  obtain q where "xdp_adjust_head E (- 20) p = Some q" using assms(3) by auto
  then obtain i where "length i = 2" "encap_v4 E p cval pckt d n = Some (True,
    ctl_mac cval @ take 6 p @ [8, 0] @
    v4_hdr_stamped (tos pckt) i (encap_v4_saddr pckt) (v4_of (rdst d)) (ucast n + 20) IPPROTO_IPIP @
    drop 14 p)"
    using encap_v4_result assms(1,2) by (metis env_ok_def)
  then show ?thesis using v4_hdr_stamped_valid [of i] by auto
qed

theorem encap_v4_correct_witness:
  "\<exists>i hdr. length i = 2 \<and>
    encap_v4 demo_env (replicate 34 1) 7 pckt0 \<lparr>rdst = (9, 0, 0, 0), rflags = 0\<rparr> 20 =
      Some (True, ctl_mac 7 @ replicate 6 1 @ [8, 0] @ hdr @ replicate 20 1) \<and>
    hdr = v4_hdr_stamped 0 i (encap_v4_saddr pckt0) 9 40 IPPROTO_IPIP \<and> length hdr = 20 \<and> csum_valid hdr"
proof -
  have "xdp_adjust_head demo_env (- 20) (replicate 34 1) \<noteq> None" by (simp add: demo_env_def)
  then show ?thesis
    using encap_v4_correct [OF demo_env_ok, of "replicate 34 1" 7 pckt0 "\<lparr>rdst = (9, 0, 0, 0), rflags = 0\<rparr>" 20]
    by (simp add: v4_of_def pckt0_def)
qed

text \<open>
  Property C6. Round trip: when the kernel lets the decapsulating host remove 20 bytes at the head
  of packets of this size, \<open>decap_v4\<close> succeeds on what \<open>encap_v4\<close> produced and gives back the
  client's IP packet unchanged, behind an Ethernet header with the router's MAC address as
  destination, the client frame's destination as source and the EtherType of IPv4.
\<close>

theorem encap_decap_v4_roundtrip:
  assumes "env_ok E" and "14 \<le> length p" and "encap_v4 E p cval pckt d n = Some (True, q)"
    and "head_removable E 20 (length q)"
  shows "decap_v4 E q = Some (True, ctl_mac cval @ take 6 p @ [8, 0] @ drop 14 p)"
proof -
  have "xdp_adjust_head E (- 20) p \<noteq> None"
    using assms(3) by (auto simp: encap_v4_def split: option.splits)
  then obtain q0 where "xdp_adjust_head E (- 20) p = Some q0" by auto
  then obtain i where i: "length i = 2" and q: "q = ctl_mac cval @ take 6 p @ [8, 0] @
    v4_hdr_stamped (tos pckt) i (encap_v4_saddr pckt) (v4_of (rdst d)) (ucast n + 20) IPPROTO_IPIP @
    drop 14 p"
    using encap_v4_result [of E p q0 cval pckt d n] assms by (auto simp: env_ok_def)
  have "decap E q 20 BE_ETH_P_IP = Some (True, take 12 q @ le_bytes 2 (unat BE_ETH_P_IP) @ drop (20 + 14) q)"
    using assms(1,2,4) i by (intro decap_succeeds) (simp_all add: env_ok_def q)
  then show ?thesis
    using assms(2) i by (simp add: decap_v4_def q eth_proto_bytes)
qed

lemma demo_head_removable: "n \<le> len \<Longrightarrow> head_removable demo_env n len"
  by (simp add: head_removable_def demo_env_def)

theorem encap_decap_v4_roundtrip_witness:
  "\<exists>q. encap_v4 demo_env (replicate 34 1) 7 pckt0 \<lparr>rdst = (9, 0, 0, 0), rflags = 0\<rparr> 20 = Some (True, q) \<and>
    decap_v4 demo_env q = Some (True, ctl_mac 7 @ replicate 6 1 @ [8, 0] @ replicate 20 1)"
proof -
  let ?p = "replicate 34 1 :: bytes" and ?d = "\<lparr>rdst = (9, 0, 0, 0), rflags = 0\<rparr>"
  have "xdp_adjust_head demo_env (- 20) ?p = Some (replicate 20 0 @ ?p)" by (simp add: demo_env_def)
  then obtain q where q: "encap_v4 demo_env ?p 7 pckt0 ?d 20 = Some (True, q)" "20 \<le> length q"
    using encap_v4_result [of demo_env ?p _ 7 pckt0 ?d 20] demo_env_ok by (auto simp: env_ok_def)
  then show ?thesis
    using encap_decap_v4_roundtrip [OF demo_env_ok _ q(1)] demo_head_removable by auto
qed

section \<open>IPv6 outer headers\<close>

definition addr_bytes :: "addr \<Rightarrow> bytes" where
  "addr_bytes a = (case a of (a0, a1, a2, a3) \<Rightarrow>
     le_bytes 4 (unat a0) @ le_bytes 4 (unat a1) @ le_bytes 4 (unat a2) @ le_bytes 4 (unat a3))"

definition v6_hdr :: "u8 \<Rightarrow> addr \<Rightarrow> addr \<Rightarrow> u16 \<Rightarrow> u8 \<Rightarrow> bytes" where
  "v6_hdr tc s d plen pr =
     [0x60 OR (drop_bit 4 (tc AND 0xF0) AND 0x0F), push_bit 4 (tc AND 0x0F), 0, 0] @
     le_bytes 2 (unat (bpf_htons plen)) @ [pr, 64] @ addr_bytes s @ addr_bytes d"

lemma length_addr_bytes [simp]: "length (addr_bytes a) = 16"
  by (cases a) (simp add: addr_bytes_def)

lemma length_v6_hdr [simp]: "length (v6_hdr tc s d plen pr) = 40"
  by (simp add: v6_hdr_def)

lemma wp_st_addr [wp_rules]:
  "wp (st_addr p off a) Q \<longleftrightarrow> off + 16 \<le> length p \<and> Q (put p off (addr_bytes a))"
proof (cases a)
  case (fields a0 a1 a2 a3)
  have "put (put (put (put p off x0) (off + 4) x1) (off + 8) x2) (off + 12) x3 = put p off (x0 @ x1 @ x2 @ x3)"
    if "off + 16 \<le> length p" "length x0 = 4" "length x1 = 4" "length x2 = 4" "length x3 = 4" for x0 x1 x2 x3
    using that by (simp add: put_def add.commute [of 16 off])
  then show ?thesis using fields by (auto simp: st_addr_def addr_bytes_def wp_rules)
qed

lemma nibble6: "(((b AND 0x0F) OR 0x60) AND 0xF0) OR x = (0x60 OR x :: u8)"
  by (simp add: bit.conj_disj_distrib2 and.assoc)

lemma v6_hdr_chain:
  assumes "length h = 40" "length n = 2" "length s = 16" "length d = 16"
  shows "put (put (put (put (put (put (put (put (put h 0 [x]) 1 [0, 0, 0]) 0 [y]) 1 [z]) 6 [pr]) 4 n) 7 [64]) 8 s) 24 d =
    [y, z, 0, 0] @ n @ [pr, 64] @ s @ d"
  using assms by (simp add: put_def)

lemma create_v6_hdr_result:
  assumes "length a = ip6h" "length h = 40"
  shows "create_v6_hdr (a @ h @ m) ip6h t s d n pr = Some (a @ v6_hdr t s d n pr @ m)"
proof -
  have "wp (create_v6_hdr (a @ h @ m) ip6h t s d n pr) (\<lambda>r. r = a @ v6_hdr t s d n pr @ m)"
    unfolding create_v6_hdr_def st_hi_nibble_def st_lo_nibble_def
    using assms by (simp add: wp_rules seg_simps)
      (simp add: nth_put nibble6 v6_hdr_chain [unfolded One_nat_def] v6_hdr_def)
  then show ?thesis by (simp add: wp_iff)
qed

definition encap_v6_saddr :: "bool \<Rightarrow> packet_description \<Rightarrow> addr" where
  "encap_v6_saddr is_ipv6 pckt = (1, 0, 0,
     (if is_ipv6 then v6_word3 (src (flow pckt)) else v4_of (src (flow pckt))) XOR
       ucast (port0 (flow pckt)))"

lemma encap_v6_result:
  assumes "adjust_head_ok (xdp_adjust_head E)" "14 \<le> length p"
    and "xdp_adjust_head E (- 40) p = Some q"
  shows "encap_v6 E p cval v6 pckt d n = Some (True,
    ctl_mac cval @ take 6 p @ [0x86, 0xDD] @
    v6_hdr (tos pckt) (encap_v6_saddr v6 pckt) (rdst d) (if v6 then ucast (n + 40) else ucast n)
      (if v6 then IPPROTO_IPV6 else IPPROTO_IPIP) @
    drop 14 p)"
proof -
  define a h where "a = take 14 q" and "h = take 40 (drop 14 q)"
  have len: "length q = 40 + length p" and q: "q = a @ h @ drop 14 p" and d: "take 6 (drop 40 q) = take 6 p"
    using adjusted_segments [OF assms(1), of 40 p q] assms(2,3) by (simp_all add: a_def h_def)
  have la: "length a = 14" and lh: "length h = 40" using len assms(2) by (simp_all add: a_def h_def)
  have d': "take 6 (drop 26 (h @ drop 14 p)) = take 6 p"
    using d la by (subst (asm) q) simp
  have "new_eth_hdr q cval 40 BE_ETH_P_IPV6 =
      Some ((ctl_mac cval @ take 6 p @ [0x86, 0xDD]) @ h @ drop 14 p)"
    using new_eth_hdr_result [of a 40 "h @ drop 14 p" cval BE_ETH_P_IPV6] la lh d'
    by (simp add: q [symmetric] eth_proto_bytes)
  then show ?thesis
    using assms(3) len assms(2) create_v6_hdr_result [of "ctl_mac cval @ take 6 p @ [0x86, 0xDD]" 14 h] lh
    by (simp add: encap_v6_def Let_def encap_v6_saddr_def)
qed

text \<open>
  Encapsulation of an IPv4 or IPv6 packet for an IPv6 real, and back: the packet
  sent out carries the client's IP packet unchanged behind a 40-byte IPv6 header addressed to
  the real, and \<open>decap_v6\<close> with the matching inner version restores it.
\<close>

lemma encap_decap_v6_roundtrip:
  assumes "env_ok E" and "14 \<le> length p" and "xdp_adjust_head E (- 40) p \<noteq> None"
    and "head_removable E 40 (length p + 40)"
  shows "\<exists>hdr q. encap_v6 E p cval v6 pckt d n = Some (True, q) \<and>
    q = ctl_mac cval @ take 6 p @ [0x86, 0xDD] @ hdr @ drop 14 p \<and>
    length hdr = 40 \<and> drop 24 hdr = addr_bytes (rdst d) \<and>
    decap_v6 E q (\<not> v6) =
      Some (True, ctl_mac cval @ take 6 p @ (if v6 then [0x86, 0xDD] else [8, 0]) @ drop 14 p)"
proof -
  let ?h = "v6_hdr (tos pckt) (encap_v6_saddr v6 pckt) (rdst d) (if v6 then ucast (n + 40) else ucast n)
      (if v6 then IPPROTO_IPV6 else IPPROTO_IPIP)"
  let ?q = "ctl_mac cval @ take 6 p @ [0x86, 0xDD] @ ?h @ drop 14 p"
  have "encap_v6 E p cval v6 pckt d n = Some (True, ?q)"
    using encap_v6_result [of E p _ cval v6 pckt d n] assms by (auto simp: env_ok_def)
  moreover have "decap E ?q 40 (if \<not> v6 then BE_ETH_P_IP else BE_ETH_P_IPV6) =
      Some (True, take 12 ?q @ le_bytes 2 (unat (if \<not> v6 then BE_ETH_P_IP else BE_ETH_P_IPV6)) @ drop (40 + 14) ?q)"
    using assms(1,2,4) by (intro decap_succeeds) (simp_all add: env_ok_def add.commute)
  moreover have "drop 24 ?h = addr_bytes (rdst d)" by (simp add: v6_hdr_def)
  ultimately show ?thesis
    using assms(2) by (intro exI [of _ ?h] exI [of _ ?q]) (cases v6; simp add: decap_v6_def eth_proto_bytes)
qed

lemma encap_decap_v6_roundtrip_witness:
  "\<exists>hdr q. encap_v6 demo_env (replicate 54 1) 7 True pckt0 \<lparr>rdst = (9, 8, 7, 6), rflags = 1\<rparr> 0 = Some (True, q) \<and>
    q = ctl_mac 7 @ replicate 6 1 @ [0x86, 0xDD] @ hdr @ replicate 40 1 \<and>
    length hdr = 40 \<and> drop 24 hdr = addr_bytes (9, 8, 7, 6) \<and>
    decap_v6 demo_env q False = Some (True, ctl_mac 7 @ replicate 6 1 @ [0x86, 0xDD] @ replicate 40 1)"
proof -
  have "xdp_adjust_head demo_env (- 40) (replicate 54 1) \<noteq> None" by (simp add: demo_env_def)
  then show ?thesis
    using encap_decap_v6_roundtrip [OF demo_env_ok, of "replicate 54 1" 7 True pckt0
        "\<lparr>rdst = (9, 8, 7, 6), rflags = 1\<rparr>" 0] demo_head_removable
    by simp
qed

end
