(* ===== verification/Katran_Healthcheck.thy ===== *)
theory Katran_Healthcheck
  imports Katran_Encap
begin

text \<open>
  Katran's health checking programs: healthchecking_kern.c with healthchecking_helpers.h, which
  encapsulates a marked packet itself, and healthchecking_ipip.c, which hands it to a tunnel
  interface. Both run on egress of the balancer: a packet with a firewall mark is a health check
  for the server registered under that mark.

  The kernel helpers are parameters: \<open>bpf_skb_adjust_room\<close>, which may fail, \<open>bpf_redirect\<close>
  with its verdict, and \<open>bpf_skb_set_tunnel_key\<close>, whose return value the program ignores.
\<close>

section \<open>State\<close>

definition HC_MAIN_INTF_POSITION :: u32 where [simp]: "HC_MAIN_INTF_POSITION = 3"
definition HC_MAX_PACKET_SIZE :: u32 where [simp]: "HC_MAX_PACKET_SIZE = 1474"
definition GENERIC_STATS_INDEX :: u32 where [simp]: "GENERIC_STATS_INDEX = 0"
definition V6DADDR :: u8 where [simp]: "V6DADDR = 1"
definition HC_SRC_MAC_POS :: u32 where [simp]: "HC_SRC_MAC_POS = 0"
definition HC_DST_MAC_POS :: u32 where [simp]: "HC_DST_MAC_POS = 1"
definition DEFAULT_TOS :: u8 where [simp]: "DEFAULT_TOS = 0"
definition TC_ACT_UNSPEC :: int where [simp]: "TC_ACT_UNSPEC = - 1"

record hc_real_definition =
  hc_daddr :: addr
  hc_flags :: u8

record hc_stats =
  pckts_processed :: u64
  pckts_dropped :: u64
  pckts_skipped :: u64
  pckts_too_big :: u64

record hc_maps =
  hc_ctrl_map :: "u32 \<rightharpoonup> u32"
  hc_reals_map :: "u32 \<rightharpoonup> hc_real_definition"
  hc_pckt_srcs_map :: "u32 \<rightharpoonup> hc_real_definition"
  hc_pckt_macs :: "u32 \<rightharpoonup> bytes"
  hc_stats_map :: "u32 \<rightharpoonup> hc_stats"

text \<open>
  \<open>len\<close> counts the whole packet, \<open>skb_data\<close> is the part between \<open>data\<close> and \<open>data_end\<close>; the
  tunnel key is the metadata a tunnel interface encapsulates with.
\<close>

record bpf_tunnel_key =
  tunnel_ttl :: u8
  remote :: addr
  tun_ipv6 :: bool

record sk_buff =
  skb_mark :: u32
  skb_len :: u32
  skb_data :: bytes
  skb_tunnel :: "bpf_tunnel_key option"

record hc_env =
  skb_adjust_room :: "nat \<Rightarrow> u64 \<Rightarrow> sk_buff \<Rightarrow> sk_buff option"
  bpf_redirect :: "u32 \<Rightarrow> int"
  skb_set_tunnel_key :: "sk_buff \<Rightarrow> bpf_tunnel_key \<Rightarrow> sk_buff"
  HC_GUE :: bool

definition hc_stat :: "(hc_stats \<Rightarrow> hc_stats) \<Rightarrow> hc_maps \<Rightarrow> hc_maps" where
  "hc_stat f m = m\<lparr>hc_stats_map := (hc_stats_map m)(GENERIC_STATS_INDEX := map_option f (hc_stats_map m GENERIC_STATS_INDEX))\<rparr>"

definition hc_skip :: "sk_buff \<Rightarrow> hc_maps \<Rightarrow> (int \<times> sk_buff \<times> hc_maps) option" where
  "hc_skip skb m = Some (TC_ACT_UNSPEC, skb, hc_stat (\<lambda>s. s\<lparr>pckts_skipped := pckts_skipped s + 1\<rparr>) m)"

definition hc_drop :: "sk_buff \<Rightarrow> hc_maps \<Rightarrow> (int \<times> sk_buff \<times> hc_maps) option" where
  "hc_drop skb m = Some (TC_ACT_SHOT, skb, hc_stat (\<lambda>s. s\<lparr>pckts_dropped := pckts_dropped s + 1\<rparr>) m)"

section \<open>Encapsulation (healthchecking_helpers.h)\<close>

definition ADJ_ROOM_FIXED_GSO :: u64 where "ADJ_ROOM_FIXED_GSO = 1"
definition ADJ_ROOM_ENCAP_L3_IPV4 :: u64 where "ADJ_ROOM_ENCAP_L3_IPV4 = 2"
definition ADJ_ROOM_ENCAP_L3_IPV6 :: u64 where "ADJ_ROOM_ENCAP_L3_IPV6 = 4"
definition ADJ_ROOM_ENCAP_L4_UDP :: u64 where "ADJ_ROOM_ENCAP_L4_UDP = 16"

definition hc_encap_ipip :: "hc_env \<Rightarrow> hc_maps \<Rightarrow> hc_real_definition \<Rightarrow> bool \<Rightarrow> sk_buff \<Rightarrow> (bool \<times> sk_buff) option" where
  "hc_encap_ipip E m real is_ipv6 skb =
     (let pkt_len = (ucast (skb_len skb - of_nat sizeof_eth) :: u16) in
      if hc_flags real = V6DADDR then
        (case hc_pckt_srcs_map m V6_SRC_INDEX of None \<Rightarrow> Some (False, skb)
         | Some source \<Rightarrow>
         case skb_adjust_room E sizeof_ipv6hdr (ADJ_ROOM_FIXED_GSO OR ADJ_ROOM_ENCAP_L3_IPV6) skb of
           None \<Rightarrow> Some (False, skb)
         | Some skb \<Rightarrow>
           if sizeof_eth + sizeof_ipv6hdr > length (skb_data skb) then Some (False, skb)
           else do {
             p \<leftarrow> st16 (skb_data skb) 12 BE_ETH_P_IPV6;
             p \<leftarrow> create_v6_hdr p sizeof_eth DEFAULT_TOS (hc_daddr source) (hc_daddr real) pkt_len
                    (if \<not> is_ipv6 then IPPROTO_IPIP else IPPROTO_IPV6);
             Some (True, skb\<lparr>skb_data := p\<rparr>) })
      else
        (case hc_pckt_srcs_map m V4_SRC_INDEX of None \<Rightarrow> Some (False, skb)
         | Some source \<Rightarrow>
         case skb_adjust_room E sizeof_iphdr (ADJ_ROOM_FIXED_GSO OR ADJ_ROOM_ENCAP_L3_IPV4) skb of
           None \<Rightarrow> Some (False, skb)
         | Some skb \<Rightarrow>
           if sizeof_eth + sizeof_iphdr > length (skb_data skb) then Some (False, skb)
           else do {
             p \<leftarrow> create_v4_hdr (skb_data skb) sizeof_eth DEFAULT_TOS (v4_of (hc_daddr source)) (v4_of (hc_daddr real))
                    pkt_len IPPROTO_IPIP;
             Some (True, skb\<lparr>skb_data := p\<rparr>) }))"

definition gue_sport :: "u32 \<Rightarrow> u16" where
  "gue_sport seed = ucast ((seed XOR drop_bit 16 seed) AND 0xFFFF)"

definition hc_encap_gue :: "hc_env \<Rightarrow> hc_maps \<Rightarrow> hc_real_definition \<Rightarrow> bool \<Rightarrow> sk_buff \<Rightarrow> (bool \<times> sk_buff) option" where
  "hc_encap_gue E m real is_ipv6 skb =
     (let pkt_len = (ucast (skb_len skb - of_nat sizeof_eth) :: u16) in
      if hc_flags real = V6DADDR then
        let sport = gue_sport (v4_of (hc_daddr real) OR v6_word3 (hc_daddr real)) in
        (case hc_pckt_srcs_map m V6_SRC_INDEX of None \<Rightarrow> Some (False, skb)
         | Some source \<Rightarrow>
         case skb_adjust_room E (sizeof_ipv6hdr + sizeof_udphdr)
             (ADJ_ROOM_FIXED_GSO OR ADJ_ROOM_ENCAP_L3_IPV6 OR ADJ_ROOM_ENCAP_L4_UDP) skb of
           None \<Rightarrow> Some (False, skb)
         | Some skb \<Rightarrow>
           if sizeof_eth + sizeof_ipv6hdr + sizeof_udphdr > length (skb_data skb) then Some (False, skb)
           else do {
             p \<leftarrow> st16 (skb_data skb) 12 BE_ETH_P_IPV6;
             let ip6h = sizeof_eth; let udph = ip6h + sizeof_ipv6hdr;
             let pkt_len = pkt_len + of_nat sizeof_udphdr;
             p \<leftarrow> create_udp_hdr p udph sport GUE_DPORT pkt_len 0;
             p \<leftarrow> create_v6_hdr p ip6h DEFAULT_TOS (hc_daddr source) (hc_daddr real) pkt_len IPPROTO_UDP;
             Some (True, skb\<lparr>skb_data := p\<rparr>) })
      else
        let sport = gue_sport (v4_of (hc_daddr real)) in
        (case hc_pckt_srcs_map m V4_SRC_INDEX of None \<Rightarrow> Some (False, skb)
         | Some source \<Rightarrow>
         case skb_adjust_room E (sizeof_iphdr + sizeof_udphdr)
             (ADJ_ROOM_FIXED_GSO OR ADJ_ROOM_ENCAP_L3_IPV4 OR ADJ_ROOM_ENCAP_L4_UDP) skb of
           None \<Rightarrow> Some (False, skb)
         | Some skb \<Rightarrow>
           if sizeof_eth + sizeof_iphdr + sizeof_udphdr > length (skb_data skb) then Some (False, skb)
           else do {
             let p = skb_data skb; let iph = sizeof_eth; let udph = iph + sizeof_iphdr;
             let pkt_len = pkt_len + of_nat sizeof_udphdr;
             p \<leftarrow> create_udp_hdr p udph sport GUE_DPORT pkt_len 0;
             p \<leftarrow> create_v4_hdr p iph DEFAULT_TOS (v4_of (hc_daddr source)) (v4_of (hc_daddr real)) pkt_len IPPROTO_UDP;
             Some (True, skb\<lparr>skb_data := p\<rparr>) }))"

definition HC_ENCAP :: "hc_env \<Rightarrow> hc_maps \<Rightarrow> hc_real_definition \<Rightarrow> bool \<Rightarrow> sk_buff \<Rightarrow> (bool \<times> sk_buff) option" where
  "HC_ENCAP E = (if HC_GUE E then hc_encap_gue E else hc_encap_ipip E)"

section \<open>The program (healthchecking_kern.c)\<close>

definition healthchecker :: "hc_env \<Rightarrow> hc_maps \<Rightarrow> sk_buff \<Rightarrow> (int \<times> sk_buff \<times> hc_maps) option" where
  "healthchecker E m skb =
     (let somark = skb_mark skb in
      if hc_stats_map m GENERIC_STATS_INDEX = None then Some (TC_ACT_UNSPEC, skb, m)
      else if somark = 0 then hc_skip skb m
      else case hc_reals_map m somark of None \<Rightarrow> hc_skip skb m
      | Some real \<Rightarrow>
        if skb_len skb > HC_MAX_PACKET_SIZE then
          hc_drop skb (hc_stat (\<lambda>s. s\<lparr>pckts_too_big := pckts_too_big s + 1\<rparr>) m)
        else case hc_ctrl_map m HC_MAIN_INTF_POSITION of None \<Rightarrow> hc_drop skb m
      | Some intf_ifindex \<Rightarrow>
        (case hc_pckt_macs m HC_SRC_MAC_POS of None \<Rightarrow> hc_drop skb m
      | Some esrc \<Rightarrow>
        (case hc_pckt_macs m HC_DST_MAC_POS of None \<Rightarrow> hc_drop skb m
      | Some edst \<Rightarrow>
        if sizeof_eth > length (skb_data skb) then hc_drop skb m
        else do {
          h_proto \<leftarrow> ld16 (skb_data skb) 12;
          let is_ipv6 = (h_proto = BE_ETH_P_IPV6);
          let skb = skb\<lparr>skb_mark := 0\<rparr>;
          (ok, skb) \<leftarrow> HC_ENCAP E m real is_ipv6 skb;
          if \<not> ok then hc_drop skb m
          else if sizeof_eth > length (skb_data skb) then hc_drop skb m
          else do {
            p \<leftarrow> stn (skb_data skb) 6 (take 6 esrc);
            p \<leftarrow> stn p 0 (take 6 edst);
            Some (bpf_redirect E intf_ifindex, skb\<lparr>skb_data := p\<rparr>,
              hc_stat (\<lambda>s. s\<lparr>pckts_processed := pckts_processed s + 1\<rparr>) m) } })))"

section \<open>Tunnel interfaces (healthchecking_ipip.c)\<close>

definition hc_ipip_v4_intf_pos :: u32 where [simp]: "hc_ipip_v4_intf_pos = 1"
definition hc_ipip_v6_intf_pos :: u32 where [simp]: "hc_ipip_v6_intf_pos = 2"

definition healthchecker_ipip :: "hc_env \<Rightarrow> hc_maps \<Rightarrow> sk_buff \<Rightarrow> (int \<times> sk_buff \<times> hc_maps) option" where
  "healthchecker_ipip E m skb =
     (let somark = skb_mark skb in
      if hc_stats_map m GENERIC_STATS_INDEX = None then Some (TC_ACT_UNSPEC, skb, m)
      else if somark = 0 then hc_skip skb m
      else case hc_reals_map m somark of None \<Rightarrow> hc_skip skb m
      | Some real \<Rightarrow>
        if skb_len skb > HC_MAX_PACKET_SIZE then
          hc_drop skb (hc_stat (\<lambda>s. s\<lparr>pckts_too_big := pckts_too_big s + 1\<rparr>) m)
        else case hc_ctrl_map m hc_ipip_v4_intf_pos of None \<Rightarrow> hc_drop skb m
      | Some v4_intf_ifindex \<Rightarrow>
        (case hc_ctrl_map m hc_ipip_v6_intf_pos of None \<Rightarrow> hc_drop skb m
      | Some v6_intf_ifindex \<Rightarrow>
        let skb = skb\<lparr>skb_mark := 0\<rparr>;
            (tkey, ifindex) =
              (if hc_flags real = V6DADDR then
                 (\<lparr>tunnel_ttl = DEFAULT_TTL, remote = hc_daddr real, tun_ipv6 = True\<rparr>, v6_intf_ifindex)
               else
                 (\<lparr>tunnel_ttl = DEFAULT_TTL, remote = set_v4 addr0 (v4_of (hc_daddr real)), tun_ipv6 = False\<rparr>,
                  v4_intf_ifindex)) in
        Some (bpf_redirect E ifindex, skb_set_tunnel_key E skb tkey,
          hc_stat (\<lambda>s. s\<lparr>pckts_processed := pckts_processed s + 1\<rparr>) m)))"

end
