(* ===== verification/Katran_Healthcheck_Props.thy ===== *)
theory Katran_Healthcheck_Props
  imports Katran_Healthcheck Packet_Program
begin

text \<open>
  What the health checking programs guarantee: the contents of an encapsulated health check, and
  that every packet is counted under its verdict.
\<close>

section \<open>The encapsulated health check\<close>

text \<open>
  \<open>BPF_ADJ_ROOM_MAC\<close>: on success, room is inserted between the Ethernet and the network header;
  the mark and the tunnel metadata stay.
\<close>

definition adjust_room_ok :: "hc_env \<Rightarrow> bool" where
  "adjust_room_ok E \<longleftrightarrow> (\<forall>n f skb skb'. 14 \<le> length (skb_data skb) \<longrightarrow> skb_adjust_room E n f skb = Some skb' \<longrightarrow>
     (\<exists>room. length room = n \<and>
        skb' = skb\<lparr>skb_len := skb_len skb + of_nat n,
                   skb_data := take 14 (skb_data skb) @ room @ drop 14 (skb_data skb)\<rparr>))"

lemma adjust_roomE:
  assumes "adjust_room_ok E" "skb_adjust_room E n f skb = Some skb'" "skb_data skb = eth @ pay" "length eth = 14"
  obtains room where "length room = n"
    "skb' = skb\<lparr>skb_len := skb_len skb + of_nat n, skb_data := eth @ room @ pay\<rparr>"
proof -
  have "14 \<le> length (skb_data skb)" using assms(3,4) by simp
  then obtain room where "length room = n"
      "skb' = skb\<lparr>skb_len := skb_len skb + of_nat n, skb_data := take 14 (skb_data skb) @ room @ drop 14 (skb_data skb)\<rparr>"
    using assms(1,2) unfolding adjust_room_ok_def by blast
  then show thesis using that assms(3,4) by simp
qed

definition udp_hdr :: "u16 \<Rightarrow> u16 \<Rightarrow> bytes" where
  "udp_hdr sport len = le_bytes 2 (unat sport) @ le_bytes 2 (unat (bpf_htons 6080)) @ le_bytes 2 (unat (bpf_htons len)) @ [0, 0]"

lemma create_udp_hdr_result:
  assumes "length a = udph" "length h = 8"
  shows "create_udp_hdr (a @ h @ m) udph sport 6080 len 0 = Some (a @ udp_hdr sport len @ m)"
proof -
  have "wp (create_udp_hdr (a @ h @ m) udph sport 6080 len 0) (\<lambda>r. r = a @ udp_hdr sport len @ m)"
    unfolding create_udp_hdr_def using assms by (simp add: wp_rules seg_simps) (simp add: put_def udp_hdr_def)
  then show ?thesis by (simp add: wp_iff)
qed

text \<open>
  What lies between the Ethernet header and the original packet of \<open>n\<close> bytes: the outer IP
  header from the configured source to the server, \<open>i\<close> its identification, and for GUE a UDP
  header.
\<close>

definition hc_outer :: "bool \<Rightarrow> hc_real_definition \<Rightarrow> hc_real_definition \<Rightarrow> bool \<Rightarrow> bytes \<Rightarrow> u16 \<Rightarrow> bytes" where
  "hc_outer gue source real is_ipv6 i n =
     (let v6 = (hc_flags real = 1); s = hc_daddr source; d = hc_daddr real; n = (if gue then n + 8 else n);
          pr = (if gue then 17 else if v6 \<and> is_ipv6 then 41 else 4);
          udp = (if gue then udp_hdr (gue_sport (if v6 then v4_of d OR v6_word3 d else v4_of d)) n else []) in
      (if v6 then v6_hdr 0 s d n pr else v4_hdr_stamped 0 i (v4_of s) (v4_of d) (n + 20) pr) @ udp)"

definition hc_etype :: "hc_real_definition \<Rightarrow> bytes \<Rightarrow> bytes" where
  "hc_etype real eth = (if hc_flags real = 1 then take 12 eth @ [0x86, 0xDD] else eth)"

definition hc_room :: "hc_env \<Rightarrow> hc_real_definition \<Rightarrow> nat" where
  "hc_room E real = (if hc_flags real = 1 then 40 else 20) + (if HC_GUE E then 8 else 0)"

lemma put_etype: "length eth = 14 \<Longrightarrow> put eth 12 [a, b] = take 12 eth @ [a, b]"
  by (simp add: put_def)

lemma hc_encap_ipip_result:
  assumes ok: "adjust_room_ok E" and gue: "\<not> HC_GUE E"
    and data: "skb_data skb = eth @ pay" "length eth = 14"
    and src: "hc_pckt_srcs_map m (if hc_flags real = 1 then 1 else 0) = Some source"
    and room: "\<And>f. skb_adjust_room E (hc_room E real) f skb \<noteq> None"
  shows "\<exists>i skb'. length i = 2 \<and> hc_encap_ipip E m real is_ipv6 skb = Some (True, skb') \<and>
    skb_mark skb' = skb_mark skb \<and>
    skb_data skb' = hc_etype real eth @ hc_outer False source real is_ipv6 i (ucast (skb_len skb - 14)) @ pay"
proof -
  let ?f = "if hc_flags real = 1 then ADJ_ROOM_FIXED_GSO OR ADJ_ROOM_ENCAP_L3_IPV6 else ADJ_ROOM_FIXED_GSO OR ADJ_ROOM_ENCAP_L3_IPV4"
  obtain skb1 where s1: "skb_adjust_room E (hc_room E real) ?f skb = Some skb1" using room by blast
  obtain r where r: "length r = hc_room E real" "skb1 = skb\<lparr>skb_len := skb_len skb + of_nat (hc_room E real), skb_data := eth @ r @ pay\<rparr>"
    using adjust_roomE [OF ok s1 data] .
  show ?thesis
  proof (cases "hc_flags real = 1")
    case True
    have "st16 (eth @ r @ pay) 12 56710 = Some (take 12 eth @ [0x86, 0xDD] @ r @ pay)"
      using data by (simp add: st16_def stn_put eth_proto_bytes seg_simps put_etype)
    then show ?thesis
      using True s1 r data src gue create_v6_hdr_result [of "take 12 eth @ [0x86, 0xDD]" 14 r pay]
      by (auto simp: hc_encap_ipip_def hc_room_def hc_outer_def hc_etype_def BE_ETH_P_IPV6_def intro: exI [of _ "[0, 0]"])
  next
    case False
    then show ?thesis
      using s1 r data src gue create_v4_hdr_result [of eth 14 r pay]
      by (auto simp: hc_encap_ipip_def hc_room_def hc_outer_def hc_etype_def intro!: exI [of _ "take 2 (drop 4 r)"])
  qed
qed


lemma hc_encap_gue_result:
  assumes ok: "adjust_room_ok E" and gue: "HC_GUE E"
    and data: "skb_data skb = eth @ pay" "length eth = 14"
    and src: "hc_pckt_srcs_map m (if hc_flags real = 1 then 1 else 0) = Some source"
    and room: "\<And>f. skb_adjust_room E (hc_room E real) f skb \<noteq> None"
  shows "\<exists>i skb'. length i = 2 \<and> hc_encap_gue E m real is_ipv6 skb = Some (True, skb') \<and>
    skb_mark skb' = skb_mark skb \<and>
    skb_data skb' = hc_etype real eth @ hc_outer True source real is_ipv6 i (ucast (skb_len skb - 14)) @ pay"
proof -
  let ?f = "if hc_flags real = 1 then ADJ_ROOM_FIXED_GSO OR ADJ_ROOM_ENCAP_L3_IPV6 OR ADJ_ROOM_ENCAP_L4_UDP
    else ADJ_ROOM_FIXED_GSO OR ADJ_ROOM_ENCAP_L3_IPV4 OR ADJ_ROOM_ENCAP_L4_UDP"
  obtain skb1 where s1: "skb_adjust_room E (hc_room E real) ?f skb = Some skb1" using room by blast
  obtain r where r: "length r = hc_room E real" "skb1 = skb\<lparr>skb_len := skb_len skb + of_nat (hc_room E real), skb_data := eth @ r @ pay\<rparr>"
    using adjust_roomE [OF ok s1 data] .
  obtain r1 r2 where rr: "r = r1 @ r2" "length r1 = hc_room E real - 8" "length r2 = 8"
    using that [of "take (length r - 8) r" "drop (length r - 8) r"] r(1) gue by (simp add: hc_room_def)
  show ?thesis
  proof (cases "hc_flags real = 1")
    case True
    have "st16 (eth @ r1 @ r2 @ pay) 12 56710 = Some (take 12 eth @ [0x86, 0xDD] @ r1 @ r2 @ pay)"
      using data by (simp add: st16_def stn_put eth_proto_bytes seg_simps put_etype)
    then show ?thesis
      using True s1 r(2) rr data src gue create_udp_hdr_result [of "take 12 eth @ [0x86, 0xDD] @ r1" 54 r2 pay]
        create_v6_hdr_result [of "take 12 eth @ [0x86, 0xDD]" 14 r1]
      by (auto simp: hc_encap_gue_def hc_room_def hc_outer_def hc_etype_def Let_def intro: exI [of _ "[0, 0]"])
  next
    case False
    then show ?thesis
      using s1 r(2) rr data src gue create_udp_hdr_result [of "eth @ r1" 34 r2 pay] create_v4_hdr_result [of eth 14 r1]
      by (auto simp: hc_encap_gue_def hc_room_def hc_outer_def hc_etype_def Let_def add.commute intro!: exI [of _ "take 2 (drop 4 r1)"])
  qed
qed

lemma HC_ENCAP_result:
  assumes "adjust_room_ok E" "skb_data skb = eth @ pay" "length eth = 14"
    and "hc_pckt_srcs_map m (if hc_flags real = 1 then 1 else 0) = Some source"
    and "\<And>f. skb_adjust_room E (hc_room E real) f skb \<noteq> None"
  obtains i skb' where "length i = 2" "HC_ENCAP E m real is_ipv6 skb = Some (True, skb')"
    "skb_mark skb' = skb_mark skb"
    "skb_data skb' = hc_etype real eth @ hc_outer (HC_GUE E) source real is_ipv6 i (ucast (skb_len skb - 14)) @ pay"
  using hc_encap_gue_result [OF assms(1) _ assms(2-5), of is_ipv6] hc_encap_ipip_result [OF assms(1) _ assms(2-5), of is_ipv6]
  by (cases "HC_GUE E") (auto simp: HC_ENCAP_def)


lemma hc_outer_valid:
  assumes "length i = 2" "hc_flags real \<noteq> 1"
  shows "csum_valid (take 20 (hc_outer gue source real is_ipv6 i n))"
  using assms by (simp add: hc_outer_def Let_def v4_hdr_stamped_valid)

text \<open>
  A packet whose mark names a server is encapsulated. The EtherType of an IPv6 packet stays when
  the server has an IPv4 address: such a frame does not announce the header it has.
\<close>

lemma healthcheck_encapsulated:
  assumes "adjust_room_ok E" "hc_stats_map m 0 = Some s"
    and "skb_mark skb \<noteq> 0" "hc_reals_map m (skb_mark skb) = Some real" "skb_len skb \<le> 1474"
    and "hc_ctrl_map m 3 = Some ifindex"
    and "hc_pckt_macs m 0 = Some esrc" "hc_pckt_macs m 1 = Some edst" "length esrc = 6" "length edst = 6"
    and "skb_data skb = macs @ etype @ pay" "length macs = 12" "length etype = 2"
    and "hc_pckt_srcs_map m (if hc_flags real = 1 then 1 else 0) = Some source"
    and "\<And>f. skb_adjust_room E (hc_room E real) f (skb\<lparr>skb_mark := 0\<rparr>) \<noteq> None"
  shows "\<exists>i skb' outer. healthchecker E m skb =
      Some (bpf_redirect E ifindex, skb', m\<lparr>hc_stats_map := (hc_stats_map m)(0 \<mapsto> s\<lparr>pckts_processed := pckts_processed s + 1\<rparr>)\<rparr>) \<and>
    skb_mark skb' = 0 \<and>
    outer = hc_outer (HC_GUE E) source real (etype = [0x86, 0xDD]) i (ucast (skb_len skb - 14)) \<and>
    skb_data skb' = edst @ esrc @ (if hc_flags real = 1 then [0x86, 0xDD] else etype) @ outer @ pay \<and>
    (hc_flags real \<noteq> 1 \<longrightarrow> csum_valid (take 20 outer))"
proof -
  let ?skb = "skb\<lparr>skb_mark := 0\<rparr>"
  have v6: "(of_nat (le_val etype) = (56710 :: u16)) = (etype = [0x86, 0xDD])"
    using assms(13) le_bytes_ld16 [of etype] eth_proto_bytes(2) by auto
  obtain i skb1 where enc: "length i = 2"
      "HC_ENCAP E m real (etype = [0x86, 0xDD]) ?skb = Some (True, skb1)" "skb_mark skb1 = 0"
      "skb_data skb1 = hc_etype real (macs @ etype) @ hc_outer (HC_GUE E) source real (etype = [0x86, 0xDD]) i (ucast (skb_len skb - 14)) @ pay"
    using HC_ENCAP_result [OF assms(1), of ?skb "macs @ etype" pay m real source "etype = [0x86, 0xDD]"] assms(11-15) by auto
  let ?o = "hc_outer (HC_GUE E) source real (etype = [0x86, 0xDD]) i (ucast (skb_len skb - 14))"
  let ?d = "edst @ esrc @ (if hc_flags real = 1 then [0x86, 0xDD] else etype) @ ?o @ pay"
  have d: "14 \<le> length (skb_data skb1)" "put (put (skb_data skb1) 6 esrc) 0 edst = ?d"
    using enc(4) assms(9-13) by (auto simp: hc_etype_def put_def)
  have "healthchecker E m skb = Some (bpf_redirect E ifindex, skb1\<lparr>skb_data := ?d\<rparr>,
      m\<lparr>hc_stats_map := (hc_stats_map m)(0 \<mapsto> s\<lparr>pckts_processed := pckts_processed s + 1\<rparr>)\<rparr>)"
    using assms(2-13) enc(2) v6 d by (simp add: healthchecker_def ld16_def ldn_def hc_stat_def stn_put leD)
  then show ?thesis using enc(1,3) hc_outer_valid [OF enc(1)] by auto
qed

text \<open>
  Property C27. A health check of a registered server is sent to it, for an IPv6 server or an IPv4
  packet: a packet of at most 1474 bytes whose mark names the server leaves through the configured
  interface with the mark cleared, the configured MAC addresses, the EtherType of the outer header,
  an outer header from the configured source to the address of that server (a valid
  IPv4 header, or an IPv6 header for a server with an IPv6 address, with a UDP header after it
  under GUE) and the original packet unchanged behind it, and is counted as processed. The kernel
  grants the room for the outer header, and interface, MAC addresses, source and statistics are
  configured. Excluded is an IPv6 packet for an IPv4 server, which leaves with EtherType 0x86DD in
  front of an IPv4 header (healthchecking_helpers.h, line 89).
\<close>

theorem healthcheck_reaches_real:
  assumes "adjust_room_ok E" "hc_stats_map m 0 = Some s"
    and "skb_mark skb \<noteq> 0" "hc_reals_map m (skb_mark skb) = Some real" "skb_len skb \<le> 1474"
    and "hc_ctrl_map m 3 = Some ifindex"
    and "hc_pckt_macs m 0 = Some esrc" "hc_pckt_macs m 1 = Some edst" "length esrc = 6" "length edst = 6"
    and "skb_data skb = macs @ etype @ pay" "length macs = 12" "length etype = 2"
    and "hc_pckt_srcs_map m (if hc_flags real = 1 then 1 else 0) = Some source"
    and "\<And>f. skb_adjust_room E (hc_room E real) f (skb\<lparr>skb_mark := 0\<rparr>) \<noteq> None"
    and "hc_flags real = 1 \<or> etype = [8, 0]"
  shows "\<exists>i skb' outer. healthchecker E m skb =
      Some (bpf_redirect E ifindex, skb', m\<lparr>hc_stats_map := (hc_stats_map m)(0 \<mapsto> s\<lparr>pckts_processed := pckts_processed s + 1\<rparr>)\<rparr>) \<and>
    skb_mark skb' = 0 \<and>
    outer = hc_outer (HC_GUE E) source real (etype = [0x86, 0xDD]) i (ucast (skb_len skb - 14)) \<and>
    skb_data skb' = edst @ esrc @ (if hc_flags real = 1 then [0x86, 0xDD] else [8, 0]) @ outer @ pay \<and>
    (hc_flags real \<noteq> 1 \<longrightarrow> csum_valid (take 20 outer))"
  using healthcheck_encapsulated [OF assms(1-15)] assms(16) by auto


section \<open>Accounting\<close>

text \<open>
  Every verdict is counted once. \<open>hc_counted\<close> relates the counters before and after to the
  verdict: a skipped packet is not touched, a dropped one may be too big as well, and only a
  processed one is redirected.
\<close>

definition hc_counted :: "hc_stats \<Rightarrow> sk_buff \<Rightarrow> int set \<Rightarrow> int \<Rightarrow> sk_buff \<Rightarrow> hc_stats \<Rightarrow> bool" where
  "hc_counted s skb redirects r skb' s' \<longleftrightarrow>
     r = TC_ACT_UNSPEC \<and> skb' = skb \<and> s' = s\<lparr>pckts_skipped := pckts_skipped s + 1\<rparr> \<or>
     r = TC_ACT_SHOT \<and> s' = s\<lparr>pckts_dropped := pckts_dropped s + 1\<rparr> \<or>
     r = TC_ACT_SHOT \<and> s' = s\<lparr>pckts_too_big := pckts_too_big s + 1, pckts_dropped := pckts_dropped s + 1\<rparr> \<and> skb_len skb > 1474 \<or>
     r \<in> redirects \<and> s' = s\<lparr>pckts_processed := pckts_processed s + 1\<rparr> \<and> skb_mark skb \<noteq> 0 \<and> skb_len skb \<le> 1474"

lemma hc_encap_ipip_safe: "wp (hc_encap_ipip E m real v6 skb) (\<lambda>_. True)"
  unfolding hc_encap_ipip_def Let_def
  by (auto simp: wp_case_option; rule safe_start; (erule safe_elims | simp)+)

lemma hc_encap_gue_safe: "wp (hc_encap_gue E m real v6 skb) (\<lambda>_. True)"
  unfolding hc_encap_gue_def Let_def
  by (auto simp: wp_case_option; rule safe_start; (erule safe_elims | simp)+)

lemma HC_ENCAP_safe: "wp (HC_ENCAP E m real v6 skb) (\<lambda>_. True)"
  by (simp add: HC_ENCAP_def hc_encap_ipip_safe hc_encap_gue_safe)


lemma hc_skip_wp: "wp (hc_skip skb m) Q = Q (TC_ACT_UNSPEC, skb, hc_stat (\<lambda>s. s\<lparr>pckts_skipped := pckts_skipped s + 1\<rparr>) m)"
  by (simp add: hc_skip_def)

lemma hc_drop_wp: "wp (hc_drop skb m) Q = Q (TC_ACT_SHOT, skb, hc_stat (\<lambda>s. s\<lparr>pckts_dropped := pckts_dropped s + 1\<rparr>) m)"
  by (simp add: hc_drop_def)

lemma hc_stat_map: "hc_stats_map m 0 = Some s \<Longrightarrow> hc_stat f m = m\<lparr>hc_stats_map := (hc_stats_map m)(0 \<mapsto> f s)\<rparr>"
  by (simp add: hc_stat_def)

lemmas hc_wp = hc_skip_wp hc_drop_wp wp_case_option wp_let wp_bind wp_case_prod wp_ld16 wp_stn

definition hc_after :: "hc_env \<Rightarrow> hc_maps \<Rightarrow> hc_stats \<Rightarrow> sk_buff \<Rightarrow> int \<times> sk_buff \<times> hc_maps \<Rightarrow> bool" where
  "hc_after E m s skb x = (case x of (r, skb', m') \<Rightarrow> \<exists>s'. m' = m\<lparr>hc_stats_map := (hc_stats_map m)(0 \<mapsto> s')\<rparr> \<and>
     hc_counted s skb (bpf_redirect E ` ran (hc_ctrl_map m)) r skb' s')"

lemma hc_after_skip:
  "hc_after E m s skb (- 1, skb, m\<lparr>hc_stats_map := (hc_stats_map m)(0 \<mapsto> s\<lparr>pckts_skipped := pckts_skipped s + 1\<rparr>)\<rparr>)"
  by (auto simp: hc_after_def hc_counted_def)

lemma hc_after_drop:
  "hc_after E m s skb (2, skb', m\<lparr>hc_stats_map := (hc_stats_map m)(0 \<mapsto> s\<lparr>pckts_dropped := pckts_dropped s + 1\<rparr>)\<rparr>)"
  by (auto simp: hc_after_def hc_counted_def)

lemma hc_after_too_big:
  "1474 < skb_len skb \<Longrightarrow> hc_after E m s skb (2, skb, m\<lparr>hc_stats_map := (hc_stats_map m)(0 \<mapsto>
     s\<lparr>pckts_too_big := pckts_too_big s + 1, pckts_dropped := pckts_dropped s + 1\<rparr>)\<rparr>)"
  by (auto simp: hc_after_def hc_counted_def)

lemma hc_after_processed:
  "hc_ctrl_map m k = Some i \<Longrightarrow> skb_mark skb \<noteq> 0 \<Longrightarrow> \<not> 1474 < skb_len skb \<Longrightarrow>
    hc_after E m s skb (bpf_redirect E i, skb', m\<lparr>hc_stats_map := (hc_stats_map m)(0 \<mapsto> s\<lparr>pckts_processed := pckts_processed s + 1\<rparr>)\<rparr>)"
  by (force simp: hc_after_def hc_counted_def ran_def intro!: exI [of _ "s\<lparr>pckts_processed := pckts_processed s + 1\<rparr>"])

lemmas hc_after_intros = hc_after_skip hc_after_drop hc_after_too_big hc_after_processed

lemma healthchecker_counts:
  assumes "hc_stats_map m 0 = Some s"
  shows "wp (healthchecker E m skb) (hc_after E m s skb)"
proof -
  have enc: "wp (HC_ENCAP E m real v6 skb1) Q" if "\<And>ok skb2. Q (ok, skb2)" for real v6 skb1 Q
    by (rule wp_mono [OF HC_ENCAP_safe]) (use that in auto)
  show ?thesis
    unfolding healthchecker_def
    by (auto simp: assms hc_wp hc_stat_map intro!: hc_after_intros enc)
qed

lemma healthchecker_ipip_counts:
  assumes "hc_stats_map m 0 = Some s"
  shows "wp (healthchecker_ipip E m skb) (hc_after E m s skb)"
  unfolding healthchecker_ipip_def
  by (auto simp: assms hc_wp hc_stat_map intro!: hc_after_intros)


text \<open>
  Property C28. Both health checking programs always return a verdict, and count it exactly once:
  a packet is skipped (untouched), dropped, dropped as too big, or processed and redirected to a
  configured interface; no counter but that of the verdict moves and no other map changes. Only
  marked packets of at most 1474 bytes are processed.
\<close>

theorem healthcheck_accounting:
  assumes "hc_stats_map m 0 = Some s" and "prog \<in> {healthchecker, healthchecker_ipip}"
  shows "\<exists>r skb' s'. prog E m skb = Some (r, skb', m\<lparr>hc_stats_map := (hc_stats_map m)(0 \<mapsto> s')\<rparr>) \<and>
    hc_counted s skb (bpf_redirect E ` ran (hc_ctrl_map m)) r skb' s'"
proof -
  have "wp (prog E m skb) (hc_after E m s skb)"
    using assms healthchecker_counts healthchecker_ipip_counts by auto
  then show ?thesis by (auto simp: wp_iff hc_after_def)
qed

text \<open>
  Over a sequence of packets the configuration stays and every packet gets a verdict, under
  both programs.
\<close>

definition hc_config :: "hc_maps \<Rightarrow> (u32 \<rightharpoonup> u32) \<times> (u32 \<rightharpoonup> hc_real_definition) \<times> (u32 \<rightharpoonup> hc_real_definition) \<times> (u32 \<rightharpoonup> bytes)" where
  "hc_config m = (hc_ctrl_map m, hc_reals_map m, hc_pckt_srcs_map m, hc_pckt_macs m)"

definition hc_verdict :: "hc_env \<Rightarrow> hc_maps \<Rightarrow> int \<Rightarrow> bool" where
  "hc_verdict E m r \<longleftrightarrow> r = TC_ACT_UNSPEC \<or> r = TC_ACT_SHOT \<or> r \<in> bpf_redirect E ` ran (hc_ctrl_map m)"

lemma hc_after_step:
  "hc_after E m s skb x \<Longrightarrow> case x of (r, skb', m') \<Rightarrow>
    hc_stats_map m' 0 \<noteq> None \<and> hc_config m' = hc_config m \<and> hc_verdict E m (fst (r, skb'))"
  by (auto simp: hc_after_def hc_counted_def hc_config_def hc_verdict_def)

interpretation hc: packet_program "healthchecker E" "\<lambda>m. hc_stats_map m 0 \<noteq> None"
  "\<lambda>m m'. hc_config m' = hc_config m" "\<lambda>m _ x. hc_verdict E m (fst x)" for E
proof
  fix m :: hc_maps and skb
  assume "hc_stats_map m 0 \<noteq> None"
  then obtain s where "hc_stats_map m 0 = Some s" by blast
  from healthchecker_counts [OF this, of E skb]
  show "wp (healthchecker E m skb) (\<lambda>(r, skb', m'). hc_stats_map m' 0 \<noteq> None \<and> hc_config m' = hc_config m \<and> hc_verdict E m (fst (r, skb')))"
    by (rule wp_mono) (rule hc_after_step)
qed (auto simp: hc_config_def hc_verdict_def)

interpretation hc_ipip: packet_program "healthchecker_ipip E" "\<lambda>m. hc_stats_map m 0 \<noteq> None"
  "\<lambda>m m'. hc_config m' = hc_config m" "\<lambda>m _ x. hc_verdict E m (fst x)" for E
proof
  fix m :: hc_maps and skb
  assume "hc_stats_map m 0 \<noteq> None"
  then obtain s where "hc_stats_map m 0 = Some s" by blast
  from healthchecker_ipip_counts [OF this, of E skb]
  show "wp (healthchecker_ipip E m skb) (\<lambda>(r, skb', m'). hc_stats_map m' 0 \<noteq> None \<and> hc_config m' = hc_config m \<and> hc_verdict E m (fst (r, skb')))"
    by (rule wp_mono) (rule hc_after_step)
qed (auto simp: hc_config_def hc_verdict_def)

section \<open>Examples\<close>

definition demo_hc_env :: hc_env where
  "demo_hc_env = \<lparr>skb_adjust_room = (\<lambda>n f skb. Some (skb\<lparr>skb_len := skb_len skb + of_nat n,
       skb_data := take 14 (skb_data skb) @ replicate n 0 @ drop 14 (skb_data skb)\<rparr>)),
     bpf_redirect = (\<lambda>i. 7), skb_set_tunnel_key = (\<lambda>skb k. skb\<lparr>skb_tunnel := Some k\<rparr>), HC_GUE = True\<rparr>"

definition demo_hc_maps :: hc_maps where
  "demo_hc_maps = \<lparr>hc_ctrl_map = [3 \<mapsto> 2], hc_reals_map = [9 \<mapsto> \<lparr>hc_daddr = (10, 0, 0, 0), hc_flags = 0\<rparr>],
     hc_pckt_srcs_map = [0 \<mapsto> \<lparr>hc_daddr = (11, 0, 0, 0), hc_flags = 0\<rparr>],
     hc_pckt_macs = [0 \<mapsto> replicate 6 1, 1 \<mapsto> replicate 6 2], hc_stats_map = [0 \<mapsto> \<lparr>pckts_processed = 0, pckts_dropped = 0, pckts_skipped = 0, pckts_too_big = 0\<rparr>]\<rparr>"

definition demo_hc_skb :: sk_buff where
  "demo_hc_skb = \<lparr>skb_mark = 9, skb_len = 34, skb_data = replicate 12 3 @ [8, 0] @ replicate 20 4, skb_tunnel = None\<rparr>"

lemma demo_adjust_room_ok: "adjust_room_ok demo_hc_env"
  by (auto simp: adjust_room_ok_def demo_hc_env_def) (metis length_replicate)

theorem healthcheck_reaches_real_witness:
  "\<exists>i skb' outer. healthchecker demo_hc_env demo_hc_maps demo_hc_skb =
      Some (bpf_redirect demo_hc_env 2, skb', demo_hc_maps\<lparr>hc_stats_map := (hc_stats_map demo_hc_maps)(0 \<mapsto>
        \<lparr>pckts_processed = 0, pckts_dropped = 0, pckts_skipped = 0, pckts_too_big = 0\<rparr>\<lparr>pckts_processed :=
          pckts_processed \<lparr>pckts_processed = 0, pckts_dropped = 0, pckts_skipped = 0, pckts_too_big = 0\<rparr> + 1\<rparr>)\<rparr>) \<and>
    skb_mark skb' = 0 \<and>
    outer = hc_outer (HC_GUE demo_hc_env) \<lparr>hc_daddr = (11, 0, 0, 0), hc_flags = 0\<rparr> \<lparr>hc_daddr = (10, 0, 0, 0), hc_flags = 0\<rparr>
      ([8, 0] = [0x86, 0xDD :: u8]) i (ucast (skb_len demo_hc_skb - 14)) \<and>
    skb_data skb' = replicate 6 2 @ replicate 6 1 @
      (if hc_flags \<lparr>hc_daddr = (10, 0, 0, 0), hc_flags = 0\<rparr> = 1 then [0x86, 0xDD] else [8, 0]) @ outer @ replicate 20 4 \<and>
    (hc_flags \<lparr>hc_daddr = (10, 0, 0, 0), hc_flags = 0\<rparr> \<noteq> 1 \<longrightarrow> csum_valid (take 20 outer))"
  by (rule healthcheck_reaches_real [OF demo_adjust_room_ok, where macs = "replicate 12 3"])
    (simp_all add: demo_hc_env_def demo_hc_maps_def demo_hc_skb_def)

theorem healthcheck_accounting_witness:
  "\<exists>r skb' s'. healthchecker demo_hc_env demo_hc_maps demo_hc_skb =
      Some (r, skb', demo_hc_maps\<lparr>hc_stats_map := (hc_stats_map demo_hc_maps)(0 \<mapsto> s')\<rparr>) \<and>
    hc_counted \<lparr>pckts_processed = 0, pckts_dropped = 0, pckts_skipped = 0, pckts_too_big = 0\<rparr> demo_hc_skb
      (bpf_redirect demo_hc_env ` ran (hc_ctrl_map demo_hc_maps)) r skb' s'"
  by (rule healthcheck_accounting) (simp_all add: demo_hc_maps_def)

end
