(* ===== verification/Jhash.thy ===== *)
theory Jhash
  imports Sound_Stub
begin

text \<open>
  Jenkins' hash as Katran uses it (katran/jhash.h) and the experiment that replaces it by
  summaries (jhash_stub_demo). The rotations, the mixing and the switch with its
  fall-through cases are written out; a read outside the key is \<open>None\<close>.
\<close>

definition rol32 :: "u32 \<Rightarrow> nat \<Rightarrow> u32" where
  "rol32 w shift = push_bit shift w OR drop_bit ((32 - shift) mod 32) w"

definition jhash_mix :: "u32 \<times> u32 \<times> u32 \<Rightarrow> u32 \<times> u32 \<times> u32" where
  "jhash_mix = (\<lambda>(a, b, c).
     let a = a - c; a = a XOR rol32 c 4; c = c + b;
         b = b - a; b = b XOR rol32 a 6; a = a + c;
         c = c - b; c = c XOR rol32 b 8; b = b + a;
         a = a - c; a = a XOR rol32 c 16; c = c + b;
         b = b - a; b = b XOR rol32 a 19; a = a + c;
         c = c - b; c = c XOR rol32 b 4; b = b + a
     in (a, b, c))"

definition jhash_final :: "u32 \<times> u32 \<times> u32 \<Rightarrow> u32 \<times> u32 \<times> u32" where
  "jhash_final = (\<lambda>(a, b, c).
     let c = c XOR b; c = c - rol32 b 14;
         a = a XOR c; a = a - rol32 c 11;
         b = b XOR a; b = b - rol32 a 25;
         c = c XOR b; c = c - rol32 b 16;
         a = a XOR c; a = a - rol32 c 4;
         b = b XOR a; b = b - rol32 a 14;
         c = c XOR b; c = c - rol32 b 24
     in (a, b, c))"

definition JHASH_INITVAL :: u32 where
  "JHASH_INITVAL = 0xdeadbeef"

text \<open>\<open>case n: x += (u32) k[n - 1] << s;\<close> runs for every remaining length of at least \<open>n\<close>.\<close>

definition tail_byte :: "bytes \<Rightarrow> nat \<Rightarrow> nat \<Rightarrow> nat \<Rightarrow> nat \<Rightarrow> u32 \<Rightarrow> u32 option" where
  "tail_byte key k len n s x =
     (if n \<le> len then do { b \<leftarrow> ld8 key (k + (n - 1)); Some (x + push_bit s (ucast b)) } else Some x)"

definition jhash_tail :: "bytes \<Rightarrow> nat \<Rightarrow> nat \<Rightarrow> u32 \<times> u32 \<times> u32 \<Rightarrow> u32 option" where
  "jhash_tail key k len = (\<lambda>(a, b, c).
     do { c \<leftarrow> tail_byte key k len 12 24 c; c \<leftarrow> tail_byte key k len 11 16 c;
          c \<leftarrow> tail_byte key k len 10 8 c; c \<leftarrow> tail_byte key k len 9 0 c;
          b \<leftarrow> tail_byte key k len 8 24 b; b \<leftarrow> tail_byte key k len 7 16 b;
          b \<leftarrow> tail_byte key k len 6 8 b; b \<leftarrow> tail_byte key k len 5 0 b;
          a \<leftarrow> tail_byte key k len 4 24 a; a \<leftarrow> tail_byte key k len 3 16 a;
          a \<leftarrow> tail_byte key k len 2 8 a; a \<leftarrow> tail_byte key k len 1 0 a;
          Some (if 1 \<le> len then snd (snd (jhash_final (a, b, c))) else c) })"

function jhash_loop :: "bytes \<Rightarrow> nat \<Rightarrow> nat \<Rightarrow> u32 \<times> u32 \<times> u32 \<Rightarrow> u32 option" where
  "jhash_loop key k len (a, b, c) =
     (if len > 12 then
        do { x \<leftarrow> ld32 key k; y \<leftarrow> ld32 key (k + 4); z \<leftarrow> ld32 key (k + 8);
             jhash_loop key (k + 12) (len - 12) (jhash_mix (a + x, b + y, c + z)) }
      else jhash_tail key k len (a, b, c))"
  by pat_completeness auto
termination
  by (relation "measure (\<lambda>(key, k, len, abc). len)") auto

definition jhash :: "bytes \<Rightarrow> nat \<Rightarrow> u32 \<Rightarrow> u32 option" where
  "jhash key len initval =
     (let i = JHASH_INITVAL + of_nat len + initval in jhash_loop key 0 len (i, i, i))"

definition jhash_nwords :: "u32 \<Rightarrow> u32 \<Rightarrow> u32 \<Rightarrow> u32 \<Rightarrow> u32" where
  "jhash_nwords a b c initval = snd (snd (jhash_final (a + initval, b + initval, c + initval)))"

definition jhash_2words :: "u32 \<Rightarrow> u32 \<Rightarrow> u32 \<Rightarrow> u32" where
  "jhash_2words a b initval = jhash_nwords a b 0 (initval + JHASH_INITVAL + push_bit 2 2)"

definition jhash_1word :: "u32 \<Rightarrow> u32 \<Rightarrow> u32" where
  "jhash_1word a initval = jhash_nwords a 0 0 (initval + JHASH_INITVAL + push_bit 2 1)"

section \<open>The stub experiment\<close>

definition DEMO_SEED :: u32 where "DEMO_SEED = 16129"
definition DEMO_SEED_V6 :: u32 where "DEMO_SEED_V6 = 32"
definition DEMO_RING_SIZE :: u32 where "DEMO_RING_SIZE = 127"

definition demo_jhash_2words :: "u32 \<Rightarrow> u32 \<Rightarrow> u32 \<Rightarrow> u32" where
  "demo_jhash_2words a b initval =
     (let c = JHASH_INITVAL + 8 + initval in snd (snd (jhash_final (a + c, b + c, c))))"

definition demo_get_packet_hash :: "bytes \<Rightarrow> u32 \<Rightarrow> u32 option" where
  "demo_get_packet_hash srcv6 ports =
     do { h \<leftarrow> jhash srcv6 16 DEMO_SEED_V6;
          Some (demo_jhash_2words h ports DEMO_SEED mod DEMO_RING_SIZE) }"

definition get_packet_hash_stub_gen :: "u32 \<Rightarrow> bool" where
  "get_packet_hash_stub_gen result = (result < 127)"

definition get_packet_hash_symbolic :: "u32 \<Rightarrow> bool" where
  "get_packet_hash_symbolic result = (\<exists>r < 2 ^ 32. result = of_nat r mod DEMO_RING_SIZE)"

definition get_packet_hash_concrete :: "u32 \<Rightarrow> bool" where
  "get_packet_hash_concrete result = (result = 42 mod DEMO_RING_SIZE)"

section \<open>Lemmas\<close>

lemma tail_byte_safe: "k + len \<le> length key \<Longrightarrow> 1 \<le> n \<Longrightarrow> \<exists>y. tail_byte key k len n s x = Some y"
  by (auto simp: tail_byte_def ld8_def)

lemma jhash_tail_total: "k + len \<le> length key \<Longrightarrow> \<exists>h. jhash_tail key k len abc = Some h"
proof (cases abc)
  case (fields a b c)
  assume "k + len \<le> length key"
  then have "wp (tail_byte key k len n s x) (\<lambda>_. True)" if "1 \<le> n" for n s x
    using tail_byte_safe that by (auto simp: wp_iff)
  then have "wp (jhash_tail key k len abc) (\<lambda>_. True)"
    unfolding jhash_tail_def fields prod.case
    by (intro safe_bind [where P = "\<lambda>_. True"]) simp_all
  then show ?thesis by (simp add: wp_iff)
qed

lemma jhash_loop_total: "k + len \<le> length key \<Longrightarrow> \<exists>h. jhash_loop key k len abc = Some h"
proof (induction key k len abc rule: jhash_loop.induct)
  case (1 key k len a b c)
  show ?case
  proof (cases "len > 12")
    case True
    then have "\<exists>x. ld32 key (k + j) = Some x" if "j \<in> {0, 4, 8}" for j
      using 1 that by (auto simp: ld32_def ldn_def)
    then obtain x y z where "ld32 key k = Some x" "ld32 key (k + 4) = Some y" "ld32 key (k + 8) = Some z"
      by (metis add.right_neutral insertCI)
    then show ?thesis using True 1 by (subst jhash_loop.simps) simp
  qed (use 1 jhash_tail_total in \<open>simp add: jhash_loop.simps\<close>)
qed

lemma jhash_total: "len \<le> length key \<Longrightarrow> \<exists>h. jhash key len initval = Some h"
  using jhash_loop_total [of 0 len key] by (simp add: jhash_def Let_def del: jhash_loop.simps)

lemma demo_jhash_2words_eq: "demo_jhash_2words a b iv = jhash_2words a b iv"
  by (simp add: demo_jhash_2words_def jhash_2words_def jhash_nwords_def Let_def algebra_simps)

lemma word_mod_same: "a < b \<Longrightarrow> (a mod b :: 'a::len word) = a"
  by (simp add: word_less_nat_alt word_unat_eq_iff unat_mod_distrib)

lemma stub_gen_symbolic: "get_packet_hash_stub_gen r \<Longrightarrow> get_packet_hash_symbolic r"
  unfolding get_packet_hash_symbolic_def get_packet_hash_stub_gen_def DEMO_RING_SIZE_def
  by (intro exI [of _ "unat r"]) (simp add: unat_lt_u32 word_mod_same)

interpretation packet_hash: sound_stub
  "\<lambda>(srcv6, ports). demo_get_packet_hash srcv6 ports"
  "\<lambda>(srcv6, ports). 16 \<le> length srcv6"
  "\<lambda>_. get_packet_hash_stub_gen"
proof unfold_locales
  fix x :: "bytes \<times> u32"
  assume "case x of (srcv6, ports) \<Rightarrow> 16 \<le> length srcv6"
  then obtain h where "jhash (fst x) 16 DEMO_SEED_V6 = Some h"
    using jhash_total [of 16 "fst x"] by (auto split: prod.splits)
  then show "wp (case x of (srcv6, ports) \<Rightarrow> demo_get_packet_hash srcv6 ports) get_packet_hash_stub_gen"
    by (cases x) (simp add: demo_get_packet_hash_def get_packet_hash_stub_gen_def DEMO_RING_SIZE_def
        word_mod_less)
qed

text \<open>
  \<open>get_packet_hash\<close> of the stub experiment never reads outside the 16-byte
  address, always returns a ring bucket below 127, hence an outcome that both symbolic stubs
  allow; the concrete stub allows bucket 42 only, so a policy about any other bucket is not
  checked by it.
\<close>

lemma packet_hash_stubs_sound:
  assumes "16 \<le> length srcv6"
  shows "wp (demo_get_packet_hash srcv6 ports)
      (\<lambda>r. get_packet_hash_stub_gen r \<and> get_packet_hash_symbolic r) \<and>
    (\<forall>r. get_packet_hash_stub_gen r \<longrightarrow> get_packet_hash_concrete r = (r = 42))"
proof
  have "wp (demo_get_packet_hash srcv6 ports) get_packet_hash_stub_gen"
    using packet_hash.covered [of "(srcv6, ports)"] assms by simp
  then show "wp (demo_get_packet_hash srcv6 ports)
      (\<lambda>r. get_packet_hash_stub_gen r \<and> get_packet_hash_symbolic r)"
    by (rule wp_mono) (simp add: stub_gen_symbolic)
  show "\<forall>r. get_packet_hash_stub_gen r \<longrightarrow> get_packet_hash_concrete r = (r = 42)"
    by (simp add: get_packet_hash_concrete_def DEMO_RING_SIZE_def)
qed

lemma packet_hash_stubs_sound_witness:
  "wp (demo_get_packet_hash (replicate 16 1) 80)
    (\<lambda>r. get_packet_hash_stub_gen r \<and> get_packet_hash_symbolic r)"
  using packet_hash_stubs_sound [of "replicate 16 1" 80] by simp

end
