(* ===== verification/Katran_Balancer.thy ===== *)
theory Katran_Balancer
  imports Katran_Encap Jhash
begin

text \<open>
  The balancer program itself: balancer_kern.h, with \<open>submit_event\<close> and \<open>recirculate\<close> of
  balancer_helpers.h. \<open>process_packet\<close> is cut into the blocks the source separates by
  comments, each a definition of its own; every block returns the maps, and the packet where
  it may change it. \<open>recirculate\<close> is a tail call of the balancer on the decapsulated packet,
  so a run of \<open>process_packet\<close> ends in an XDP action or in \<open>Recirculate\<close>;
  \<open>balancer_run\<close> follows the tail calls, of which the kernel allows 33.
\<close>

section \<open>Events\<close>

definition min_helper :: "int \<Rightarrow> int \<Rightarrow> int" where
  "min_helper a b = (if a < b then a else b)"

definition BPF_F_CURRENT_CPU :: u64 where
  [simp]: "BPF_F_CURRENT_CPU = 0xffffffff"

definition submit_event :: "katran_cfg \<Rightarrow> katran_maps \<Rightarrow> u32 \<Rightarrow> nat \<Rightarrow> bool \<Rightarrow> katran_maps" where
  "submit_event C m event_id sz metadata_only =
     (if \<not> KATRAN_INTROSPECTION C then m else
      case ctl_array m 5 of
        None \<Rightarrow> m
      | Some gk \<Rightarrow>
        if gk = 0 then m
        else
          let dl = (if metadata_only then 0 else of_int (min_helper (int sz) MAX_EVENT_SIZE));
              md = \<lparr>event = event_id, pkt_size = of_nat sz, data_len = dl\<rparr>;
              fl = (if metadata_only then BPF_F_CURRENT_CPU
                    else BPF_F_CURRENT_CPU OR push_bit 32 (ucast dl)) in
          m\<lparr>event_pipe := event_pipe m @ [(md, fl)]\<rparr>)"

section \<open>Choice of the real\<close>

definition get_packet_hash :: "katran_cfg \<Rightarrow> packet_description \<Rightarrow> bool \<Rightarrow> u32 option" where
  "get_packet_hash C pckt hash_16bytes =
     (if KLEE_VERIFICATION C then Some 42
      else if hash_16bytes then
        do { h \<leftarrow> jhash (addr_bytes (src (flow pckt))) 16 INIT_JHASH_SEED_V6;
             Some (jhash_2words h (flow_ports (flow pckt)) INIT_JHASH_SEED) }
      else Some (jhash_2words (v4_of (src (flow pckt))) (flow_ports (flow pckt)) INIT_JHASH_SEED))"

definition is_under_flood :: "katran_env \<Rightarrow> katran_maps \<Rightarrow> bool \<times> u64 \<times> katran_maps" where
  "is_under_flood E m =
     (let conn_rate_key = MAX_VIPS + NEW_CONN_RATE_CNTR in
      case stats m conn_rate_key of
        None \<Rightarrow> (True, 0, m)
      | Some s \<Rightarrow>
        let (cur_time, m) = ktime E m in
        if cur_time - v2 s > ONE_SEC then
          (False, cur_time, m\<lparr>stats := (stats m)(conn_rate_key \<mapsto> s\<lparr>v1 := 1, v2 := cur_time\<rparr>)\<rparr>)
        else
          let s = s\<lparr>v1 := v1 s + 1\<rparr> in
          (v1 s > MAX_CONN_RATE, cur_time, m\<lparr>stats := (stats m)(conn_rate_key \<mapsto> s)\<rparr>))"

text \<open>Source-based routing: \<open>Some\<close> the real's id when the LPM lookup hits.\<close>

definition src_route :: "katran_cfg \<Rightarrow> katran_maps \<Rightarrow> packet_description \<Rightarrow> vip_meta \<Rightarrow> bool \<Rightarrow> bool \<Rightarrow>
    u32 option \<times> katran_maps" where
  "src_route C m pckt vip_info is_ipv6 under_flood =
     (if LPM_SRC_LOOKUP C \<and> vflags vip_info AND F_SRC_ROUTING \<noteq> 0 \<and> \<not> under_flood then
        let lpm_val = (if is_ipv6 then lpm_src_v6 m 128 (src (flow pckt))
                       else lpm_src_v4 m 32 (v4_of (src (flow pckt)))) in
        (lpm_val, bump (MAX_VIPS + LPM_SRC_CNTRS) (if lpm_val = None then 1 else 0)
                    (if lpm_val = None then 0 else 1) m)
      else (None, m))"

definition ring_key :: "u32 \<Rightarrow> u32 \<Rightarrow> u32" where
  "ring_key num hash = RING_SIZE * num + hash mod RING_SIZE"

definition lru_store :: "katran_env \<Rightarrow> lru_ref \<Rightarrow> flow_key \<Rightarrow> real_pos_lru \<Rightarrow> katran_maps \<Rightarrow> katran_maps" where
  "lru_store E lru f v m =
     m\<lparr>lru_mapping := (lru_mapping m)(lru := lru_update E (lru_mapping m lru) f v)\<rparr>"

text \<open>\<open>*real = NULL\<close> with \<open>return false\<close> is \<open>None\<close>.\<close>

definition get_packet_dst :: "katran_cfg \<Rightarrow> katran_env \<Rightarrow> katran_maps \<Rightarrow> packet_description \<Rightarrow> vip_meta \<Rightarrow>
    bool \<Rightarrow> lru_ref \<Rightarrow> (real_definition option \<times> packet_description \<times> katran_maps) option" where
  "get_packet_dst C E m pckt vip_info is_ipv6 lru =
     (let (under_flood, cur_time, m) = is_under_flood E m;
          (src_key, m) = src_route C m pckt vip_info is_ipv6 under_flood in
      do { (key, pckt) \<leftarrow>
             (case src_key of
                Some k \<Rightarrow> Some (Some k, pckt)
              | None \<Rightarrow>
                let pckt = (if vflags vip_info AND F_HASH_DPORT_ONLY \<noteq> 0
                            then pckt\<lparr>flow := (flow pckt)\<lparr>port0 := port1 (flow pckt), src := addr0\<rparr>\<rparr>
                            else pckt) in
                do { h \<leftarrow> get_packet_hash C pckt is_ipv6;
                     Some (ch_rings m (ring_key (vip_num vip_info) h), pckt) });
           case key of
             None \<Rightarrow> Some (None, pckt, m)
           | Some key \<Rightarrow>
             let pckt = pckt\<lparr>real_index := key\<rparr> in
             case reals m key of
               None \<Rightarrow> Some (None, pckt, m)
             | Some real \<Rightarrow>
               let m = (if vflags vip_info AND F_LRU_BYPASS = 0 \<and> \<not> under_flood
                        then lru_store E lru (flow pckt)
                               \<lparr>pos = key, atime = (if proto (flow pckt) = IPPROTO_UDP then cur_time else 0)\<rparr> m
                        else m) in
               Some (Some real, pckt, m) })"

definition connection_table_lookup :: "katran_env \<Rightarrow> katran_maps \<Rightarrow> packet_description \<Rightarrow> lru_ref \<Rightarrow>
    real_definition option \<times> packet_description \<times> katran_maps" where
  "connection_table_lookup E m pckt lru =
     (case lru_mapping m lru (flow pckt) of
        None \<Rightarrow> (None, pckt, m)
      | Some dst_lru \<Rightarrow>
        let (expired, m) =
          (if proto (flow pckt) = IPPROTO_UDP then
             let (cur_time, m) = ktime E m in
             if cur_time - atime dst_lru > LRU_UDP_TIMEOUT then (True, m)
             else (False, m\<lparr>lru_mapping := (lru_mapping m)(lru :=
                     (lru_mapping m lru)(flow pckt \<mapsto> dst_lru\<lparr>atime := cur_time\<rparr>))\<rparr>)
           else (False, m)) in
        if expired then (None, pckt, m)
        else let key = pos dst_lru in (reals m key, pckt\<lparr>real_index := key\<rparr>, m))"

section \<open>Headers\<close>

text \<open>
  Returns the action, the packet (an echo request is answered in place), the description and
  the length field of the IP header.
\<close>

definition process_l3_headers :: "bytes \<Rightarrow> packet_description \<Rightarrow> nat \<Rightarrow> bool \<Rightarrow>
    (int \<times> bytes \<times> packet_description \<times> u16) option" where
  "process_l3_headers p pckt off is_ipv6 =
     (if is_ipv6 then
        let ip6h = off in
        if length p < ip6h + sizeof_ipv6hdr then Some (XDP_DROP, p, pckt, 0)
        else do {
          protocol \<leftarrow> ld8 p (ip6h + 6);
          b0 \<leftarrow> ld8 p ip6h;
          flow_lbl0 \<leftarrow> ld8 p (ip6h + 1);
          payload_len \<leftarrow> ld16 p (ip6h + 4);
          let pckt = pckt\<lparr>flow := (flow pckt)\<lparr>proto := protocol\<rparr>,
                          tos := (push_bit 4 (b0 AND 0x0F) AND 0xF0) OR (drop_bit 4 flow_lbl0 AND 0x0F)\<rparr>;
          let pkt_bytes = bpf_ntohs payload_len;
          if protocol = IPPROTO_FRAGMENT then Some (XDP_DROP, p, pckt, pkt_bytes)
          else if protocol = IPPROTO_ICMPV6 then
            do { (action, p, pckt) \<leftarrow> parse_icmpv6 p (off + sizeof_ipv6hdr) pckt;
                 if action \<ge> 0 then Some (action, p, pckt, pkt_bytes)
                 else Some (FURTHER_PROCESSING, p, pckt, pkt_bytes) }
          else do { saddr \<leftarrow> ld_addr p (ip6h + 8);
                    daddr \<leftarrow> ld_addr p (ip6h + 24);
                    Some (FURTHER_PROCESSING, p,
                          pckt\<lparr>flow := (flow pckt)\<lparr>src := saddr, dst := daddr\<rparr>\<rparr>, pkt_bytes) } }
      else
        let iph = off in
        if length p < iph + sizeof_iphdr then Some (XDP_DROP, p, pckt, 0)
        else do {
          vihl \<leftarrow> ld8 p iph;
          if vihl AND 0x0F \<noteq> 5 then Some (XDP_DROP, p, pckt, 0)
          else do {
            t \<leftarrow> ld8 p (iph + 1);
            protocol \<leftarrow> ld8 p (iph + 9);
            tot_len \<leftarrow> ld16 p (iph + 2);
            frag_off \<leftarrow> ld16 p (iph + 6);
            let pckt = pckt\<lparr>flow := (flow pckt)\<lparr>proto := protocol\<rparr>, tos := t\<rparr>;
            let pkt_bytes = bpf_ntohs tot_len;
            if frag_off AND PCKT_FRAGMENTED \<noteq> 0 then Some (XDP_DROP, p, pckt, pkt_bytes)
            else if protocol = IPPROTO_ICMP then
              do { (action, p, pckt) \<leftarrow> parse_icmp p (off + IPV4_HDR_LEN_NO_OPT) pckt;
                   if action \<ge> 0 then Some (action, p, pckt, pkt_bytes)
                   else Some (FURTHER_PROCESSING, p, pckt, pkt_bytes) }
            else do { saddr \<leftarrow> ld32 p (iph + 12);
                      daddr \<leftarrow> ld32 p (iph + 16);
                      Some (FURTHER_PROCESSING, p,
                            pckt\<lparr>flow := (flow pckt)\<lparr>src := set_v4 (src (flow pckt)) saddr,
                                                     dst := set_v4 (dst (flow pckt)) daddr\<rparr>\<rparr>,
                            pkt_bytes) } } })"

section \<open>Decapsulation on the way in\<close>

datatype verdict = Act int | Recirculate

definition recirculate :: verdict where
  "recirculate = Recirculate"

definition check_decap_dst :: "katran_maps \<Rightarrow> packet_description \<Rightarrow> bool \<Rightarrow> int \<times> bool \<times> katran_maps" where
  "check_decap_dst m pckt is_ipv6 =
     (let dst_addr = (if is_ipv6 then dst (flow pckt) else set_v4 addr0 (v4_of (dst (flow pckt)))) in
      case decap_dst m dst_addr of
        None \<Rightarrow> (FURTHER_PROCESSING, True, m)
      | Some _ \<Rightarrow>
        let stats_key = MAX_VIPS + REMOTE_ENCAP_CNTRS in
        case stats m stats_key of
          None \<Rightarrow> (XDP_DROP, False, m)
        | Some _ \<Rightarrow> (FURTHER_PROCESSING, False, bump stats_key 1 0 m))"

definition after_decap :: "int \<Rightarrow> bool \<Rightarrow> verdict" where
  "after_decap action pass =
     (if action \<ge> 0 then Act action else if pass then Act XDP_PASS else recirculate)"

text \<open>
  With a protocol other than IPIP and IPV6 the C function reads \<open>action\<close> uninitialised: that
  is \<open>None\<close> here.
\<close>

definition process_encaped_ipip_pckt :: "katran_env \<Rightarrow> bytes \<Rightarrow> bool \<Rightarrow> u8 \<Rightarrow> bool \<Rightarrow>
    (verdict \<times> bytes) option" where
  "process_encaped_ipip_pckt E p is_ipv6 protocol pass =
     (if protocol = IPPROTO_IPIP then
        if is_ipv6 then
          let offset = sizeof_ipv6hdr + sizeof_eth in
          if length p < offset then Some (Act XDP_DROP, p)
          else do { (action, p) \<leftarrow> decrement_ttl p offset False;
                    (ok, p) \<leftarrow> decap_v6 E p True;
                    if \<not> ok then Some (Act XDP_DROP, p) else Some (after_decap action pass, p) }
        else
          let offset = sizeof_iphdr + sizeof_eth in
          if length p < offset then Some (Act XDP_DROP, p)
          else do { (action, p) \<leftarrow> decrement_ttl p offset False;
                    (ok, p) \<leftarrow> decap_v4 E p;
                    if \<not> ok then Some (Act XDP_DROP, p) else Some (after_decap action pass, p) }
      else if protocol = IPPROTO_IPV6 then
        let offset = sizeof_ipv6hdr + sizeof_eth in
        if length p < offset then Some (Act XDP_DROP, p)
        else do { (action, p) \<leftarrow> decrement_ttl p offset True;
                  (ok, p) \<leftarrow> decap_v6 E p False;
                  if \<not> ok then Some (Act XDP_DROP, p) else Some (after_decap action pass, p) }
      else None)"

definition process_encaped_gue_pckt :: "katran_env \<Rightarrow> bytes \<Rightarrow> bool \<Rightarrow> bool \<Rightarrow> (verdict \<times> bytes) option" where
  "process_encaped_gue_pckt E p is_ipv6 pass =
     (if is_ipv6 then
        let offset = sizeof_ipv6hdr + sizeof_eth + sizeof_udphdr in
        if length p < offset + 1 then Some (Act XDP_DROP, p)
        else do {
          v6 \<leftarrow> ld8 p offset;
          if v6 AND GUEV1_IPV6MASK \<noteq> 0 then
            do { (action, p) \<leftarrow> decrement_ttl p offset True;
                 (ok, p) \<leftarrow> gue_decap_v6 E p False;
                 if \<not> ok then Some (Act XDP_DROP, p) else Some (after_decap action pass, p) }
          else
            do { (action, p) \<leftarrow> decrement_ttl p offset False;
                 (ok, p) \<leftarrow> gue_decap_v6 E p True;
                 if \<not> ok then Some (Act XDP_DROP, p) else Some (after_decap action pass, p) } }
      else
        let offset = sizeof_iphdr + sizeof_eth + sizeof_udphdr in
        if length p < offset then Some (Act XDP_DROP, p)
        else do { (action, p) \<leftarrow> decrement_ttl p offset False;
                  (ok, p) \<leftarrow> gue_decap_v4 E p;
                  if \<not> ok then Some (Act XDP_DROP, p) else Some (after_decap action pass, p) })"

section \<open>QUIC counters\<close>

definition increment_quic_cid_version_stats :: "int \<Rightarrow> katran_maps \<Rightarrow> katran_maps" where
  "increment_quic_cid_version_stats host_id m =
     (let k = MAX_VIPS + QUIC_CID_VERSION_STATS in
      if host_id > QUIC_CONNID_VERSION_V1_MAX_VAL then bump k 0 1 m else bump k 1 0 m)"

definition increment_quic_cid_drop_no_real :: "katran_maps \<Rightarrow> katran_maps" where
  "increment_quic_cid_drop_no_real m = bump (MAX_VIPS + QUIC_CID_DROP_STATS) 1 0 m"

definition increment_quic_cid_drop_real_0 :: "katran_maps \<Rightarrow> katran_maps" where
  "increment_quic_cid_drop_real_0 m = bump (MAX_VIPS + QUIC_CID_DROP_STATS) 0 1 m"

section \<open>The packet path\<close>

text \<open>
  The lookup of the VIP by destination, port and protocol, then by destination and protocol
  alone. \<open>None\<close>: not a VIP.
\<close>

definition lookup_vip :: "katran_maps \<Rightarrow> packet_description \<Rightarrow> bool \<Rightarrow>
    (vip_definition \<times> vip_meta \<times> packet_description) option" where
  "lookup_vip m pckt is_ipv6 =
     (let key = \<lparr>vip = (if is_ipv6 then dst (flow pckt) else set_v4 addr0 (v4_of (dst (flow pckt)))),
                 vport = port1 (flow pckt), vproto = proto (flow pckt)\<rparr> in
      case vip_map m key of
        Some info \<Rightarrow> Some (key, info, pckt)
      | None \<Rightarrow>
        let key = key\<lparr>vport := 0\<rparr> in
        case vip_map m key of
          None \<Rightarrow> None
        | Some info \<Rightarrow>
          Some (key, info,
            if vflags info AND F_HASH_DPORT_ONLY = 0 then pckt\<lparr>flow := (flow pckt)\<lparr>port1 := 0\<rparr>\<rparr> else pckt))"

text \<open>Oversized packets: answered with an ICMP error where that is compiled in, else dropped.\<close>

definition packet_too_big :: "katran_cfg \<Rightarrow> katran_env \<Rightarrow> katran_maps \<Rightarrow> bytes \<Rightarrow> bool \<Rightarrow>
    (int \<times> bytes \<times> katran_maps) option" where
  "packet_too_big C E m p is_ipv6 =
     (let m = submit_event C m PACKET_TOOBIG (length p) False in
      if ICMP_TOOBIG_GENERATION C then
        let stats_key = MAX_VIPS + ICMP_TOOBIG_CNTRS in
        case stats m stats_key of
          None \<Rightarrow> Some (XDP_DROP, p, m)
        | Some _ \<Rightarrow>
          let m = (if is_ipv6 then bump stats_key 0 1 m else bump stats_key 1 0 m) in
          do { (a, p) \<leftarrow> send_icmp_too_big E p is_ipv6 (length p); Some (a, p, m) }
      else Some (XDP_DROP, p, m))"

text \<open>
  QUIC routing. \<open>Inl\<close> is an action that ends the run; \<open>Inr\<close> the real, if one was found by
  the connection id, and the description.
\<close>

definition quic_route :: "katran_cfg \<Rightarrow> katran_maps \<Rightarrow> bytes \<Rightarrow> packet_description \<Rightarrow> vip_meta \<Rightarrow> bool \<Rightarrow>
    ((int + real_definition option \<times> packet_description) \<times> katran_maps) option" where
  "quic_route C m p pckt vip_info is_ipv6 =
     (if proto (flow pckt) = IPPROTO_UDP \<and> vflags vip_info AND F_QUIC_VIP \<noteq> 0 then
        let quic_stats_key = MAX_VIPS + QUIC_ROUTE_STATS in
        case stats m quic_stats_key of
          None \<Rightarrow> Some (Inl XDP_DROP, m)
        | Some _ \<Rightarrow>
          do { real_id \<leftarrow> parse_quic p is_ipv6 pckt;
               if real_id > 0 then
                 let m = increment_quic_cid_version_stats real_id m in
                 case quic_mapping m (of_int real_id) of
                   Some key \<Rightarrow>
                     let m = (if key = 0 then increment_quic_cid_drop_real_0 m else m);
                         pckt = pckt\<lparr>real_index := key\<rparr> in
                     (case reals m key of
                        None \<Rightarrow> Some (Inl XDP_DROP,
                          submit_event C (increment_quic_cid_drop_no_real m)
                            QUIC_PACKET_DROP_NO_REAL (length p) False)
                      | Some real \<Rightarrow> Some (Inr (Some real, pckt), bump quic_stats_key 0 1 m))
                 | None \<Rightarrow> Some (Inr (None, pckt), bump quic_stats_key 1 0 m)
               else Some (Inr (None, pckt), bump quic_stats_key 1 0 m) }
      else Some (Inr (None, pckt), m))"

definition choose_lru :: "katran_cfg \<Rightarrow> katran_env \<Rightarrow> katran_maps \<Rightarrow> lru_ref" where
  "choose_lru C E m =
     (if \<not> KLEE_VERIFICATION C then Lru_single
      else let cpu_num = smp_processor_id E in
           if lru_cpus m cpu_num then Lru_cpu cpu_num else Lru_fallback)"

text \<open>Connection table, then consistent hashing, with the connection table that was chosen.\<close>

definition pick_from :: "lru_ref \<Rightarrow> katran_cfg \<Rightarrow> katran_env \<Rightarrow> katran_maps \<Rightarrow> bytes \<Rightarrow> packet_description \<Rightarrow> vip_meta \<Rightarrow>
    bool \<Rightarrow> ((int + real_definition \<times> packet_description) \<times> katran_maps) option" where
  "pick_from lru C E m p pckt vip_info is_ipv6 =
     (let pckt = (if vflags vip_info AND F_HASH_NO_SRC_PORT \<noteq> 0
                  then pckt\<lparr>flow := (flow pckt)\<lparr>port0 := 0\<rparr>\<rparr> else pckt);
          (dst_real, pckt, m) =
            (if pflags pckt AND F_SYN_SET = 0 \<and> vflags vip_info AND F_LRU_BYPASS = 0
             then connection_table_lookup E m pckt lru else (None, pckt, m)) in
      case dst_real of
        Some real \<Rightarrow> Some (Inr (real, pckt), m)
      | None \<Rightarrow>
        let lru_stats_key = MAX_VIPS + LRU_MISS_CNTR in
        if proto (flow pckt) = IPPROTO_TCP \<and> stats m lru_stats_key = None then Some (Inl XDP_DROP, m)
        else
          let m = (if proto (flow pckt) \<noteq> IPPROTO_TCP then m
                   else if pflags pckt AND F_SYN_SET \<noteq> 0 then bump lru_stats_key 1 0 m
                   else bump lru_stats_key 0 1
                          (submit_event C m TCP_NONSYN_LRUMISS (length p) False)) in
          do { (r, pckt, m) \<leftarrow> get_packet_dst C E m pckt vip_info is_ipv6 lru;
               case r of
                 None \<Rightarrow> Some (Inl XDP_DROP, m)
               | Some real \<Rightarrow> Some (Inr (real, pckt), bump (MAX_VIPS + LRU_CNTRS) 0 1 m) })"

definition pick_real :: "katran_cfg \<Rightarrow> katran_env \<Rightarrow> katran_maps \<Rightarrow> bytes \<Rightarrow> packet_description \<Rightarrow> vip_meta \<Rightarrow>
    bool \<Rightarrow> ((int + real_definition \<times> packet_description) \<times> katran_maps) option" where
  "pick_real C E m p pckt vip_info is_ipv6 = pick_from (choose_lru C E m) C E m p pckt vip_info is_ipv6"

text \<open>Encapsulation towards the real and the statistics of VIP and real.\<close>

definition send_to_real :: "katran_cfg \<Rightarrow> katran_env \<Rightarrow> katran_maps \<Rightarrow> bytes \<Rightarrow> packet_description \<Rightarrow>
    real_definition \<Rightarrow> vip_meta \<Rightarrow> bool \<Rightarrow> u16 \<Rightarrow> (int \<times> bytes \<times> katran_maps) option" where
  "send_to_real C E m p pckt real vip_info is_ipv6 pkt_bytes =
     (case ctl_array m 0 of
        None \<Rightarrow> Some (XDP_DROP, p, m)
      | Some cval \<Rightarrow>
        do { (ok, p) \<leftarrow>
               (if is_ipv6 \<and> rflags real AND F_IPV6 \<noteq> 0 then
                  if GUE_ENCAP C then gue_encap_v6 E (pckt_srcs m) p cval is_ipv6 pckt real (ucast pkt_bytes)
                  else encap_v6 E p cval is_ipv6 pckt real (ucast pkt_bytes)
                else
                  if GUE_ENCAP C then gue_encap_v4 E (pckt_srcs m) p cval pckt real (ucast pkt_bytes)
                  else encap_v4 E p cval pckt real (ucast pkt_bytes));
             if \<not> ok then Some (XDP_DROP, p, m)
             else if stats m (vip_num vip_info) = None then Some (XDP_DROP, p, m)
             else
               let m = bump (vip_num vip_info) 1 (ucast pkt_bytes) m in
               if reals_stats m (real_index pckt) = None then Some (XDP_DROP, p, m)
               else Some (XDP_TX, p,
                 m\<lparr>reals_stats := stats_add (real_index pckt) 1 (ucast pkt_bytes) (reals_stats m)\<rparr>) })"

text \<open>
  From the VIP lookup on: the part of \<open>process_packet\<close> that forwards. The copy of the balancer in
  cross_prog differs in how it picks the real; \<open>forward_with\<close> takes that step as an argument.
\<close>

type_synonym picker = "katran_maps \<Rightarrow> bytes \<Rightarrow> packet_description \<Rightarrow> vip_meta \<Rightarrow> bool \<Rightarrow>
    ((int + real_definition \<times> packet_description) \<times> katran_maps) option"

definition forward_with :: "picker \<Rightarrow> katran_cfg \<Rightarrow> katran_env \<Rightarrow> katran_maps \<Rightarrow> bytes \<Rightarrow> packet_description \<Rightarrow> bool \<Rightarrow>
    u16 \<Rightarrow> (int \<times> bytes \<times> katran_maps) option" where
  "forward_with pick C E m p pckt is_ipv6 pkt_bytes =
     (case lookup_vip m pckt is_ipv6 of
        None \<Rightarrow> Some (XDP_PASS, p, m)
      | Some (key, info, pckt) \<Rightarrow>
        let vip_info = info\<lparr>vip_num := CONCRETE_VIP_NUM\<rparr>;
            m = m\<lparr>vip_map := (vip_map m)(key \<mapsto> vip_info)\<rparr> in
        if length p > MAX_PCKT_SIZE then packet_too_big C E m p is_ipv6
        else
          let stats_key = MAX_VIPS + LRU_CNTRS in
          case stats m stats_key of
            None \<Rightarrow> Some (XDP_DROP, p, m)
          | Some _ \<Rightarrow>
            let m = bump stats_key 1 0 m in
            do { (q, m) \<leftarrow> quic_route C m p pckt vip_info is_ipv6;
                 case q of
                   Inl action \<Rightarrow> Some (action, p, m)
                 | Inr (Some real, pckt) \<Rightarrow> send_to_real C E m p pckt real vip_info is_ipv6 pkt_bytes
                 | Inr (None, pckt) \<Rightarrow>
                   do { (r, m) \<leftarrow> pick m p pckt vip_info is_ipv6;
                        case r of
                          Inl action \<Rightarrow> Some (action, p, m)
                        | Inr (real, pckt) \<Rightarrow> send_to_real C E m p pckt real vip_info is_ipv6 pkt_bytes } })"

definition forward_packet :: "katran_cfg \<Rightarrow> katran_env \<Rightarrow> katran_maps \<Rightarrow> bytes \<Rightarrow> packet_description \<Rightarrow> bool \<Rightarrow>
    u16 \<Rightarrow> (int \<times> bytes \<times> katran_maps) option" where
  "forward_packet C E = forward_with (pick_real C E) C E"

definition process_packet :: "katran_cfg \<Rightarrow> katran_env \<Rightarrow> katran_maps \<Rightarrow> bytes \<Rightarrow> nat \<Rightarrow> bool \<Rightarrow>
    (verdict \<times> bytes \<times> katran_maps) option" where
  "process_packet C E m p off is_ipv6 =
     do { (action, p, pckt, pkt_bytes) \<leftarrow> process_l3_headers p pckt0 off is_ipv6;
          if action \<ge> 0 then Some (Act action, p, m)
          else
            let protocol = proto (flow pckt) in
            if INLINE_DECAP_IPIP C \<and> (protocol = IPPROTO_IPIP \<or> protocol = IPPROTO_IPV6) then
              let (action, pass, m) = check_decap_dst m pckt is_ipv6 in
              if action \<ge> 0 then Some (Act action, p, m)
              else do { (v, p) \<leftarrow> process_encaped_ipip_pckt E p is_ipv6 protocol pass; Some (v, p, m) }
            else if protocol = IPPROTO_TCP then
              do { r \<leftarrow> parse_tcp p is_ipv6 pckt;
                   case r of
                     None \<Rightarrow> Some (Act XDP_DROP, p, m)
                   | Some pckt \<Rightarrow>
                     do { (a, p, m) \<leftarrow> forward_packet C E m p pckt is_ipv6 pkt_bytes; Some (Act a, p, m) } }
            else if protocol = IPPROTO_UDP then
              do { r \<leftarrow> parse_udp p is_ipv6 pckt;
                   case r of
                     None \<Rightarrow> Some (Act XDP_DROP, p, m)
                   | Some pckt \<Rightarrow>
                     if INLINE_DECAP_GUE C \<and> port1 (flow pckt) = bpf_htons GUE_DPORT then
                       let (action, pass, m) = check_decap_dst m pckt is_ipv6 in
                       if action \<ge> 0 then Some (Act action, p, m)
                       else do { (v, p) \<leftarrow> process_encaped_gue_pckt E p is_ipv6 pass; Some (v, p, m) }
                     else
                       do { (a, p, m) \<leftarrow> forward_packet C E m p pckt is_ipv6 pkt_bytes; Some (Act a, p, m) } }
            else Some (Act XDP_PASS, p, m) }"

definition balancer_ingress :: "katran_cfg \<Rightarrow> katran_env \<Rightarrow> katran_maps \<Rightarrow> bytes \<Rightarrow>
    (verdict \<times> bytes \<times> katran_maps) option" where
  "balancer_ingress C E m p =
     (let nh_off = sizeof_eth in
      if length p < nh_off then Some (Act XDP_DROP, p, m)
      else do { eth_proto \<leftarrow> ld16 p 12;
                if eth_proto = BE_ETH_P_IP then process_packet C E m p nh_off False
                else if eth_proto = BE_ETH_P_IPV6 then process_packet C E m p nh_off True
                else Some (Act XDP_PASS, p, m) })"

text \<open>
  The tail call finds the balancer at index 0 of \<open>subprograms\<close> if it was registered there;
  a tail call that fails, or one too many, returns and the packet is passed.
\<close>

fun balancer_run :: "nat \<Rightarrow> bool \<Rightarrow> katran_cfg \<Rightarrow> katran_env \<Rightarrow> katran_maps \<Rightarrow> bytes \<Rightarrow>
    (int \<times> bytes \<times> katran_maps) option" where
  "balancer_run tail_calls registered C E m p =
     do { (v, p, m) \<leftarrow> balancer_ingress C E m p;
          case v of
            Act a \<Rightarrow> Some (a, p, m)
          | Recirculate \<Rightarrow>
            (case tail_calls of
               0 \<Rightarrow> Some (XDP_PASS, p, m)
             | Suc n \<Rightarrow> if registered then balancer_run n registered C E m p else Some (XDP_PASS, p, m)) }"

end
