(* ===== verification/Katran_Safety.thy ===== *)
theory Katran_Safety
  imports Katran_Balancer
begin

text \<open>
  Memory safety and totality of the balancer, and the invariant of its maps: every block of
  the packet path stays inside the packet, ends in an XDP action and keeps the array maps
  well formed. The demonstration configuration and maps at the end serve the witnesses of
  this theory and of \<open>Katran_Routing\<close>.
\<close>

section \<open>Invariant of the maps\<close>

text \<open>
  No block makes an array map lose or gain an index. Each operation only updates values at
  keys that hold one.
\<close>

lemma array_map_upd: "array_map n m \<Longrightarrow> m k = Some v \<Longrightarrow> array_map n (m(k \<mapsto> w))"
  by (auto simp: array_map_def)

lemma maps_wf_simps [simp]:
  "maps_wf (submit_event C m e n mo) = maps_wf m"
  "maps_wf (increment_quic_cid_version_stats i m) = maps_wf m"
  "maps_wf (increment_quic_cid_drop_no_real m) = maps_wf m"
  "maps_wf (increment_quic_cid_drop_real_0 m) = maps_wf m"
  "maps_wf (lru_store E l f r m) = maps_wf m"
  "maps_wf (m\<lparr>vip_map := vm\<rparr>) = maps_wf m"
  "maps_wf (m\<lparr>ktime_calls := t\<rparr>) = maps_wf m"
  "maps_wf (m\<lparr>lru_mapping := lm\<rparr>) = maps_wf m"
  "maps_wf (m\<lparr>reals_stats := stats_add k a b (reals_stats m)\<rparr>) = maps_wf m"
  by (simp_all add: maps_wf_def submit_event_def increment_quic_cid_version_stats_def Let_def
      increment_quic_cid_drop_no_real_def increment_quic_cid_drop_real_0_def lru_store_def bump_def
      split: option.split)

lemma maps_wf_is_under_flood [simp]: "maps_wf m \<Longrightarrow> maps_wf (snd (snd (is_under_flood E m)))"
  by (auto simp: is_under_flood_def Let_def ktime_def maps_wf_def array_map_upd split: option.split)

lemma maps_wf_src_route [simp]: "maps_wf (snd (src_route C m pckt vi v6 fl)) = maps_wf m"
  by (simp add: src_route_def Let_def)

lemma maps_wf_check_decap_dst [simp]: "maps_wf (snd (snd (check_decap_dst m pckt v6))) = maps_wf m"
  by (simp add: check_decap_dst_def Let_def split: option.split)

lemma maps_wf_connection_table_lookup [simp]:
  "maps_wf (snd (snd (connection_table_lookup E m pckt lru))) = maps_wf m"
  by (auto simp: connection_table_lookup_def Let_def ktime_def split: option.split)

lemma get_packet_hash_total: "\<exists>h. get_packet_hash C pckt b = Some h"
proof -
  obtain h where "jhash (addr_bytes (src (flow pckt))) 16 INIT_JHASH_SEED_V6 = Some h"
    using jhash_total [of 16 "addr_bytes (src (flow pckt))"] by auto
  then show ?thesis by (simp add: get_packet_hash_def)
qed

lemma get_packet_dst_safe:
  "wp (get_packet_dst C E m pckt vi v6 lru) (\<lambda>(r, pckt, m'). maps_wf m \<longrightarrow> maps_wf m')"
proof -
  obtain fl t m1 where 1: "is_under_flood E m = (fl, t, m1)" by (metis prod_cases3)
  obtain sk m2 where 2: "src_route C m1 pckt vi v6 fl = (sk, m2)" by fastforce
  have wf: "maps_wf m \<Longrightarrow> maps_wf m2"
    using maps_wf_is_under_flood [of m E] maps_wf_src_route [of C m1 pckt vi v6 fl] 1 2 by simp
  have h: "wp (get_packet_hash C q b) (\<lambda>_. True)" for q b
    using get_packet_hash_total [of C q b] by (auto simp: wp_iff)
  then show ?thesis
    using wf get_packet_hash_total
    by (simp add: get_packet_dst_def 1 2 Let_def wp_rules split: option.split)
qed

section \<open>Memory safety\<close>

definition l3_action :: "int \<Rightarrow> bool" where
  "l3_action a \<longleftrightarrow> a = XDP_DROP \<or> a = XDP_PASS \<or> a = XDP_TX"

lemma l3_action_simps [simp]: "l3_action XDP_DROP" "l3_action XDP_PASS" "l3_action XDP_TX"
  "l3_action 1" "l3_action 2" "l3_action 3"
  by (simp_all add: l3_action_def)

lemma process_l3_headers_safe:
  "wp (process_l3_headers p pckt off v6)
    (\<lambda>(a, q, d, n). length q = length p \<and> (if a < 0 then q = p else l3_action a))"
proof (cases v6)
  case True
  show ?thesis
    unfolding process_l3_headers_def Let_def
    by (simp only: True if_True, rule safe_start [of p])
      (erule safe_elims | rule safe_intros safe_bind [OF parse_icmpv6_safe] |
        clarsimp split: prod.splits | fastforce simp: l3_action_def)+
next
  case False
  show ?thesis
    unfolding process_l3_headers_def Let_def
    by (simp only: False if_False, rule safe_start [of p])
      (erule safe_elims | rule safe_intros safe_bind [OF parse_icmp_safe] |
        clarsimp split: prod.splits | fastforce simp: l3_action_def)+
qed

definition ok_verdict :: "verdict \<Rightarrow> bool" where
  "ok_verdict v \<longleftrightarrow> (case v of Act a \<Rightarrow> l3_action a | Recirculate \<Rightarrow> True)"

lemma ok_verdict_simps [simp]: "ok_verdict (Act a) = l3_action a" "ok_verdict Recirculate"
  by (simp_all add: ok_verdict_def)

lemma decrement_decap_safe:
  assumes "12 \<le> n" "n + 14 \<le> length p"
  shows "wp (decrement_ttl p off v6 \<bind> (\<lambda>(action, p). decap E p n pr \<bind> (\<lambda>(ok, p).
      if \<not> ok then Some (Act XDP_DROP, p) else Some (after_decap action pass, p))))
    (\<lambda>(v, q). ok_verdict v)"
proof (rule safe_bind [OF decrement_ttl_safe])
  fix x :: "int \<times> bytes"
  assume x: "case x of (a, q) \<Rightarrow> length q = length p \<and> (a = XDP_DROP \<or> a = FURTHER_PROCESSING)"
  have "wp (decap E (snd x) n pr \<bind> (\<lambda>(ok, p).
      if \<not> ok then Some (Act XDP_DROP, p) else Some (after_decap (fst x) pass, p))) (\<lambda>(v, q). ok_verdict v)"
    using assms x by (intro safe_bind [OF decap_safe])
      (auto simp: after_decap_def recirculate_def split: prod.splits)
  then show "wp (case x of (action, p) \<Rightarrow> decap E p n pr \<bind> (\<lambda>(ok, p).
      if \<not> ok then Some (Act XDP_DROP, p) else Some (after_decap action pass, p))) (\<lambda>(v, q). ok_verdict v)"
    by (simp add: split_beta)
qed

lemma process_encaped_ipip_safe:
  "protocol = IPPROTO_IPIP \<or> protocol = IPPROTO_IPV6 \<Longrightarrow>
    wp (process_encaped_ipip_pckt E p v6 protocol pass) (\<lambda>(v, q). ok_verdict v)"
  using decrement_decap_safe [of 20 p] decrement_decap_safe [of 40 p]
  by (auto simp: process_encaped_ipip_pckt_def Let_def decap_v4_def decap_v6_def)

lemma process_encaped_gue_safe: "wp (process_encaped_gue_pckt E p v6 pass) (\<lambda>(v, q). ok_verdict v)"
  using decrement_decap_safe [of 28 p] decrement_decap_safe [of 48 p]
  by (auto simp: process_encaped_gue_pckt_def Let_def gue_decap_v4_def gue_decap_v6_def wp_bind wp_ld8)

lemma send_to_real_safe:
  "wp (send_to_real C E m p pckt real vi v6 n) (\<lambda>(a, q, m'). l3_action a \<and> (maps_wf m \<longrightarrow> maps_wf m'))"
proof (cases "ctl_array m 0")
  case (Some cval)
  have "wp (if v6 \<and> rflags real AND F_IPV6 \<noteq> 0 then
                  if GUE_ENCAP C then gue_encap_v6 E (pckt_srcs m) p cval v6 pckt real (ucast n)
                  else encap_v6 E p cval v6 pckt real (ucast n)
                else
                  if GUE_ENCAP C then gue_encap_v4 E (pckt_srcs m) p cval pckt real (ucast n)
                  else encap_v4 E p cval pckt real (ucast n)) (\<lambda>_. True)"
    by (simp add: encap_v4_safe encap_v6_safe gue_encap_v4_safe gue_encap_v6_safe)
  then show ?thesis
    unfolding send_to_real_def Let_def Some option.case
    by (rule safe_bind) (auto simp: maps_wf_def bump_def split: prod.split)
qed (simp add: send_to_real_def)

lemma quic_route_safe:
  "wp (quic_route C m p pckt vi v6)
    (\<lambda>(r, m'). (\<forall>a. r = Inl a \<longrightarrow> l3_action a) \<and> (maps_wf m \<longrightarrow> maps_wf m'))"
proof -
  have "\<exists>r. parse_quic p v6 pckt = Some r" using parse_quic_safe [of p v6 pckt] by (auto simp: wp_iff)
  then show ?thesis by (auto simp: quic_route_def Let_def split: option.split)
qed

lemma pick_real_safe:
  "wp (pick_real C E m p pckt vi v6)
    (\<lambda>(r, m'). (\<forall>a. r = Inl a \<longrightarrow> l3_action a) \<and> (maps_wf m \<longrightarrow> maps_wf m'))"
proof -
  define pckt1 where "pckt1 = (if vflags vi AND F_HASH_NO_SRC_PORT \<noteq> 0
      then pckt\<lparr>flow := (flow pckt)\<lparr>port0 := 0\<rparr>\<rparr> else pckt)"
  define lru where "lru = choose_lru C E m"
  obtain r pckt2 m2 where 1: "(if pflags pckt1 AND F_SYN_SET = 0 \<and> vflags vi AND F_LRU_BYPASS = 0
      then connection_table_lookup E m pckt1 lru else (None, pckt1, m)) = (r, pckt2, m2)"
    by (metis prod_cases3)
  have wf: "maps_wf m2 = maps_wf m"
    using arg_cong [OF 1, of "\<lambda>x. maps_wf (snd (snd x))"] by (simp split: if_splits)
  have bind: "wp (get_packet_dst C E m3 pckt2 vi v6 lru \<bind> (\<lambda>(r, pckt, m). case r of
       None \<Rightarrow> Some (Inl XDP_DROP, m)
     | Some real \<Rightarrow> Some (Inr (real, pckt), bump (MAX_VIPS + LRU_CNTRS) 0 1 m)))
     (\<lambda>(r, m'). (\<forall>a. r = Inl a \<longrightarrow> l3_action a) \<and> (maps_wf m3 \<longrightarrow> maps_wf m'))" for m3
    by (rule safe_bind [OF get_packet_dst_safe]) (auto split: prod.splits option.split)
  show ?thesis
    unfolding pick_real_def pick_from_def Let_def pckt1_def [symmetric] lru_def [symmetric] 1 prod.case
    using wf bind [of m2] bind [of "bump (MAX_VIPS + LRU_MISS_CNTR) 1 0 m2"]
      bind [of "bump (MAX_VIPS + LRU_MISS_CNTR) 0 1 (submit_event C m2 TCP_NONSYN_LRUMISS (length p) False)"]
    by (cases r) (simp_all cong: if_cong)
qed

lemma packet_too_big_safe:
  "wp (packet_too_big C E m p v6) (\<lambda>(a, q, m'). l3_action a \<and> (maps_wf m \<longrightarrow> maps_wf m'))"
  unfolding packet_too_big_def Let_def
  by (auto split: option.split intro!: safe_bind [OF send_icmp_too_big_safe])

lemma forward_packet_safe:
  "wp (forward_packet C E m p pckt v6 n) (\<lambda>(a, q, m'). l3_action a \<and> (maps_wf m \<longrightarrow> maps_wf m'))"
proof (cases "lookup_vip m pckt v6")
  case (Some t)
  obtain key info d where t: "t = (key, info, d)" by (metis prod_cases3)
  let ?vi = "info\<lparr>vip_num := CONCRETE_VIP_NUM\<rparr>"
  let ?m = "m\<lparr>vip_map := (vip_map m)(key \<mapsto> ?vi)\<rparr>"
  let ?k = "MAX_VIPS + LRU_CNTRS"
  let ?Q = "\<lambda>(a, q, m'). l3_action a \<and> (maps_wf m \<longrightarrow> maps_wf m')"
  have wf: "maps_wf ?m = maps_wf m" by simp
  have big: "wp (packet_too_big C E ?m p v6) ?Q"
    using packet_too_big_safe [of C E ?m p v6] by (simp only: wf)
  have sr: "wp (send_to_real C E m1 p d1 real ?vi v6 n) ?Q" if "maps_wf m \<longrightarrow> maps_wf m1" for m1 d1 real
    by (rule wp_mono [OF send_to_real_safe]) (use that in auto)
  have pr: "wp (pick_real C E m1 p d1 ?vi v6 \<bind> (\<lambda>(r, m). case r of
        Inl action \<Rightarrow> Some (action, p, m)
      | Inr (real, pckt) \<Rightarrow> send_to_real C E m p pckt real ?vi v6 n)) ?Q"
    if "maps_wf m \<longrightarrow> maps_wf m1" for m1 d1
    by (rule safe_bind [OF pick_real_safe]) (use that sr in \<open>auto split: sum.splits\<close>)
  have "wp (quic_route C (bump ?k 1 0 ?m) p d ?vi v6 \<bind> (\<lambda>(q, m). case q of
        Inl action \<Rightarrow> Some (action, p, m)
      | Inr (Some real, pckt) \<Rightarrow> send_to_real C E m p pckt real ?vi v6 n
      | Inr (None, pckt) \<Rightarrow> pick_real C E m p pckt ?vi v6 \<bind> (\<lambda>(r, m). case r of
            Inl action \<Rightarrow> Some (action, p, m)
          | Inr (real, pckt) \<Rightarrow> send_to_real C E m p pckt real ?vi v6 n))) ?Q"
    by (rule safe_bind [OF quic_route_safe]) (use sr pr in \<open>auto split: sum.splits option.splits\<close>)
  then show ?thesis
    unfolding forward_packet_def forward_with_def Let_def Some t option.case prod.case
    using big by (simp split: option.split)
qed (simp add: forward_packet_def forward_with_def)

lemma act_forward_safe:
  "wp (forward_packet C E m p pckt v6 n \<bind> (\<lambda>(a, p, m). Some (Act a, p, m)))
    (\<lambda>(v, q, m'). ok_verdict v \<and> (maps_wf m \<longrightarrow> maps_wf m'))"
  by (rule safe_bind [OF forward_packet_safe]) (auto split: prod.splits)

lemma keep_maps_safe:
  assumes "wp r (\<lambda>(v, q). ok_verdict v)" and "maps_wf m \<longrightarrow> maps_wf m1"
  shows "wp (r \<bind> (\<lambda>(v, p). Some (v, p, m1))) (\<lambda>(v, q, m'). ok_verdict v \<and> (maps_wf m \<longrightarrow> maps_wf m'))"
  by (rule safe_bind [OF assms(1)]) (use assms(2) in \<open>auto split: prod.splits\<close>)

lemma check_decap_dst_action:
  "check_decap_dst m pckt v6 = (a, pass, m') \<Longrightarrow> (a < 0 \<or> l3_action a) \<and> maps_wf m' = maps_wf m"
  by (auto simp: check_decap_dst_def Let_def split: option.splits)

lemma parse_udp_safe: "wp (parse_udp p v6 pckt) (\<lambda>_. True)"
  by (simp add: parse_udp_wp Let_def)

lemma process_packet_safe:
  "wp (process_packet C E m p off v6) (\<lambda>(v, q, m'). ok_verdict v \<and> (maps_wf m \<longrightarrow> maps_wf m'))"
  unfolding process_packet_def
proof (rule safe_bind [OF process_l3_headers_safe], goal_cases)
  case (1 x)
  let ?Q = "\<lambda>(v, q, m'). ok_verdict v \<and> (maps_wf m \<longrightarrow> maps_wf m')"
  obtain a q d n where xe: "x = (a, q, d, n)" by (metis prod_cases4)
  obtain a' pass m' where cd: "check_decap_dst m d v6 = (a', pass, m')" by (metis prod_cases3)
  have ipip: "wp (process_encaped_ipip_pckt E q v6 (proto (flow d)) pass \<bind> (\<lambda>(v, p). Some (v, p, m'))) ?Q"
    if "proto (flow d) = IPPROTO_IPIP \<or> proto (flow d) = IPPROTO_IPV6"
    by (rule keep_maps_safe [OF process_encaped_ipip_safe [OF that]])
      (use check_decap_dst_action [OF cd] in simp)
  have tcp: "wp (parse_tcp q v6 d \<bind> (\<lambda>r. case r of None \<Rightarrow> Some (Act XDP_DROP, q, m)
      | Some pckt \<Rightarrow> forward_packet C E m q pckt v6 n \<bind> (\<lambda>(a, p, m). Some (Act a, p, m)))) ?Q"
    by (rule safe_bind [OF parse_tcp_safe], split option.split)
      (intro conjI allI impI act_forward_safe, simp)
  have gue: "wp (process_encaped_gue_pckt E q v6 pass \<bind> (\<lambda>(v, p). Some (v, p, m''))) ?Q"
    if "check_decap_dst m d' v6 = (a'', pass, m'')" for d' a'' pass m''
    by (rule keep_maps_safe [OF process_encaped_gue_safe]) (use check_decap_dst_action [OF that] in simp)
  have udp: "wp (case check_decap_dst m d' v6 of (action, pass, m) \<Rightarrow>
        if 0 \<le> action then Some (Act action, q, m)
        else process_encaped_gue_pckt E q v6 pass \<bind> (\<lambda>(v, p). Some (v, p, m))) ?Q" for d'
    using check_decap_dst_action [of m d' v6] gue [of d'] by (auto split: prod.split)
  have udp': "wp (parse_udp q v6 d \<bind> (\<lambda>r. case r of None \<Rightarrow> Some (Act XDP_DROP, q, m)
      | Some pckt \<Rightarrow> if INLINE_DECAP_GUE C \<and> port1 (flow pckt) = bpf_htons GUE_DPORT
          then case check_decap_dst m pckt v6 of (action, pass, m) \<Rightarrow>
            if 0 \<le> action then Some (Act action, q, m)
            else process_encaped_gue_pckt E q v6 pass \<bind> (\<lambda>(v, p). Some (v, p, m))
          else forward_packet C E m q pckt v6 n \<bind> (\<lambda>(a, p, m). Some (Act a, p, m)))) ?Q"
    by (rule safe_bind [OF parse_udp_safe], split option.split)
      (intro conjI allI impI safe_if udp act_forward_safe, simp)
  show ?case
    unfolding xe prod.case Let_def cd
    by (intro safe_if ipip tcp udp') (use 1 check_decap_dst_action [OF cd] in \<open>auto simp: xe\<close>)
qed


lemma balancer_ingress_safe:
  "wp (balancer_ingress C E m p) (\<lambda>(v, q, m'). ok_verdict v \<and> (maps_wf m \<longrightarrow> maps_wf m'))"
  unfolding balancer_ingress_def Let_def
  by (rule safe_start [of p]) (erule safe_elims | rule safe_intros process_packet_safe | simp)+

declare balancer_run.simps [simp del]

lemma balancer_run_safe:
  "wp (balancer_run n reg C E m p) (\<lambda>(a, q, m'). l3_action a \<and> (maps_wf m \<longrightarrow> maps_wf m'))"
proof (induction n arbitrary: m p)
  case 0
  show ?case
    by (subst balancer_run.simps, rule safe_bind [OF balancer_ingress_safe]) (auto split: verdict.split)
next
  case (Suc n)
  show ?case
  proof (subst balancer_run.simps, rule safe_bind [OF balancer_ingress_safe], goal_cases)
    case (1 x)
    obtain v q m1 where x: "x = (v, q, m1)" by (metis prod_cases3)
    have "wp (balancer_run n reg C E m1 q) (\<lambda>(a, q, m'). l3_action a \<and> (maps_wf m \<longrightarrow> maps_wf m'))"
      by (rule wp_mono [OF Suc.IH]) (use 1 x in auto)
    then show ?case
      using 1 by (cases reg) (auto simp: x split: verdict.split)
  qed
qed

text \<open>
  Property C2. The balancer is memory safe and total: for every packet, every content of its
  maps, every build configuration and every behaviour of the kernel helpers, with up to
  \<open>n\<close> tail calls, no access leaves the packet and no uninitialised variable is read; the
  run ends in XDP_DROP, XDP_PASS or XDP_TX, and array maps keep exactly their indices.
\<close>

theorem balancer_memory_safe:
  "\<exists>a q m'. balancer_run n registered C E m p = Some (a, q, m') \<and>
    a \<in> {XDP_DROP, XDP_PASS, XDP_TX} \<and> (maps_wf m \<longrightarrow> maps_wf m')"
  using balancer_run_safe [of n registered C E m p]
  by (auto simp: wp_iff l3_action_def)

text \<open>Concrete maps for the witnesses: one VIP (10.0.0.1:80/TCP), real 1 behind every bucket.\<close>

definition demo_cfg :: katran_cfg where
  "demo_cfg = \<lparr>LPM_SRC_LOOKUP = False, INLINE_DECAP_IPIP = True, INLINE_DECAP_GUE = True,
     GUE_ENCAP = False, ICMP_TOOBIG_GENERATION = True, KATRAN_INTROSPECTION = False,
     KLEE_VERIFICATION = False\<rparr>"

definition demo_maps :: katran_maps where
  "demo_maps = \<lparr>
     vip_map = [\<lparr>vip = (0x0100000A, 0, 0, 0), vport = 0x5000, vproto = 6\<rparr> \<mapsto> \<lparr>vflags = 0, vip_num = 0\<rparr>],
     lru_mapping = (\<lambda>_ _. None), lru_cpus = (\<lambda>_. False),
     ch_rings = (\<lambda>k. if k < CH_RINGS_SIZE then Some 1 else None),
     reals = (\<lambda>k. if k < MAX_REALS then Some \<lparr>rdst = (ucast k, 0, 0, 0), rflags = 0\<rparr> else None),
     reals_stats = (\<lambda>k. if k < MAX_REALS then Some \<lparr>v1 = 0, v2 = 0\<rparr> else None),
     stats = (\<lambda>k. if k < STATS_MAP_SIZE then Some \<lparr>v1 = 0, v2 = 0\<rparr> else None),
     quic_mapping = (\<lambda>k. if k < MAX_REALS then Some 0 else None),
     lpm_src_v4 = (\<lambda>_ _. None), lpm_src_v6 = (\<lambda>_ _. None),
     ctl_array = (\<lambda>k. if k < CTL_MAP_SIZE then Some 0 else None),
     decap_dst = (\<lambda>_. None), pckt_srcs = (\<lambda>k. if k < 2 then Some \<lparr>rdst = addr0, rflags = 0\<rparr> else None),
     event_pipe = [], ktime_calls = 0\<rparr>"

lemma demo_maps_wf: "maps_wf demo_maps"
  by (simp add: maps_wf_def demo_maps_def array_map_def)

theorem balancer_memory_safe_witness:
  "\<exists>a q m'. balancer_run 33 True demo_cfg demo_env demo_maps (replicate 60 0) = Some (a, q, m') \<and>
    a \<in> {XDP_DROP, XDP_PASS, XDP_TX} \<and> maps_wf m'"
  using balancer_memory_safe [of 33 True demo_cfg demo_env demo_maps "replicate 60 0"] demo_maps_wf by auto
end
