(* ===== verification/Katran_Routing.thy ===== *)
theory Katran_Routing
  imports Katran_Safety Packet_Program
begin

text \<open>
  Functional correctness of the balancer: consistent hashing, session affinity through the
  connection table, the limit on the rate of new connections, the flow an ICMP error is
  attributed to, what is transmitted and to whom, delivery, and the frame condition that the
  control plane's maps are not touched.
\<close>

section \<open>Consistent hashing\<close>

text \<open>The ring of a VIP lies inside the ring map, so a lookup in it cannot miss.\<close>

lemma ring_key_bound: "num < MAX_VIPS \<Longrightarrow> ring_key num h < CH_RINGS_SIZE"
proof -
  assume "num < MAX_VIPS"
  then have n: "unat num < 32" by (simp add: word_less_nat_alt)
  have h: "unat (h mod 127) < 127" using word_mod_less [of 127 h] by (simp add: word_less_nat_alt)
  have "unat (127 * num) = 127 * unat num"
    using n by (simp add: unat_word_ariths)
  then have "unat (127 * num + h mod 127) = 127 * unat num + unat (h mod 127)"
    using n h by (subst unat_add_small) simp_all
  also have "\<dots> < 4064" using n h by linarith
  finally show ?thesis by (simp add: ring_key_def CH_RINGS_SIZE_def word_less_nat_alt)
qed

definition rings_wf :: "katran_maps \<Rightarrow> bool" where
  "rings_wf m \<longleftrightarrow> (\<forall>k v. ch_rings m k = Some v \<longrightarrow> v < MAX_REALS)"

text \<open>
  The outcome of a lookup by consistent hashing, away from source routing: the flow as it is
  hashed, the bucket, the real.
\<close>

definition hashed_flow :: "vip_meta \<Rightarrow> packet_description \<Rightarrow> packet_description" where
  "hashed_flow vi pckt = (if vflags vi AND F_HASH_DPORT_ONLY \<noteq> 0
     then pckt\<lparr>flow := (flow pckt)\<lparr>port0 := port1 (flow pckt), src := addr0\<rparr>\<rparr> else pckt)"

lemma is_under_flood_frame [simp]:
  "ch_rings (snd (snd (is_under_flood E m))) = ch_rings m" "reals (snd (snd (is_under_flood E m))) = reals m"
  "lru_mapping (snd (snd (is_under_flood E m))) = lru_mapping m"
  by (simp_all add: is_under_flood_def Let_def ktime_def split: option.split)

lemma get_packet_hash_wp [simp]: "wp (get_packet_hash C d b) (\<lambda>_. True)"
  using get_packet_hash_total [of C d b] by (auto simp: wp_iff)

lemma get_packet_dst_hashing:
  assumes "\<not> LPM_SRC_LOOKUP C" "get_packet_hash C (hashed_flow vi pckt) v6 = Some h"
  shows "get_packet_dst C E m pckt vi v6 lru =
    (let (fl, t, m1) = is_under_flood E m; d = hashed_flow vi pckt in
     case ch_rings m (ring_key (vip_num vi) h) of
       None \<Rightarrow> Some (None, d, m1)
     | Some k \<Rightarrow> let d = d\<lparr>real_index := k\<rparr> in
       case reals m k of
         None \<Rightarrow> Some (None, d, m1)
       | Some r \<Rightarrow> Some (Some r, d,
           if vflags vi AND F_LRU_BYPASS = 0 \<and> \<not> fl
           then lru_store E lru (flow d) \<lparr>pos = k, atime = (if proto (flow d) = IPPROTO_UDP then t else 0)\<rparr> m1
           else m1))"
proof -
  obtain fl t m1 where 1: "is_under_flood E m = (fl, t, m1)" by (metis prod_cases3)
  have "ch_rings m1 = ch_rings m" "reals m1 = reals m"
    using is_under_flood_frame(1,2) [of E m] by (simp_all add: 1)
  then show ?thesis
    unfolding get_packet_dst_def 1 Let_def prod.case hashed_flow_def [symmetric]
    using assms by (simp add: src_route_def split: option.split)
qed

lemma get_packet_dst_found:
  assumes "maps_wf m" and "rings_wf m" and "vip_num vi < MAX_VIPS" and "\<not> LPM_SRC_LOOKUP C"
  shows "\<exists>h k r d m'. get_packet_hash C (hashed_flow vi pckt) v6 = Some h \<and>
    ch_rings m (ring_key (vip_num vi) h) = Some k \<and> reals m k = Some r \<and>
    get_packet_dst C E m pckt vi v6 lru = Some (Some r, d, m') \<and> real_index d = k"
proof -
  obtain h where h: "get_packet_hash C (hashed_flow vi pckt) v6 = Some h"
    using get_packet_hash_total by blast
  obtain k where k: "ch_rings m (ring_key (vip_num vi) h) = Some k"
    using array_map_lookup ring_key_bound assms(1,3) by (metis maps_wf_def)
  then obtain r where r: "reals m k = Some r"
    using array_map_lookup assms(1,2) by (metis maps_wf_def rings_wf_def)
  show ?thesis
    using get_packet_dst_hashing [OF assms(4) h, of E m lru] h k r
    by (cases "is_under_flood E m") (auto simp: Let_def)
qed

text \<open>
  On well-formed maps whose rings hold only ids of reals, consistent hashing
  never fails: for every VIP number in range and every packet, \<open>get_packet_dst\<close> returns a
  real, namely the one of the bucket the packet's hash selects in the ring of that VIP.
\<close>

lemma get_packet_dst_total:
  assumes "maps_wf m" and "rings_wf m" and "vip_num vi < MAX_VIPS" and "\<not> LPM_SRC_LOOKUP C"
  shows "\<exists>h k r d m'. get_packet_hash C (hashed_flow vi pckt) v6 = Some h \<and>
    ch_rings m (ring_key (vip_num vi) h) = Some k \<and> reals m k = Some r \<and>
    get_packet_dst C E m pckt vi v6 lru = Some (Some r, d, m') \<and> real_index d = k"
  by (rule get_packet_dst_found [OF assms])

lemma get_packet_dst_total_witness:
  "\<exists>h k r d m'. get_packet_hash demo_cfg (hashed_flow \<lparr>vflags = 0, vip_num = 7\<rparr> pckt0) False = Some h \<and>
    ch_rings demo_maps (ring_key 7 h) = Some k \<and> reals demo_maps k = Some r \<and>
    get_packet_dst demo_cfg demo_env demo_maps pckt0 \<lparr>vflags = 0, vip_num = 7\<rparr> False Lru_single =
      Some (Some r, d, m') \<and> real_index d = k"
proof -
  have "rings_wf demo_maps" by (simp add: rings_wf_def demo_maps_def)
  moreover have "\<not> LPM_SRC_LOOKUP demo_cfg" by (simp add: demo_cfg_def)
  ultimately show ?thesis
    using get_packet_dst_total [OF demo_maps_wf, of "\<lparr>vflags = 0, vip_num = 7\<rparr>" demo_cfg pckt0 False
        demo_env Lru_single]
    by simp
qed

section \<open>Session affinity\<close>

lemma get_packet_dst_stores:
  assumes "lru_update_ok (lru_update E)" "\<not> fst (is_under_flood E m)" "vflags vi AND F_LRU_BYPASS = 0"
  shows "wp (get_packet_dst C E m pckt vi v6 lru) (\<lambda>(r, d, m'). r \<noteq> None \<longrightarrow>
    reals m' (real_index d) = r \<and>
    (proto (flow d) \<noteq> IPPROTO_UDP \<longrightarrow>
      lru_mapping m' lru (flow d) = Some \<lparr>pos = real_index d, atime = 0\<rparr>))"
proof -
  obtain fl t m1 where 1: "is_under_flood E m = (fl, t, m1)" by (metis prod_cases3)
  obtain sk m2 where 2: "src_route C m1 pckt vi v6 fl = (sk, m2)" by fastforce
  show ?thesis
    using assms get_packet_hash_total
    by (simp add: get_packet_dst_def 1 2 Let_def wp_rules lru_store_def lru_update_ok_def
        split: option.split)
qed

text \<open>The flow is left alone, unless the VIP hashes on the destination port only.\<close>

lemma get_packet_dst_flow:
  "wp (get_packet_dst C E m pckt vi v6 lru) (\<lambda>(r, d, m').
    vflags vi AND F_HASH_DPORT_ONLY = 0 \<longrightarrow> flow d = flow pckt)"
proof -
  obtain fl t m1 where 1: "is_under_flood E m = (fl, t, m1)" by (metis prod_cases3)
  obtain sk m2 where 2: "src_route C m1 pckt vi v6 fl = (sk, m2)" by fastforce
  show ?thesis
    using get_packet_hash_total
    by (simp add: get_packet_dst_def 1 2 Let_def wp_rules split: option.split)
qed

text \<open>
  Property C4. A connection sticks to its real. Take a VIP that uses the connection table and does not
  hash on the destination port only. Once \<open>get_packet_dst\<close> chose a real for a client's non-UDP
  flow, outside a flood, every later lookup of that same flow in the table, as the client's next
  packets are described, finds the same real, whatever happened meanwhile to the hash rings and
  to every other map, as long as the kernel has not evicted the entry and the real is still
  defined as it was. (An update of the table stores the binding and may evict others.)
\<close>

theorem session_affinity:
  assumes "lru_update_ok (lru_update E)" and "\<not> fst (is_under_flood E m)"
    and "vflags vi AND F_LRU_BYPASS = 0" and "vflags vi AND F_HASH_DPORT_ONLY = 0"
    and "get_packet_dst C E m pckt vi v6 lru = Some (Some real, pckt', m')"
    and "proto (flow pckt) \<noteq> IPPROTO_UDP"
    and "lru_mapping m'' lru (flow pckt) = lru_mapping m' lru (flow pckt)"
    and "reals m'' (real_index pckt') = reals m' (real_index pckt')"
    and "flow d = flow pckt"
  shows "connection_table_lookup E m'' d lru = (Some real, d\<lparr>real_index := real_index pckt'\<rparr>, m'')"
  using wpD [OF get_packet_dst_stores [OF assms(1-3)] assms(5)] wpD [OF get_packet_dst_flow assms(5)] assms(4,6-9)
  by (simp add: connection_table_lookup_def Let_def)

text \<open>
  With hashing on the destination port only, the entry is made for a flow without the client's
  address and source port: the client's own flow is not recorded, and its next packets miss.
\<close>

lemma dport_only_flow_not_recorded:
  assumes "lru_update_ok (lru_update E)" "\<not> LPM_SRC_LOOKUP C" "vflags vi AND F_HASH_DPORT_ONLY \<noteq> 0"
    and "get_packet_dst C E m pckt vi v6 lru = Some (r, pckt', m')"
    and "src (flow pckt) \<noteq> addr0" "lru_mapping m lru (flow pckt) = None"
  shows "lru_mapping m' lru (flow pckt) = None"
proof -
  obtain fl t m1 where 1: "is_under_flood E m = (fl, t, m1)" by (metis prod_cases3)
  obtain h where h: "get_packet_hash C (hashed_flow vi pckt) v6 = Some h" using get_packet_hash_total by blast
  have f: "flow pckt \<noteq> flow (hashed_flow vi pckt)" using assms(3,5) by (cases "flow pckt") (simp add: hashed_flow_def)
  have "lru_mapping m1 = lru_mapping m" using is_under_flood_frame(3) [of E m] by (simp add: 1)
  then show ?thesis
    using assms(1,4,6) f unfolding get_packet_dst_hashing [OF assms(2) h] 1 Let_def
    by (auto simp: lru_store_def lru_update_ok_def split: option.splits if_splits) metis+
qed

lemma demo_not_flooded: "\<not> fst (is_under_flood demo_env demo_maps)"
  by (simp add: is_under_flood_def demo_maps_def demo_env_def ktime_def STATS_MAP_SIZE_def Let_def)

theorem session_affinity_witness:
  "\<exists>real pckt' m'.
    get_packet_dst demo_cfg demo_env demo_maps (pckt0\<lparr>flow := (flow pckt0)\<lparr>proto := 6\<rparr>\<rparr>)
      \<lparr>vflags = 0, vip_num = 7\<rparr> False Lru_single = Some (Some real, pckt', m') \<and>
    connection_table_lookup demo_env (m'\<lparr>ch_rings := Map.empty\<rparr>) (pckt0\<lparr>flow := (flow pckt0)\<lparr>proto := 6\<rparr>\<rparr>) Lru_single =
      (Some real, pckt0\<lparr>flow := (flow pckt0)\<lparr>proto := 6\<rparr>, real_index := real_index pckt'\<rparr>, m'\<lparr>ch_rings := Map.empty\<rparr>)"
proof -
  let ?d = "pckt0\<lparr>flow := (flow pckt0)\<lparr>proto := 6\<rparr>\<rparr>" and ?v = "\<lparr>vflags = 0, vip_num = 7\<rparr>"
  have "rings_wf demo_maps" "\<not> LPM_SRC_LOOKUP demo_cfg"
    by (simp_all add: rings_wf_def demo_maps_def demo_cfg_def)
  then obtain h k r d m' where g: "get_packet_dst demo_cfg demo_env demo_maps ?d ?v False Lru_single =
      Some (Some r, d, m')"
    using get_packet_dst_found [OF demo_maps_wf, of ?v demo_cfg ?d False demo_env Lru_single] by auto
  then have "connection_table_lookup demo_env (m'\<lparr>ch_rings := Map.empty\<rparr>) ?d Lru_single =
      (Some r, ?d\<lparr>real_index := real_index d\<rparr>, m'\<lparr>ch_rings := Map.empty\<rparr>)"
    using session_affinity [OF _ demo_not_flooded _ _ g, of "m'\<lparr>ch_rings := Map.empty\<rparr>" ?d] demo_env_ok
    by (simp add: env_ok_def)
  then show ?thesis using g by blast
qed

section \<open>Rate limit\<close>

text \<open>The answers of \<open>n\<close> consecutive calls of \<open>is_under_flood\<close>.\<close>

fun flood_answers :: "nat \<Rightarrow> katran_env \<Rightarrow> katran_maps \<Rightarrow> bool list" where
  "flood_answers 0 E m = []"
| "flood_answers (Suc n) E m = (case is_under_flood E m of (fl, t, m') \<Rightarrow> fl # flood_answers n E m')"

lemma flood_answers_same_second:
  assumes "stats m 34 = Some s" and "\<forall>i < n. ktime_get_ns E (ktime_calls m + i) - v2 s \<le> ONE_SEC"
    and "unat (v1 s) + n < 2 ^ 64"
  shows "flood_answers n E m = map (\<lambda>i. 125000 < unat (v1 s) + Suc i) [0..<n]"
  using assms
proof (induction n arbitrary: m s)
  case (Suc n)
  let ?s = "s\<lparr>v1 := v1 s + 1\<rparr>"
  let ?m = "m\<lparr>ktime_calls := Suc (ktime_calls m), stats := (stats m)(34 \<mapsto> ?s)\<rparr>"
  have u: "unat (v1 s + 1) = unat (v1 s) + 1" using Suc.prems(3) by (intro unat_inc) simp
  have t: "\<not> ktime_get_ns E (ktime_calls m) - v2 s > ONE_SEC" using Suc.prems(2) by (metis add_0_right not_less zero_less_Suc)
  have "is_under_flood E m = (125000 < unat (v1 s) + 1, ktime_get_ns E (ktime_calls m), ?m)"
    using Suc.prems(1) t u by (simp add: is_under_flood_def Let_def ktime_def word_less_nat_alt)
  moreover have "flood_answers n E ?m = map (\<lambda>i. 125000 < unat (v1 ?s) + Suc i) [0..<n]"
    using Suc.prems u by (intro Suc.IH) (simp_all, metis add_Suc_right Suc_less_eq)
  ultimately show ?case
    using u by (simp add: upt_rec [of 0 "Suc n"] map_Suc_upt [symmetric] comp_def del: upt_Suc)
qed simp

lemma count_below: "length (filter Not (map (\<lambda>i. c < a + Suc i) [0..<n])) = min n (c - a)"
proof (induction n)
  case (Suc n)
  have "(a + n < c) = (n < c - a)" by linarith
  then show ?case using Suc by (auto simp: not_less Suc_le_eq min_def)
qed simp

text \<open>
  Property C8. The rate limit. While the clock stays within one second of the start of the
  current quantum, \<open>n\<close> calls of \<open>is_under_flood\<close> admit exactly as many new connections as
  the quantum has left, so never more than MAX_CONN_RATE in all: the first ones are admitted
  and all later ones are refused.
\<close>

theorem connection_rate_limit:
  assumes "stats m (MAX_VIPS + NEW_CONN_RATE_CNTR) = Some s"
    and "\<forall>i < n. ktime_get_ns E (ktime_calls m + i) - v2 s \<le> ONE_SEC"
    and "unat (v1 s) + n < 2 ^ 64"
  shows "length (filter Not (flood_answers n E m)) = min n (unat MAX_CONN_RATE - unat (v1 s)) \<and>
    sorted (map (\<lambda>b. if b then 1 else 0 :: nat) (flood_answers n E m))"
proof -
  have e: "flood_answers n E m = map (\<lambda>i. 125000 < unat (v1 s) + Suc i) [0..<n]"
    using flood_answers_same_second [of m s n E] assms by simp
  have "sorted (map (\<lambda>b. if b then 1 else 0 :: nat) (flood_answers n E m))"
    unfolding e by (auto simp: sorted_iff_nth_mono)
  then show ?thesis using count_below [of 125000 "unat (v1 s)" n] e by simp
qed

theorem connection_rate_limit_witness:
  "length (filter Not (flood_answers 3 (demo_env\<lparr>ktime_get_ns := \<lambda>_. 500\<rparr>)
     (demo_maps\<lparr>stats := [34 \<mapsto> \<lparr>v1 = 124999, v2 = 0\<rparr>]\<rparr>))) = 1"
proof -
  let ?E = "demo_env\<lparr>ktime_get_ns := \<lambda>_. 500\<rparr>" and ?s = "\<lparr>v1 = 124999, v2 = 0\<rparr>"
  have "stats (demo_maps\<lparr>stats := [34 \<mapsto> ?s]\<rparr>) (MAX_VIPS + NEW_CONN_RATE_CNTR) = Some ?s" by simp
  from connection_rate_limit [OF this, of 3 ?E] show ?thesis by simp
qed

section \<open>ICMP errors follow the flow they are about\<close>

text \<open>The description \<open>process_packet\<close> has of a TCP packet when it looks up the VIP.\<close>

definition describe_tcp :: "bytes \<Rightarrow> bool \<Rightarrow> packet_description option option" where
  "describe_tcp p is_ipv6 =
     do { (action, p, pckt, pkt_bytes) \<leftarrow> process_l3_headers p pckt0 sizeof_eth is_ipv6;
          if action \<ge> 0 \<or> proto (flow pckt) \<noteq> IPPROTO_TCP then Some None else parse_tcp p is_ipv6 pckt }"

text \<open>An IPv4 header without options that is not of a fragment: the DF flag may be set.\<close>

definition ipv4_plain :: "bytes \<Rightarrow> nat \<Rightarrow> u8 \<Rightarrow> bool" where
  "ipv4_plain p off pr \<longleftrightarrow> p ! off AND 0x0F = 5 \<and> p ! (off + 9) = pr \<and>
     (of_nat (le_val (take 2 (drop (off + 6) p))) :: u16) AND PCKT_FRAGMENTED = 0"

lemma describe_tcp_direct:
  assumes "54 \<le> length p" "ipv4_plain p 14 IPPROTO_TCP"
  shows "wp (describe_tcp p False) (\<lambda>r. \<exists>d. r = Some d \<and>
    flow d = \<lparr>src = (of_nat (le_val (take 4 (drop 26 p))), 0, 0, 0), dst = (of_nat (le_val (take 4 (drop 30 p))), 0, 0, 0),
      port0 = of_nat (le_val (take 2 (drop 34 p))), port1 = of_nat (le_val (take 2 (drop 36 p))), proto = 6\<rparr>)"
  using assms
  by (simp add: describe_tcp_def process_l3_headers_def parse_tcp_def ipv4_plain_def wp_rules Let_def
      calc_offset_def is_icmp_pckt_def set_ports_def pckt0_def addr0_def set_v4_def)

lemma describe_tcp_icmp:
  assumes "82 \<le> length p" "ipv4_plain p 14 IPPROTO_ICMP" "p ! 34 = ICMP_DEST_UNREACH"
    "p ! 42 AND 0x0F = 5" "p ! 51 = IPPROTO_TCP"
  shows "wp (describe_tcp p False) (\<lambda>r. \<exists>d. r = Some d \<and>
    flow d = \<lparr>src = (of_nat (le_val (take 4 (drop 58 p))), 0, 0, 0), dst = (of_nat (le_val (take 4 (drop 54 p))), 0, 0, 0),
      port0 = of_nat (le_val (take 2 (drop 64 p))), port1 = of_nat (le_val (take 2 (drop 62 p))), proto = 6\<rparr>)"
  using assms
  by (simp add: describe_tcp_def process_l3_headers_def parse_icmp_def parse_tcp_def ipv4_plain_def wp_rules Let_def
      calc_offset_def is_icmp_pckt_def set_ports_def pckt0_def addr0_def set_v4_def)

text \<open>
  Path-MTU discovery through the balancer works: an ICMP destination-unreachable
  message quoting a packet the VIP sent to a client (source and destination, and the ports,
  the other way round) is given the same flow key as the client's own packets, hence the same
  VIP, connection-table entry and real.
\<close>

lemma icmp_error_has_client_flow:
  assumes "54 \<le> length p" and "ipv4_plain p 14 IPPROTO_TCP"
    and "82 \<le> length q" and "ipv4_plain q 14 IPPROTO_ICMP" and "q ! 34 = ICMP_DEST_UNREACH"
    and "q ! 42 AND 0x0F = 5" and "q ! 51 = IPPROTO_TCP"
    and "take 4 (drop 54 q) = take 4 (drop 30 p)" and "take 4 (drop 58 q) = take 4 (drop 26 p)"
    and "take 2 (drop 62 q) = take 2 (drop 36 p)" and "take 2 (drop 64 q) = take 2 (drop 34 p)"
  shows "\<exists>d e. describe_tcp p False = Some (Some d) \<and> describe_tcp q False = Some (Some e) \<and>
    flow e = flow d"
  using describe_tcp_direct [OF assms(1,2)] describe_tcp_icmp [OF assms(3-7)] assms(8-11)
  by (auto simp: wp_iff)

lemma icmp_error_has_client_flow_witness:
  "\<exists>d e. describe_tcp (replicate 14 0 @ [0x45, 0, 0, 40, 0, 0, 0, 0, 64, 6, 0, 0, 1, 2, 3, 4, 5, 6, 7, 8] @
      [9, 10, 11, 12] @ replicate 16 0) False = Some (Some d) \<and>
    describe_tcp (replicate 14 0 @ [0x45, 0, 0, 68, 0, 0, 0, 0, 64, 1, 0, 0, 9, 9, 9, 9, 5, 6, 7, 8] @
      [3, 4, 0, 0, 0, 0, 0, 0] @ [0x45, 0, 0, 40, 0, 0, 0, 0, 64, 6, 0, 0, 5, 6, 7, 8, 1, 2, 3, 4] @
      [11, 12, 9, 10] @ replicate 16 0) False = Some (Some e) \<and> flow e = flow d"
  by (rule icmp_error_has_client_flow) (simp_all add: ipv4_plain_def nth_append)

section \<open>The data plane leaves the control plane alone\<close>

text \<open>
  \<open>control_eq m m'\<close>: the maps that user space configures are the same, except that a VIP may
  have had its number overwritten with 7.
\<close>

definition control_eq :: "katran_maps \<Rightarrow> katran_maps \<Rightarrow> bool" where
  "control_eq m m' \<longleftrightarrow> reals m' = reals m \<and> ctl_array m' = ctl_array m \<and> ch_rings m' = ch_rings m \<and>
     quic_mapping m' = quic_mapping m \<and> decap_dst m' = decap_dst m \<and> pckt_srcs m' = pckt_srcs m \<and>
     lpm_src_v4 m' = lpm_src_v4 m \<and> lpm_src_v6 m' = lpm_src_v6 m \<and> lru_cpus m' = lru_cpus m \<and>
     (\<forall>k. map_option vflags (vip_map m' k) = map_option vflags (vip_map m k)) \<and>
     (\<forall>k. map_option vip_num (vip_map m' k) \<in> {map_option vip_num (vip_map m k), Some 7})"

lemma control_eq_refl [simp]: "control_eq m m"
  by (simp add: control_eq_def)

lemma control_eq_trans: "control_eq a b \<Longrightarrow> control_eq b c \<Longrightarrow> control_eq a c"
  by (simp add: control_eq_def del: map_option_eq_Some) metis

lemma control_eqI: "reals m' = reals m \<Longrightarrow> ctl_array m' = ctl_array m \<Longrightarrow> ch_rings m' = ch_rings m \<Longrightarrow>
    quic_mapping m' = quic_mapping m \<Longrightarrow> decap_dst m' = decap_dst m \<Longrightarrow> pckt_srcs m' = pckt_srcs m \<Longrightarrow>
    lpm_src_v4 m' = lpm_src_v4 m \<Longrightarrow> lpm_src_v6 m' = lpm_src_v6 m \<Longrightarrow> lru_cpus m' = lru_cpus m \<Longrightarrow>
    vip_map m' = vip_map m \<Longrightarrow> control_eq m m'"
  by (simp add: control_eq_def)

lemma control_eq_simps [simp]:
  "control_eq m0 (bump k a b m) = control_eq m0 m"
  "control_eq m0 (submit_event C m e n mo) = control_eq m0 m"
  "control_eq m0 (increment_quic_cid_version_stats i m) = control_eq m0 m"
  "control_eq m0 (increment_quic_cid_drop_no_real m) = control_eq m0 m"
  "control_eq m0 (increment_quic_cid_drop_real_0 m) = control_eq m0 m"
  "control_eq m0 (lru_store E l f r m) = control_eq m0 m"
  "control_eq m0 (m\<lparr>ktime_calls := t\<rparr>) = control_eq m0 m"
  "control_eq m0 (m\<lparr>lru_mapping := lm\<rparr>) = control_eq m0 m"
  "control_eq m0 (m\<lparr>stats := st\<rparr>) = control_eq m0 m"
  "control_eq m0 (m\<lparr>reals_stats := rs\<rparr>) = control_eq m0 m"
  by (simp_all add: control_eq_def bump_def submit_event_def increment_quic_cid_version_stats_def Let_def
      increment_quic_cid_drop_no_real_def increment_quic_cid_drop_real_0_def lru_store_def
      split: option.split)

lemma control_eq_is_under_flood [simp]: "control_eq m0 (snd (snd (is_under_flood E m))) = control_eq m0 m"
  by (simp add: is_under_flood_def Let_def ktime_def split: option.split)

lemma control_eq_src_route [simp]: "control_eq m0 (snd (src_route C m pckt vi v6 fl)) = control_eq m0 m"
  by (simp add: src_route_def Let_def)

lemma control_eq_connection_table_lookup [simp]:
  "control_eq m0 (snd (snd (connection_table_lookup E m pckt lru))) = control_eq m0 m"
  by (auto simp: connection_table_lookup_def Let_def ktime_def split: option.split)

lemma control_eq_check_decap_dst [simp]:
  "control_eq m0 (snd (snd (check_decap_dst m pckt v6))) = control_eq m0 m"
  by (simp add: check_decap_dst_def Let_def split: option.split)

lemma control_eq_reals: "control_eq m m' \<Longrightarrow> reals m' = reals m" "control_eq m m' \<Longrightarrow> ctl_array m' = ctl_array m"
  by (simp_all add: control_eq_def)

lemma control_eq_vip [simp]:
  "vip_map m k = Some info \<Longrightarrow> control_eq m (m\<lparr>vip_map := (vip_map m)(k \<mapsto> info\<lparr>vip_num := 7\<rparr>)\<rparr>)"
  by (simp add: control_eq_def)

lemma get_packet_dst_control:
  "wp (get_packet_dst C E m pckt vi v6 lru) (\<lambda>(r, d, m').
    control_eq m m' \<and> tos d = tos pckt \<and>
    (r \<noteq> None \<longrightarrow> reals m (real_index d) = r))"
proof -
  obtain fl t m1 where 1: "is_under_flood E m = (fl, t, m1)" by (metis prod_cases3)
  obtain sk m2 where 2: "src_route C m1 pckt vi v6 fl = (sk, m2)" by fastforce
  have c: "control_eq m m2"
    using arg_cong [OF 1, of "\<lambda>x. control_eq m (snd (snd x))"] arg_cong [OF 2, of "\<lambda>x. control_eq m (snd x)"]
    by simp
  then show ?thesis
    using control_eq_reals(1) [OF c]
    by (simp add: get_packet_dst_def 1 2 Let_def wp_rules split: option.split)
qed

lemma pick_from_control:
  "wp (pick_from lru C E m p pckt vi v6) (\<lambda>(r, m'). control_eq m m' \<and> (\<forall>a. r = Inl a \<longrightarrow> a = XDP_DROP) \<and>
    (\<forall>real d. r = Inr (real, d) \<longrightarrow> reals m (real_index d) = Some real \<and> tos d = tos pckt))"
proof -
  define pckt1 where "pckt1 = (if vflags vi AND F_HASH_NO_SRC_PORT \<noteq> 0
      then pckt\<lparr>flow := (flow pckt)\<lparr>port0 := 0\<rparr>\<rparr> else pckt)"
  obtain r pckt2 m2 where 1: "(if pflags pckt1 AND F_SYN_SET = 0 \<and> vflags vi AND F_LRU_BYPASS = 0
      then connection_table_lookup E m pckt1 lru else (None, pckt1, m)) = (r, pckt2, m2)"
    by (metis prod_cases3)
  have c2: "control_eq m m2"
    using arg_cong [OF 1, of "\<lambda>x. control_eq m (snd (snd x))"] by (simp split: if_splits)
  have p2: "tos pckt2 = tos pckt \<and>
      (r \<noteq> None \<longrightarrow> reals m (real_index pckt2) = r)"
    using 1 by (auto simp: connection_table_lookup_def Let_def ktime_def pckt1_def split: if_splits option.splits)
  have bind: "wp (get_packet_dst C E m3 pckt2 vi v6 lru \<bind> (\<lambda>(r, pckt, m). case r of
       None \<Rightarrow> Some (Inl XDP_DROP, m)
     | Some real \<Rightarrow> Some (Inr (real, pckt), bump (MAX_VIPS + LRU_CNTRS) 0 1 m)))
     (\<lambda>(r, m'). control_eq m m' \<and> (\<forall>a. r = Inl a \<longrightarrow> a = XDP_DROP) \<and>
       (\<forall>real d. r = Inr (real, d) \<longrightarrow> reals m (real_index d) = Some real \<and> tos d = tos pckt))" if "control_eq m m3" for m3
    by (rule safe_bind [OF get_packet_dst_control])
      (use that p2 control_eq_trans [OF that] control_eq_reals(1) [OF that]
        in \<open>auto split: prod.splits option.split\<close>)
  show ?thesis
    unfolding pick_from_def Let_def pckt1_def [symmetric] 1 prod.case
    using c2 p2 bind [of m2] bind [of "bump (MAX_VIPS + LRU_MISS_CNTR) 1 0 m2"]
      bind [of "bump (MAX_VIPS + LRU_MISS_CNTR) 0 1 (submit_event C m2 TCP_NONSYN_LRUMISS (length p) False)"]
    by (cases r) (simp_all cong: if_cong)
qed

lemma pick_real_control:
  "wp (pick_real C E m p pckt vi v6) (\<lambda>(r, m'). control_eq m m' \<and> (\<forall>a. r = Inl a \<longrightarrow> a = XDP_DROP) \<and>
    (\<forall>real d. r = Inr (real, d) \<longrightarrow> reals m (real_index d) = Some real \<and> tos d = tos pckt))"
  unfolding pick_real_def by (rule pick_from_control)

lemma quic_route_control:
  "wp (quic_route C m p pckt vi v6) (\<lambda>(r, m'). control_eq m m' \<and> (\<forall>a. r = Inl a \<longrightarrow> a = XDP_DROP) \<and>
    (\<forall>real d. r = Inr (Some real, d) \<longrightarrow> reals m (real_index d) = Some real) \<and>
    (\<forall>ro d. r = Inr (ro, d) \<longrightarrow> tos d = tos pckt))"
proof -
  have "\<exists>r. parse_quic p v6 pckt = Some r" using parse_quic_safe [of p v6 pckt] by (auto simp: wp_iff)
  then show ?thesis
    by (auto simp: quic_route_def Let_def increment_quic_cid_version_stats_def increment_quic_cid_drop_real_0_def
        split: option.split)
qed

lemma send_to_real_control:
  "wp (send_to_real C E m p pckt real vi v6 n) (\<lambda>(a, q, m'). control_eq m m')"
proof (cases "ctl_array m 0")
  case (Some cval)
  have "wp (if v6 \<and> rflags real AND F_IPV6 \<noteq> 0 then
                  if GUE_ENCAP C then gue_encap_v6 E (pckt_srcs m) p cval v6 pckt real (ucast n)
                  else encap_v6 E p cval v6 pckt real (ucast n)
                else
                  if GUE_ENCAP C then gue_encap_v4 E (pckt_srcs m) p cval pckt real (ucast n)
                  else encap_v4 E p cval pckt real (ucast n)) (\<lambda>_. True)"
    by (simp add: encap_v4_safe encap_v6_safe gue_encap_v4_safe gue_encap_v6_safe)
  then show ?thesis
    unfolding send_to_real_def Let_def Some option.case
    by (rule safe_bind) (auto split: prod.split)
qed (simp add: send_to_real_def)

lemma packet_too_big_control: "wp (packet_too_big C E m p v6) (\<lambda>(a, q, m'). control_eq m m')"
  unfolding packet_too_big_def Let_def
  by (auto split: option.split intro!: safe_bind [OF send_icmp_too_big_safe])

lemma lookup_vip_Some:
  "lookup_vip m pckt v6 = Some (key, info, d) \<Longrightarrow> vip_map m key = Some info \<and> tos d = tos pckt"
  by (auto simp: lookup_vip_def Let_def split: option.splits if_splits)

text \<open>What the forwarding path transmits: the packet, encapsulated towards a configured real.\<close>

definition sent_to_real_v4 :: "katran_maps \<Rightarrow> bytes \<Rightarrow> bytes \<Rightarrow> bool" where
  "sent_to_real_v4 m p q \<longleftrightarrow> (\<exists>cval k real hdr. ctl_array m 0 = Some cval \<and> reals m k = Some real \<and>
     q = ctl_mac cval @ take 6 p @ [8, 0] @ hdr @ drop 14 p \<and> length hdr = 20 \<and> csum_valid hdr \<and>
     hdr ! 0 = 0x45 \<and> hdr ! 9 = IPPROTO_IPIP \<and> drop 16 hdr = le_bytes 4 (unat (v4_of (rdst real))))"

lemma v4_hdr_stamped_fields:
  "length i = 2 \<Longrightarrow> v4_hdr_stamped t i s d l pr ! 0 = 0x45 \<and> v4_hdr_stamped t i s d l pr ! 9 = pr \<and>
    drop 16 (v4_hdr_stamped t i s d l pr) = le_bytes 4 (unat d)"
  by (simp add: v4_hdr_stamped_def v4_hdr_def nth_append)

lemma encap_v4_sent:
  assumes "env_ok E" "14 \<le> length p" "ctl_array m 0 = Some cval" "reals m k = Some real"
  shows "wp (encap_v4 E p cval pckt real n) (\<lambda>(ok, q). ok \<longrightarrow> sent_to_real_v4 m p q)"
proof (cases "xdp_adjust_head E (- 20) p")
  case (Some q0)
  obtain i where "length i = 2" "encap_v4 E p cval pckt real n = Some (True,
      ctl_mac cval @ take 6 p @ [8, 0] @
      v4_hdr_stamped (tos pckt) i (encap_v4_saddr pckt) (v4_of (rdst real)) (ucast n + 20) IPPROTO_IPIP @
      drop 14 p)"
    using encap_v4_result [OF _ assms(2) Some, of cval pckt real n] assms(1) by (auto simp: env_ok_def)
  then show ?thesis
    using assms(3,4) v4_hdr_stamped_fields v4_hdr_stamped_valid
    by (auto simp: sent_to_real_v4_def intro!: exI [of _ cval] exI [of _ k] exI [of _ real])
qed (simp add: encap_v4_def)

lemma send_to_real_sent:
  assumes "env_ok E" "14 \<le> length p" "control_eq m m1" "reals m k = Some real" "\<not> GUE_ENCAP C"
  shows "wp (send_to_real C E m1 p pckt real vi False n) (\<lambda>(a, q, m'). a = XDP_TX \<longrightarrow> sent_to_real_v4 m p q)"
proof (cases "ctl_array m1 0")
  case (Some cval)
  have c: "ctl_array m 0 = Some cval" using Some assms(3) by (simp add: control_eq_def)
  have "wp (encap_v4 E p cval pckt real (ucast n)) (\<lambda>(ok, q). ok \<longrightarrow> sent_to_real_v4 m p q)"
    by (rule encap_v4_sent [OF assms(1,2) c assms(4)])
  then show ?thesis
    using assms(5) Some
    by (auto simp: send_to_real_def Let_def intro!: safe_bind split: prod.split)
qed (simp add: send_to_real_def)

text \<open>
  What forwarding needs of the step that picks the real: it keeps the control plane, fails only
  by dropping, and returns a configured real.
\<close>

locale real_picker =
  fixes pick :: picker
  assumes pick_control: "wp (pick m p pckt vi v6) (\<lambda>(r, m'). control_eq m m' \<and> (\<forall>a. r = Inl a \<longrightarrow> a = XDP_DROP) \<and>
    (\<forall>real d. r = Inr (real, d) \<longrightarrow> reals m (real_index d) = Some real \<and> tos d = tos pckt))"
begin

lemma forward_sent:
  assumes "env_ok E" "14 \<le> length p" "\<not> GUE_ENCAP C" "length p \<le> MAX_PCKT_SIZE"
  shows "wp (forward_with pick C E m p pckt False n) (\<lambda>(a, q, m'). a = XDP_TX \<longrightarrow> sent_to_real_v4 m p q)"
proof (cases "lookup_vip m pckt False")
  case (Some t)
  obtain key info d where t: "t = (key, info, d)" by (metis prod_cases3)
  let ?vi = "info\<lparr>vip_num := CONCRETE_VIP_NUM\<rparr>"
  let ?m = "m\<lparr>vip_map := (vip_map m)(key \<mapsto> ?vi)\<rparr>"
  let ?k = "MAX_VIPS + LRU_CNTRS"
  let ?Q = "\<lambda>(a, q, m'). a = XDP_TX \<longrightarrow> sent_to_real_v4 m p q"
  have c: "control_eq m ?m" using lookup_vip_Some [of m pckt False] Some t by simp
  have sr: "wp (send_to_real C E m1 p d1 real ?vi False n) ?Q"
    if "control_eq m m1" "reals m (real_index d1) = Some real" for m1 d1 real
    by (rule send_to_real_sent [OF assms(1,2) that assms(3)])
  have pr: "wp (pick m1 p d1 ?vi False \<bind> (\<lambda>(r, m). case r of
        Inl action \<Rightarrow> Some (action, p, m)
      | Inr (real, pckt) \<Rightarrow> send_to_real C E m p pckt real ?vi False n)) ?Q"
    if "control_eq m m1" for m1 d1
    by (rule safe_bind [OF pick_control])
      (use that sr control_eq_trans [OF that] control_eq_reals(1) [OF that] in \<open>auto split: sum.splits\<close>)
  have cb: "control_eq m (bump ?k 1 0 ?m)" using c by simp
  have "wp (quic_route C (bump ?k 1 0 ?m) p d ?vi False \<bind> (\<lambda>(q, m). case q of
        Inl action \<Rightarrow> Some (action, p, m)
      | Inr (Some real, pckt) \<Rightarrow> send_to_real C E m p pckt real ?vi False n
      | Inr (None, pckt) \<Rightarrow> pick m p pckt ?vi False \<bind> (\<lambda>(r, m). case r of
            Inl action \<Rightarrow> Some (action, p, m)
          | Inr (real, pckt) \<Rightarrow> send_to_real C E m p pckt real ?vi False n))) ?Q"
    by (rule safe_bind [OF quic_route_control])
      (use sr pr control_eq_trans [OF cb] control_eq_reals(1) [OF cb]
        in \<open>auto split: sum.splits option.splits\<close>)
  then show ?thesis
    unfolding forward_with_def Let_def Some t option.case prod.case
    using assms(4) by (simp split: option.split)
qed (simp add: forward_with_def)

end

interpretation katran_pick: real_picker "pick_real C E" for C E
  by unfold_locales (rule pick_real_control)

lemma forward_packet_sent:
  assumes "env_ok E" "14 \<le> length p" "\<not> GUE_ENCAP C" "length p \<le> MAX_PCKT_SIZE"
  shows "wp (forward_packet C E m p pckt False n) (\<lambda>(a, q, m'). a = XDP_TX \<longrightarrow> sent_to_real_v4 m p q)"
  unfolding forward_packet_def by (rule katran_pick.forward_sent [OF assms])

section \<open>Delivery\<close>

lemma rings_wf_control: "control_eq m m' \<Longrightarrow> rings_wf m' = rings_wf m"
  by (simp add: control_eq_def rings_wf_def)

lemma pick_real_delivers:
  assumes "maps_wf m" "rings_wf m" "vip_num vi < MAX_VIPS" "\<not> LPM_SRC_LOOKUP C"
  shows "wp (pick_real C E m p pckt vi v6) (\<lambda>(r, m'). \<exists>real d. r = Inr (real, d))"
proof -
  define pckt1 where "pckt1 = (if vflags vi AND F_HASH_NO_SRC_PORT \<noteq> 0
      then pckt\<lparr>flow := (flow pckt)\<lparr>port0 := 0\<rparr>\<rparr> else pckt)"
  define lru where "lru = choose_lru C E m"
  obtain r pckt2 m2 where 1: "(if pflags pckt1 AND F_SYN_SET = 0 \<and> vflags vi AND F_LRU_BYPASS = 0
      then connection_table_lookup E m pckt1 lru else (None, pckt1, m)) = (r, pckt2, m2)"
    by (metis prod_cases3)
  have c2: "control_eq m m2" and w2: "maps_wf m2"
    using arg_cong [OF 1, of "\<lambda>x. control_eq m (snd (snd x))"] arg_cong [OF 1, of "\<lambda>x. maps_wf (snd (snd x))"]
      assms(1) by (simp_all split: if_splits)
  have bind: "wp (get_packet_dst C E m3 pckt2 vi v6 lru \<bind> (\<lambda>(r, pckt, m). case r of
       None \<Rightarrow> Some (Inl XDP_DROP, m)
     | Some real \<Rightarrow> Some (Inr (real, pckt), bump (MAX_VIPS + LRU_CNTRS) 0 1 m)))
     (\<lambda>(r, m'). \<exists>real d. r = Inr (real, d))" if "maps_wf m3" "rings_wf m3" for m3
    using get_packet_dst_found [OF that assms(3,4), of pckt2 v6 E lru] by auto
  have s: "stats m2 33 \<noteq> None"
    using w2 by (auto simp: maps_wf_def array_map_def STATS_MAP_SIZE_def)
  have rw: "rings_wf m2" using rings_wf_control [OF c2] assms(2) by simp
  then have "rings_wf (bump k x y m2)" "rings_wf (bump k x y (submit_event C m2 e n mo))" for k x y e n mo
    by (simp_all add: rings_wf_def submit_event_def Let_def split: option.split)
  then show ?thesis
    unfolding pick_real_def pick_from_def Let_def pckt1_def [symmetric] lru_def [symmetric] 1 prod.case
    using w2 rw s bind [of m2] bind [of "bump (MAX_VIPS + LRU_MISS_CNTR) 1 0 m2"]
      bind [of "bump (MAX_VIPS + LRU_MISS_CNTR) 0 1 (submit_event C m2 TCP_NONSYN_LRUMISS (length p) False)"]
    by (cases r) (simp_all cong: if_cong)
qed

lemma send_to_real_delivers:
  assumes "maps_wf m" "env_ok E" "14 \<le> length p" "reals m (real_index d) = Some real" "vip_num vi < MAX_VIPS"
    "\<not> GUE_ENCAP C" "xdp_adjust_head E (- 20) p \<noteq> None"
  shows "wp (send_to_real C E m p d real vi False n) (\<lambda>(a, q, m'). a = XDP_TX)"
proof -
  obtain cval where c: "ctl_array m 0 = Some cval"
    using assms(1) array_map_lookup [of CTL_MAP_SIZE "ctl_array m" 0] by (auto simp: maps_wf_def)
  obtain q where e: "encap_v4 E p cval d real (ucast n) = Some (True, q)"
    using encap_v4_result [of E p _ cval d real "ucast n"] assms(2,3,7) by (auto simp: env_ok_def)
  have "vip_num vi < STATS_MAP_SIZE"
    using assms(5) by (simp add: STATS_MAP_SIZE_def word_less_nat_alt)
  then have "stats m (vip_num vi) \<noteq> None" "reals_stats m (real_index d) \<noteq> None"
    using assms(1,4) by (auto simp: maps_wf_def array_map_def)
  then show ?thesis using assms(6) c e by (auto simp: send_to_real_def Let_def)
qed

lemma forward_packet_delivers:
  assumes "maps_wf m" and "rings_wf m" and "env_ok E" and "\<not> LPM_SRC_LOOKUP C" and "\<not> GUE_ENCAP C"
    and "proto (flow pckt) = IPPROTO_UDP \<Longrightarrow> \<forall>k info. vip_map m k = Some info \<longrightarrow> vflags info AND F_QUIC_VIP = 0"
    and "lookup_vip m pckt False \<noteq> None"
    and "14 \<le> length p" and "length p \<le> MAX_PCKT_SIZE" and "xdp_adjust_head E (- 20) p \<noteq> None"
  shows "\<exists>q m'. forward_packet C E m p pckt False n = Some (XDP_TX, q, m') \<and> sent_to_real_v4 m p q"
proof -
  obtain key info d where v: "lookup_vip m pckt False = Some (key, info, d)" using assms(7) by auto
  let ?vi = "info\<lparr>vip_num := 7\<rparr>"
  let ?m = "bump (MAX_VIPS + LRU_CNTRS) 1 0 (m\<lparr>vip_map := (vip_map m)(key \<mapsto> ?vi)\<rparr>)"
  have p: "proto (flow d) \<noteq> IPPROTO_UDP \<or> vflags ?vi AND F_QUIC_VIP = 0"
    using v assms(6) by (auto simp: lookup_vip_def Let_def split: option.splits if_splits)
  have wf: "maps_wf ?m" "rings_wf ?m" using assms(1,2) by (simp_all add: rings_wf_def)
  have vn: "vip_num ?vi < MAX_VIPS" by simp
  have sd: "wp (send_to_real C E b p e real (info\<lparr>vip_num := 7\<rparr>) False n) (\<lambda>(a, q, m'). a = 3)"
    if "maps_wf b" "reals b (real_index e) = Some real" for b e real
    using send_to_real_delivers [OF that(1) assms(3,8) that(2) vn assms(5,10)] by simp
  have "wp (pick_real C E ?m p d ?vi False \<bind> (\<lambda>(r, m). case r of
        Inl action \<Rightarrow> Some (action, p, m)
      | Inr (real, pckt) \<Rightarrow> send_to_real C E m p pckt real ?vi False n)) (\<lambda>(a, q, m'). a = XDP_TX)"
    by (rule safe_bind [OF wp_conjI [OF pick_real_safe wp_conjI [OF pick_real_control
        pick_real_delivers [OF wf vn assms(4)]]]])
      (use wf sd in \<open>auto simp: control_eq_def\<close>)
  moreover have "stats m 32 \<noteq> None"
    using assms(1) by (auto simp: maps_wf_def array_map_def STATS_MAP_SIZE_def)
  ultimately have "wp (forward_packet C E m p pckt False n) (\<lambda>(a, q, m'). a = XDP_TX)"
    using assms(9) p by (auto simp: forward_packet_def forward_with_def v Let_def quic_route_def)
  then show ?thesis
    using forward_packet_sent [OF assms(3,8,5,9), of m pckt n] by (auto simp: wp_iff)
qed


lemma ingress_tcp:
  assumes "ipv4_plain p 14 IPPROTO_TCP" "take 2 (drop 12 p) = [8, 0]" "54 \<le> length p"
  shows "\<exists>d n. describe_tcp p False = Some (Some d) \<and>
    balancer_ingress C E m p = forward_packet C E m p d False n \<bind> (\<lambda>(a, p, m). Some (Act a, p, m))"
proof -
  have "wp (process_l3_headers p pckt0 14 False) (\<lambda>(a, r, d, n). a = - 1 \<and> r = p \<and> proto (flow d) = 6)"
    using assms(1,3) by (simp add: process_l3_headers_def ipv4_plain_def wp_rules Let_def)
  then obtain d n where l3: "process_l3_headers p pckt0 14 False = Some (- 1, p, d, n)" and pr: "proto (flow d) = 6"
    by (auto simp: wp_iff)
  obtain e where e: "describe_tcp p False = Some (Some e)"
    using describe_tcp_direct [OF assms(3,1)] by (auto simp: wp_iff)
  then have "parse_tcp p False d = Some (Some e)" by (simp add: describe_tcp_def l3 pr)
  moreover have "ld16 p 12 = Some 8" using assms(2,3) by (simp add: ld16_def ldn_def)
  ultimately show ?thesis
    using e l3 pr assms(3) by (auto simp: balancer_ingress_def process_packet_def Let_def)
qed


definition demo_packet :: bytes where
  "demo_packet = replicate 12 2 @ [8, 0] @
     [0x45, 0, 0, 40, 0, 0, 0x40, 0, 64, 6, 0, 0, 192, 168, 0, 9, 10, 0, 0, 1] @
     [0x30, 0x39, 0, 80, 0, 0, 0, 0, 0, 0, 0, 0, 0x50, 2, 0, 0, 0, 0, 0, 0]"

lemma demo_rings_wf: "rings_wf demo_maps"
  by (simp add: rings_wf_def demo_maps_def)

lemma demo_cfg_flags: "\<not> LPM_SRC_LOOKUP demo_cfg" "\<not> GUE_ENCAP demo_cfg"
  by (simp_all add: demo_cfg_def)

lemma demo_packet_facts:
  "ipv4_plain demo_packet 14 IPPROTO_TCP" "take 2 (drop 12 demo_packet) = [8, 0]"
  "54 \<le> length demo_packet" "length demo_packet \<le> MAX_PCKT_SIZE"
  "xdp_adjust_head demo_env (- 20) demo_packet \<noteq> None"
  "vip_map demo_maps \<lparr>vip = (of_nat (le_val (take 4 (drop 30 demo_packet))), 0, 0, 0),
      vport = of_nat (le_val (take 2 (drop 36 demo_packet))), vproto = IPPROTO_TCP\<rparr> \<noteq> None"
  by (simp_all add: demo_packet_def ipv4_plain_def nth_append demo_env_def demo_maps_def)


text \<open>A TCP packet over IPv4 with options, of a fragment, or cut short is dropped.\<close>

lemma irregular_tcp_dropped:
  assumes "take 2 (drop 12 p) = [8, 0]" "p ! 23 = IPPROTO_TCP" "\<not> (ipv4_plain p 14 IPPROTO_TCP \<and> 54 \<le> length p)"
  shows "balancer_ingress C E m p = Some (Act XDP_DROP, p, m)"
proof -
  have l: "14 \<le> length p" using arg_cong [OF assms(1), of length] by simp
  have ld: "ld16 p 12 = Some 8" using assms(1) l by (simp add: ld16_def ldn_def)
  have "wp (process_packet C E m p 14 False) (\<lambda>r. r = (Act XDP_DROP, p, m))"
  proof (cases "34 \<le> length p \<and> ipv4_plain p 14 IPPROTO_TCP")
    case True
    then show ?thesis
      using assms(2,3)
      by (simp add: process_packet_def process_l3_headers_def ipv4_plain_def wp_rules Let_def
          parse_tcp_def calc_offset_def is_icmp_pckt_def set_v4_def pckt0_def addr0_def)
  next
    case False
    then show ?thesis
      using assms(2)
      by (auto simp: process_packet_def process_l3_headers_def ipv4_plain_def wp_rules Let_def)
  qed
  then show ?thesis using l ld by (auto simp: balancer_ingress_def Let_def wp_iff)
qed



section \<open>Control plane\<close>

context real_picker
begin

lemma forward_control:
  "wp (forward_with pick C E m p pckt v6 n) (\<lambda>(a, q, m'). control_eq m m')"
proof (cases "lookup_vip m pckt v6")
  case (Some t)
  obtain key info d where t: "t = (key, info, d)" by (metis prod_cases3)
  let ?vi = "info\<lparr>vip_num := CONCRETE_VIP_NUM\<rparr>"
  let ?m = "m\<lparr>vip_map := (vip_map m)(key \<mapsto> ?vi)\<rparr>"
  let ?k = "MAX_VIPS + LRU_CNTRS"
  let ?Q = "\<lambda>(a, q, m'). control_eq m m'"
  have c: "control_eq m ?m" using lookup_vip_Some [of m pckt v6] Some t by simp
  have big: "wp (packet_too_big C E ?m p v6) ?Q"
    by (rule wp_mono [OF packet_too_big_control]) (use control_eq_trans [OF c] in auto)
  have sr: "wp (send_to_real C E m1 p d1 real ?vi v6 n) ?Q" if "control_eq m m1" for m1 d1 real
    by (rule wp_mono [OF send_to_real_control]) (use control_eq_trans [OF that] in auto)
  have pr: "wp (pick m1 p d1 ?vi v6 \<bind> (\<lambda>(r, m). case r of
        Inl action \<Rightarrow> Some (action, p, m)
      | Inr (real, pckt) \<Rightarrow> send_to_real C E m p pckt real ?vi v6 n)) ?Q"
    if "control_eq m m1" for m1 d1
    by (rule safe_bind [OF pick_control])
      (use sr control_eq_trans [OF that] in \<open>auto split: sum.splits\<close>)
  have cb: "control_eq m (bump ?k 1 0 ?m)" using c by simp
  have "wp (quic_route C (bump ?k 1 0 ?m) p d ?vi v6 \<bind> (\<lambda>(q, m). case q of
        Inl action \<Rightarrow> Some (action, p, m)
      | Inr (Some real, pckt) \<Rightarrow> send_to_real C E m p pckt real ?vi v6 n
      | Inr (None, pckt) \<Rightarrow> pick m p pckt ?vi v6 \<bind> (\<lambda>(r, m). case r of
            Inl action \<Rightarrow> Some (action, p, m)
          | Inr (real, pckt) \<Rightarrow> send_to_real C E m p pckt real ?vi v6 n))) ?Q"
    by (rule safe_bind [OF quic_route_control])
      (use sr pr control_eq_trans [OF cb] in \<open>auto split: sum.splits option.splits\<close>)
  then show ?thesis
    unfolding forward_with_def Let_def Some t option.case prod.case
    using big c by (simp split: option.split)
qed (simp add: forward_with_def)

end

lemma forward_packet_control: "wp (forward_packet C E m p pckt v6 n) (\<lambda>(a, q, m'). control_eq m m')"
  unfolding forward_packet_def by (rule katran_pick.forward_control)


lemma act_forward_control:
  "wp (forward_packet C E m p pckt v6 n \<bind> (\<lambda>(a, p, m). Some (Act a, p, m))) (\<lambda>(v, q, m'). control_eq m m')"
  by (rule safe_bind [OF forward_packet_control]) (auto split: prod.splits)

lemma check_decap_dst_control: "check_decap_dst m pckt v6 = (a, pass, m') \<Longrightarrow> control_eq m m'"
  using control_eq_check_decap_dst [of m m pckt v6] by (simp del: control_eq_check_decap_dst)

lemma process_packet_control:
  "wp (process_packet C E m p off v6) (\<lambda>(v, q, m'). control_eq m m')"
  unfolding process_packet_def
proof (rule safe_bind [OF process_l3_headers_safe], goal_cases)
  case (1 x)
  let ?Q = "\<lambda>(v, q, m'). control_eq m m'"
  obtain a q d n where xe: "x = (a, q, d, n)" by (metis prod_cases4)
  obtain a' pass m' where cd: "check_decap_dst m d v6 = (a', pass, m')" by (metis prod_cases3)
  have keep: "wp (r \<bind> (\<lambda>(v, p). Some (v, p, m''))) ?Q" if "wp r (\<lambda>(v, q). ok_verdict v)" "control_eq m m''" for r m''
    by (rule safe_bind [OF that(1)]) (use that(2) in \<open>auto split: prod.splits\<close>)
  have ipip: "wp (process_encaped_ipip_pckt E q v6 (proto (flow d)) pass \<bind> (\<lambda>(v, p). Some (v, p, m'))) ?Q"
    if "proto (flow d) = IPPROTO_IPIP \<or> proto (flow d) = IPPROTO_IPV6"
    by (rule keep [OF process_encaped_ipip_safe [OF that] check_decap_dst_control [OF cd]])
  have tcp: "wp (parse_tcp q v6 d \<bind> (\<lambda>r. case r of None \<Rightarrow> Some (Act XDP_DROP, q, m)
      | Some pckt \<Rightarrow> forward_packet C E m q pckt v6 n \<bind> (\<lambda>(a, p, m). Some (Act a, p, m)))) ?Q"
    by (rule safe_bind [OF parse_tcp_safe], split option.split) (intro conjI allI impI act_forward_control, simp)
  have gue: "wp (case check_decap_dst m d' v6 of (action, pass, m) \<Rightarrow>
        if 0 \<le> action then Some (Act action, q, m)
        else process_encaped_gue_pckt E q v6 pass \<bind> (\<lambda>(v, p). Some (v, p, m))) ?Q" for d'
    using check_decap_dst_control [of m d' v6] keep [OF process_encaped_gue_safe] by (auto split: prod.split)
  have udp: "wp (parse_udp q v6 d \<bind> (\<lambda>r. case r of None \<Rightarrow> Some (Act XDP_DROP, q, m)
      | Some pckt \<Rightarrow> if INLINE_DECAP_GUE C \<and> port1 (flow pckt) = bpf_htons GUE_DPORT
          then case check_decap_dst m pckt v6 of (action, pass, m) \<Rightarrow>
            if 0 \<le> action then Some (Act action, q, m)
            else process_encaped_gue_pckt E q v6 pass \<bind> (\<lambda>(v, p). Some (v, p, m))
          else forward_packet C E m q pckt v6 n \<bind> (\<lambda>(a, p, m). Some (Act a, p, m)))) ?Q"
    by (rule safe_bind [OF parse_udp_safe], split option.split)
      (intro conjI allI impI safe_if gue act_forward_control, simp)
  show ?case
    unfolding xe prod.case Let_def cd
    by (intro safe_if ipip tcp udp) (use check_decap_dst_control [OF cd] in auto)
qed

lemma balancer_ingress_control: "wp (balancer_ingress C E m p) (\<lambda>(v, q, m'). control_eq m m')"
  unfolding balancer_ingress_def Let_def
  by (rule safe_start [of p]) (erule safe_elims | rule safe_intros process_packet_control | simp)+

lemma balancer_run_control: "wp (balancer_run n reg C E m p) (\<lambda>(a, q, m'). control_eq m m')"
proof (induction n arbitrary: m p)
  case 0
  show ?case
    by (subst balancer_run.simps, rule safe_bind [OF balancer_ingress_control]) (auto split: verdict.split)
next
  case (Suc n)
  show ?case
  proof (subst balancer_run.simps, rule safe_bind [OF balancer_ingress_control], goal_cases)
    case (1 x)
    obtain v q m1 where x: "x = (v, q, m1)" by (metis prod_cases3)
    then have c: "control_eq m m1" using 1 by simp
    have "wp (balancer_run n reg C E m1 q) (\<lambda>(a, q, m'). control_eq m m')"
      by (rule wp_mono [OF Suc.IH]) (use control_eq_trans [OF c] in auto)
    then show ?case
      using c by (cases reg) (auto simp: x split: verdict.split)
  qed
qed

text \<open>The balancer as a program run on a sequence of packets.\<close>

interpretation katran: packet_program
  "balancer_run n registered C E" "\<lambda>_. True" control_eq "\<lambda>_ _ x. fst x \<in> {XDP_DROP, XDP_PASS, XDP_TX}"
  for n registered C E
proof
  fix m p
  show "wp (balancer_run n registered C E m p) (\<lambda>(a, q, m'). True \<and> control_eq m m' \<and> fst (a, q) \<in> {XDP_DROP, XDP_PASS, XDP_TX})"
    using wp_conjI [OF balancer_run_control balancer_run_safe, of n registered C E m p]
    by (rule wp_mono) (auto simp: l3_action_def)
qed (auto intro: control_eq_trans)

text \<open>
  Property C7. The data plane leaves the configuration alone: over any sequence of packets, and
  whatever the number of tail calls, the balancer returns a verdict for each packet and changes
  none of reals, ch_rings, ctl_array, quic_mapping, decap_dst, pckt_srcs and the LPM tries; of a
  VIP it keeps the flags, but it may overwrite the number with 7 (the assignment
  \<open>vip_info->vip_num = 7\<close> left in \<open>process_packet\<close>, which goes to the map).
\<close>

theorem balancer_keeps_control_plane:
  "\<exists>outs m'. run_all (balancer_run n registered C E) ps m = Some (outs, m') \<and> control_eq m m' \<and>
    list_all2 (\<lambda>p x. fst x \<in> {XDP_DROP, XDP_PASS, XDP_TX}) ps outs"
  by (rule katran.run_all_result [OF TrueI]) blast

end
