(* ===== verification/Assert_Example.thy ===== *)
theory Assert_Example
  imports Assert_Spec Net_Headers
begin

text \<open>
  A program verified with the assertions of assert_spec.h: src/examples/assert_map_example/test.c.
  It is modelled twice, as its two builds run: \<open>xdp_main\<close> with the assertion macros, and
  \<open>xdp_main_release\<close> without \<open>KLEE_VERIFICATION\<close>, where the macros are empty.

  In the memory that the assertions read, the packet starts at address 0 and the local variable
  \<open>value\<close> lies behind it.
\<close>

definition pkt_memory :: "bytes \<Rightarrow> u8 \<Rightarrow> memory" where
  "pkt_memory p value a = (if a < length p then p ! a else value)"

definition value_addr :: "bytes \<Rightarrow> nat" where
  "value_addr p = length p"

text \<open>The assertions on the payload, which starts at byte 54.\<close>

definition payload_asserts :: "assert_state \<Rightarrow> bytes \<Rightarrow> (assert_error + assert_state) option" where
  "payload_asserts st p =
     do { c \<leftarrow> ld8 p 54;
          andThen (Some (BPF_ASSERT_IF_THEN st (c \<noteq> 0) 55 [0] True)) (\<lambda>st.
          andThen (Some (BPF_ASSERT_IF_THEN st (c \<noteq> 0) 54 [0] False)) (\<lambda>st.
          andThen (Some (BPF_ASSERT_IF_THEN st (c = 0) 56 [1] True)) (\<lambda>st.
          andThen (Some (add_leads_to st (c \<noteq> 0) XDP_PASS)) (\<lambda>st.
          andThen (Some (add_leads_to st (c = 0) XDP_TX)) (\<lambda>st.
          andThen (Some (add_if_action st XDP_PASS 55 [0] True)) (\<lambda>st.
          andThen (Some (add_if_action st XDP_PASS 54 [0] False)) (\<lambda>st.
          Some (add_if_action st XDP_TX 56 [1] True)))))))) }"

definition payload_rewrite :: "assert_state \<Rightarrow> bytes \<Rightarrow> (assert_error + int \<times> bytes) option" where
  "payload_rewrite st p =
     do { c \<leftarrow> ld8 p 54;
          if c = 0 then
            andThen (set_expected_return st XDP_TX) (\<lambda>st.
            do { d \<leftarrow> ld8 p 56;
                 p \<leftarrow> (if d \<noteq> 1 then st8 p 56 1 else Some p);
                 d \<leftarrow> ld8 p 56;
                 andThen (BPF_ASSERT (d = 1)) (\<lambda>_. BPF_RETURN (pkt_memory p 1) st XDP_TX p) })
          else
            andThen (BPF_ASSERT (c \<noteq> 0)) (\<lambda>_.
            andThen (set_expected_return st XDP_PASS) (\<lambda>st.
            andThen (Some (add_constant (pkt_memory p 0) st (value_addr p) 1)) (\<lambda>st.
            do { p \<leftarrow> st8 p 55 0; BPF_RETURN (pkt_memory p 0) st XDP_PASS p }))) }"

definition xdp_main :: "(u32 \<rightharpoonup> u32) \<Rightarrow> bytes \<Rightarrow> (assert_error + int \<times> bytes) option" where
  "xdp_main my_map p =
     do { val \<leftarrow> my_map 1;
          andThen (BPF_ASSERT (val = 2)) (\<lambda>_.
          andThen (set_expected_not_return assert_init XDP_ABORTED) (\<lambda>st.
          andThen (set_expected_not_return st XDP_REDIRECT) (\<lambda>st.
          if length p < sizeof_eth then BPF_RETURN (pkt_memory p 0) st XDP_DROP p
          else if length p < sizeof_eth + sizeof_iphdr then BPF_RETURN (pkt_memory p 0) st XDP_DROP p
          else do {
            protocol \<leftarrow> ld8 p (sizeof_eth + 9);
            if protocol \<noteq> IPPROTO_TCP then BPF_RETURN (pkt_memory p 0) st XDP_PASS p
            else if length p < sizeof_eth + sizeof_iphdr + sizeof_tcphdr
            then BPF_RETURN (pkt_memory p 0) st XDP_DROP p
            else andThen (payload_asserts st p) (\<lambda>st.
              if length p < sizeof_eth + sizeof_iphdr + sizeof_tcphdr + 3
              then BPF_RETURN (pkt_memory p 0) st XDP_DROP p
              else payload_rewrite st p) }))) }"

text \<open>The same program with the macros expanded to nothing.\<close>

definition xdp_main_release :: "bytes \<Rightarrow> (int \<times> bytes) option" where
  "xdp_main_release p =
     (if length p < sizeof_eth then Some (XDP_DROP, p)
      else if length p < sizeof_eth + sizeof_iphdr then Some (XDP_DROP, p)
      else do {
        protocol \<leftarrow> ld8 p (sizeof_eth + 9);
        if protocol \<noteq> IPPROTO_TCP then Some (XDP_PASS, p)
        else if length p < sizeof_eth + sizeof_iphdr + sizeof_tcphdr then Some (XDP_DROP, p)
        else if length p < sizeof_eth + sizeof_iphdr + sizeof_tcphdr + 3 then Some (XDP_DROP, p)
        else do {
          c \<leftarrow> ld8 p 54;
          if c = 0 then do {
            d \<leftarrow> ld8 p 56;
            p \<leftarrow> (if d \<noteq> 1 then st8 p 56 1 else Some p);
            Some (XDP_TX, p) }
          else do { p \<leftarrow> st8 p 55 0; Some (XDP_PASS, p) } } })"

section \<open>The release build\<close>

definition tcp_packet :: "bytes \<Rightarrow> bool" where
  "tcp_packet p \<longleftrightarrow> 54 \<le> length p \<and> p ! 23 = IPPROTO_TCP"

definition example_result :: "bytes \<Rightarrow> int \<times> bytes" where
  "example_result p =
     (if length p < 34 then (XDP_DROP, p)
      else if p ! 23 \<noteq> IPPROTO_TCP then (XDP_PASS, p)
      else if length p < 57 then (XDP_DROP, p)
      else if p ! 54 = 0 then (XDP_TX, put p 56 [1])
      else (XDP_PASS, put p 55 [0]))"

lemma put_nth_same: "off < length p \<Longrightarrow> p ! off = v \<Longrightarrow> put p off [v] = p"
  by (rule nth_equalityI) (auto simp: nth_put less_Suc_eq)

lemma xdp_main_release_result: "xdp_main_release p = Some (example_result p)"
  by (auto simp: xdp_main_release_def example_result_def ld8_def st8_def stn_put put_nth_same)

section \<open>The verified build\<close>

definition example_state :: assert_state where
  "example_state = assert_init\<lparr>expected_not_returns := [True, False, False, False, True]\<rparr>"

definition payload_state :: "u8 \<Rightarrow> assert_state" where
  "payload_state c = example_state\<lparr>
     leads_to := [if c = 0 then XDP_TX else XDP_PASS],
     if_actions := [(XDP_PASS, 55, [0], True), (XDP_PASS, 54, [0], False), (XDP_TX, 56, [1], True)],
     ifs := (if c = 0 then [(56, [1], True)] else [(55, [0], True), (54, [0], False)])\<rparr>"

lemma example_state_reached:
  "andThen (set_expected_not_return assert_init XDP_ABORTED) (\<lambda>st.
     andThen (set_expected_not_return st XDP_REDIRECT) f) = f example_state"
  by (simp add: set_expected_not_return_def assert_init_def example_state_def numeral_eq_Suc)

lemma payload_asserts_state:
  "54 < length p \<Longrightarrow> payload_asserts example_state p = Some (Inr (payload_state (p ! 54)))"
  by (simp add: payload_asserts_def ld8_def BPF_ASSERT_IF_THEN_def add_leads_to_def add_if_action_def add_if_def
      example_state_def payload_state_def assert_init_def MAX_LEADS_TO_ACTION_def MAX_IF_ACTIONS_def MAX_IFS_def)

lemma mem_read_1: "mem_read mem a 1 = [mem a]" "mem_read mem a (Suc 0) = [mem a]"
  by (simp_all add: mem_read_def)

lemma BPF_RETURN_early:
  "v = XDP_DROP \<or> v = XDP_PASS \<Longrightarrow> BPF_RETURN mem example_state v x = Some (Inr (v, x))"
  by (auto simp: BPF_RETURN_def run_unrestricted_asserts_def not_return_at_def example_state_def assert_init_def
    numeral_eq_Suc)

lemma BPF_RETURN_drop: "BPF_RETURN mem (payload_state c) XDP_DROP x = Some (Inl Wrong_leads_to)"
  by (simp add: BPF_RETURN_def run_unrestricted_asserts_def not_return_at_def payload_state_def example_state_def
      assert_init_def)

lemmas assert_eval = set_expected_return_def not_return_at_def payload_state_def example_state_def assert_init_def
  BPF_RETURN_def run_unrestricted_asserts_def add_constant_def MAX_CONSTANTS_def CONSTANTS_BUFFER_SIZE_def
  mem_read_1 pkt_memory_def value_addr_def

lemma payload_rewrite_tx:
  assumes "57 \<le> length p" "p ! 54 = 0"
  shows "payload_rewrite (payload_state 0) p = Some (Inr (XDP_TX, put p 56 [1]))"
proof -
  have d: "(if p ! 56 \<noteq> 1 then st8 p 56 1 else Some p) = Some (put p 56 [1])"
    using assms by (simp add: st8_def stn_put put_nth_same)
  have l: "ld8 p 54 = Some 0" "ld8 p 56 = Some (p ! 56)" "ld8 (put p 56 [1]) 56 = Some 1"
    using assms by (simp_all add: ld8_def nth_put)
  show ?thesis
    using assms by (simp add: payload_rewrite_def l d assert_eval nth_put)
qed

lemma payload_rewrite_pass:
  assumes "57 \<le> length p" "p ! 54 \<noteq> 0"
  shows "payload_rewrite (payload_state (p ! 54)) p = Some (Inr (XDP_PASS, put p 55 [0]))"
proof -
  have l: "ld8 p 54 = Some (p ! 54)" "st8 p 55 0 = Some (put p 55 [0])"
    using assms by (simp_all add: ld8_def st8_def stn_put)
  show ?thesis
    using assms by (simp add: payload_rewrite_def l assert_eval nth_put)
qed

lemma payload_rewrite_result:
  assumes "57 \<le> length p" "p ! 23 = IPPROTO_TCP"
  shows "payload_rewrite (payload_state (p ! 54)) p = Some (Inr (example_result p))"
  using assms payload_rewrite_tx [of p] payload_rewrite_pass [of p] by (auto simp: example_result_def)

text \<open>
  Every assertion of assert_map_example holds on every packet but the TCP packets
  with fewer than three bytes of payload: there the verified build stops at its own assertions
  (a read outside the packet at 54 bytes, a wrong leads-to action at 55 and 56), although the
  release build drops such a packet safely. On all other packets both builds return the same
  verdict and the same packet.
\<close>

lemma assert_example_exact:
  assumes "my_map 1 = Some 2"
  shows "xdp_main my_map p =
    (if tcp_packet p \<and> length p = 54 then None
     else if tcp_packet p \<and> length p < 57 then Some (Inl Wrong_leads_to)
     else map_option Inr (xdp_main_release p))"
proof -
  have p54: "payload_asserts example_state p = None" if "length p = 54"
    using that by (simp add: payload_asserts_def ld8_def)
  show ?thesis
    unfolding xdp_main_def assms example_state_reached xdp_main_release_result tcp_packet_def
    using payload_asserts_state [of p] payload_rewrite_result [of p] p54
    by (auto simp: BPF_RETURN_early [simplified] BPF_RETURN_drop [simplified] example_result_def ld8_def)
qed

lemma assert_example_exact_witness:
  "xdp_main [1 \<mapsto> 2] (replicate 23 0 @ [6] @ replicate 31 0) = Some (Inl Wrong_leads_to)"
  by (subst assert_example_exact) (simp_all add: tcp_packet_def nth_append)

end
