(* ===== verification/Verify_Tools.thy ===== *)
theory Verify_Tools
  imports Fnv
begin

text \<open>
  The harness library of the verifier (src/verification_tools) and the loop example
  src/nontermination.c: comparison of a program with a functional specification (common.h,
  partial_spec.h, weak_partial_spec.h), assertions collected during a run and checked at
  its end (assert_spec.h), header access for specifications (parsing_helpers_spec.h), and
  the parser of read/write sets (readWriteSet.c).

  The map stubs of ebpf-se and its \<open>parsing_helpers.h\<close> are not in the repository: the
  functions the harness calls on them are arguments here. A failing C assertion is \<open>Inl\<close>;
  \<open>None\<close> is an access outside an object.
\<close>

section \<open>Contexts and end states (common.h)\<close>

definition ipv4_uint8_to_uint32 :: "u8 \<Rightarrow> u8 \<Rightarrow> u8 \<Rightarrow> u8 \<Rightarrow> u32" where
  "ipv4_uint8_to_uint32 a b c d =
     (let result = 0; result = result + ucast a; result = push_bit 8 result;
          result = result + ucast b; result = push_bit 8 result;
          result = result + ucast c; result = push_bit 8 result;
          result = result + ucast d in result)"

definition XDP_ANY :: int where "XDP_ANY = 5"
definition XDP_ABORTED_IGNORE_STATE :: int where "XDP_ABORTED_IGNORE_STATE = XDP_ANY + 1"
definition XDP_DROP_IGNORE_STATE :: int where "XDP_DROP_IGNORE_STATE = XDP_ANY + 2"
definition XDP_PASS_IGNORE_STATE :: int where "XDP_PASS_IGNORE_STATE = XDP_ANY + 3"
definition XDP_TX_IGNORE_STATE :: int where "XDP_TX_IGNORE_STATE = XDP_ANY + 4"
definition XDP_REDIRECT_IGNORE_STATE :: int where "XDP_REDIRECT_IGNORE_STATE = XDP_ANY + 5"
definition XDP_ANY_IGNORE_STATE :: int where "XDP_ANY_IGNORE_STATE = XDP_ANY + 6"

lemmas verify_actions =
  XDP_ANY_def XDP_ABORTED_IGNORE_STATE_def XDP_DROP_IGNORE_STATE_def XDP_PASS_IGNORE_STATE_def
  XDP_TX_IGNORE_STATE_def XDP_REDIRECT_IGNORE_STATE_def XDP_ANY_IGNORE_STATE_def

text \<open>
  \<open>struct xdp_md\<close> with the object its packet pointers point into: \<open>xmem\<close> is the allocated
  buffer, \<open>xdata\<close> and \<open>xdata_end\<close> are offsets in it.
\<close>

record xdp_md =
  xmem :: bytes
  xdata :: nat
  xdata_end :: nat
  data_meta :: u32
  ingress_ifindex :: u32
  rx_queue_index :: u32
  egress_ifindex :: u32

record xdp_end_state =
  rvalue :: int
  ectx :: xdp_md

text \<open>A program: from map contents and context to its return value, or a fault.\<close>

type_synonym 'm xdp_func = "'m list \<Rightarrow> xdp_md \<Rightarrow> (int \<times> 'm list \<times> xdp_md) option"

definition get_xdp_end_state :: "'m xdp_func \<Rightarrow> 'm list \<Rightarrow> xdp_md \<Rightarrow> (xdp_end_state \<times> 'm list) option" where
  "get_xdp_end_state f maps ctx =
     do { (r, maps, ctx) \<leftarrow> f maps ctx; Some (\<lparr>rvalue = r, ectx = ctx\<rparr>, maps) }"

definition return_value_equal :: "xdp_end_state \<Rightarrow> xdp_end_state \<Rightarrow> bool" where
  "return_value_equal prog spec =
     (rvalue prog = rvalue spec \<or> rvalue prog + XDP_ABORTED_IGNORE_STATE = rvalue spec)"

definition memcmp_eq :: "bytes \<Rightarrow> nat \<Rightarrow> bytes \<Rightarrow> nat \<Rightarrow> nat \<Rightarrow> bool option" where
  "memcmp_eq m1 o1 m2 o2 n = do { a \<leftarrow> ldn m1 o1 n; b \<leftarrow> ldn m2 o2 n; Some (a = b) }"

text \<open>\<open>data_end - data + eth_offset\<close>: a difference of 32-bit fields, then a 64-bit sum.\<close>

definition pkt_size :: "xdp_md \<Rightarrow> nat \<Rightarrow> nat" where
  "pkt_size c eth_offset = nat ((int (xdata_end c) - int (xdata c)) mod 2 ^ 32) + eth_offset"

definition end_state_equal :: "xdp_end_state \<Rightarrow> xdp_end_state \<Rightarrow> nat \<Rightarrow> bool option" where
  "end_state_equal x y eth_offset =
     (let cx = ectx x; cy = ectx y;
          end_metadata_equal = (data_meta cx = data_meta cy \<and> ingress_ifindex cx = ingress_ifindex cy \<and>
            rx_queue_index cx = rx_queue_index cy \<and> egress_ifindex cx = egress_ifindex cy);
          x_packet_size = pkt_size cx eth_offset; y_packet_size = pkt_size cy eth_offset;
          packet_size_equal = (x_packet_size = y_packet_size) in
      if xdata cx < eth_offset \<or> xdata cy < eth_offset then None
      else
        do { end_packet_equal \<leftarrow> memcmp_eq (xmem cx) (xdata cx - eth_offset) (xmem cy) (xdata cy - eth_offset)
                                   x_packet_size;
             Some (end_metadata_equal \<and> packet_size_equal \<and> end_packet_equal) })"

definition create_ctx :: "bytes \<Rightarrow> nat \<Rightarrow> nat \<Rightarrow> u32 \<Rightarrow> xdp_md" where
  "create_ctx packet packet_size eth_offset egress =
     \<lparr>xmem = packet, xdata = eth_offset, xdata_end = packet_size, data_meta = 0,
      ingress_ifindex = 0, rx_queue_index = 0, egress_ifindex = egress\<rparr>"

section \<open>Comparison with a partial specification (partial_spec.h)\<close>

datatype verify_error = Map_differs | Return_differs | State_differs | No_path

datatype verify_result = Checked | Unconstrained | Assumed_away

text \<open>
  \<open>same_inserts\<close> and \<open>map_equal\<close> stand for \<open>map_same_lookup_inserts\<close> and \<open>map_equal\<close>
  of ebpf-se. The specification runs on the maps, the program on their duplicates; a pair of
  maps that did not see the same insertions ends the path without a verdict.
\<close>

definition functional_verify ::
  "('m \<Rightarrow> 'm \<Rightarrow> bool) \<Rightarrow> ('m \<Rightarrow> 'm \<Rightarrow> bool) \<Rightarrow> bool \<Rightarrow> 'm xdp_func \<Rightarrow> 'm xdp_func \<Rightarrow> 'm list \<Rightarrow> xdp_md \<Rightarrow>
    nat \<Rightarrow> nat \<Rightarrow> (verify_error + verify_result) option" where
  "functional_verify same_inserts map_equal ignore_map_state xdp_main xdp_spec maps ctx packet_size eth_offset =
     (if xdata ctx < eth_offset then None else
      do { packet_copy \<leftarrow> ldn (xmem ctx) (xdata ctx - eth_offset) packet_size;
           let ctx_copy = ctx\<lparr>xmem := packet_copy, xdata := eth_offset, xdata_end := packet_size\<rparr>;
           (spec, smaps) \<leftarrow> get_xdp_end_state xdp_spec maps ctx_copy;
           if rvalue spec \<noteq> XDP_ANY_IGNORE_STATE then
             do { (prog, pmaps) \<leftarrow> get_xdp_end_state xdp_main maps ctx;
                  if \<not> list_all2 (\<lambda>a b. same_inserts a b \<and> same_inserts b a) smaps pmaps
                  then Some (Inr Assumed_away)
                  else if \<not> ignore_map_state \<and> \<not> list_all2 map_equal smaps pmaps then Some (Inl Map_differs)
                  else if rvalue spec \<noteq> XDP_ANY \<and> \<not> return_value_equal prog spec then Some (Inl Return_differs)
                  else if rvalue spec \<le> XDP_ANY then
                    do { b \<leftarrow> end_state_equal prog spec eth_offset;
                         Some (if b then Inr Checked else Inl State_differs) }
                  else Some (Inr Checked) }
           else Some (Inr Unconstrained) })"

section \<open>Weak partial specifications (weak_partial_spec.h)\<close>

definition check_return_path :: "xdp_end_state \<Rightarrow> nat \<Rightarrow> int \<Rightarrow> xdp_md \<Rightarrow> bool option" where
  "check_return_path spec_end_state global_eth_offset action ctx =
     (let prog = \<lparr>rvalue = action, ectx = ctx\<rparr> in
      if rvalue spec_end_state < XDP_ANY \<and> return_value_equal prog spec_end_state then
        end_state_equal prog spec_end_state global_eth_offset
      else if rvalue spec_end_state = XDP_ANY then
        end_state_equal prog spec_end_state global_eth_offset
      else Some (rvalue spec_end_state > XDP_ANY \<and> return_value_equal prog spec_end_state))"

text \<open>
  A program under \<open>functional_verify_weak\<close> consults \<open>check_return_path\<close> at each
  \<open>BPF_RETURN\<close> and goes on when it says no; \<open>END_BPF\<close> returns -1. It is a function of that
  check.
\<close>

type_synonym 'm weak_prog =
  "(int \<Rightarrow> xdp_md \<Rightarrow> bool option) \<Rightarrow> 'm list \<Rightarrow> xdp_md \<Rightarrow> (int \<times> 'm list \<times> xdp_md) option"

definition weak_ctx_copy :: "xdp_md \<Rightarrow> nat \<Rightarrow> nat \<Rightarrow> xdp_md option" where
  "weak_ctx_copy ctx packet_size eth_offset =
     do { packet_copy \<leftarrow> ldn (xmem ctx) (xdata ctx) (packet_size - eth_offset);
          Some (ctx\<lparr>xmem := packet_copy, xdata := eth_offset, xdata_end := packet_size\<rparr>) }"

definition functional_verify_weak ::
  "'m weak_prog \<Rightarrow> 'm xdp_func \<Rightarrow> 'm list \<Rightarrow> xdp_md \<Rightarrow> nat \<Rightarrow> nat \<Rightarrow> (verify_error + verify_result) option" where
  "functional_verify_weak xdp_main xdp_spec maps ctx packet_size eth_offset =
     do { ctx_copy \<leftarrow> weak_ctx_copy ctx packet_size eth_offset;
          (spec, maps) \<leftarrow> get_xdp_end_state xdp_spec maps ctx_copy;
          if rvalue spec \<noteq> XDP_ANY_IGNORE_STATE then
            do { (r, maps', ctx') \<leftarrow> xdp_main (check_return_path spec eth_offset) maps ctx;
                 Some (if r = -1 then Inl No_path else Inr Checked) }
          else Some (Inr Unconstrained) }"

text \<open>The full comparison of UNUSED_full_spec.h: same return value, same bytes.\<close>

definition full_functional_verify ::
  "'m xdp_func \<Rightarrow> 'm xdp_func \<Rightarrow> 'm list \<Rightarrow> xdp_md \<Rightarrow> nat \<Rightarrow> nat \<Rightarrow> (verify_error + int) option" where
  "full_functional_verify prog spec maps ctx packet_size eth_offset =
     do { ctx_copy \<leftarrow> weak_ctx_copy ctx packet_size eth_offset;
          (rp, pmaps, pctx) \<leftarrow> prog maps ctx;
          (rs, smaps, sctx) \<leftarrow> spec maps ctx_copy;
          if xdata ctx < eth_offset then None
          else do { same \<leftarrow> memcmp_eq (xmem pctx) (xdata ctx - eth_offset) (xmem sctx) 0 packet_size;
                    Some (if rp = rs \<and> same then Inr 0 else Inl State_differs) } }"

section \<open>Header access (parsing_helpers_spec.h)\<close>

text \<open>
  \<open>depth\<close> and \<open>is_vlan\<close> stand for \<open>VLAN_MAX_DEPTH\<close> and \<open>proto_is_vlan\<close> of ebpf-se.
  Offsets are from the start of the Ethernet header, \<open>p\<close> is the packet.
\<close>

fun skip_vlan :: "(u16 \<Rightarrow> bool) \<Rightarrow> nat \<Rightarrow> bytes \<Rightarrow> u16 \<Rightarrow> nat \<Rightarrow> (u16 \<times> nat) option" where
  "skip_vlan is_vlan 0 p h_proto vlh = Some (h_proto, vlh)"
| "skip_vlan is_vlan (Suc i) p h_proto vlh =
     (if \<not> is_vlan h_proto then Some (h_proto, vlh)
      else do { h_proto \<leftarrow> ld16 p (vlh + 2); skip_vlan is_vlan i p h_proto (vlh + 4) })"

definition get_eth :: nat where "get_eth = 0"

definition get_eth_proto :: "(u16 \<Rightarrow> bool) \<Rightarrow> nat \<Rightarrow> bytes \<Rightarrow> u16 option" where
  "get_eth_proto is_vlan depth p =
     do { h_proto \<leftarrow> ld16 p (get_eth + 12);
          (h_proto, vlh) \<leftarrow> skip_vlan is_vlan depth p h_proto (get_eth + 14);
          Some h_proto }"

definition get_ip :: "(u16 \<Rightarrow> bool) \<Rightarrow> nat \<Rightarrow> bytes \<Rightarrow> nat option" where
  "get_ip is_vlan depth p =
     do { h_proto \<leftarrow> ld16 p (get_eth + 12);
          (h_proto, vlh) \<leftarrow> skip_vlan is_vlan depth p h_proto (get_eth + 14);
          Some vlh }"

definition get_ip_protocol :: "(u16 \<Rightarrow> bool) \<Rightarrow> nat \<Rightarrow> bytes \<Rightarrow> u8 option" where
  "get_ip_protocol is_vlan depth p = do { ip \<leftarrow> get_ip is_vlan depth p; ld8 p (ip + 9) }"

definition get_tcp_udp :: "(u16 \<Rightarrow> bool) \<Rightarrow> nat \<Rightarrow> bytes \<Rightarrow> nat option" where
  "get_tcp_udp is_vlan depth p =
     do { ip \<leftarrow> get_ip is_vlan depth p; vihl \<leftarrow> ld8 p ip; Some (ip + unat (vihl AND 0x0F) * 4) }"

section \<open>Read/write sets (readWriteSet.c)\<close>

text \<open>
  \<open>strtok (str, ",")\<close> yields the maximal non-empty comma-free pieces; \<open>Inl\<close> is the failing
  assertion on the number of items.
\<close>

fun split_on :: "char \<Rightarrow> string \<Rightarrow> string list" where
  "split_on d [] = [[]]"
| "split_on d (c # cs) =
     (if c = d then [] # split_on d cs
      else case split_on d cs of [] \<Rightarrow> [[c]] | w # ws \<Rightarrow> (c # w) # ws)"

definition strtok_all :: "string \<Rightarrow> string list" where
  "strtok_all s = filter (\<lambda>w. w \<noteq> []) (split_on (CHR '','') s)"

text \<open>The first loop: \<open>str\<close> ends up behind the last opening brace, \<open>count\<close> counts commas.\<close>

fun after_last_brace :: "string \<Rightarrow> string \<Rightarrow> string" where
  "after_last_brace str [] = str"
| "after_last_brace str (c # cs) = after_last_brace (if c = CHR ''{'' then cs else str) cs"

definition strip_brace :: "string \<Rightarrow> string" where
  "strip_brace w = (if CHR ''}'' \<in> set w then butlast w else w)"

definition parseSet :: "string \<Rightarrow> unit + string list" where
  "parseSet s =
     (let str = after_last_brace s s;
          count = 1 + length (filter (\<lambda>c. c = CHR '','') s) + 1;
          toks = strtok_all str;
          toks = (case toks of [] \<Rightarrow> [] | t # ts \<Rightarrow> t # map (dropWhile (\<lambda>c. c = CHR '' '')) ts);
          result = map strip_brace toks in
      if length result = count - 1 then Inr result else Inl ())"

text \<open>
  \<open>main\<close> appends the lines of the file to a buffer of 100 bytes; \<open>None\<close> is the overflow
  of that buffer.
\<close>

fun read_contents :: "string \<Rightarrow> string list \<Rightarrow> string option" where
  "read_contents contents [] = Some contents"
| "read_contents contents (buff # rest) =
     (if length (contents @ buff) + 1 \<le> 100 then read_contents (contents @ buff) rest else None)"

section \<open>The loop example (nontermination.c)\<close>

text \<open>
  The payload is the whole packet. The loop stops after 251 bytes, at the end of the packet,
  or at a delimiter; its result is \<open>hash\<close>, \<open>key_len\<close> and \<open>done_parsing\<close>.
\<close>

fun socket_loop :: "nat \<Rightarrow> bytes \<Rightarrow> nat \<Rightarrow> u32 \<Rightarrow> u32 \<Rightarrow> (u32 \<times> u32 \<times> u32) option" where
  "socket_loop 0 p off hash key_len = Some (hash, key_len, 0)"
| "socket_loop (Suc k) p off hash key_len =
     (if off + 1 \<le> length p then
        do { c \<leftarrow> ld8 p off;
             if c = 13 then Some (hash, key_len, 1)
             else if c = 32 then Some (hash, key_len, 0)
             else socket_loop k p (off + 1) (fnv_step_char hash c) (key_len + 1) }
      else Some (hash, key_len, 0))"

definition socket_handler :: "bytes \<Rightarrow> int option" where
  "socket_handler p =
     (if 0 \<ge> length p then Some 2
      else do {
        (hash, key_len, done_parsing) \<leftarrow> socket_loop 251 p 0 2166136261 0;
        let cnt = (if hash = 0 then 1 else 0 :: int);
        let hash = (if hash mod 7 = 0 then hash + key_len
                    else if hash mod 5 = 0 then hash - key_len
                    else if hash mod 3 = 0 then hash XOR done_parsing else hash);
        if cnt > 100 \<and> done_parsing \<noteq> 0 then Some (if hash mod 2 \<noteq> 0 then 1 else 2)
        else Some 0 })"

section \<open>Soundness of the comparison\<close>

text \<open>The bytes a context exposes, from the reserved room in front of the Ethernet header on.\<close>

definition packet_of :: "xdp_md \<Rightarrow> nat \<Rightarrow> bytes" where
  "packet_of c eth_offset = take (pkt_size c eth_offset) (drop (xdata c - eth_offset) (xmem c))"

text \<open>The metadata that a program can change or that it was given.\<close>

definition same_metadata :: "xdp_md \<Rightarrow> xdp_md \<Rightarrow> bool" where
  "same_metadata c c' \<longleftrightarrow> data_meta c = data_meta c' \<and> ingress_ifindex c = ingress_ifindex c' \<and>
     rx_queue_index c = rx_queue_index c' \<and> egress_ifindex c = egress_ifindex c'"

lemma end_state_equal_Some:
  "end_state_equal x y e = Some b \<Longrightarrow> b \<Longrightarrow> packet_of (ectx x) e = packet_of (ectx y) e \<and>
    same_metadata (ectx x) (ectx y) \<and> pkt_size (ectx x) e = pkt_size (ectx y) e"
  by (auto simp: end_state_equal_def memcmp_eq_def packet_of_def same_metadata_def ldn_def Let_def bind_eq_Some_conv
      split: if_splits)

definition spec_ctx :: "xdp_md \<Rightarrow> nat \<Rightarrow> nat \<Rightarrow> xdp_md" where
  "spec_ctx ctx packet_size eth_offset =
     ctx\<lparr>xmem := take packet_size (drop (xdata ctx - eth_offset) (xmem ctx)),
         xdata := eth_offset, xdata_end := packet_size\<rparr>"

text \<open>
  Property C32. Soundness of \<open>functional_verify\<close>: when a path ends with every check passed, the
  program (returning a proper XDP action) agrees with the specification: the maps are equal; for
  a specified action the return values are equal, and so are the packets, with the room in front
  of the Ethernet header and their sizes, and the metadata, all four fields of the context
  (data_meta, ingress_ifindex, rx_queue_index, egress_ifindex); for XDP_ANY packet, size and
  metadata are equal; for an IGNORE_STATE action the return values are.
\<close>

theorem functional_verify_sound:
  assumes "functional_verify same_ins map_eq False main spec maps ctx n e = Some (Inr Checked)"
    and "spec maps (spec_ctx ctx n e) = Some (rs, sm, sc)"
    and "main maps ctx = Some (rp, pm, pc)" and "0 \<le> rp" and "rp \<le> 4" and "0 \<le> rs"
  shows "list_all2 map_eq sm pm \<and>
    (rs < XDP_ANY \<longrightarrow> rp = rs) \<and>
    (rs \<le> XDP_ANY \<longrightarrow> packet_of pc e = packet_of sc e \<and> pkt_size pc e = pkt_size sc e \<and>
      data_meta pc = data_meta sc \<and> ingress_ifindex pc = ingress_ifindex sc \<and>
      rx_queue_index pc = rx_queue_index sc \<and> egress_ifindex pc = egress_ifindex sc) \<and>
    (rs > XDP_ANY \<longrightarrow> rs = rp + XDP_ABORTED_IGNORE_STATE)"
  using assms end_state_equal_Some
    [of "\<lparr>rvalue = rp, ectx = pc\<rparr>" "\<lparr>rvalue = rs, ectx = sc\<rparr>" e True]
  by (auto simp: functional_verify_def get_xdp_end_state_def spec_ctx_def ldn_def bind_eq_Some_conv
      return_value_equal_def verify_actions same_metadata_def Let_def split: if_splits)

definition drop_prog :: "unit xdp_func" where
  "drop_prog maps ctx = Some (1, maps, ctx)"

definition demo_ctx :: xdp_md where
  "demo_ctx = create_ctx [1, 2, 3, 4, 5, 6] 6 2 0"

lemmas demo_simps = drop_prog_def demo_ctx_def create_ctx_def

theorem functional_verify_sound_witness:
  "functional_verify (=) (=) False drop_prog drop_prog [()] demo_ctx 6 2 = Some (Inr Checked) \<and>
    packet_of demo_ctx 2 = packet_of (spec_ctx demo_ctx 6 2) 2 \<and>
    egress_ifindex demo_ctx = egress_ifindex (spec_ctx demo_ctx 6 2)"
proof -
  have "functional_verify (=) (=) False drop_prog drop_prog [()] demo_ctx 6 2 = Some (Inr Checked)"
    by (simp add: demo_simps functional_verify_def get_xdp_end_state_def ldn_def return_value_equal_def
        end_state_equal_def memcmp_eq_def pkt_size_def verify_actions)
  then show ?thesis
    using functional_verify_sound [of "(=)" "(=)" drop_prog drop_prog "[()]" demo_ctx 6 2
        1 "[()]" "spec_ctx demo_ctx 6 2" 1 "[()]" demo_ctx]
    by (simp add: drop_prog_def verify_actions)
qed

text \<open>
  Completeness on equal programs: a program compared with itself, on a context
  whose buffer is exactly the packet with its reserved room, never trips an assertion, as
  long as it keeps its own context inside its buffer and the map comparisons are reflexive.
\<close>

lemma functional_verify_reflexive:
  assumes "xdata ctx = e" and "xdata_end ctx = n" and "length (xmem ctx) = n"
    and "f maps ctx = Some (r, m', c')"
    and "e \<le> xdata c'" and "xdata c' \<le> xdata_end c'" and "xdata_end c' \<le> length (xmem c')"
    and "length (xmem c') < 2 ^ 32"
    and "\<And>x. same_ins x x" and "\<And>x. map_eq x x"
  shows "\<exists>v. functional_verify same_ins map_eq ignore f f maps ctx n e = Some (Inr v)"
proof -
  have c: "ctx\<lparr>xmem := xmem ctx, xdata := e, xdata_end := n\<rparr> = ctx" using assms(1,2) by simp
  have z: "pkt_size c' e = xdata_end c' - xdata c' + e"
    using assms(6-8) by (simp add: pkt_size_def flip: of_nat_diff)
  have s: "end_state_equal \<lparr>rvalue = r, ectx = c'\<rparr> \<lparr>rvalue = r, ectx = c'\<rparr> e = Some True"
    using assms(5-7) by (simp add: end_state_equal_def memcmp_eq_def ldn_def Let_def z)
  have l: "list_all2 same_ins m' m'" "list_all2 map_eq m' m'"
    "list_all2 (\<lambda>a b. same_ins a b \<and> same_ins b a) m' m'"
    using assms(9,10) by (simp_all add: list_all2_refl)
  show ?thesis
    using assms(1-4) c s l
    by (auto simp: functional_verify_def get_xdp_end_state_def ldn_def return_value_equal_def)
qed

lemma functional_verify_reflexive_witness:
  "\<exists>v. functional_verify (=) (=) False drop_prog drop_prog [()] demo_ctx 6 2 = Some (Inr v)"
  by (rule functional_verify_reflexive [of demo_ctx 2 6 drop_prog "[()]" 1 "[()]" demo_ctx])
    (simp_all add: demo_simps)

text \<open>
  The copy that \<open>functional_verify_weak\<close> hands to the specification is wrong
  whenever the program reserves room in front of the Ethernet header: the buffer is shorter
  than the packet it claims to hold, and the byte the specification reads at offset \<open>i\<close> of its
  packet is the program's byte at offset \<open>i + eth_offset\<close>, or lies outside the buffer.
\<close>

lemma weak_copy_is_shifted:
  assumes "weak_ctx_copy ctx n e = Some c" and "0 < e" and "e \<le> n"
  shows "length (xmem c) < xdata_end c \<and>
    ld8 (xmem c) (xdata c + i) = (if i + e < n - e then ld8 (xmem ctx) (xdata ctx + (i + e)) else None)"
  using assms by (auto simp: weak_ctx_copy_def ldn_def ld8_def bind_eq_Some_conv add.commute add.left_commute
      split: if_splits)

lemma weak_copy_is_shifted_witness:
  "\<exists>c. weak_ctx_copy demo_ctx 6 2 = Some c \<and> ld8 (xmem c) (xdata c + 0) = Some 5"
proof -
  let ?c = "demo_ctx\<lparr>xmem := [3, 4, 5, 6], xdata := 2, xdata_end := 6\<rparr>"
  have c: "weak_ctx_copy demo_ctx 6 2 = Some ?c" by (simp add: demo_simps weak_ctx_copy_def ldn_def)
  then have "ld8 (xmem ?c) (xdata ?c + 0) = Some 5"
    using weak_copy_is_shifted [OF c, of 0] by (simp add: demo_simps ld8_def)
  then show ?thesis using c by blast
qed

section \<open>Reading back a printed set\<close>

fun join_names :: "string list \<Rightarrow> string" where
  "join_names [] = []"
| "join_names [x] = x"
| "join_names (x # y # xs) = x @ '', '' @ join_names (y # xs)"

text \<open>The names for which the printed form is unambiguous.\<close>

definition name_ok :: "string \<Rightarrow> bool" where
  "name_ok x \<longleftrightarrow> x \<noteq> [] \<and> hd x \<noteq> CHR '' '' \<and> CHR '','' \<notin> set x \<and> CHR ''{'' \<notin> set x \<and> CHR ''}'' \<notin> set x"

lemma split_on_ne: "split_on d s \<noteq> []"
  by (induction s) (auto split: list.splits)

lemma split_on_sep: "d \<notin> set x \<Longrightarrow> split_on d (x @ d # s) = x # split_on d s"
  by (induction x) (auto split: list.splits)

lemma split_on_last: "d \<notin> set x \<Longrightarrow> split_on d x = [x]"
  by (induction x) auto

lemma split_on_join:
  "xs \<noteq> [] \<Longrightarrow> list_all name_ok xs \<Longrightarrow> x0 = [] \<or> x0 = '' '' \<Longrightarrow>
    split_on (CHR '','') (x0 @ join_names xs @ ''}'') =
      (x0 @ hd (butlast xs @ [last xs @ ''}''])) # map (Cons (CHR '' '')) (tl (butlast xs @ [last xs @ ''}'']))"
proof (induction xs arbitrary: x0 rule: join_names.induct)
  case (2 x)
  then show ?case by (auto simp: name_ok_def split_on_last)
next
  case (3 x y xs)
  have ih: "split_on (CHR '','') ('' '' @ join_names (y # xs) @ ''}'') =
      map (Cons (CHR '' '')) (butlast (y # xs) @ [last (y # xs) @ ''}''])"
    using 3 by (subst "3.IH") (auto simp: Let_def)
  have "CHR '','' \<notin> set (x0 @ x)" using 3 by (auto simp: name_ok_def)
  then have "split_on (CHR '','') ((x0 @ x) @ CHR '','' # ('' '' @ join_names (y # xs) @ ''}'')) =
      (x0 @ x) # map (Cons (CHR '' '')) (butlast (y # xs) @ [last (y # xs) @ ''}''])"
    unfolding ih [symmetric] by (rule split_on_sep)
  then show ?case by simp
qed simp

lemma after_last_brace_none: "CHR ''{'' \<notin> set s \<Longrightarrow> after_last_brace str s = str"
  by (induction s arbitrary: str) auto

lemma set_join_names: "c \<in> set (join_names xs) \<Longrightarrow> c = CHR '','' \<or> c = CHR '' '' \<or> (\<exists>x \<in> set xs. c \<in> set x)"
  by (induction xs rule: join_names.induct) auto

lemma commas_join_names:
  "list_all name_ok xs \<Longrightarrow> length (filter (\<lambda>c. c = CHR '','') (join_names xs)) = length xs - 1"
proof (induction xs rule: join_names.induct)
  case (2 x)
  then have "filter (\<lambda>c. c = CHR '','') x = []" by (auto simp: name_ok_def filter_empty_conv)
  then show ?case by simp
next
  case (3 x y xs)
  then have "filter (\<lambda>c. c = CHR '','') x = []" by (auto simp: name_ok_def filter_empty_conv)
  then show ?case using 3 by simp
qed simp

lemma strip_brace_names:
  "name_ok x \<Longrightarrow> strip_brace x = x" "name_ok x \<Longrightarrow> strip_brace (x @ ''}'') = x"
  by (auto simp: strip_brace_def name_ok_def butlast_append)

text \<open>
  Round trip of readWriteSet.c: \<open>parseSet\<close> applied to a printed set, \<open>{a, b, c}\<close>,
  gives back its names in order, for any non-empty list of names without braces, commas and
  leading spaces.
\<close>

lemma parseSet_roundtrip:
  assumes "xs \<noteq> []" and "list_all name_ok xs"
  shows "parseSet (''{'' @ join_names xs @ ''}'') = Inr xs"
proof -
  let ?ys = "butlast xs @ [last xs @ ''}'']"
  have nb: "CHR ''{'' \<notin> set (join_names xs @ ''}'')"
    using assms(2) set_join_names [of "CHR ''{''" xs] by (auto simp: list_all_iff name_ok_def)
  have str: "after_last_brace (''{'' @ join_names xs @ ''}'') (''{'' @ join_names xs @ ''}'') = join_names xs @ ''}''"
    using after_last_brace_none [OF nb] by simp
  have ys: "\<And>y. y \<in> set ?ys \<Longrightarrow> y \<noteq> [] \<and> hd y \<noteq> CHR '' ''"
    using assms by (auto simp: list_all_iff name_ok_def hd_append dest: in_set_butlastD)
  obtain z zs where z: "?ys = z # zs" by (cases ?ys) auto
  have "strtok_all (join_names xs @ ''}'') = z # map (Cons (CHR '' '')) zs"
    using split_on_join [OF assms, of "[]"] ys [of z] unfolding z strtok_all_def by (auto simp: filter_id_conv)
  moreover have "map (dropWhile (\<lambda>c. c = CHR '' '')) (map (Cons (CHR '' '')) zs) = zs"
  proof -
    have "dropWhile (\<lambda>c. c = CHR '' '') (CHR '' '' # y) = y" if "y \<in> set zs" for y
      using ys [of y] that unfolding z by (cases y) auto
    then show ?thesis by (simp add: map_idI)
  qed
  moreover have "map strip_brace ?ys = xs"
  proof -
    have "map strip_brace (butlast xs) = butlast xs"
      using assms(2) by (auto simp: list_all_iff strip_brace_names intro!: map_idI dest: in_set_butlastD)
    moreover have "strip_brace (last xs @ ''}'') = last xs"
      using assms by (simp add: list_all_iff strip_brace_names)
    ultimately show ?thesis using assms(1) by simp
  qed
  moreover have "length (filter (\<lambda>c. c = CHR '','') (''{'' @ join_names xs @ ''}'')) = length xs - 1"
    using commas_join_names [OF assms(2)] by simp
  moreover have "0 < length xs" using assms(1) by simp
  ultimately show ?thesis unfolding parseSet_def Let_def str unfolding z by simp
qed

lemma parseSet_roundtrip_witness:
  "parseSet ''{read_map, vip}'' = Inr [''read_map'', ''vip'']"
  using parseSet_roundtrip [of "[''read_map'', ''vip'']"] by (simp add: name_ok_def)

section \<open>The loop terminates and its branch is dead\<close>

lemma socket_loop_total: "\<exists>h. socket_loop k p off hash key_len = Some h"
  by (induction k arbitrary: off hash key_len) (auto simp: ld8_def)

text \<open>
  Property C36. The handler of nontermination.c returns on every packet, without reading
  outside it: XDP_PASS on the empty packet and XDP_ABORTED (0) on every other. The branch that
  returns XDP_DROP is dead, the counter it tests never exceeds 1.
\<close>

theorem socket_handler_total:
  "socket_handler p = Some (if p = [] then 2 else 0)"
  using socket_loop_total [of 251 p 0 2166136261 0] by (auto simp: socket_handler_def simp del: socket_loop.simps)

section \<open>Addresses of the harnesses\<close>

lemma unat_shift_add_byte:
  fixes x :: u32 and b :: u8
  assumes "unat x < 2 ^ 24"
  shows "unat (push_bit 8 x + ucast b) = unat x * 256 + unat b"
proof -
  have b: "unat b < 256" by (rule unat_lt_256)
  have u: "unat (ucast b :: u32) = unat b" by (simp add: unat_ucast_up)
  have "unat (push_bit 8 x) = unat x * 256"
    using assms by (simp add: push_bit_eq_mult unat_word_ariths)
  then show ?thesis using assms b by (simp add: unat_word_ariths u)
qed

text \<open>
  \<open>ipv4_uint8_to_uint32\<close> is the value of the four octets, most significant
  first, and so distinguishes any two addresses.
\<close>

lemma ipv4_uint8_to_uint32_value:
  "unat (ipv4_uint8_to_uint32 a b c d) = unat a * 2 ^ 24 + unat b * 2 ^ 16 + unat c * 2 ^ 8 + unat d"
proof -
  have l: "unat a < 256" "unat b < 256" "unat c < 256" "unat d < 256"
    using unat_lt_256 [of a] unat_lt_256 [of b] unat_lt_256 [of c] unat_lt_256 [of d] by simp_all
  have a: "unat (ucast a :: u32) = unat a" by (simp add: unat_ucast_up)
  have b: "unat (push_bit 8 (ucast a) + ucast b :: u32) = unat a * 256 + unat b"
    using unat_shift_add_byte [of "ucast a" b] a l by simp
  have c: "unat (push_bit 8 (push_bit 8 (ucast a) + ucast b) + ucast c :: u32) = (unat a * 256 + unat b) * 256 + unat c"
    using unat_shift_add_byte [of "push_bit 8 (ucast a) + ucast b" c] b l by simp
  have "unat (push_bit 8 (push_bit 8 (push_bit 8 (ucast a) + ucast b) + ucast c) + ucast d :: u32)
      = ((unat a * 256 + unat b) * 256 + unat c) * 256 + unat d"
    using unat_shift_add_byte [of "push_bit 8 (push_bit 8 (ucast a) + ucast b) + ucast c" d] c l by simp
  then show ?thesis by (simp only: ipv4_uint8_to_uint32_def Let_def add_0) simp
qed

end
