(* ===== verification/Kernel_Samples.thy ===== *)
theory Kernel_Samples
  imports Csum Net_Headers Packet_Program
begin

text \<open>
  The two kernel samples of src/examples/linux-samples-lifting-test: the IP-in-IP tunnel
  xdp_tx_iptunnel.c and the forwarder xdp_fwd_kernel.c. Both are changed from the kernel's
  versions to run under the verifier: the tunnel has no \<open>bpf_xdp_adjust_head\<close>, the forwarder no
  \<open>bpf_fib_lookup\<close>. The model follows the code as it stands; the theorems state what the
  missing calls cost.

  \<open>ETH_P_IP\<close> and \<open>ETH_P_IPV6\<close> in network byte order are 8 and 0xDD86 on a little-endian host.
\<close>

definition AF_INET :: u16 where "AF_INET = 2"
definition AF_INET6 :: u16 where "AF_INET6 = 10"

section \<open>The tunnel (xdp_tx_iptunnel.c)\<close>

text \<open>The unions of the structures are their four words; \<open>v4\<close> is the first.\<close>

record vip =
  vip_daddr :: "u32 list"
  vip_dport :: u16
  vip_family :: u16
  vip_protocol :: u8

record iptnl_info =
  tnl_saddr :: "u32 list"
  tnl_daddr :: "u32 list"
  tnl_family :: u16
  tnl_dmac :: bytes

type_synonym tunnel_map = "vip \<rightharpoonup> iptnl_info"

definition get_dport :: "bytes \<Rightarrow> nat \<Rightarrow> u8 \<Rightarrow> int option" where
  "get_dport p trans_data protocol =
     (if protocol = IPPROTO_TCP then
        if length p < trans_data + sizeof_tcphdr then Some (- 1)
        else map_option uint (ld16 p (trans_data + 2))
      else if protocol = IPPROTO_UDP then
        if length p < trans_data + sizeof_udphdr then Some (- 1)
        else map_option uint (ld16 p (trans_data + 2))
      else Some 0)"

definition set_ethhdr :: "bytes \<Rightarrow> nat \<Rightarrow> nat \<Rightarrow> iptnl_info \<Rightarrow> u16 \<Rightarrow> bytes option" where
  "set_ethhdr p new_eth old_eth tnl h_proto =
     do { h_dest \<leftarrow> ldn p old_eth 6;
          p \<leftarrow> stn p (new_eth + 6) h_dest;
          p \<leftarrow> stn p new_eth (tnl_dmac tnl);
          st16 p (new_eth + 12) h_proto }"

text \<open>The outer header, from \<open>iph->version = 4\<close> to the checksum.\<close>

definition write_outer_iph :: "bytes \<Rightarrow> nat \<Rightarrow> iptnl_info \<Rightarrow> u16 \<Rightarrow> bytes option" where
  "write_outer_iph p iph tnl payload_len =
     do { b \<leftarrow> ld8 p iph;
          p \<leftarrow> st8 p iph ((b AND 0x0F) OR 0x40);
          b \<leftarrow> ld8 p iph;
          p \<leftarrow> st8 p iph ((b AND 0xF0) OR 5);
          p \<leftarrow> st16 p (iph + 6) 0;
          p \<leftarrow> st8 p (iph + 9) IPPROTO_IPIP;
          p \<leftarrow> st16 p (iph + 10) 0;
          p \<leftarrow> st8 p (iph + 1) 0;
          p \<leftarrow> st16 p (iph + 2) (bswap16 (payload_len + of_nat sizeof_iphdr));
          p \<leftarrow> st32 p (iph + 16) (tnl_daddr tnl ! 0);
          p \<leftarrow> st32 p (iph + 12) (tnl_saddr tnl ! 0);
          p \<leftarrow> st8 p (iph + 8) 8;
          csum \<leftarrow> csum_words p iph 10 (0 :: u32);
          st16 p (iph + 10) (one_fold csum) }"

definition handle_ipv4 :: "tunnel_map \<Rightarrow> bytes \<Rightarrow> (int \<times> bytes) option" where
  "handle_ipv4 vip2tnl p =
     (let iph = sizeof_eth in
      if length p < iph + sizeof_iphdr then Some (XDP_DROP, p)
      else do {
        protocol \<leftarrow> ld8 p (iph + 9);
        dport \<leftarrow> get_dport p (iph + sizeof_iphdr) protocol;
        if dport = - 1 then Some (XDP_DROP, p)
        else do {
          daddr \<leftarrow> ld32 p (iph + 16);
          tot_len \<leftarrow> ld16 p (iph + 2);
          let payload_len = bswap16 tot_len;
          case vip2tnl \<lparr>vip_daddr = [daddr, 0, 0, 0], vip_dport = of_int dport,
              vip_family = AF_INET, vip_protocol = protocol\<rparr> of
            None \<Rightarrow> Some (XDP_PASS, p)
          | Some tnl \<Rightarrow>
            if tnl_family tnl \<noteq> AF_INET then Some (XDP_PASS, p)
            else
              let new_eth = 0; old_eth = sizeof_iphdr in
              if length p < new_eth + sizeof_eth \<or> length p < old_eth + sizeof_eth \<or>
                 length p < iph + sizeof_iphdr then Some (XDP_DROP, p)
              else do {
                p \<leftarrow> set_ethhdr p new_eth old_eth tnl 8;
                p \<leftarrow> write_outer_iph p iph tnl payload_len;
                Some (XDP_TX, p) } } })"

definition xdp_tx_iptunnel :: "tunnel_map \<Rightarrow> bytes \<Rightarrow> (int \<times> bytes) option" where
  "xdp_tx_iptunnel vip2tnl p =
     (if length p < sizeof_eth then Some (XDP_DROP, p)
      else do { h_proto \<leftarrow> ld16 p 12;
                if h_proto = 8 then handle_ipv4 vip2tnl p else Some (XDP_PASS, p) })"

section \<open>The forwarder (xdp_fwd_kernel.c)\<close>

text \<open>The part of \<open>struct bpf_fib_lookup\<close> that the program writes and reads.\<close>

record bpf_fib_lookup =
  fib_family :: u8
  fib_l4_protocol :: u8
  fib_sport :: u16
  fib_dport :: u16
  fib_tot_len :: u16
  fib_ifindex :: u32
  fib_tos_flowinfo :: u32
  fib_src :: bytes
  fib_dst :: bytes
  fib_smac :: bytes
  fib_dmac :: bytes

definition fib_params_zero :: bpf_fib_lookup where
  "fib_params_zero = \<lparr>fib_family = 0, fib_l4_protocol = 0, fib_sport = 0, fib_dport = 0, fib_tot_len = 0,
     fib_ifindex = 0, fib_tos_flowinfo = 0, fib_src = replicate 16 0, fib_dst = replicate 16 0,
     fib_smac = replicate 6 0, fib_dmac = replicate 6 0\<rparr>"

definition ip_decrease_ttl :: "bytes \<Rightarrow> nat \<Rightarrow> (int \<times> bytes) option" where
  "ip_decrease_ttl p iph =
     do { c \<leftarrow> ld16 p (iph + 10);
          let check = (ucast c + ucast (bswap16 0x0100) :: u32);
          p \<leftarrow> st16 p (iph + 10) (ucast (check + (if 0xFFFF \<le> check then 1 else 0)));
          ttl \<leftarrow> ld8 p (iph + 8);
          p \<leftarrow> st8 p (iph + 8) (ttl - 1);
          Some (uint (ttl - 1), p) }"

definition fib_params_v4 :: "bytes \<Rightarrow> nat \<Rightarrow> bpf_fib_lookup option" where
  "fib_params_v4 p iph =
     do { tos \<leftarrow> ld8 p (iph + 1);
          protocol \<leftarrow> ld8 p (iph + 9);
          tot_len \<leftarrow> ld16 p (iph + 2);
          saddr \<leftarrow> ldn p (iph + 12) 4;
          daddr \<leftarrow> ldn p (iph + 16) 4;
          Some (fib_params_zero\<lparr>fib_family := ucast AF_INET, fib_tos_flowinfo := ucast tos,
            fib_l4_protocol := protocol, fib_sport := 0, fib_dport := 0, fib_tot_len := bswap16 tot_len,
            fib_src := saddr @ replicate 12 0, fib_dst := daddr @ replicate 12 0\<rparr>) }"

definition fib_params_v6 :: "bytes \<Rightarrow> nat \<Rightarrow> bpf_fib_lookup option" where
  "fib_params_v6 p ip6h =
     do { flow \<leftarrow> ld32 p ip6h;
          nexthdr \<leftarrow> ld8 p (ip6h + 6);
          payload_len \<leftarrow> ld16 p (ip6h + 4);
          saddr \<leftarrow> ldn p (ip6h + 8) 16;
          daddr \<leftarrow> ldn p (ip6h + 24) 16;
          Some (fib_params_zero\<lparr>fib_family := ucast AF_INET6, fib_tos_flowinfo := flow AND 0x0FFFFFFF,
            fib_l4_protocol := nexthdr, fib_sport := 0, fib_dport := 0, fib_tot_len := bswap16 payload_len,
            fib_src := saddr, fib_dst := daddr\<rparr>) }"

text \<open>From \<open>rc = 0\<close> on, with the parameters collected above.\<close>

definition fwd_redirect :: "(u32 \<rightharpoonup> u32) \<Rightarrow> u32 \<Rightarrow> bpf_fib_lookup \<Rightarrow> u16 \<Rightarrow> bytes \<Rightarrow> (int \<times> bytes) option" where
  "fwd_redirect xdp_tx_ports ingress_ifindex fib_params h_proto p =
     (let fib_params = fib_params\<lparr>fib_ifindex := ingress_ifindex\<rparr> in
      if xdp_tx_ports (fib_ifindex fib_params) = None then Some (XDP_PASS, p)
      else do {
        p \<leftarrow> (if h_proto = 8 then map_option snd (ip_decrease_ttl p sizeof_eth)
              else if h_proto = 0xDD86 then
                do { hop \<leftarrow> ld8 p (sizeof_eth + 7); st8 p (sizeof_eth + 7) (hop - 1) }
              else Some p);
        p \<leftarrow> stn p 0 (fib_dmac fib_params);
        p \<leftarrow> stn p 6 (fib_smac fib_params);
        Some (XDP_REDIRECT, p) })"

definition xdp_fwd_flags :: "(u32 \<rightharpoonup> u32) \<Rightarrow> u32 \<Rightarrow> bytes \<Rightarrow> (int \<times> bytes) option" where
  "xdp_fwd_flags xdp_tx_ports ingress_ifindex p =
     (if length p < sizeof_eth then Some (XDP_DROP, p)
      else do {
        h_proto \<leftarrow> ld16 p 12;
        if h_proto = 8 then
          if length p < sizeof_eth + sizeof_iphdr then Some (XDP_DROP, p)
          else do {
            ttl \<leftarrow> ld8 p (sizeof_eth + 8);
            if ttl \<le> 1 then Some (XDP_PASS, p)
            else do { fib_params \<leftarrow> fib_params_v4 p sizeof_eth;
                      fwd_redirect xdp_tx_ports ingress_ifindex fib_params h_proto p } }
        else if h_proto = 0xDD86 then
          if length p < sizeof_eth + sizeof_ipv6hdr then Some (XDP_DROP, p)
          else do {
            hop_limit \<leftarrow> ld8 p (sizeof_eth + 7);
            if hop_limit \<le> 1 then Some (XDP_PASS, p)
            else do { fib_params \<leftarrow> fib_params_v6 p sizeof_eth;
                      fwd_redirect xdp_tx_ports ingress_ifindex fib_params h_proto p } }
        else Some (XDP_PASS, p) })"

section \<open>What the tunnel sends\<close>

definition outer_zero :: "bytes \<Rightarrow> iptnl_info \<Rightarrow> bytes" where
  "outer_zero ip tnl =
     [0x45, 0] @ le_bytes 2 (unat (bswap16 (bswap16 (of_nat (le_val (take 2 (drop 2 ip)))) + 20 :: u16))) @
     take 2 (drop 4 ip) @ [0, 0, 8, 4, 0, 0] @
     le_bytes 4 (unat (tnl_saddr tnl ! 0)) @ le_bytes 4 (unat (tnl_daddr tnl ! 0))"

definition outer_ip :: "bytes \<Rightarrow> iptnl_info \<Rightarrow> bytes" where
  "outer_ip ip tnl =
     (let h = outer_zero ip tnl; t = sum16 h mod 65536 + sum16 h div 65536 in
      put h 10 (le_bytes 2 (65535 - t mod 65536)))"

lemma outer_zero_props [simp]:
  "length ip = 20 \<Longrightarrow> length (outer_zero ip tnl) = 20"
  "length ip = 20 \<Longrightarrow> take 2 (drop 10 (outer_zero ip tnl)) = [0, 0]"
  by (simp_all add: outer_zero_def)

lemma version_ihl: "(((b AND 0x0F) OR 0x40) AND 0xF0) OR 5 = (0x45 :: u8)"
proof (rule bit_word_eqI)
  fix n assume "n < LENGTH(8)"
  then have "n \<in> {0, 1, 2, 3, 4, 5, 6, 7}" by (auto simp: less_Suc_eq numeral_eq_Suc)
  then show "bit ((((b AND 0x0F) OR 0x40) AND 0xF0) OR 5) n = bit (0x45 :: u8) n"
    by (auto simp: bit_simps bit_numeral_rec)
qed

lemma outer_stores:
  assumes "length ip = 20"
  shows "put (put (put (put (put (put (put (put (put (put ip 0 [b]) 0 [0x45]) 6 [0, 0]) 9 [4]) 10 [0, 0]) (Suc 0) [0])
     2 (le_bytes 2 (unat (bswap16 (bswap16 (of_nat (le_val (take 2 (drop 2 ip)))) + 20 :: u16)))))
     16 (le_bytes 4 (unat (tnl_daddr tnl ! 0)))) 12 (le_bytes 4 (unat (tnl_saddr tnl ! 0)))) 8 [8] = outer_zero ip tnl"
  using assms by (simp add: put_def outer_zero_def drop_take)

lemma write_outer_iph_wp:
  assumes "length eth = 14" "length ip = 20"
    and q: "Q (eth @ outer_ip ip tnl @ rest)"
  shows "wp (write_outer_iph (eth @ ip @ rest) 14 tnl (bswap16 (of_nat (le_val (take 2 (drop 2 ip)))))) Q"
proof -
  let ?p = "eth @ outer_zero ip tnl @ rest" and ?s = "sum16 (outer_zero ip tnl)"
  have "wp (csum_words ?p 14 10 (0 :: u32)) (\<lambda>r. one_fold r = of_nat (65535 - (?s mod 65536 + ?s div 65536) mod 65536))"
    using one_fold_sum [of 14 ?p] assms by simp
  moreover have "unat (of_nat (65535 - n) :: u16) = 65535 - n" for n by (subst unat_of_nat) simp
  ultimately have "wp (csum_words ?p 14 10 (0 :: u32)) (\<lambda>r. unat (one_fold r) = 65535 - (?s mod 65536 + ?s div 65536) mod 65536)"
    by (elim wp_mono) (simp only:)
  then have "wp (csum_words ?p 14 10 (0 :: u32)) (\<lambda>r. wp (st16 ?p 24 (one_fold r)) Q)"
    using q assms by (elim wp_mono) (simp add: wp_rules seg_simps outer_ip_def Let_def)
  then show ?thesis
    using assms by (simp add: write_outer_iph_def wp_rules seg_simps nth_put version_ihl outer_stores)
qed

definition tunnel_key :: "bytes \<Rightarrow> bytes \<Rightarrow> vip" where
  "tunnel_key ip rest = \<lparr>vip_daddr = [of_nat (le_val (drop 16 ip)), 0, 0, 0],
     vip_dport = (if ip ! 9 \<in> {6, 17} then of_nat (le_val (take 2 (drop 2 rest))) else 0),
     vip_family = AF_INET, vip_protocol = ip ! 9\<rparr>"

text \<open>An IPv4 frame without options whose transport header is complete.\<close>

definition tunnel_frame :: "bytes \<Rightarrow> bytes \<Rightarrow> bytes \<Rightarrow> bool" where
  "tunnel_frame eth ip rest \<longleftrightarrow> length eth = 14 \<and> length ip = 20 \<and> drop 12 eth = [8, 0] \<and>
     (ip ! 9 = 6 \<longrightarrow> 20 \<le> length rest) \<and> (ip ! 9 = 17 \<longrightarrow> 8 \<le> length rest)"

lemma uint_neq_minus_1: "uint (w :: 'a::len word) \<noteq> - 1"
  using uint_ge_0 [of w] by linarith

lemma get_dport_frame:
  assumes "tunnel_frame eth ip rest"
  shows "wp (get_dport (eth @ ip @ rest) 34 (ip ! 9)) (\<lambda>d. d \<noteq> - 1 \<and> of_int d = vip_dport (tunnel_key ip rest))"
  using assms by (auto simp: get_dport_def tunnel_frame_def tunnel_key_def wp_rules seg_simps uint_neq_minus_1)

lemma xdp_tx_iptunnel_result:
  assumes "tunnel_frame eth ip rest" "m (tunnel_key ip rest) = Some tnl" "tnl_family tnl = AF_INET"
    "length (tnl_dmac tnl) = 6"
  shows "xdp_tx_iptunnel m (eth @ ip @ rest) =
    Some (XDP_TX, tnl_dmac tnl @ take 6 (drop 6 ip) @ [8, 0] @ outer_ip ip tnl @ rest)"
proof -
  let ?p = "eth @ ip @ rest" and ?q = "tnl_dmac tnl @ take 6 (drop 6 ip) @ [8, 0] @ outer_ip ip tnl @ rest"
  have len: "length eth = 14" "length ip = 20" "drop 12 eth = [8, 0]" using assms(1) by (auto simp: tunnel_frame_def)
  obtain d where d: "get_dport ?p 34 (ip ! 9) = Some d" "d \<noteq> - 1" "of_int d = vip_dport (tunnel_key ip rest)"
    using get_dport_frame [OF assms(1)] by (auto simp: wp_iff)
  have k: "\<lparr>vip_daddr = [of_nat (le_val (drop 16 ip)), 0, 0, 0], vip_dport = vip_dport (tunnel_key ip rest),
      vip_family = AF_INET, vip_protocol = ip ! 9\<rparr> = tunnel_key ip rest"
    by (simp add: tunnel_key_def)
  have eth: "put (put (put eth 6 (take 6 (drop 6 ip))) 0 (tnl_dmac tnl)) 12 [8, 0] = tnl_dmac tnl @ take 6 (drop 6 ip) @ [8, 0]"
    using len assms(4) by (simp add: put_def)
  have b8: "le_bytes 2 8 = [8, 0]" by (simp add: numeral_2_eq_2)
  have "wp (set_ethhdr ?p 0 20 tnl 8) (\<lambda>p. p = (tnl_dmac tnl @ take 6 (drop 6 ip) @ [8, 0]) @ ip @ rest)"
    using len assms(4) by (simp add: set_ethhdr_def wp_rules seg_simps b8 eth)
  then have s: "set_ethhdr ?p 0 20 tnl 8 = Some ((tnl_dmac tnl @ take 6 (drop 6 ip) @ [8, 0]) @ ip @ rest)"
    by (auto simp: wp_iff)
  have w: "wp (write_outer_iph ((tnl_dmac tnl @ take 6 (drop 6 ip) @ [8, 0]) @ ip @ rest) 14 tnl
      (bswap16 (of_nat (le_val (take 2 (drop 2 ip)))))) (\<lambda>q. q = ?q)"
    using len assms(4) by (intro write_outer_iph_wp) auto
  have "wp (xdp_tx_iptunnel m ?p) (\<lambda>r. r = (XDP_TX, ?q))"
    using len w assms(2,3) d
    by (simp add: xdp_tx_iptunnel_def handle_ipv4_def wp_rules seg_simps k s wp_case_option)
  then show ?thesis by (auto simp: wp_iff)
qed

text \<open>
  The tunnel sample does not encapsulate: with \<open>bpf_xdp_adjust_head\<close> commented out,
  the outer header is written over the client's IP header and the source MAC address over which
  the frame leaves is made of bytes of that header. So the packet sent is the same for every
  client address, checksum and type of service: nothing of them reaches the tunnel's end.
  The checksum of the header it writes is valid exactly when one fold of its sum is enough.
\<close>

lemma iptunnel_forgets_client:
  assumes "tunnel_frame eth ip rest" "m (tunnel_key ip rest) = Some tnl" "tnl_family tnl = AF_INET"
    "length (tnl_dmac tnl) = 6"
    and client: "length client = 4" "ip' = put ip 12 client"
  shows "xdp_tx_iptunnel m (eth @ ip' @ rest) = xdp_tx_iptunnel m (eth @ ip @ rest) \<and>
    (\<exists>q. xdp_tx_iptunnel m (eth @ ip @ rest) = Some (XDP_TX, q) \<and> length q = 34 + length rest \<and>
      take 6 (drop 6 q) = take 6 (drop 6 ip) \<and> drop 34 q = rest \<and>
      csum_valid (ip_hdr q 14) = (let s = sum16 (outer_zero ip tnl) in s mod 65536 + s div 65536 \<le> 65535))"
proof -
  have len: "length ip = 20" "length (outer_ip ip tnl) = 20"
    using assms(1) by (simp_all add: tunnel_frame_def outer_ip_def Let_def)
  have same: "take 2 (drop 2 ip') = take 2 (drop 2 ip)" "take 2 (drop 4 ip') = take 2 (drop 4 ip)"
      "take 6 (drop 6 ip') = take 6 (drop 6 ip)" "drop 16 ip' = drop 16 ip" "ip' ! 9 = ip ! 9" "length ip' = 20"
    using len client by (simp_all add: slice_put_disjoint drop_put_below nth_put)
  have k: "tunnel_key ip' rest = tunnel_key ip rest" "tunnel_frame eth ip' rest" "outer_zero ip' tnl = outer_zero ip tnl"
    using assms(1) same by (simp_all add: tunnel_key_def tunnel_frame_def outer_zero_def)
  have "csum_valid (outer_ip ip tnl) = (let s = sum16 (outer_zero ip tnl) in s mod 65536 + s div 65536 \<le> 65535)"
    using len(1) by (simp add: outer_ip_def Let_def single_fold_valid_iff)
  then show ?thesis
    using len assms(4) same(3) k
    by (simp add: xdp_tx_iptunnel_result [where tnl = tnl] assms(1-4) outer_ip_def)
qed

section \<open>What the forwarder sends\<close>

lemma inc_check_kernel:
  fixes c :: u16
  defines "s \<equiv> ucast c + ucast (bswap16 0x0100) :: u32"
  defines "w \<equiv> ucast (s + (if 0xFFFF \<le> s then 1 else 0)) :: u16"
  shows "unat w mod 65535 = (unat c + 1) mod 65535"
proof -
  have c: "unat c < 65536" by (rule unat_lt_u16)
  have b: "bswap16 0x0100 = 1" by (simp add: bswap16_def)
  have s: "unat s = unat c + 1"
    using c unat_inc [of "ucast c :: u32"] by (simp add: s_def b unat_ucast_up)
  have ge: "0xFFFF \<le> s \<longleftrightarrow> 65535 \<le> unat c + 1" using s by (simp add: word_le_nat_alt)
  have "unat (s + (if 0xFFFF \<le> s then 1 else 0)) = unat c + 1 + (if 65535 \<le> unat c + 1 then 1 else 0)"
    using c s unat_inc [of s] by (simp add: ge)
  then have "unat w = (unat c + 1 + (if 65535 \<le> unat c + 1 then 1 else 0)) mod 65536"
    by (simp only: w_def unsigned_ucast_eq) (simp add: take_bit_eq_mod)
  then show ?thesis
    using c by (cases "unat c = 65534"; cases "unat c = 65535") (auto simp: mod_less)
qed

definition forwarded_ip :: "bytes \<Rightarrow> bytes \<Rightarrow> bool" where
  "forwarded_ip ip ip' \<longleftrightarrow> length ip' = 20 \<and> ip' ! 8 = ip ! 8 - 1 \<and> (csum_valid ip \<longrightarrow> csum_valid ip') \<and>
     (\<forall>i < 20. i \<notin> {8, 10, 11} \<longrightarrow> ip' ! i = ip ! i)"

lemma ip_decrease_ttl_forwards:
  assumes "length eth = 14" "length ip = 20" "2 \<le> unat (ip ! 8)"
  shows "wp (ip_decrease_ttl (eth @ ip @ rest) 14) (\<lambda>(t, q). \<exists>ip'. forwarded_ip ip ip' \<and> q = eth @ ip' @ rest)"
proof -
  define c where "c = (of_nat (le_val (take 2 (drop 10 ip))) :: u16)"
  define s where "s = (ucast c + ucast (bswap16 0x0100) :: u32)"
  define w where "w = (ucast (s + (if 0xFFFF \<le> s then 1 else 0)) :: u16)"
  let ?ip = "put (put ip 8 [ip ! 8 - 1]) 10 (le_bytes 2 (unat w))"
  have "unat w mod 65535 = (le_val (take 2 (drop 10 ip)) + 1) mod 65535"
    using inc_check_kernel [of c] assms(2) by (simp add: w_def s_def c_def unat_ld16)
  then have "csum_valid ip \<Longrightarrow> csum_valid ?ip"
    using assms by (intro ttl_decrement_valid) (auto simp: unat_lt_u16)
  then have f: "forwarded_ip ip ?ip"
    using assms(2) by (auto simp: forwarded_ip_def nth_put)
  have sw: "put (put ip 10 (le_bytes 2 (unat w))) 8 [ip ! 8 - 1] = ?ip"
    using assms(2) by (intro nth_equalityI) (auto simp: nth_put)
  show ?thesis
    using assms f by (simp add: ip_decrease_ttl_def wp_rules seg_simps c_def [symmetric] s_def [symmetric] w_def [symmetric] nth_put sw)
qed

text \<open>
  Property C38. The forwarder redirects an IPv4 packet exactly when its time to live is at least 2
  and the ingress interface is in the port map; it then lowers the time to live by one, repairs
  the checksum so that a header that verified still does, and changes no other byte of the
  packet behind the addresses. But because the route lookup was replaced by a constant, the
  frame leaves with both MAC addresses zero. All other IPv4 packets pass unchanged.
\<close>

theorem fwd_ipv4:
  assumes "length eth = 14" "length ip = 20" "drop 12 eth = [8, 0]"
  shows "if 2 \<le> unat (ip ! 8) \<and> ports ifindex \<noteq> None
    then \<exists>ip'. forwarded_ip ip ip' \<and>
      xdp_fwd_flags ports ifindex (eth @ ip @ rest) = Some (XDP_REDIRECT, replicate 12 0 @ [8, 0] @ ip' @ rest)
    else xdp_fwd_flags ports ifindex (eth @ ip @ rest) = Some (XDP_PASS, eth @ ip @ rest)"
proof -
  have ttl: "ip ! 8 \<le> 1 \<longleftrightarrow> \<not> 2 \<le> unat (ip ! 8)" by (auto simp: word_le_nat_alt)
  obtain x where x: "fib_params_v4 (eth @ ip @ rest) 14 = Some x" "fib_dmac x = replicate 6 0" "fib_smac x = replicate 6 0"
  proof -
    have "wp (fib_params_v4 (eth @ ip @ rest) 14) (\<lambda>x. fib_dmac x = replicate 6 0 \<and> fib_smac x = replicate 6 0)"
      using assms by (simp add: fib_params_v4_def fib_params_zero_def wp_rules)
    then show ?thesis using that by (auto simp: wp_iff)
  qed
  have eth: "put (put eth 0 (replicate 6 0)) 6 (replicate 6 0) = replicate 12 0 @ [8, 0]"
    using assms(1,3) by (simp add: put_def replicate_add [symmetric] flip: append_assoc)
  show ?thesis
  proof (cases "2 \<le> unat (ip ! 8) \<and> ports ifindex \<noteq> None")
    case True
    have "wp (ip_decrease_ttl (eth @ ip @ rest) 14) (\<lambda>x. wp (stn (snd x) 0 (replicate 6 0) \<bind> (\<lambda>q. stn q 6 (replicate 6 0)))
        (\<lambda>r. \<exists>ip'. forwarded_ip ip ip' \<and> r = replicate 12 0 @ [8, 0] @ ip' @ rest))"
      using assms(1) True
      by (intro wp_mono [OF ip_decrease_ttl_forwards [OF assms(1,2)]]) (auto simp: wp_rules seg_simps eth)
    then have "wp (xdp_fwd_flags ports ifindex (eth @ ip @ rest))
        (\<lambda>r. \<exists>ip'. forwarded_ip ip ip' \<and> r = (XDP_REDIRECT, replicate 12 0 @ [8, 0] @ ip' @ rest))"
      using assms True ttl
      by (simp add: xdp_fwd_flags_def fwd_redirect_def wp_rules seg_simps x case_prod_beta)
    then show ?thesis using True by (auto simp: wp_iff)
  next
    case False
    then have "wp (xdp_fwd_flags ports ifindex (eth @ ip @ rest)) (\<lambda>r. r = (XDP_PASS, eth @ ip @ rest))"
      using assms ttl by (auto simp: xdp_fwd_flags_def fwd_redirect_def wp_rules seg_simps x)
    then show ?thesis using False by (auto simp: wp_iff)
  qed
qed

section \<open>Memory safety\<close>

lemma write_outer_iph_safe:
  "iph + 20 \<le> length p \<Longrightarrow> wp (write_outer_iph p iph tnl n) (\<lambda>q. length q = length p)"
  unfolding write_outer_iph_def
  by (rule safe_start [of p]) (erule safe_elims | simp)+

lemma set_ethhdr_safe:
  "new + 14 \<le> length p \<Longrightarrow> old + 6 \<le> length p \<Longrightarrow> length (tnl_dmac tnl) = 6 \<Longrightarrow>
    wp (set_ethhdr p new old tnl h) (\<lambda>q. length q = length p)"
  by (simp add: set_ethhdr_def wp_rules)

lemma get_dport_safe: "wp (get_dport p off proto) (\<lambda>_. True)"
  by (simp add: get_dport_def wp_rules)

lemma iptunnel_safe:
  assumes "\<And>k t. m k = Some t \<Longrightarrow> length (tnl_dmac t) = 6"
  shows "wp (xdp_tx_iptunnel m p) (\<lambda>(v, q). length q = length p)"
proof -
  have "wp (set_ethhdr p 0 20 t 8) (\<lambda>q. wp (write_outer_iph q 14 t n) (\<lambda>q. length q = length p))"
    if "m k = Some t" "34 \<le> length p" for k t n
    by (rule wp_mono [OF set_ethhdr_safe]) (use that assms in \<open>auto intro!: wp_mono [OF write_outer_iph_safe]\<close>)
  then show ?thesis
    unfolding xdp_tx_iptunnel_def handle_ipv4_def
    by (auto simp: wp_rules Let_def intro!: wp_mono [OF get_dport_safe])
qed

lemma fwd_safe: "wp (xdp_fwd_flags ports ifindex p) (\<lambda>(v, q). length q = length p)"
  unfolding xdp_fwd_flags_def fwd_redirect_def fib_params_v4_def fib_params_v6_def ip_decrease_ttl_def
  by (auto simp: wp_rules Let_def fib_params_zero_def split: option.splits)

theorem fwd_ipv4_witness:
  "\<exists>ip'. forwarded_ip ([0x45] @ replicate 7 0 @ [64] @ replicate 11 0) ip' \<and>
    xdp_fwd_flags [3 \<mapsto> 3] 3 ((replicate 12 9 @ [8, 0]) @ ([0x45] @ replicate 7 0 @ [64] @ replicate 11 0) @ []) =
      Some (XDP_REDIRECT, replicate 12 0 @ [8, 0] @ ip' @ [])"
  using fwd_ipv4 [of "replicate 12 9 @ [8, 0]" "[0x45] @ replicate 7 0 @ [64] @ replicate 11 0" "[3 \<mapsto> 3]" 3 "[]"]
  by (simp add: nth_append)

definition demo_tunnel :: iptnl_info where
  "demo_tunnel = \<lparr>tnl_saddr = [1, 0, 0, 0], tnl_daddr = [2, 0, 0, 0], tnl_family = AF_INET, tnl_dmac = replicate 6 7\<rparr>"

lemma iptunnel_forgets_client_witness:
  "xdp_tx_iptunnel (\<lambda>_. Some demo_tunnel) ((replicate 12 9 @ [8, 0]) @ put (replicate 20 0) 12 [1, 2, 3, 4] @ []) =
    xdp_tx_iptunnel (\<lambda>_. Some demo_tunnel) ((replicate 12 9 @ [8, 0]) @ replicate 20 0 @ [])"
  by (rule iptunnel_forgets_client [where tnl = demo_tunnel, THEN conjunct1])
    (simp_all add: tunnel_frame_def demo_tunnel_def)

end
