(* ===== verification/Fluvia.thy ===== *)
theory Fluvia
  imports Net_Headers Packet_Program
begin

text \<open>
  The flow probe for segment routing of src/examples/fluvia: a packet with a segment routing
  header is recorded in the map \<open>ipfix_probe_map\<close> under a key made of its Ethernet and IPv6
  addresses, the fixed part of the routing header and up to ten segments.

  The map is an LRU hash: an insertion may drop other entries, so \<open>bpf_map_update_elem\<close> with
  \<open>BPF_NOEXIST\<close> is a parameter, a function from the map, the key and the value to the new map.
  \<open>ETH_P_IPV6\<close> in network byte order is 0xDD86 on a little-endian host.
\<close>

section \<open>Data (xdp_struct.h, xdp_consts.h, xdp_map.h)\<close>

definition MAX_SEGMENTLIST_ENTRIES :: nat where "MAX_SEGMENTLIST_ENTRIES = 10"
definition IPPROTO_IPV6ROUTE :: u8 where "IPPROTO_IPV6ROUTE = 43"
definition IPV6_SRCRT_TYPE_4 :: u8 where "IPV6_SRCRT_TYPE_4 = 4"

record probe_data =
  h_dest :: bytes
  h_source :: bytes
  pd_h_proto :: u16
  v6_srcaddr :: bytes
  v6_dstaddr :: bytes
  nextHdr :: u8
  hdrExtLen :: u8
  routingType :: u8
  segmentsLeft :: u8
  lastEntry :: u8
  srh_flags :: u8
  srh_tag :: u16
  segments :: "bytes list"

definition sizeof_srhhdr :: nat where [simp]: "sizeof_srhhdr = 8"
definition sizeof_in6_addr :: nat where [simp]: "sizeof_in6_addr = 16"

type_synonym probe_map = "probe_data \<rightharpoonup> u64"
type_synonym lru_insert = "probe_map \<Rightarrow> probe_data \<Rightarrow> u64 \<Rightarrow> probe_map"

section \<open>The program (main.c)\<close>

text \<open>The loop over the segment list, from entry \<open>i\<close> on with \<open>n\<close> rounds left.\<close>

fun copy_segments :: "nat \<Rightarrow> nat \<Rightarrow> bytes \<Rightarrow> probe_data \<Rightarrow> probe_data option" where
  "copy_segments 0 i p key = Some key"
| "copy_segments (Suc n) i p key =
     (if \<not> i < unat (lastEntry key) + 1 then Some key
      else if sizeof_eth + sizeof_ipv6hdr + sizeof_srhhdr + sizeof_in6_addr * (i + 1) + 1 > length p then Some key
      else do {
        seg \<leftarrow> ldn p (sizeof_eth + sizeof_ipv6hdr + sizeof_srhhdr + sizeof_in6_addr * i) sizeof_in6_addr;
        copy_segments n (i + 1) p (key\<lparr>segments := (segments key)[i := seg]\<rparr>) })"

definition probe_key :: "bytes \<Rightarrow> probe_data option" where
  "probe_key p =
     (let ipv6 = sizeof_eth; srh = sizeof_eth + sizeof_ipv6hdr in
      do { src_mac \<leftarrow> ldn p 6 6;
           dst_mac \<leftarrow> ldn p 0 6;
           proto \<leftarrow> ld16 p 12;
           saddr \<leftarrow> ldn p (ipv6 + 8) 16;
           daddr \<leftarrow> ldn p (ipv6 + 24) 16;
           nh \<leftarrow> ld8 p srh;
           el \<leftarrow> ld8 p (srh + 1);
           rt \<leftarrow> ld8 p (srh + 2);
           sl \<leftarrow> ld8 p (srh + 3);
           le \<leftarrow> ld8 p (srh + 4);
           fl \<leftarrow> ld8 p (srh + 5);
           tag \<leftarrow> ld16 p (srh + 6);
           copy_segments MAX_SEGMENTLIST_ENTRIES 0 p
             \<lparr>h_dest = dst_mac, h_source = src_mac, pd_h_proto = proto, v6_srcaddr = saddr, v6_dstaddr = daddr,
              nextHdr = nh, hdrExtLen = el, routingType = rt, segmentsLeft = sl, lastEntry = le,
              srh_flags = fl, srh_tag = tag, segments = replicate MAX_SEGMENTLIST_ENTRIES (replicate 16 0)\<rparr> })"

definition xdp_probe :: "lru_insert \<Rightarrow> probe_map \<Rightarrow> bytes \<Rightarrow> (int \<times> bytes \<times> probe_map) option" where
  "xdp_probe insert_noexist m p =
     (if length p < sizeof_eth then Some (XDP_PASS, p, m)
      else do {
        h_proto \<leftarrow> ld16 p 12;
        if h_proto \<noteq> 0xDD86 then Some (XDP_PASS, p, m)
        else if length p < sizeof_eth + sizeof_ipv6hdr then Some (XDP_PASS, p, m)
        else do {
          nexthdr \<leftarrow> ld8 p (sizeof_eth + 6);
          if nexthdr \<noteq> IPPROTO_IPV6ROUTE then Some (XDP_PASS, p, m)
          else if length p < sizeof_eth + sizeof_ipv6hdr + sizeof_srhhdr then Some (XDP_PASS, p, m)
          else do {
            rt \<leftarrow> ld8 p (sizeof_eth + sizeof_ipv6hdr + 2);
            if rt \<noteq> IPV6_SRCRT_TYPE_4 then Some (XDP_PASS, p, m)
            else do {
              key \<leftarrow> probe_key p;
              case m key of
                None \<Rightarrow>
                  let m = insert_noexist m key 0 in
                  (case m key of None \<Rightarrow> Some (XDP_PASS, p, m) | Some value \<Rightarrow> Some (XDP_PASS, p, m))
              | Some value \<Rightarrow> Some (XDP_PASS, p, m) } } } })"

section \<open>The recorded key\<close>

definition srv6_frame :: "bytes \<Rightarrow> bool" where
  "srv6_frame p \<longleftrightarrow> 62 \<le> length p \<and> take 2 (drop 12 p) = [0x86, 0xDD] \<and> p ! 20 = 43 \<and> p ! 56 = 4"

definition copied :: "bytes \<Rightarrow> nat" where
  "copied p = min 10 (min (unat (p ! 58) + 1) ((length p - 63) div 16))"

definition segment_at :: "bytes \<Rightarrow> nat \<Rightarrow> bytes" where
  "segment_at p i = take 16 (drop (62 + 16 * i) p)"

definition probe_flow :: "bytes \<Rightarrow> probe_data" where
  "probe_flow p = \<lparr>h_dest = take 6 p, h_source = take 6 (drop 6 p), pd_h_proto = of_nat (le_val (take 2 (drop 12 p))),
     v6_srcaddr = take 16 (drop 22 p), v6_dstaddr = take 16 (drop 38 p), nextHdr = p ! 54, hdrExtLen = p ! 55,
     routingType = p ! 56, segmentsLeft = p ! 57, lastEntry = p ! 58, srh_flags = p ! 59,
     srh_tag = of_nat (le_val (take 2 (drop 60 p))),
     segments = map (\<lambda>i. if i < copied p then segment_at p i else replicate 16 0) [0..<10]\<rparr>"

lemma copy_segments_result:
  assumes "length (segments key) = 10" "n + i = 10" "62 \<le> length p"
    and "segments key = map (\<lambda>j. if j < i then segment_at p j else replicate 16 0) [0..<10]"
    and "i \<le> min 10 (min (unat (lastEntry key) + 1) ((length p - 63) div 16))"
  shows "copy_segments n i p key = Some (key\<lparr>segments :=
    map (\<lambda>j. if j < min 10 (min (unat (lastEntry key) + 1) ((length p - 63) div 16)) then segment_at p j else replicate 16 0) [0..<10]\<rparr>)"
  using assms
proof (induction n arbitrary: i key)
  case 0
  then have "min 10 (min (unat (lastEntry key) + 1) ((length p - 63) div 16)) = i" by linarith
  with 0 show ?case by simp
next
  case (Suc n)
  let ?c = "min 10 (min (unat (lastEntry key) + 1) ((length p - 63) div 16))"
  show ?case
  proof (cases "i < unat (lastEntry key) + 1 \<and> 79 + 16 * i \<le> length p")
    case True
    let ?k = "key\<lparr>segments := (segments key)[i := segment_at p i]\<rparr>"
    have "segments ?k = map (\<lambda>j. if j < i + 1 then segment_at p j else replicate 16 0) [0..<10]"
      using Suc.prems by (intro nth_equalityI) (auto simp: nth_list_update)
    moreover have "i + 1 \<le> ?c" using True Suc.prems by auto
    ultimately have "copy_segments n (i + 1) p ?k = Some (?k\<lparr>segments :=
        map (\<lambda>j. if j < ?c then segment_at p j else replicate 16 0) [0..<10]\<rparr>)"
      using Suc.IH [of ?k "i + 1"] Suc.prems by simp
    then show ?thesis using True by (simp add: ldn_def segment_at_def)
  next
    case False
    then have "?c = i" using Suc.prems by auto
    then show ?thesis using False Suc.prems by (auto simp: not_le)
  qed
qed

lemma probe_key_result: "62 \<le> length p \<Longrightarrow> probe_key p = Some (probe_flow p)"
proof -
  assume l: "62 \<le> length p"
  let ?k = "probe_flow p\<lparr>segments := replicate 10 (replicate 16 0)\<rparr>"
  have "copy_segments 10 0 p ?k = Some (probe_flow p)"
    using copy_segments_result [of ?k 10 0 p] l
    by (simp add: probe_flow_def copied_def map_replicate_const del: copy_segments.simps)
  then show ?thesis
    using l by (simp add: probe_key_def Let_def ldn_def ld8_def ld16_def probe_flow_def MAX_SEGMENTLIST_ENTRIES_def
      del: copy_segments.simps)
qed

lemma ld16_eq_iff:
  "length a = 2 \<Longrightarrow> length b = 2 \<Longrightarrow> of_nat (le_val a) = (of_nat (le_val b) :: u16) \<longleftrightarrow> a = b"
  by (metis le_bytes_ld16)

lemma xdp_probe_result:
  "xdp_probe ins m p = Some (XDP_PASS, p,
     if srv6_frame p \<and> m (probe_flow p) = None then ins m (probe_flow p) 0 else m)"
proof -
  have t: "of_nat (le_val (take 2 (drop 12 p))) = (0xDD86 :: u16) \<longleftrightarrow> take 2 (drop 12 p) = [0x86, 0xDD]"
    if "14 \<le> length p"
  proof -
    have l: "length (take 2 (drop 12 p)) = 2" using that by simp
    have "of_nat (le_val [0x86, 0xDD]) = (0xDD86 :: u16)" by simp
    then show ?thesis using ld16_eq_iff [OF l, of "[0x86, 0xDD]"] by simp
  qed
  have "wp (xdp_probe ins m p) (\<lambda>r. r = (XDP_PASS, p,
     if srv6_frame p \<and> m (probe_flow p) = None then ins m (probe_flow p) 0 else m))"
    using t probe_key_result [of p]
    by (auto simp: xdp_probe_def wp_rules srv6_frame_def IPPROTO_IPV6ROUTE_def IPV6_SRCRT_TYPE_4_def Let_def)
  then show ?thesis by (auto simp: wp_iff)
qed

text \<open>Two frames have the same key exactly when they agree on all the bytes the key is made of.\<close>

lemma probe_flow_eq_iff:
  assumes "62 \<le> length p" "62 \<le> length q"
  shows "probe_flow p = probe_flow q \<longleftrightarrow> take 14 p = take 14 q \<and> take 40 (drop 22 p) = take 40 (drop 22 q) \<and>
    (\<forall>i < 10. (if i < copied p then segment_at p i else replicate 16 0) = (if i < copied q then segment_at q i else replicate 16 0))"
proof -
  have eth: "take 14 x = take 6 x @ take 6 (drop 6 x) @ take 2 (drop 12 x)" for x :: bytes
    using take_add [of 6 8 x] take_add [of 6 2 "drop 6 x"] by simp
  have hdr: "take 40 (drop 22 x) = take 16 (drop 22 x) @ take 16 (drop 38 x) @
      [x ! 54, x ! 55, x ! 56, x ! 57, x ! 58, x ! 59] @ take 2 (drop 60 x)" if "62 \<le> length x" for x :: bytes
  proof -
    have "take 6 (drop 54 x) = [x ! 54, x ! 55, x ! 56, x ! 57, x ! 58, x ! 59]"
      using that by (intro nth_equalityI) (auto simp: nth_Cons' less_Suc_eq le_Suc_eq numeral_eq_Suc)
    then show ?thesis
      using take_add [of 16 24 "drop 22 x"] take_add [of 16 8 "drop 38 x"] take_add [of 6 2 "drop 54 x"] by simp
  qed
  have seg: "(map f [0..<10] = map g [0..<10]) = (\<forall>i < 10. f i = g i)" for f g :: "nat \<Rightarrow> bytes"
    by auto
  show ?thesis
    unfolding probe_flow_def probe_data.iffs eth [of p] eth [of q] hdr [OF assms(1)] hdr [OF assms(2)] seg
    using assms by (auto simp: ld16_eq_iff)
qed

text \<open>
  The bounds check of the loop asks for one byte more than the segment needs: a segment that
  ends the frame is not recorded.
\<close>

lemma copied_complete: "unat (p ! 58) < 10 \<Longrightarrow> 62 + 16 * (unat (p ! 58) + 1) < length p \<Longrightarrow> copied p = unat (p ! 58) + 1"
  by (auto simp: copied_def)

lemma copied_at_end: "unat (p ! 58) < 10 \<Longrightarrow> length p = 62 + 16 * (unat (p ! 58) + 1) \<Longrightarrow> copied p = unat (p ! 58)"
  by (auto simp: copied_def)

lemma same_segments_iff:
  "62 + 16 * n \<le> length p \<Longrightarrow> 62 + 16 * n \<le> length q \<Longrightarrow>
    (\<forall>i < n. segment_at p i = segment_at q i) \<longleftrightarrow> take (16 * n) (drop 62 p) = take (16 * n) (drop 62 q)"
proof (induction n)
  case (Suc n)
  have "take (16 * Suc n) (drop 62 x) = take (16 * n) (drop 62 x) @ segment_at x n" for x
    using take_add [of "16 * n" 16 "drop 62 x"] by (simp add: segment_at_def add.commute)
  then show ?case using Suc by (auto simp: less_Suc_eq)
qed simp

lemma take_put_above: "k \<le> off \<Longrightarrow> off \<le> length p \<Longrightarrow> take k (put p off bs) = take k p"
  by (simp add: put_def)

lemma probe_flow_complete_iff:
  assumes "62 \<le> length p" "62 \<le> length q" "unat (p ! 58) < 10"
    and "62 + 16 * (unat (p ! 58) + 1) < length p" "62 + 16 * (unat (p ! 58) + 1) < length q"
  shows "probe_flow p = probe_flow q \<longleftrightarrow> take 14 p = take 14 q \<and>
    take (40 + 16 * (unat (p ! 58) + 1)) (drop 22 p) = take (40 + 16 * (unat (p ! 58) + 1)) (drop 22 q)"
proof -
  let ?n = "unat (p ! 58) + 1"
  have split: "take (40 + 16 * ?n) (drop 22 x) = take 40 (drop 22 x) @ take (16 * ?n) (drop 62 x)" for x :: bytes
    using take_add [of 40 "16 * ?n" "drop 22 x"] by simp
  have b58: "x ! 58 = take 40 (drop 22 x) ! 36" if "62 \<le> length x" for x :: bytes
    using that by simp
  have seg: "(\<forall>i < 10. (if i < ?n then segment_at p i else replicate 16 0) = (if i < ?n then segment_at q i else replicate 16 0)) =
      (take (16 * ?n) (drop 62 p) = take (16 * ?n) (drop 62 q))"
    using same_segments_iff [of ?n p q] assms by auto
  show ?thesis
  proof (cases "take 40 (drop 22 p) = take 40 (drop 22 q)")
    case True
    then have "q ! 58 = p ! 58" using b58 assms(1,2) by metis
    then have "copied p = ?n" "copied q = ?n" using assms copied_complete [of p] copied_complete [of q] by auto
    then show ?thesis
      unfolding probe_flow_eq_iff [OF assms(1,2)] split using True assms(1,2) seg by auto
  next
    case False
    then show ?thesis unfolding probe_flow_eq_iff [OF assms(1,2)] split using assms(1,2) by auto
  qed
qed

section \<open>Recording flows\<close>

definition lru_insert_ok :: "lru_insert \<Rightarrow> bool" where
  "lru_insert_ok ins \<longleftrightarrow> (\<forall>m k v k' x. m k = None \<longrightarrow> ins m k v k' = Some x \<longrightarrow> m k' = Some x \<or> k' = k \<and> x = v)"

text \<open>
  Property C37. The probe lets every packet pass unchanged, and touches its map for the frames
  with a segment routing header only (IPv6, at least 62 bytes, next header 43 and routing type 4):
  it inserts the flow key with counter 0 unless the key is known. The key identifies the flow:
  for two such frames whose segment lists have at most ten entries (last entry below 10 in the
  first) and are followed by at least one more byte, the keys are equal exactly when Ethernet
  header, IPv6 addresses, routing header and segment list are.
\<close>

theorem probe_identifies_flows:
  "(\<forall>m x. xdp_probe ins m x = Some (XDP_PASS, x,
      if srv6_frame x \<and> m (probe_flow x) = None then ins m (probe_flow x) 0 else m)) \<and>
    (srv6_frame p \<and> srv6_frame q \<and> unat (p ! 58) < 10 \<and>
     62 + 16 * (unat (p ! 58) + 1) < length p \<and> 62 + 16 * (unat (p ! 58) + 1) < length q \<longrightarrow>
      (probe_flow p = probe_flow q \<longleftrightarrow> take 14 p = take 14 q \<and>
        take (40 + 16 * (unat (p ! 58) + 1)) (drop 22 p) = take (40 + 16 * (unat (p ! 58) + 1)) (drop 22 q)))"
  using probe_flow_complete_iff [of p q] by (simp add: xdp_probe_result srv6_frame_def)

text \<open>
  A frame that ends with its segment list is recorded without its last segment,
  because the loop asks for one byte more than it copies: frames that differ in their final
  segment only are taken for one flow, and the second of them is not recorded.
\<close>

lemma probe_misses_last_segment:
  assumes "srv6_frame p" "unat (p ! 58) < 10" "length p = 62 + 16 * (unat (p ! 58) + 1)"
    and "length seg = 16" "q = put p (62 + 16 * unat (p ! 58)) seg"
    and "ins m (probe_flow p) 0 = m(probe_flow p \<mapsto> 0)" "m (probe_flow p) = None"
  shows "run_all (xdp_probe ins) [p, q] m = Some ([(XDP_PASS, p), (XDP_PASS, q)], m(probe_flow p \<mapsto> 0))"
proof -
  let ?l = "unat (p ! 58)"
  have q: "length q = length p" "q ! 58 = p ! 58" "take 14 q = take 14 p" "take 40 (drop 22 q) = take 40 (drop 22 p)"
    using assms by (simp_all add: nth_put take_put_above slice_put_disjoint)
  have "copied p = ?l" "copied q = ?l" using copied_at_end [of p] copied_at_end [of q] assms(2,3) q by auto
  moreover have "segment_at q i = segment_at p i" if "i < ?l" for i
    using assms that by (simp add: segment_at_def slice_put_disjoint)
  ultimately have "probe_flow q = probe_flow p"
    using probe_flow_eq_iff [of q p] q assms(1) by (simp add: srv6_frame_def)
  moreover have "srv6_frame q" using assms q by (simp add: srv6_frame_def nth_put slice_put_disjoint)
  ultimately show ?thesis using assms by (simp add: xdp_probe_result)
qed

definition zero_counters :: "probe_map \<Rightarrow> bool" where
  "zero_counters m \<longleftrightarrow> (\<forall>k v. m k = Some v \<longrightarrow> v = 0)"

text \<open>The probe as a packet program: what the kernel sees of it over a sequence of packets.\<close>

definition lru_checked :: "lru_insert \<Rightarrow> lru_insert" where
  "lru_checked ins m k v = (if \<forall>k' x. ins m k v k' = Some x \<longrightarrow> m k' = Some x \<or> k' = k \<and> x = v then ins m k v else m)"

lemma lru_checked_props: "lru_checked ins m k v k' = Some x \<Longrightarrow> m k' = Some x \<or> k' = k \<and> x = v"
  by (auto simp: lru_checked_def split: if_splits)

lemma xdp_probe_checked: "lru_insert_ok ins \<Longrightarrow> xdp_probe (lru_checked ins) = xdp_probe ins"
  by (intro ext) (auto simp: xdp_probe_result lru_insert_ok_def lru_checked_def)

interpretation probe: packet_program "xdp_probe (lru_checked ins)" zero_counters
  "\<lambda>m m'. \<forall>k v. m' k = Some v \<longrightarrow> m k = Some v \<or> v = 0" "\<lambda>_ p x. x = (XDP_PASS, p)" for ins
  by unfold_locales (auto simp: xdp_probe_result zero_counters_def dest!: lru_checked_props)

text \<open>
  Over any sequence of packets the probe is transparent, every packet passes as it
  came, and the counters it creates all stay at zero: no code ever counts a packet.
\<close>

lemma probe_transparent:
  assumes "lru_insert_ok ins" and "zero_counters m"
  shows "\<exists>m'. run_all (xdp_probe ins) ps m = Some (map (\<lambda>p. (XDP_PASS, p)) ps, m') \<and> zero_counters m'"
proof -
  obtain outs m' where "run_all (xdp_probe ins) ps m = Some (outs, m')" "zero_counters m'"
      "list_all2 (\<lambda>p x. x = (XDP_PASS, p)) ps outs"
    using probe.run_all_result [OF assms(2), of ins ps] xdp_probe_checked [OF assms(1)] by metis
  moreover from this(3) have "outs = map (\<lambda>p. (XDP_PASS, p)) ps"
    by (induction rule: list_all2_induct) auto
  ultimately show ?thesis by blast
qed

section \<open>Examples\<close>

definition demo_srv6 :: bytes where
  "demo_srv6 = replicate 12 0 @ [0x86, 0xDD] @ replicate 6 0 @ [43] @ replicate 35 0 @ [4] @ replicate 5 0 @ replicate 16 1"

lemma demo_srv6_props: "length demo_srv6 = 78" "demo_srv6 ! 20 = 43" "demo_srv6 ! 56 = 4" "demo_srv6 ! 58 = 0"
    "take 2 (drop 12 demo_srv6) = [0x86, 0xDD]"
  by (simp_all add: demo_srv6_def nth_append)

lemma demo_srv6_tail: "length (demo_srv6 @ [9]) = 79" "(demo_srv6 @ [9]) ! 20 = 43" "(demo_srv6 @ [9]) ! 56 = 4"
    "(demo_srv6 @ [9]) ! 58 = 0" "take 2 (drop 12 (demo_srv6 @ [9])) = [0x86, 0xDD]"
  using demo_srv6_props by (simp_all add: nth_append)

theorem probe_identifies_flows_witness:
  "xdp_probe (\<lambda>m k v. m(k \<mapsto> v)) Map.empty (demo_srv6 @ [9]) =
     Some (XDP_PASS, demo_srv6 @ [9], [probe_flow (demo_srv6 @ [9]) \<mapsto> 0]) \<and>
   xdp_probe (\<lambda>m k v. m(k \<mapsto> v)) Map.empty [1, 2, 3] = Some (XDP_PASS, [1, 2, 3], Map.empty) \<and>
   probe_flow (demo_srv6 @ [9]) = probe_flow (demo_srv6 @ [8])"
proof -
  note t = probe_identifies_flows [of "\<lambda>m k v. m(k \<mapsto> v)" "demo_srv6 @ [9]" "demo_srv6 @ [8]"]
  have "\<not> srv6_frame [1, 2, 3]" "srv6_frame (demo_srv6 @ [b])" "(demo_srv6 @ [b]) ! 58 = 0" for b
    using demo_srv6_props by (simp_all add: srv6_frame_def nth_append)
  then show ?thesis using t demo_srv6_props by simp
qed

lemma probe_misses_last_segment_witness:
  "run_all (xdp_probe (\<lambda>m k v. m(k \<mapsto> v))) [demo_srv6, put demo_srv6 62 (replicate 16 2)] Map.empty =
     Some ([(XDP_PASS, demo_srv6), (XDP_PASS, put demo_srv6 62 (replicate 16 2))], [probe_flow demo_srv6 \<mapsto> 0])"
  by (rule probe_misses_last_segment [where seg = "replicate 16 2"]) (use demo_srv6_props in \<open>simp_all add: srv6_frame_def\<close>)

lemma probe_transparent_witness:
  "\<exists>m'. run_all (xdp_probe (\<lambda>m k v. m(k \<mapsto> v))) [demo_srv6] Map.empty = Some ([(XDP_PASS, demo_srv6)], m') \<and> zero_counters m'"
  using probe_transparent [of "\<lambda>m k v. m(k \<mapsto> v)" Map.empty "[demo_srv6]"] by (simp add: lru_insert_ok_def zero_counters_def)

end
