(* ===== verification/Rw_Analysis.thy ===== *)
theory Rw_Analysis
  imports Prelude
begin

text \<open>
  The interference analysis of verification_tools/readWriteSet.py: it compares the read and
  write sets that symbolic execution reports for two programs. A set is a list of strings:
  \<open>b12\<close> is byte 12 of the packet and \<open>map:flows.b0(3)_b1(sym)_\<close> the entry of the map \<open>flows\<close>
  under a key of two bytes, the second of them symbolic; a key may also be one decimal number.

  The model works on the strings, as the code does. An exception of the code (a failed
  assertion, \<open>int\<close> of something that is no number, an index out of range) is \<open>None\<close>. Python
  visits the elements of a set in an unspecified order: the order in which the maps common to
  both programs are visited is the argument \<open>order\<close>.
\<close>

section \<open>Strings and numbers\<close>

definition digit :: "nat \<Rightarrow> char" where
  "digit d = char_of (48 + d)"

definition is_digit :: "char \<Rightarrow> bool" where
  "is_digit c \<longleftrightarrow> 48 \<le> (of_char c :: nat) \<and> (of_char c :: nat) \<le> 57"

fun show_nat :: "nat \<Rightarrow> string" where
  "show_nat n = (if n < 10 then [digit n] else show_nat (n div 10) @ [digit (n mod 10)])"

declare show_nat.simps [simp del]

definition int_of :: "string \<Rightarrow> nat option" where
  "int_of s = (if s \<noteq> [] \<and> list_all is_digit s then Some (foldl (\<lambda>n c. 10 * n + (of_char c - 48)) 0 s) else None)"

fun hex_digits :: "nat \<Rightarrow> nat list" where
  "hex_digits n = (if n < 16 then [n] else hex_digits (n div 16) @ [n mod 16])"

declare hex_digits.simps [simp del]

fun starts_with :: "string \<Rightarrow> string \<Rightarrow> bool" where
  "starts_with [] s = True"
| "starts_with (p # ps) [] = False"
| "starts_with (p # ps) (c # cs) = (p = c \<and> starts_with ps cs)"

fun contains :: "string \<Rightarrow> string \<Rightarrow> bool" where
  "contains p [] = (p = [])"
| "contains p (c # cs) = (starts_with p (c # cs) \<or> contains p cs)"

fun split_dot :: "string \<Rightarrow> string list" where
  "split_dot [] = [[]]"
| "split_dot (c # cs) = (if c = CHR ''.'' then [] # split_dot cs
     else case split_dot cs of [] \<Rightarrow> [[c]] | s # ss \<Rightarrow> (c # s) # ss)"

section \<open>Keys\<close>

text \<open>The pattern \<open>b[0-9]+\(\<close>: the rest of the string after a match at its start.\<close>

definition match_byte :: "string \<Rightarrow> string option" where
  "match_byte s =
     (case s of [] \<Rightarrow> None
      | c # cs \<Rightarrow>
        if c = CHR ''b'' \<and> takeWhile is_digit cs \<noteq> [] then
          (case dropWhile is_digit cs of [] \<Rightarrow> None | d # ds \<Rightarrow> if d = CHR ''('' then Some ds else None)
        else None)"

lemma length_match_byte: "match_byte s = Some r \<Longrightarrow> length r < length s"
proof -
  assume "match_byte s = Some r"
  then obtain cs d where s: "s = CHR ''b'' # cs" and d: "dropWhile is_digit cs = d # r"
    by (auto simp: match_byte_def split: list.splits if_splits)
  have "length (d # r) \<le> length cs" unfolding d [symmetric] by (rule length_dropWhile_le)
  then show ?thesis using s by simp
qed

function re_split :: "string \<Rightarrow> string \<Rightarrow> string list" where
  "re_split acc s =
     (case match_byte s of Some r \<Rightarrow> acc # re_split [] r
      | None \<Rightarrow> (case s of [] \<Rightarrow> [acc] | c # cs \<Rightarrow> re_split (acc @ [c]) cs))"
  by pat_completeness auto
termination
  by (relation "measure (length \<circ> snd)") (auto dest: length_match_byte)

declare re_split.simps [simp del]

text \<open>\<open>range(len(hexValue)-2, -1, -2)\<close>: pairs of digits from the end, a single first digit is left out.\<close>

function hex_pairs :: "nat list \<Rightarrow> nat list" where
  "hex_pairs h = (if length h < 2 then [] else
     (16 * h ! (length h - 2) + h ! (length h - 1)) # hex_pairs (take (length h - 2) h))"
  by pat_completeness auto
termination
  by (relation "measure length") auto

declare hex_pairs.simps [simp del]

definition getConcreteBytes :: "string \<Rightarrow> nat \<Rightarrow> string list option" where
  "getConcreteBytes key lastByteNum =
     do { n \<leftarrow> int_of key;
          let bytes = map show_nat (hex_pairs (hex_digits n));
          Some (bytes @ replicate (lastByteNum + 1 - length bytes) (show_nat 0)) }"

definition getByteValues :: "string \<Rightarrow> nat \<Rightarrow> string list option" where
  "getByteValues key lastByteNum =
     (if \<not> contains ''b0'' key then getConcreteBytes key lastByteNum
      else Some (map (\<lambda>v. take (length v - 2) v) (tl (re_split [] key))))"

text \<open>\<open>s.rfind(c)\<close>, and the slice \<open>s[a:b]\<close>, where a negative \<open>b\<close> counts from the end.\<close>

definition rfind :: "char \<Rightarrow> string \<Rightarrow> int" where
  "rfind c s = (if c \<in> set s then int (length s) - 1 - int (length (takeWhile (\<lambda>d. d \<noteq> c) (rev s))) else - 1)"

definition slice :: "string \<Rightarrow> nat \<Rightarrow> int \<Rightarrow> string" where
  "slice s a b = (let b = nat (if b < 0 then int (length s) + b else b) in take (b - a) (drop a s))"

definition getLastByteNum :: "string \<Rightarrow> nat option" where
  "getLastByteNum key = int_of (slice key (nat (rfind (CHR ''b'') key + 1)) (rfind (CHR ''('') key))"

section \<open>Overlap of two sets\<close>

definition map_elem :: "string \<Rightarrow> (string \<times> string) option" where
  "map_elem elem =
     (if starts_with ''map:'' elem then
        (case split_dot (drop 4 elem) of m # k # _ \<Rightarrow> Some (m, k) | _ \<Rightarrow> None)
      else None)"

fun getMaps :: "string list \<Rightarrow> (string \<times> string) list option" where
  "getMaps [] = Some []"
| "getMaps (e # es) =
     (if starts_with ''map:'' e then
        do { mk \<leftarrow> map_elem e; rest \<leftarrow> getMaps es; Some (mk # rest) }
      else getMaps es)"

definition keys_of :: "string \<Rightarrow> (string \<times> string) list \<Rightarrow> string list" where
  "keys_of m maps = map snd (filter (\<lambda>mk. fst mk = m) maps)"

fun traverse :: "('a \<Rightarrow> 'b option) \<Rightarrow> 'a list \<Rightarrow> 'b list option" where
  "traverse f [] = Some []"
| "traverse f (x # xs) = do { y \<leftarrow> f x; ys \<leftarrow> traverse f xs; Some (y # ys) }"

text \<open>\<open>same\<close> of the innermost loop, with the assertion that both keys have as many bytes.\<close>

definition same_key :: "string list \<Rightarrow> string list \<Rightarrow> bool option" where
  "same_key ks1 ks2 =
     (if length ks1 \<noteq> length ks2 then None
      else Some (\<not> list_ex (\<lambda>(a, b). a \<noteq> ''sym'' \<and> b \<noteq> ''sym'' \<and> a \<noteq> b) (zip ks1 ks2)))"

definition compare_keys :: "string \<Rightarrow> string \<times> string list \<Rightarrow> (string \<times> string list) list \<Rightarrow> string list option" where
  "compare_keys m k1 keys2 =
     do { sames \<leftarrow> traverse (\<lambda>k2. same_key (snd k1) (snd k2)) keys2;
          Some (if list_ex id sames then [m @ ''.'' @ fst k1] else []) }"

definition map_overlap :: "string \<Rightarrow> string list \<Rightarrow> string list \<Rightarrow> string list option" where
  "map_overlap m keys1 keys2 =
     do { lastByteNum \<leftarrow> getLastByteNum (hd (filter (contains ''b0'') (keys1 @ keys2)));
          ks1 \<leftarrow> traverse (\<lambda>k. getByteValues k lastByteNum) keys1;
          ks2 \<leftarrow> traverse (\<lambda>k. getByteValues k lastByteNum) keys2;
          found \<leftarrow> traverse (\<lambda>k1. compare_keys m k1 (zip keys2 ks2)) (zip keys1 ks1);
          Some (concat found) }"

text \<open>The loop over the maps of both programs; a map with concrete keys only ends it.\<close>

fun overlap_loop :: "string list \<Rightarrow> (string \<times> string) list \<Rightarrow> (string \<times> string) list \<Rightarrow> string list \<Rightarrow> string list option" where
  "overlap_loop [] maps1 maps2 intersection = Some intersection"
| "overlap_loop (m # ms) maps1 maps2 intersection =
     (let keys1 = keys_of m maps1; keys2 = keys_of m maps2 in
      if \<not> list_ex (contains ''b0'') (keys1 @ keys2) then Some intersection
      else do { found \<leftarrow> map_overlap m keys1 keys2;
                overlap_loop ms maps1 maps2 (intersection @ found) })"

definition determineOverlap :: "(string list \<Rightarrow> string list) \<Rightarrow> string list \<Rightarrow> string list \<Rightarrow> string list option" where
  "determineOverlap order set1 set2 =
     (let intersection = filter (\<lambda>e. e \<in> set set2) set1 in
      do { maps1 \<leftarrow> getMaps (filter (\<lambda>e. e \<notin> set intersection) set1);
           maps2 \<leftarrow> getMaps (filter (\<lambda>e. e \<notin> set intersection) set2);
           let intersectingMaps = remdups (filter (\<lambda>m. m \<in> fst ` set maps2) (map fst maps1));
           if intersectingMaps = [] then Some intersection
           else overlap_loop (order intersectingMaps) maps1 maps2 intersection })"

definition readWriteSetAnalysis :: "(string list \<Rightarrow> string list) \<Rightarrow> string list \<times> string list \<Rightarrow> string list \<times> string list \<Rightarrow> bool option" where
  "readWriteSetAnalysis order sets1 sets2 =
     (let (readSet1, writeSet1) = sets1; (readSet2, writeSet2) = sets2 in
      do { r1w2 \<leftarrow> determineOverlap order readSet1 writeSet2;
           r2w1 \<leftarrow> determineOverlap order writeSet1 readSet2;
           w1w2 \<leftarrow> determineOverlap order writeSet1 writeSet2;
           Some (r1w2 \<noteq> [] \<or> r2w1 \<noteq> [] \<or> w1w2 \<noteq> []) })"

section \<open>What the reported sets mean\<close>

text \<open>
  An element as symbolic execution prints it: a byte of the packet, or an entry of a map under a
  key whose bytes are known (\<open>Some\<close>) or symbolic (\<open>None\<close>). It stands for a set of memory cells.
\<close>

datatype rw_elem = Pkt_byte nat | Map_key string "nat option list"

datatype mem_cell = Pkt_cell nat | Map_cell string "nat list"

definition show_byte :: "nat option \<Rightarrow> string" where
  "show_byte b = (case b of None \<Rightarrow> ''sym'' | Some v \<Rightarrow> show_nat v)"

fun show_key :: "nat \<Rightarrow> nat option list \<Rightarrow> string" where
  "show_key i [] = []"
| "show_key i (b # bs) = ''b'' @ show_nat i @ ''('' @ show_byte b @ '')_'' @ show_key (i + 1) bs"

fun show_elem :: "rw_elem \<Rightarrow> string" where
  "show_elem (Pkt_byte i) = ''b'' @ show_nat i"
| "show_elem (Map_key m bs) = ''map:'' @ m @ ''.'' @ show_key 0 bs"

fun cells :: "rw_elem \<Rightarrow> mem_cell set" where
  "cells (Pkt_byte i) = {Pkt_cell i}"
| "cells (Map_key m bs) = {Map_cell m ks |ks. list_all2 (\<lambda>b k. b = None \<or> b = Some k) bs ks}"

definition reported :: "(string \<Rightarrow> nat) \<Rightarrow> rw_elem list \<Rightarrow> bool" where
  "reported klen es \<longleftrightarrow> (\<forall>m bs. Map_key m bs \<in> set es \<longrightarrow> CHR ''.'' \<notin> set m \<and> bs \<noteq> [] \<and> length bs = klen m)"

section \<open>Printing and parsing\<close>

lemma of_char_digit: "d < 10 \<Longrightarrow> of_char (digit d) = 48 + d"
  by (simp add: digit_def of_char_of)

lemma is_digit_digit: "d < 10 \<Longrightarrow> is_digit (digit d)"
  by (simp add: is_digit_def of_char_digit)

lemma show_nat_digits: "list_all is_digit (show_nat n)" and show_nat_nonempty: "show_nat n \<noteq> []"
proof -
  show "list_all is_digit (show_nat n)"
  proof (induction n rule: show_nat.induct)
    case (1 n)
    then show ?case by (subst show_nat.simps) (auto simp: is_digit_digit)
  qed
  show "show_nat n \<noteq> []" by (subst show_nat.simps) auto
qed

lemma int_of_show_nat: "int_of (show_nat n) = Some n"
proof -
  have "foldl (\<lambda>n c. 10 * n + (of_char c - 48)) 0 (show_nat n) = n"
  proof (induction n rule: show_nat.induct)
    case (1 n)
    then show ?case by (subst show_nat.simps) (auto simp: of_char_digit)
  qed
  then show ?thesis by (simp add: int_of_def show_nat_digits show_nat_nonempty)
qed

lemma show_nat_inj [simp]: "show_nat m = show_nat n \<longleftrightarrow> m = n"
  by (metis int_of_show_nat option.inject)

lemma not_digit_show_nat: "\<not> is_digit c \<Longrightarrow> c \<notin> set (show_nat n)"
  using show_nat_digits [of n] by (auto simp: list_all_iff)

lemma not_digits: "\<not> is_digit CHR ''b''" "\<not> is_digit CHR ''s''" "\<not> is_digit CHR ''(''" "\<not> is_digit CHR '')''"
    "\<not> is_digit CHR ''_''" "\<not> is_digit CHR ''.''" "\<not> is_digit CHR ''m''" "\<not> is_digit CHR ''y''"
  by (simp_all add: is_digit_def)

lemma show_byte_eq [simp]:
  "show_byte b = show_byte c \<longleftrightarrow> b = c" "show_byte b = ''sym'' \<longleftrightarrow> b = None"
proof -
  have s: "show_nat v \<noteq> ''sym''" for v
    using not_digit_show_nat [of "CHR ''s''" v] not_digits by auto
  show "show_byte b = ''sym'' \<longleftrightarrow> b = None" by (auto simp: show_byte_def s split: option.splits)
  show "show_byte b = show_byte c \<longleftrightarrow> b = c" using s by (auto simp: show_byte_def split: option.splits) metis
qed

lemma show_byte_no: "c \<in> {CHR ''b'', CHR ''('', CHR ''.''} \<Longrightarrow> c \<notin> set (show_byte b)"
  using not_digits by (auto simp: show_byte_def not_digit_show_nat split: option.splits)

lemma show_key_no_dot: "CHR ''.'' \<notin> set (show_key i bs)"
  using not_digits by (induction bs arbitrary: i) (auto simp: not_digit_show_nat show_byte_no)

lemma match_byte_show:
  "match_byte (CHR ''b'' # show_nat i @ CHR ''('' # r) = Some r"
proof -
  have t: "takeWhile is_digit (show_nat i @ CHR ''('' # r) = show_nat i"
    using show_nat_digits [of i] not_digits by (simp add: list_all_iff takeWhile_append2)
  have d: "dropWhile is_digit (show_nat i @ CHR ''('' # r) = CHR ''('' # r"
    using show_nat_digits [of i] not_digits by (simp add: list_all_iff dropWhile_append2)
  show ?thesis by (simp add: match_byte_def t d show_nat_nonempty)
qed

lemma re_split_skip: "CHR ''b'' \<notin> set w \<Longrightarrow> re_split acc (w @ r) = re_split (acc @ w) r"
proof (induction w arbitrary: acc)
  case (Cons c w)
  have "match_byte (c # w @ r) = None" using Cons.prems by (auto simp: match_byte_def)
  then show ?case using Cons by (subst re_split.simps) simp
qed simp

lemma re_split_show_key: "re_split acc (show_key i bs) = acc # map (\<lambda>b. show_byte b @ '')_'') bs"
proof (induction bs arbitrary: i acc)
  case Nil
  then show ?case by (subst re_split.simps) (simp add: match_byte_def)
next
  case (Cons b bs)
  have w: "CHR ''b'' \<notin> set (show_byte b @ '')_'')" by (simp add: show_byte_no)
  have "re_split acc (show_key i (b # bs)) = acc # re_split [] ((show_byte b @ '')_'') @ show_key (i + 1) bs)"
    by (subst re_split.simps) (simp add: match_byte_show)
  also have "\<dots> = acc # re_split (show_byte b @ '')_'') (show_key (i + 1) bs)"
    by (subst re_split_skip [OF w]) simp
  finally show ?case using Cons.IH by simp
qed

lemma show_nat_0: "show_nat 0 = ''0''"
proof -
  have "digit 0 = CHR ''0''"
    by (subst of_char_eq_iff [where 'a = nat, symmetric]) (simp add: of_char_digit)
  then show ?thesis by (simp add: show_nat.simps)
qed

lemma contains_b0: "bs \<noteq> [] \<Longrightarrow> contains ''b0'' (show_key 0 bs)"
  by (cases bs) (simp_all add: show_nat_0)

lemma getByteValues_show: "bs \<noteq> [] \<Longrightarrow> getByteValues (show_key 0 bs) n = Some (map show_byte bs)"
  by (simp add: getByteValues_def contains_b0 re_split_show_key comp_def)

lemma split_dot_show: "CHR ''.'' \<notin> set a \<Longrightarrow> split_dot (a @ CHR ''.'' # r) = a # split_dot r"
  by (induction a) auto

lemma split_dot_none: "CHR ''.'' \<notin> set a \<Longrightarrow> split_dot a = [a]"
  by (induction a) auto

lemma map_elem_show: "CHR ''.'' \<notin> set m \<Longrightarrow> map_elem (show_elem (Map_key m bs)) = Some (m, show_key 0 bs)"
  by (simp add: map_elem_def split_dot_show split_dot_none show_key_no_dot)

lemma rfind_at:
  assumes "c \<notin> set ys"
  shows "rfind c (xs @ c # ys) = int (length xs)"
proof -
  have "takeWhile (\<lambda>d. d \<noteq> c) (rev ys @ c # rev xs) = rev ys" using assms by (subst takeWhile_append2) auto
  then show ?thesis by (simp add: rfind_def)
qed

lemma show_key_snoc:
  "show_key i (bs @ [b]) = show_key i bs @ CHR ''b'' # show_nat (i + length bs) @ CHR ''('' # show_byte b @ '')_''"
  by (induction bs arbitrary: i) auto

lemma getLastByteNum_show: "bs \<noteq> [] \<Longrightarrow> getLastByteNum (show_key 0 bs) = Some (length bs - 1)"
proof -
  assume "bs \<noteq> []"
  then obtain cs b where bs: "bs = cs @ [b]" by (metis append_butlast_last_id)
  let ?k = "show_key 0 bs" and ?n = "show_nat (length cs)"
  have k: "?k = show_key 0 cs @ CHR ''b'' # ?n @ CHR ''('' # show_byte b @ '')_''"
    by (simp add: bs show_key_snoc)
  have pos: "rfind (CHR ''b'') ?k = int (length (show_key 0 cs))"
    unfolding k by (rule rfind_at) (use not_digits in \<open>auto simp: not_digit_show_nat show_byte_no\<close>)
  have "?k = (show_key 0 cs @ CHR ''b'' # ?n) @ CHR ''('' # show_byte b @ '')_''" by (simp add: k)
  then have last: "rfind (CHR ''('') ?k = int (length (show_key 0 cs @ CHR ''b'' # ?n))"
    by (simp only:, intro rfind_at) (simp add: show_byte_no)
  have "slice ?k (nat (rfind (CHR ''b'') ?k + 1)) (rfind (CHR ''('') ?k) = ?n"
    unfolding pos last by (simp add: slice_def k nat_add_distrib Suc_diff_le)
  then show ?thesis by (simp add: getLastByteNum_def int_of_show_nat bs)
qed

section \<open>The comparison\<close>

definition compatible :: "nat option list \<Rightarrow> nat option list \<Rightarrow> bool" where
  "compatible bs cs \<longleftrightarrow> list_all2 (\<lambda>b c. b = None \<or> c = None \<or> b = c) bs cs"

lemma compatible_cells:
  "length bs = length cs \<Longrightarrow> compatible bs cs \<longleftrightarrow> cells (Map_key m bs) \<inter> cells (Map_key m cs) \<noteq> {}"
proof (induction bs cs rule: list_induct2)
  case (Cons b bs c cs)
  have "cells (Map_key m (b # bs)) \<inter> cells (Map_key m (c # cs)) \<noteq> {} \<longleftrightarrow>
      (\<exists>k ks. (b = None \<or> b = Some k) \<and> (c = None \<or> c = Some k) \<and>
        list_all2 (\<lambda>b k. b = None \<or> b = Some k) bs ks \<and> list_all2 (\<lambda>b k. b = None \<or> b = Some k) cs ks)"
    by (auto simp: list_all2_Cons1)
  also have "\<dots> \<longleftrightarrow> (b = None \<or> c = None \<or> b = c) \<and> cells (Map_key m bs) \<inter> cells (Map_key m cs) \<noteq> {}"
    by (cases b; cases c) auto
  finally show ?case using Cons.IH by (simp add: compatible_def)
qed (simp add: compatible_def)

lemma same_key_show:
  "length bs = length cs \<Longrightarrow> same_key (map show_byte bs) (map show_byte cs) = Some (compatible bs cs)"
proof -
  assume l: "length bs = length cs"
  then have "list_ex (\<lambda>(a, b). a \<noteq> ''sym'' \<and> b \<noteq> ''sym'' \<and> a \<noteq> b) (zip (map show_byte bs) (map show_byte cs)) \<longleftrightarrow> \<not> compatible bs cs"
    by (induction bs cs rule: list_induct2) (auto simp: compatible_def)
  then show ?thesis using l by (simp add: same_key_def)
qed

lemma traverse_map: "(\<And>x. x \<in> set xs \<Longrightarrow> f (h x) = Some (g x)) \<Longrightarrow> traverse f (map h xs) = Some (map g xs)"
  by (induction xs) auto

lemma map_overlap_show:
  assumes "bss1 \<noteq> []" "\<forall>bs \<in> set (bss1 @ bss2). bs \<noteq> [] \<and> length bs = n"
  shows "\<exists>r. map_overlap m (map (show_key 0) bss1) (map (show_key 0) bss2) = Some r \<and>
    (r = [] \<longleftrightarrow> (\<forall>bs \<in> set bss1. \<forall>cs \<in> set bss2. \<not> compatible bs cs))"
proof -
  let ?f = "\<lambda>bs. (show_key 0 bs, map show_byte bs)"
  have b0: "filter (contains ''b0'') (map (show_key 0) bss1 @ map (show_key 0) bss2) = map (show_key 0) (bss1 @ bss2)"
    using assms(2) by (auto simp: filter_id_conv contains_b0)
  have "getLastByteNum (hd (map (show_key 0) (bss1 @ bss2))) = Some (length (hd bss1) - 1)"
    using assms getLastByteNum_show [of "hd bss1"] by (cases bss1) auto
  moreover have "traverse (\<lambda>k. getByteValues k l) (map (show_key 0) bss) = Some (map (map show_byte) bss)"
    if "set bss \<subseteq> set (bss1 @ bss2)" for bss l
    using that assms(2) by (intro traverse_map getByteValues_show) blast
  moreover have "zip (map (show_key 0) bss) (map (map show_byte) bss) = map ?f bss" for bss
    by (induction bss) auto
  moreover have "traverse (\<lambda>k1. compare_keys m k1 (map ?f bss2)) (map ?f bss1) =
      Some (map (\<lambda>bs. if \<exists>cs \<in> set bss2. compatible bs cs then [m @ ''.'' @ show_key 0 bs] else []) bss1)"
  proof (rule traverse_map)
    fix bs assume "bs \<in> set bss1"
    then have "traverse (\<lambda>k2. same_key (snd (?f bs)) (snd k2)) (map ?f bss2) = Some (map (compatible bs) bss2)"
      using assms(2) by (intro traverse_map) (simp add: same_key_show)
    then show "compare_keys m (?f bs) (map ?f bss2) =
        Some (if \<exists>cs \<in> set bss2. compatible bs cs then [m @ ''.'' @ show_key 0 bs] else [])"
      by (auto simp: compare_keys_def list_ex_iff)
  qed
  ultimately have "map_overlap m (map (show_key 0) bss1) (map (show_key 0) bss2) = Some (concat
      (map (\<lambda>bs. if \<exists>cs \<in> set bss2. compatible bs cs then [m @ ''.'' @ show_key 0 bs] else []) bss1))"
    unfolding map_overlap_def b0 by simp
  moreover have "concat (map (\<lambda>bs. if P bs then [g bs] else []) bss) = [] \<longleftrightarrow> (\<forall>bs \<in> set bss. \<not> P bs)"
    for P and g :: "nat option list \<Rightarrow> string" and bss by (induction bss) auto
  note this [of "\<lambda>bs. \<exists>cs \<in> set bss2. compatible bs cs" "\<lambda>bs. m @ ''.'' @ show_key 0 bs" bss1]
  ultimately show ?thesis by blast
qed

text \<open>The map elements of a reported set, as \<open>getMaps\<close> returns them.\<close>

definition map_keys :: "rw_elem list \<Rightarrow> (string \<times> nat option list) list" where
  "map_keys es = List.map_filter (\<lambda>e. case e of Pkt_byte i \<Rightarrow> None | Map_key m bs \<Rightarrow> Some (m, bs)) es"

lemma map_keys_simps [simp]:
  "map_keys [] = []" "map_keys (Pkt_byte i # es) = map_keys es" "map_keys (Map_key m bs # es) = (m, bs) # map_keys es"
  by (simp_all add: map_keys_def List.map_filter_simps)

lemma set_map_keys: "(m, bs) \<in> set (map_keys es) \<longleftrightarrow> Map_key m bs \<in> set es"
proof (induction es)
  case (Cons e es)
  then show ?case by (cases e) auto
qed simp

lemma reported_Cons:
  "reported klen (e # es) \<Longrightarrow> reported klen es"
  "reported klen (Map_key m bs # es) \<Longrightarrow> CHR ''.'' \<notin> set m"
  by (auto simp: reported_def)

lemma getMaps_show: "reported klen es \<Longrightarrow> getMaps (map show_elem es) = Some (map (\<lambda>(m, bs). (m, show_key 0 bs)) (map_keys es))"
proof (induction es)
  case (Cons e es)
  have IH: "getMaps (map show_elem es) = Some (map (\<lambda>(m, bs). (m, show_key 0 bs)) (map_keys es))"
    using Cons by (simp add: reported_Cons)
  show ?case
  proof (cases e)
    case (Map_key m bs)
    have "starts_with ''map:'' (show_elem e)" by (simp add: Map_key)
    moreover have "map_elem (show_elem e) = Some (m, show_key 0 bs)"
      using Cons.prems by (simp add: Map_key reported_Cons map_elem_show del: show_elem.simps)
    ultimately show ?thesis using IH by (simp add: Map_key del: show_elem.simps)
  qed (use IH in simp)
qed simp

lemma keys_of_show:
  "keys_of m (map (\<lambda>(m, bs). (m, show_key 0 bs)) mks) = map (show_key 0) (map snd (filter (\<lambda>mk. fst mk = m) mks))"
  by (induction mks) (auto simp: keys_of_def)

lemma overlap_loop_show:
  assumes "\<forall>(m, bs) \<in> set (mks1 @ mks2). bs \<noteq> [] \<and> length bs = klen m"
    and "\<forall>m \<in> set ms. m \<in> fst ` set mks1 \<and> m \<in> fst ` set mks2"
  defines "sh \<equiv> map (\<lambda>(m, bs). (m, show_key 0 bs))"
  shows "\<exists>r. overlap_loop ms (sh mks1) (sh mks2) acc = Some r \<and>
    (r = [] \<longleftrightarrow> acc = [] \<and> (\<forall>m \<in> set ms. \<forall>bs cs. (m, bs) \<in> set mks1 \<longrightarrow> (m, cs) \<in> set mks2 \<longrightarrow> \<not> compatible bs cs))"
  using assms(2)
proof (induction ms arbitrary: acc)
  case (Cons m ms)
  let ?b1 = "map snd (filter (\<lambda>mk. fst mk = m) mks1)" and ?b2 = "map snd (filter (\<lambda>mk. fst mk = m) mks2)"
  have mem: "(bs \<in> set ?b1) = ((m, bs) \<in> set mks1)" "(bs \<in> set ?b2) = ((m, bs) \<in> set mks2)" for bs by force+
  have ne: "?b1 \<noteq> []" using Cons.prems by (auto simp: filter_empty_conv)
  have wf: "\<forall>bs \<in> set (?b1 @ ?b2). bs \<noteq> [] \<and> length bs = klen m" using assms(1) by fastforce
  obtain found where f: "map_overlap m (map (show_key 0) ?b1) (map (show_key 0) ?b2) = Some found"
      "found = [] \<longleftrightarrow> (\<forall>bs \<in> set ?b1. \<forall>cs \<in> set ?b2. \<not> compatible bs cs)"
    using map_overlap_show [OF ne wf, of m] by blast
  have "hd ?b1 \<in> set (?b1 @ ?b2)" using hd_in_set [OF ne] by (simp only: set_append) blast
  then have "contains ''b0'' (show_key 0 (hd ?b1))" using wf by (intro contains_b0) blast
  then have "list_ex (contains ''b0'') (map (show_key 0) ?b1 @ map (show_key 0) ?b2)"
    using ne by (cases ?b1) (simp_all del: map_map)
  moreover obtain r where r: "overlap_loop ms (sh mks1) (sh mks2) (acc @ found) = Some r"
      "r = [] \<longleftrightarrow> acc @ found = [] \<and> (\<forall>m \<in> set ms. \<forall>bs cs. (m, bs) \<in> set mks1 \<longrightarrow> (m, cs) \<in> set mks2 \<longrightarrow> \<not> compatible bs cs)"
    using Cons.IH [of "acc @ found"] Cons.prems by (metis list.set_intros(2))
  ultimately have "overlap_loop (m # ms) (sh mks1) (sh mks2) acc = Some r"
    using f(1) r(1) by (simp only: overlap_loop.simps sh_def keys_of_show Let_def if_False not_True_eq_False Option.bind.bind_lunit)
  moreover have "r = [] \<longleftrightarrow> acc = [] \<and> (\<forall>m \<in> set (m # ms). \<forall>bs cs. (m, bs) \<in> set mks1 \<longrightarrow> (m, cs) \<in> set mks2 \<longrightarrow> \<not> compatible bs cs)"
    unfolding r(2) append_is_Nil_conv f(2) Ball_def mem by auto
  ultimately show ?case by blast
qed simp

lemma show_key_inj: "show_key i bs = show_key i cs \<Longrightarrow> bs = cs"
proof -
  assume "show_key i bs = show_key i cs"
  then have "map (\<lambda>b. show_byte b @ '')_'') bs = map (\<lambda>b. show_byte b @ '')_'') cs"
    using re_split_show_key [of "[]" i bs] re_split_show_key [of "[]" i cs] by simp
  then show ?thesis by (rule map_injective) (simp add: inj_def)
qed

lemma show_elem_inj:
  assumes "reported klen [e, f]" "show_elem e = show_elem f"
  shows "e = f"
proof (cases e)
  case (Pkt_byte i)
  then show ?thesis using assms(2) by (cases f) auto
next
  case (Map_key m bs)
  with assms(2) obtain n cs where f: "f = Map_key n cs" by (cases f) auto
  have "CHR ''.'' \<notin> set m" "CHR ''.'' \<notin> set n"
    using assms(1) by (auto simp: reported_def Map_key f)
  then have "(m, show_key 0 bs) = (n, show_key 0 cs)"
    using assms(2) by (metis Map_key f map_elem_show option.inject)
  then show ?thesis using show_key_inj [of 0 bs cs] by (simp add: Map_key f)
qed

lemma cells_nonempty: "cells e \<noteq> {}"
proof (cases e)
  case (Map_key m bs)
  have "list_all2 (\<lambda>b k. b = None \<or> b = Some k) bs (map (\<lambda>b. case b of None \<Rightarrow> 0 | Some k \<Rightarrow> k) bs)"
    by (induction bs) (auto split: option.splits)
  then show ?thesis by (auto simp: Map_key)
qed simp

lemma cells_disjoint_iff:
  assumes "reported klen [e, f]"
  shows "cells e \<inter> cells f = {} \<longleftrightarrow> e \<noteq> f \<and>
    (\<forall>m bs cs. e = Map_key m bs \<longrightarrow> f = Map_key m cs \<longrightarrow> \<not> compatible bs cs)"
proof (cases "\<exists>m bs cs. e = Map_key m bs \<and> f = Map_key m cs")
  case True
  then obtain m bs cs where ef: "e = Map_key m bs" "f = Map_key m cs" by blast
  then have "length bs = length cs" using assms by (auto simp: reported_def)
  moreover have "compatible bs bs" by (simp add: compatible_def list_all2_refl)
  ultimately show ?thesis using compatible_cells [of bs cs m] ef by auto
next
  case False
  then show ?thesis using cells_nonempty [of e] by (cases e; cases f) auto
qed

lemma reported_sub: "reported klen es \<Longrightarrow> set es' \<subseteq> set es \<Longrightarrow> reported klen es'"
  by (auto simp: reported_def)

lemma reported_map_keys:
  "reported klen es \<Longrightarrow> reported klen es' \<Longrightarrow> \<forall>(m, bs) \<in> set (map_keys es @ map_keys es'). bs \<noteq> [] \<and> length bs = klen m"
  unfolding reported_def by (auto simp: set_map_keys; metis)

lemma common_keys:
  "(\<forall>m \<in> fst ` A \<inter> fst ` B. \<forall>bs cs. (m, bs) \<in> A \<longrightarrow> (m, cs) \<in> B \<longrightarrow> P bs cs) \<longleftrightarrow>
    (\<forall>m bs cs. (m, bs) \<in> A \<longrightarrow> (m, cs) \<in> B \<longrightarrow> P bs cs)"
proof (intro iffI allI impI)
  fix m bs cs
  assume h: "\<forall>m \<in> fst ` A \<inter> fst ` B. \<forall>bs cs. (m, bs) \<in> A \<longrightarrow> (m, cs) \<in> B \<longrightarrow> P bs cs" "(m, bs) \<in> A" "(m, cs) \<in> B"
  have "m \<in> fst ` A \<inter> fst ` B" using h(2,3) by force
  with h show "P bs cs" by blast
qed blast

lemma determineOverlap_show:
  assumes "reported klen es1" "reported klen es2" "\<And>ms. set (order ms) = set ms"
  defines "i \<equiv> filter (\<lambda>e. e \<in> set (map show_elem es2)) (map show_elem es1)"
  shows "\<exists>r. determineOverlap order (map show_elem es1) (map show_elem es2) = Some r \<and>
    (r = [] \<longleftrightarrow> i = [] \<and> (\<forall>m bs cs. Map_key m bs \<in> set es1 \<longrightarrow> Map_key m cs \<in> set es2 \<longrightarrow> \<not> compatible bs cs))"
proof -
  let ?f1 = "filter (\<lambda>e. show_elem e \<notin> set i) es1" and ?f2 = "filter (\<lambda>e. show_elem e \<notin> set i) es2"
  let ?sh = "map (\<lambda>(m, bs). (m, show_key 0 bs))"
  let ?ms = "remdups (filter (\<lambda>m. m \<in> fst ` set (?sh (map_keys ?f2))) (map fst (?sh (map_keys ?f1))))"
  have rep: "reported klen ?f1" "reported klen ?f2" by (rule reported_sub [OF assms(1)], simp) (rule reported_sub [OF assms(2)], simp)
  have g: "getMaps (filter (\<lambda>e. e \<notin> set i) (map show_elem es1)) = Some (?sh (map_keys ?f1))"
      "getMaps (filter (\<lambda>e. e \<notin> set i) (map show_elem es2)) = Some (?sh (map_keys ?f2))"
    using getMaps_show [OF rep(1)] getMaps_show [OF rep(2)] by (simp_all add: filter_map comp_def)
  have fs: "fst ` set (?sh mks) = fst ` set mks" "set (map fst (?sh mks)) = fst ` set mks"
    for mks :: "(string \<times> nat option list) list" by force+
  have ms: "set ?ms = fst ` set (map_keys ?f1) \<inter> fst ` set (map_keys ?f2)"
    by (simp only: set_remdups set_filter fs) blast
  have res: "\<exists>r. overlap_loop ms (?sh (map_keys ?f1)) (?sh (map_keys ?f2)) i = Some r \<and> (r = [] \<longleftrightarrow> i = [] \<and>
      (\<forall>m \<in> set ms. \<forall>bs cs. (m, bs) \<in> set (map_keys ?f1) \<longrightarrow> (m, cs) \<in> set (map_keys ?f2) \<longrightarrow> \<not> compatible bs cs))"
    if "set ms = set ?ms" for ms
    by (rule overlap_loop_show [OF reported_map_keys [OF rep]]) (unfold that ms, blast)
  have "determineOverlap order (map show_elem es1) (map show_elem es2) =
      (if ?ms = [] then Some i else overlap_loop (order ?ms) (?sh (map_keys ?f1)) (?sh (map_keys ?f2)) i)"
    unfolding determineOverlap_def Let_def i_def [symmetric] g by (simp only: Option.bind.bind_lunit)
  also have "\<dots> = overlap_loop (if ?ms = [] then [] else order ?ms) (?sh (map_keys ?f1)) (?sh (map_keys ?f2)) i"
    by simp
  finally have eq: "determineOverlap order (map show_elem es1) (map show_elem es2) =
      overlap_loop (if ?ms = [] then [] else order ?ms) (?sh (map_keys ?f1)) (?sh (map_keys ?f2)) i" .
  have l: "set (if ?ms = [] then [] else order ?ms) = set ?ms" using assms(3) by (cases "?ms = []") auto
  note res [OF l, folded eq, unfolded l]
  moreover have "(\<forall>m \<in> set ?ms. \<forall>bs cs. (m, bs) \<in> set (map_keys ?f1) \<longrightarrow> (m, cs) \<in> set (map_keys ?f2) \<longrightarrow> \<not> compatible bs cs) \<longleftrightarrow>
      (\<forall>m bs cs. Map_key m bs \<in> set es1 \<longrightarrow> Map_key m cs \<in> set es2 \<longrightarrow> \<not> compatible bs cs)" if "i = []"
  proof -
    have f: "?f1 = es1" "?f2 = es2" using that by simp_all
    show ?thesis unfolding ms unfolding f set_map_keys [symmetric] by (rule common_keys)
  qed
  ultimately show ?thesis by blast
qed

lemma determineOverlap_iff:
  assumes "reported klen es1" "reported klen es2" "\<And>ms. set (order ms) = set ms"
  shows "\<exists>r. determineOverlap order (map show_elem es1) (map show_elem es2) = Some r \<and>
    (r = [] \<longleftrightarrow> (\<forall>e \<in> set es1. \<forall>f \<in> set es2. cells e \<inter> cells f = {}))"
proof -
  have rep: "reported klen [e, f]" if "e \<in> set es1" "f \<in> set es2" for e f
    using that assms(1,2) by (auto simp: reported_def)
  have "filter (\<lambda>e. e \<in> set (map show_elem es2)) (map show_elem es1) = [] \<longleftrightarrow> (\<forall>e \<in> set es1. \<forall>f \<in> set es2. e \<noteq> f)"
  proof -
    have "show_elem e \<in> show_elem ` set es2 \<longleftrightarrow> e \<in> set es2" if "e \<in> set es1" for e
      using that show_elem_inj [OF rep [OF that]] by blast
    then show ?thesis unfolding filter_empty_conv set_map ball_simps by blast
  qed
  moreover have "(\<forall>e \<in> set es1. \<forall>f \<in> set es2. cells e \<inter> cells f = {}) \<longleftrightarrow> (\<forall>e \<in> set es1. \<forall>f \<in> set es2. e \<noteq> f) \<and>
      (\<forall>m bs cs. Map_key m bs \<in> set es1 \<longrightarrow> Map_key m cs \<in> set es2 \<longrightarrow> \<not> compatible bs cs)"
  proof -
    have "(\<forall>e \<in> set es1. \<forall>f \<in> set es2. cells e \<inter> cells f = {}) \<longleftrightarrow> (\<forall>e \<in> set es1. \<forall>f \<in> set es2. e \<noteq> f \<and>
        (\<forall>m bs cs. e = Map_key m bs \<longrightarrow> f = Map_key m cs \<longrightarrow> \<not> compatible bs cs))"
      by (intro ball_cong refl cells_disjoint_iff [where klen = klen] rep)
    also have "\<dots> \<longleftrightarrow> (\<forall>e \<in> set es1. \<forall>f \<in> set es2. e \<noteq> f) \<and>
        (\<forall>m bs cs. Map_key m bs \<in> set es1 \<longrightarrow> Map_key m cs \<in> set es2 \<longrightarrow> \<not> compatible bs cs)"
      by (simp only: ball_conj_distrib) (intro conj_cong refl, auto)
    finally show ?thesis .
  qed
  ultimately show ?thesis using determineOverlap_show [OF assms] by simp
qed

text \<open>
  Property C22. The interference analysis is exact on the sets symbolic execution prints, when
  every key of a map has the same number of bytes and all keys are printed byte by byte: for
  every order in which the common maps are visited, it terminates without an exception and
  finds no overlap if and only if no memory cell is denoted by an element of both sets.
\<close>

theorem overlap_exact:
  assumes "reported klen es1" "reported klen es2" "\<And>ms. set (order ms) = set ms"
  shows "\<exists>r. determineOverlap order (map show_elem es1) (map show_elem es2) = Some r \<and>
    (r = [] \<longleftrightarrow> (\<forall>e \<in> set es1. \<forall>f \<in> set es2. cells e \<inter> cells f = {}))"
  using determineOverlap_iff [OF assms] .

theorem overlap_exact_witness:
  "\<exists>r. determineOverlap rev (map show_elem [Pkt_byte 12, Map_key ''m'' [Some 3, None]]) (map show_elem [Map_key ''m'' [Some 3, Some 9]]) = Some r \<and> r \<noteq> []"
proof -
  let ?es = "[Pkt_byte 12, Map_key ''m'' [Some 3, None]]" and ?fs = "[Map_key ''m'' [Some 3, Some 9]]"
  have "Map_cell ''m'' [3, 9] \<in> cells (Map_key ''m'' [Some 3, None]) \<inter> cells (Map_key ''m'' [Some 3, Some 9])" by simp
  then have "\<not> (\<forall>e \<in> set ?es. \<forall>f \<in> set ?fs. cells e \<inter> cells f = {})" by auto
  then show ?thesis
    using overlap_exact [of "\<lambda>_. 2" ?es ?fs rev] by (auto simp: reported_def)
qed

section \<open>Numeric keys\<close>

fun le_value :: "nat list \<Rightarrow> nat" where
  "le_value [] = 0"
| "le_value (b # bs) = b + 256 * le_value bs"

definition hex_value :: "nat list \<Rightarrow> nat" where
  "hex_value ds = foldl (\<lambda>n d. 16 * n + d) 0 ds"

lemma hex_value_snoc: "hex_value (ds @ [d]) = 16 * hex_value ds + d"
  by (simp add: hex_value_def)

lemma hex_value_digits: "hex_value (hex_digits n) = n"
proof (induction n rule: hex_digits.induct)
  case (1 n)
  then show ?case by (subst hex_digits.simps) (auto simp: hex_value_snoc, simp add: hex_value_def)
qed

lemma hex_digits_nonempty: "hex_digits n \<noteq> []"
  by (subst hex_digits.simps) auto

lemma hd_hex_digits: "0 < n \<Longrightarrow> 0 < hd (hex_digits n)"
proof (induction n rule: hex_digits.induct)
  case (1 n)
  then show ?case by (subst hex_digits.simps) (auto simp: hex_digits_nonempty)
qed

lemma le_value_hex_pairs: "le_value (hex_pairs h) = hex_value (drop (length h mod 2) h)"
proof (induction h rule: hex_pairs.induct)
  case (1 h)
  show ?case
  proof (cases "length h < 2")
    case True
    then show ?thesis by (subst hex_pairs.simps) (cases h; auto simp: hex_value_def)
  next
    case False
    have "h = take (length h - 2) h @ [h ! (length h - 2), h ! (length h - 1)]"
      using False by (intro nth_equalityI) (auto simp: nth_append nth_Cons' intro!: arg_cong [of _ _ "nth h"])
    then obtain g x y where h: "h = g @ [x, y]" by blast
    have "hex_value (drop (length h mod 2) h) = 16 * (16 * hex_value (drop (length g mod 2) g) + x) + y"
    proof -
      have "length g mod 2 - length g = 0" by simp
      then show ?thesis by (simp add: h hex_value_def)
    qed
    moreover have "le_value (hex_pairs g) = hex_value (drop (length g mod 2) g)"
      using 1 [OF False] by (simp add: h)
    ultimately show ?thesis by (subst hex_pairs.simps) (simp add: h nth_append)
  qed
qed

lemma hex_value_Cons: "hex_value (d # ds) = d * 16 ^ length ds + hex_value ds"
proof (induction ds rule: rev_induct)
  case (snoc e ds)
  then show ?case using hex_value_snoc [of "d # ds" e] hex_value_snoc [of ds e] by simp
qed (simp add: hex_value_def)

lemma numeric_key_bytes:
  assumes "0 < n"
  shows "le_value (hex_pairs (hex_digits n)) = n \<longleftrightarrow> even (length (hex_digits n))"
proof (cases "even (length (hex_digits n))")
  case True
  then show ?thesis by (simp add: le_value_hex_pairs hex_value_digits)
next
  case False
  obtain d ds where h: "hex_digits n = d # ds" using hex_digits_nonempty [of n] by (cases "hex_digits n") auto
  have "0 < d * 16 ^ length ds" using hd_hex_digits [OF assms] by (simp add: h)
  moreover have "n = d * 16 ^ length ds + hex_value ds" using hex_value_digits [of n] by (simp add: h hex_value_Cons)
  moreover have "le_value (hex_pairs (hex_digits n)) = hex_value ds"
    using False by (simp add: le_value_hex_pairs h mod_Suc odd_iff_mod_2_eq_one)
  ultimately show ?thesis using False by simp
qed

text \<open>
  Property C40. Where the analysis is not sound. A numeric key is cut into bytes correctly exactly
  when it has an even number of hexadecimal digits, otherwise its first digit is lost; so key 10
  is not recognised in the byte-wise key 10, 0. And a common map with numeric keys only ends the
  search, so that whether the overlap in another map is found depends on the order in which
  Python happens to visit the maps.
\<close>

theorem overlap_missed:
  "(\<forall>n. n = 0 \<or> (le_value (hex_pairs (hex_digits n)) = n \<longleftrightarrow> even (length (hex_digits n)))) \<and>
   determineOverlap id [''map:m.10''] [''map:m.b0(10)_b1(0)_''] = Some [] \<and>
   determineOverlap id [''map:a.17'', ''map:c.b0(sym)_''] [''map:a.18'', ''map:c.b0(5)_''] = Some [] \<and>
   determineOverlap rev [''map:a.17'', ''map:c.b0(sym)_''] [''map:a.18'', ''map:c.b0(5)_''] = Some [''c.b0(sym)_'']"
proof (intro conjI allI impI)
  show "n = 0 \<or> (le_value (hex_pairs (hex_digits n)) = n \<longleftrightarrow> even (length (hex_digits n)))" for n
    using numeric_key_bytes [of n] by auto
qed code_simp+

end
