(* ===== verification/Two_Programs.thy ===== *)
theory Two_Programs
  imports Rw_Analysis Net_Headers
begin

text \<open>
  What the interference analysis is for: two programs on one hook. The locale \<open>footprint\<close> says
  what it means for a program to read and write no memory cells but those of two given sets;
  programs with disjoint footprints can run in either order. The theory then treats the two
  pairs of programs of the repository that share maps:
  src/examples/evaluation-two-program-no-overlap and src/examples/evaluation-two-program-map.
\<close>

section \<open>Footprints\<close>

locale footprint =
  fixes cell :: "'s \<Rightarrow> 'c \<Rightarrow> 'v" and run :: "'s \<Rightarrow> ('r \<times> 's) option" and reads :: "'c set" and writes :: "'c set"
  assumes run_total: "\<exists>r t. run s = Some (r, t)"
    and run_frame: "run s = Some (r, s') \<Longrightarrow> c \<notin> writes \<Longrightarrow> cell s' c = cell s c"
    and run_local: "run s = Some (r, s') \<Longrightarrow> run t = Some (q, t') \<Longrightarrow> (\<And>c. c \<in> reads \<Longrightarrow> cell s c = cell t c) \<Longrightarrow>
      r = q \<and> (cell s' c = cell t' c \<or> cell s' c = cell s c \<and> cell t' c = cell t c)"

text \<open>Running two programs one after the other, in both orders.\<close>

definition run_both :: "('s \<Rightarrow> ('r \<times> 's) option) \<Rightarrow> ('s \<Rightarrow> ('q \<times> 's) option) \<Rightarrow> 's \<Rightarrow> ('r \<times> 'q \<times> 's) option" where
  "run_both f g s = do { (r, s) \<leftarrow> f s; (q, s) \<leftarrow> g s; Some (r, q, s) }"

definition run_both_swapped :: "('s \<Rightarrow> ('r \<times> 's) option) \<Rightarrow> ('s \<Rightarrow> ('q \<times> 's) option) \<Rightarrow> 's \<Rightarrow> ('r \<times> 'q \<times> 's) option" where
  "run_both_swapped f g s = do { (q, s) \<leftarrow> g s; (r, s) \<leftarrow> f s; Some (r, q, s) }"

locale independent_programs =
  first: footprint cell f R1 W1 + second: footprint cell g R2 W2
  for cell :: "'s \<Rightarrow> 'c \<Rightarrow> 'v" and f :: "'s \<Rightarrow> ('r \<times> 's) option" and g :: "'s \<Rightarrow> ('q \<times> 's) option"
    and R1 W1 R2 W2 :: "'c set" +
  assumes same_cells: "(\<And>c. cell s c = cell t c) \<Longrightarrow> s = t"
    and disjoint: "R1 \<inter> W2 = {}" "W1 \<inter> R2 = {}" "W1 \<inter> W2 = {}"
begin

lemma commute: "run_both f g s = run_both_swapped f g s"
proof -
  obtain r s1 where f: "f s = Some (r, s1)" using first.run_total by blast
  obtain q s2 where g: "g s = Some (q, s2)" using second.run_total by blast
  obtain r' s21 where f2: "f s2 = Some (r', s21)" using first.run_total by blast
  obtain q' s12 where g1: "g s1 = Some (q', s12)" using second.run_total by blast
  have fr: "c \<notin> W1 \<Longrightarrow> cell s1 c = cell s c" "c \<notin> W1 \<Longrightarrow> cell s21 c = cell s2 c"
      "c \<notin> W2 \<Longrightarrow> cell s2 c = cell s c" "c \<notin> W2 \<Longrightarrow> cell s12 c = cell s1 c" for c
    using first.run_frame [OF f] first.run_frame [OF f2] second.run_frame [OF g] second.run_frame [OF g1] by blast+
  have R1: "c \<in> R1 \<Longrightarrow> cell s c = cell s2 c" and R2: "c \<in> R2 \<Longrightarrow> cell s c = cell s1 c" for c
    using fr(1,3) [of c] disjoint by force+
  note f_local = first.run_local [OF f f2 R1] and g_local = second.run_local [OF g g1 R2]
  have "cell s12 c = cell s21 c" for c
  proof (cases "c \<in> W1")
    case True
    then have "c \<notin> W2" using disjoint by blast
    then show ?thesis using fr [of c] f_local [of c] by auto
  next
    case False
    then show ?thesis using fr [of c] g_local [of c] by auto
  qed
  then have "s12 = s21" by (rule same_cells)
  then show ?thesis
    using f g f2 g1 f_local g_local by (simp add: run_both_def run_both_swapped_def)
qed

end

section \<open>The analysis decides independence\<close>

definition denoted :: "rw_elem list \<Rightarrow> mem_cell set" where
  "denoted es = \<Union> (cells ` set es)"

lemma denoted_disjoint: "(\<forall>e \<in> set es. \<forall>f \<in> set fs. cells e \<inter> cells f = {}) \<longleftrightarrow> denoted es \<inter> denoted fs = {}"
  by (auto simp: denoted_def)

text \<open>
  Property C18. What the analysis promises, for sets whose map keys are all printed byte by byte
  (the concatenations of the executor), with one key length per map and no dot in a map's name
  (\<open>reported\<close>): if two programs touch only the cells of their reported read and write sets, and
  these cells are all the state there is, the analysis ends with an answer, and when it reports
  no overlap the two programs can run in either order, with the same verdicts and the same final
  memory. It does not extend to keys printed as integers, for which overlaps are missed: see the
  property on \<open>overlap_missed\<close>.
\<close>

theorem analysis_sound:
  assumes "reported klen (r1 @ w1)" "reported klen (r2 @ w2)" "\<And>ms. set (order ms) = set ms"
    and "footprint cell f (denoted r1) (denoted w1)" "footprint cell g (denoted r2) (denoted w2)"
    and "\<And>s t. (\<And>c. cell s c = cell t c) \<Longrightarrow> s = t"
  shows "\<exists>found. readWriteSetAnalysis order (map show_elem r1, map show_elem w1) (map show_elem r2, map show_elem w2) = Some found \<and>
    (\<not> found \<longrightarrow> run_both f g s = run_both_swapped f g s)"
proof -
  have rep: "reported klen r1" "reported klen w1" "reported klen r2" "reported klen w2"
    by (auto intro: reported_sub [OF assms(1)] reported_sub [OF assms(2)])
  obtain a b c where o: "determineOverlap order (map show_elem r1) (map show_elem w2) = Some a" "a = [] \<longleftrightarrow> denoted r1 \<inter> denoted w2 = {}"
      "determineOverlap order (map show_elem w1) (map show_elem r2) = Some b" "b = [] \<longleftrightarrow> denoted w1 \<inter> denoted r2 = {}"
      "determineOverlap order (map show_elem w1) (map show_elem w2) = Some c" "c = [] \<longleftrightarrow> denoted w1 \<inter> denoted w2 = {}"
    using determineOverlap_iff [OF rep(1,4) assms(3)] determineOverlap_iff [OF rep(2,3) assms(3)]
      determineOverlap_iff [OF rep(2,4) assms(3)] unfolding denoted_disjoint by blast
  have "run_both f g s = run_both_swapped f g s" if "a = []" "b = []" "c = []"
  proof (rule independent_programs.commute)
    show "independent_programs cell f g (denoted r1) (denoted w1) (denoted r2) (denoted w2)"
      using assms(4-6) o(2,4,6) that by (simp add: independent_programs_def independent_programs_axioms_def)
  qed
  then show ?thesis by (auto simp: readWriteSetAnalysis_def o)
qed

section \<open>No overlap (evaluation-two-program-no-overlap)\<close>

text \<open>
  The map \<open>macs\<close> is keyed by the four bytes of the destination address. The first program
  rewrites the destination MAC address of a known host; the second only compares addresses.
\<close>

type_synonym macs_state = "(bytes \<rightharpoonup> bytes) \<times> bytes"

fun local_memcmp :: "bytes \<Rightarrow> nat \<Rightarrow> nat \<Rightarrow> nat \<Rightarrow> int option" where
  "local_memcmp p s1 s2 0 = Some 0"
| "local_memcmp p s1 s2 (Suc n) =
     do { x \<leftarrow> ld8 p s1; y \<leftarrow> ld8 p s2;
          if x \<noteq> y then Some (uint x - uint y) else local_memcmp p (s1 + 1) (s2 + 1) n }"

definition macs_first_prog :: "macs_state \<Rightarrow> (int \<times> macs_state) option" where
  "macs_first_prog s =
     (let (macs, p) = s in
      if length p < sizeof_eth then Some (XDP_DROP, macs, p)
      else do {
        h_proto \<leftarrow> ld16 p 12;
        if h_proto = 8 then
          if length p < sizeof_eth + sizeof_iphdr then Some (XDP_DROP, macs, p)
          else do {
            daddr \<leftarrow> ldn p (sizeof_eth + 16) 4;
            case macs daddr of None \<Rightarrow> Some (XDP_DROP, macs, p)
            | Some target \<Rightarrow> do { p \<leftarrow> stn p 0 (take 6 target); Some (XDP_PASS, macs, p) } }
        else Some (XDP_PASS, macs, p) })"

definition macs_second_prog :: "macs_state \<Rightarrow> (int \<times> macs_state) option" where
  "macs_second_prog s =
     (let (macs, p) = s in
      if length p < sizeof_eth then Some (XDP_DROP, macs, p)
      else do {
        h_proto \<leftarrow> ld16 p 12;
        if h_proto = 8 then Some (XDP_PASS, macs, p)
        else do { differ \<leftarrow> local_memcmp p 0 6 6;
                  if differ = 0 then Some (XDP_PASS, macs, p) else Some (XDP_PASS, macs, p) } })"

definition macs_combined :: "macs_state \<Rightarrow> (int \<times> macs_state) option" where
  "macs_combined s =
     do { (ret1, s) \<leftarrow> macs_first_prog s;
          (ret2, s) \<leftarrow> macs_second_prog s;
          Some (if ret1 \<noteq> XDP_PASS then ret1 else ret2, s) }"

text \<open>The memory cells of a state: a byte outside the packet is \<open>None\<close>.\<close>

fun macs_cell :: "macs_state \<Rightarrow> mem_cell \<Rightarrow> bytes option" where
  "macs_cell (macs, p) (Pkt_cell i) = (if i < length p then Some [p ! i] else None)"
| "macs_cell (macs, p) (Map_cell m ks) =
     (if m = ''macs'' \<and> list_all (\<lambda>k. k < 256) ks then macs (map of_nat ks) else None)"

lemma macs_same_cells:
  assumes "\<And>c. macs_cell s c = macs_cell t c"
  shows "s = t"
proof -
  obtain m p n q where st: "s = (m, p)" "t = (n, q)" by fastforce
  have byte: "(if i < length p then Some [p ! i] else None) = (if i < length q then Some [q ! i] else None)" for i
    using assms [of "Pkt_cell i"] st by simp
  have "length p = length q" using byte [of "length p"] byte [of "length q"] by (auto split: if_splits)
  moreover have "p ! i = q ! i" if "i < length p" for i
    using byte [of i] that calculation by simp
  ultimately have "p = q" by (rule nth_equalityI)
  moreover have "m = n"
  proof
    fix k :: bytes
    have "map of_nat (map unat k) = k" by (simp add: map_idI)
    then show "m k = n k"
      using assms [of "Map_cell ''macs'' (map unat k)"] st unat_lt_256 by (simp add: list_all_iff)
  qed
  ultimately show ?thesis using st by simp
qed

text \<open>What the programs do, and their footprints.\<close>

lemma eth_ip_bytes: "14 \<le> length p \<Longrightarrow> of_nat (le_val (take 2 (drop 12 p))) = (8 :: u16) \<longleftrightarrow> p ! 12 = 8 \<and> p ! 13 = 0"
proof -
  assume l: "14 \<le> length p"
  have t: "take 2 (drop 12 p) = [p ! 12, p ! 13]"
    using l by (intro nth_equalityI) (auto simp: less_Suc_eq nth_Cons' numeral_2_eq_2)
  have "of_nat (le_val [8, 0]) = (8 :: u16)" by simp
  then show ?thesis using le_bytes_ld16 [of "[p ! 12, p ! 13]"] le_bytes_ld16 [of "[8, 0]"] unfolding t by fastforce
qed

lemma macs_first_prog_result:
  "macs_first_prog (m, p) = Some
     (if length p < 14 then (XDP_DROP, m, p)
      else if p ! 12 \<noteq> 8 \<or> p ! 13 \<noteq> 0 then (XDP_PASS, m, p)
      else if length p < 34 then (XDP_DROP, m, p)
      else case m [p ! 30, p ! 31, p ! 32, p ! 33] of None \<Rightarrow> (XDP_DROP, m, p)
        | Some target \<Rightarrow> (XDP_PASS, m, put p 0 (take 6 target)))"
proof -
  have k: "take 4 (drop 30 p) = [p ! 30, p ! 31, p ! 32, p ! 33]" if "34 \<le> length p"
    using that by (intro nth_equalityI) (auto simp: less_Suc_eq nth_Cons' numeral_eq_Suc)
  show ?thesis
    using eth_ip_bytes [of p] k
    by (auto simp: macs_first_prog_def ld16_def ldn_def stn_put split: option.splits)
qed

lemma local_memcmp_total: "s1 + n \<le> length p \<Longrightarrow> s2 + n \<le> length p \<Longrightarrow> \<exists>r. local_memcmp p s1 s2 n = Some r"
  by (induction p s1 s2 n rule: local_memcmp.induct) (auto simp: ld8_def)

lemma local_memcmp_eq_0: "s1 + n \<le> length p \<Longrightarrow> s2 + n \<le> length p \<Longrightarrow>
    local_memcmp p s1 s2 n = Some 0 \<longleftrightarrow> (\<forall>i < n. p ! (s1 + i) = p ! (s2 + i))"
  by (induction p s1 s2 n rule: local_memcmp.induct) (auto simp: ld8_def All_less_Suc2 dest: unsigned_word_eqI)

lemma macs_second_prog_result:
  "macs_second_prog (m, p) = Some (if length p < 14 then XDP_DROP else XDP_PASS, m, p)"
proof (cases "length p < 14")
  case False
  then obtain r where "local_memcmp p 0 6 6 = Some r" using local_memcmp_total [of 0 6 p 6] by auto
  then show ?thesis using False by (simp add: macs_second_prog_def ld16_def ldn_def)
qed (simp add: macs_second_prog_def)

definition macs_reads :: "rw_elem list" where
  "macs_reads = map Pkt_byte [12, 13, 30, 31, 32, 33] @ [Map_key ''macs'' (replicate 4 None)]"

definition macs_writes :: "rw_elem list" where
  "macs_writes = map Pkt_byte [0, 1, 2, 3, 4, 5]"

lemma macs_cell_agree:
  "macs_cell (m, p) (Pkt_cell i) = macs_cell (n, q) (Pkt_cell i) \<longleftrightarrow> (i < length p \<longleftrightarrow> i < length q) \<and> (i < length p \<longrightarrow> p ! i = q ! i)"
  by auto

lemma macs_second_footprint: "footprint macs_cell macs_second_prog (denoted (map Pkt_byte [12, 13])) (denoted [])"
proof
  fix s t r s' q t' c
  assume s: "macs_second_prog s = Some (r, s')" "macs_second_prog t = Some (q, t')"
    and agree: "\<And>c. c \<in> denoted (map Pkt_byte [12, 13]) \<Longrightarrow> macs_cell s c = macs_cell t c"
  have "macs_cell s (Pkt_cell 13) = macs_cell t (Pkt_cell 13)" by (rule agree) (simp add: denoted_def)
  then show "r = q \<and> (macs_cell s' c = macs_cell t' c \<or> macs_cell s' c = macs_cell s c \<and> macs_cell t' c = macs_cell t c)"
    using s by (cases s; cases t) (auto simp: macs_second_prog_result split: if_splits)
qed (auto simp: macs_second_prog_result)

lemma macs_first_footprint: "footprint macs_cell macs_first_prog (denoted macs_reads) (denoted macs_writes)"
proof
  fix s r s' c
  assume "macs_first_prog s = Some (r, s')" "c \<notin> denoted macs_writes"
  then show "macs_cell s' c = macs_cell s c"
    by (cases s; cases c) (auto simp: macs_first_prog_result denoted_def macs_writes_def nth_put split: if_splits option.splits)
next
  fix s t r s' q t' c
  assume run: "macs_first_prog s = Some (r, s')" "macs_first_prog t = Some (q, t')"
    and agree: "\<And>c. c \<in> denoted macs_reads \<Longrightarrow> macs_cell s c = macs_cell t c"
  obtain m p n p' where st: "s = (m, p)" "t = (n, p')" by fastforce
  have byte: "(i < length p \<longleftrightarrow> i < length p') \<and> (i < length p \<longrightarrow> p ! i = p' ! i)" if "i \<in> {12, 13, 30, 31, 32, 33}" for i
    using agree [of "Pkt_cell i"] that unfolding st macs_cell_agree by (auto simp: denoted_def macs_reads_def)
  have key: "m [a, b, c, d] = n [a, b, c, d]" for a b c d
    using agree [of "Map_cell ''macs'' (map unat [a, b, c, d])"] unat_lt_256
    by (auto simp: st denoted_def macs_reads_def numeral_eq_Suc)
  have len: "length p < 14 \<longleftrightarrow> length p' < 14" "length p < 34 \<longleftrightarrow> length p' < 34"
    using byte [of 13] byte [of 33] by auto
  let ?k = "[p ! 30, p ! 31, p ! 32, p ! 33]"
  show "r = q \<and> (macs_cell s' c = macs_cell t' c \<or> macs_cell s' c = macs_cell s c \<and> macs_cell t' c = macs_cell t c)"
  proof (cases "34 \<le> length p \<and> p ! 12 = 8 \<and> p ! 13 = 0 \<and> m ?k \<noteq> None")
    case True
    then obtain target where target: "m ?k = Some target" by blast
    have k: "[p' ! 30, p' ! 31, p' ! 32, p' ! 33] = ?k"
      using byte [of 30] byte [of 31] byte [of 32] byte [of 33] True by simp
    have "p' ! 12 = 8 \<and> p' ! 13 = 0 \<and> 34 \<le> length p'" using True byte [of 12] byte [of 13] len by auto
    then have res: "r = XDP_PASS" "s' = (m, put p 0 (take 6 target))" "q = XDP_PASS" "t' = (n, put p' 0 (take 6 target))"
      using run True target key by (simp_all add: st macs_first_prog_result k)
    then show ?thesis using True len by (cases c) (auto simp: st nth_put)
  next
    case False
    then show ?thesis
      using run byte [of 12] byte [of 13] byte [of 30] byte [of 31] byte [of 32] byte [of 33] key len
      by (auto simp: st macs_first_prog_result split: if_splits option.splits)
  qed
qed (auto simp: macs_first_prog_result split: option.splits)

interpretation no_overlap: independent_programs macs_cell macs_first_prog macs_second_prog
  "denoted macs_reads" "denoted macs_writes" "denoted (map Pkt_byte [12, 13])" "denoted []"
proof (rule independent_programs.intro [OF macs_first_footprint macs_second_footprint])
  show "independent_programs_axioms macs_cell (denoted macs_reads) (denoted macs_writes) (denoted (map Pkt_byte [12, 13])) (denoted [])"
  proof
    show "s = t" if "\<And>c. macs_cell s c = macs_cell t c" for s t using that by (rule macs_same_cells)
  qed (simp_all add: denoted_def macs_reads_def macs_writes_def)
qed

text \<open>
  The pair of evaluation-two-program-no-overlap is independent: in either order both
  programs return the same verdicts and leave the same map and packet, and the combined entry
  point returns what the first program returns.
\<close>

lemma no_overlap_commutes:
  "run_both macs_first_prog macs_second_prog s = run_both_swapped macs_first_prog macs_second_prog s \<and>
   macs_combined s = macs_first_prog s"
proof
  show "run_both macs_first_prog macs_second_prog s = run_both_swapped macs_first_prog macs_second_prog s"
    by (rule no_overlap.commute)
  show "macs_combined s = macs_first_prog s"
    by (cases s) (auto simp: macs_combined_def macs_first_prog_result macs_second_prog_result split: option.splits)
qed

theorem analysis_sound_witness:
  "run_both macs_first_prog macs_second_prog ([[9, 9, 9, 9] \<mapsto> [1, 2, 3, 4, 5, 6]], replicate 12 0 @ [8, 0] @ replicate 20 9) =
    run_both_swapped macs_first_prog macs_second_prog ([[9, 9, 9, 9] \<mapsto> [1, 2, 3, 4, 5, 6]], replicate 12 0 @ [8, 0] @ replicate 20 9)"
proof -
  have "readWriteSetAnalysis rev (map show_elem macs_reads, map show_elem macs_writes)
      (map show_elem (map Pkt_byte [12, 13]), map show_elem []) = Some False"
    by code_simp
  moreover have "reported (\<lambda>_. 4) (macs_reads @ macs_writes)" "reported (\<lambda>_. 4) (map Pkt_byte [12, 13] @ [])"
    by (auto simp: reported_def macs_reads_def macs_writes_def)
  ultimately show ?thesis
    using analysis_sound [OF _ _ _ macs_first_footprint macs_second_footprint macs_same_cells, of "\<lambda>_. 4" rev] by auto
qed

section \<open>Shared maps (evaluation-two-program-map)\<close>

text \<open>
  A key of \<open>hash_map\<close> is the 12 bytes of \<open>struct simple_struct\<close>: \<open>c\<close> at 0, \<open>x\<close> at 4, \<open>y\<close> at 8, the rest
  padding. Both programs keep it in a local variable of which they set some fields only; its
  former contents are the argument \<open>hash_key\<close>. The update of a hash map may fail: it is a
  parameter. \<open>array_map\<close> has twelve entries.
\<close>

record shared_maps =
  hash_map :: "bytes \<rightharpoonup> u32"
  array_map :: "u32 list"

type_synonym hash_update = "(bytes \<rightharpoonup> u32) \<Rightarrow> bytes \<Rightarrow> u32 \<Rightarrow> (bytes \<rightharpoonup> u32) option"

definition array_lookup :: "u32 list \<Rightarrow> nat \<Rightarrow> u32 option" where
  "array_lookup a k = (if k < length a then Some (a ! k) else None)"

definition array_update :: "u32 list \<Rightarrow> nat \<Rightarrow> u32 \<Rightarrow> u32 list option" where
  "array_update a k v = (if k < length a then Some (a[k := v]) else None)"

text \<open>The checks both programs start with: \<open>True\<close> when the frame has a complete IPv4 header.\<close>

definition ip_frame :: "bytes \<Rightarrow> bool option" where
  "ip_frame p =
     (if length p < sizeof_eth then Some False
      else do { h_proto \<leftarrow> ld16 p 12;
                Some (h_proto = 8 \<and> \<not> length p < sizeof_eth + sizeof_iphdr) })"

definition maps_first_prog :: "bytes \<Rightarrow> shared_maps \<Rightarrow> bytes \<Rightarrow> (int \<times> shared_maps) option" where
  "maps_first_prog hash_key m p =
     do { ok \<leftarrow> ip_frame p;
          if \<not> ok then Some (XDP_DROP, m)
          else do {
            hash_key \<leftarrow> st32 hash_key 4 42;
            hash_key \<leftarrow> st16 hash_key 8 10;
            case hash_map m hash_key of None \<Rightarrow> Some (XDP_DROP, m)
            | Some value \<Rightarrow>
              (case array_lookup (array_map m) 4 of None \<Rightarrow> Some (XDP_DROP, m)
               | Some value \<Rightarrow>
                 (case array_update (array_map m) 5 0 of None \<Rightarrow> Some (XDP_DROP, m)
                  | Some a \<Rightarrow> Some (XDP_PASS, m\<lparr>array_map := a\<rparr>))) } }"

definition maps_second_prog :: "hash_update \<Rightarrow> bytes \<Rightarrow> shared_maps \<Rightarrow> bytes \<Rightarrow> (int \<times> shared_maps) option" where
  "maps_second_prog upd hash_key m p =
     do { ok \<leftarrow> ip_frame p;
          if \<not> ok then Some (XDP_DROP, m)
          else do {
            hash_key \<leftarrow> st8 hash_key 0 97;
            hash_key \<leftarrow> st32 hash_key 4 42;
            case upd (hash_map m) hash_key 229 of None \<Rightarrow> Some (XDP_DROP, m)
            | Some h \<Rightarrow> do {
                let m = m\<lparr>hash_map := h\<rparr>;
                hash_key \<leftarrow> st32 hash_key 4 50;
                case upd (hash_map m) hash_key 229 of None \<Rightarrow> Some (XDP_DROP, m)
                | Some h \<Rightarrow>
                  let m = m\<lparr>hash_map := h\<rparr> in
                  (case array_update (array_map m) 4 229 of None \<Rightarrow> Some (XDP_DROP, m)
                   | Some a \<Rightarrow>
                     let m = m\<lparr>array_map := a\<rparr> in
                     (case array_lookup (array_map m) 5 of None \<Rightarrow> Some (XDP_DROP, m)
                      | Some value \<Rightarrow> Some (XDP_PASS, m))) } } }"

text \<open>
  main_lifter.c: there the first program also sets \<open>c\<close>, the second also sets \<open>y\<close>, and one entry
  point runs both.
\<close>

definition lifter_first_prog :: "bytes \<Rightarrow> shared_maps \<Rightarrow> bytes \<Rightarrow> (int \<times> shared_maps) option" where
  "lifter_first_prog hash_key m p = do { hash_key \<leftarrow> st8 hash_key 0 97; maps_first_prog hash_key m p }"

definition lifter_second_prog :: "hash_update \<Rightarrow> bytes \<Rightarrow> shared_maps \<Rightarrow> bytes \<Rightarrow> (int \<times> shared_maps) option" where
  "lifter_second_prog upd hash_key m p = do { hash_key \<leftarrow> st16 hash_key 8 10; maps_second_prog upd hash_key m p }"

definition xdp_combined :: "hash_update \<Rightarrow> bytes \<Rightarrow> bytes \<Rightarrow> shared_maps \<Rightarrow> bytes \<Rightarrow> (int \<times> shared_maps) option" where
  "xdp_combined upd key1 key2 m p =
     do { (ret, m) \<leftarrow> lifter_first_prog key1 m p;
          if ret \<noteq> XDP_PASS then Some (ret, m) else lifter_second_prog upd key2 m p }"

definition store_ok :: "hash_update \<Rightarrow> bool" where
  "store_ok upd \<longleftrightarrow> (\<forall>h k v. upd h k v = Some (h(k \<mapsto> v)))"

definition simple_struct :: "u8 \<Rightarrow> bytes \<Rightarrow> u32 \<Rightarrow> bytes \<Rightarrow> bytes \<Rightarrow> bytes" where
  "simple_struct c pad1 x y pad2 = [c] @ pad1 @ le_bytes 4 (unat x) @ y @ pad2"

lemma ip_frame_result: "ip_frame p = Some (34 \<le> length p \<and> p ! 12 = 8 \<and> p ! 13 = 0)"
  using eth_ip_bytes [of p] by (auto simp: ip_frame_def ld16_def ldn_def)

lemma maps_first_prog_result:
  fixes c :: u8 and pad2 :: bytes
  assumes "ip_frame p = Some True" "length (array_map m) = 12" "length pad1 = 3" "length x = 4" "length y = 2"
  defines "k \<equiv> simple_struct c pad1 42 [10, 0] pad2"
  shows "maps_first_prog ([c] @ pad1 @ x @ y @ pad2) m p =
    Some (if hash_map m k = None then (XDP_DROP, m) else (XDP_PASS, m\<lparr>array_map := (array_map m)[5 := 0]\<rparr>))"
proof -
  have b: "le_bytes 2 10 = [10, 0]" by (simp add: numeral_2_eq_2)
  show ?thesis
    using assms(1-5) unfolding k_def
    by (auto simp: maps_first_prog_def st32_def st16_def stn_put put_def simple_struct_def array_lookup_def array_update_def b
        split: option.splits)
qed

lemma maps_second_prog_result:
  assumes "store_ok upd" "ip_frame p = Some True" "length (array_map m) = 12" "length pad1 = 3" "length x = 4"
  shows "maps_second_prog upd ([c] @ pad1 @ x @ y @ pad2) m p =
    Some (XDP_PASS, m\<lparr>hash_map := (hash_map m)(simple_struct 97 pad1 42 y pad2 \<mapsto> 229, simple_struct 97 pad1 50 y pad2 \<mapsto> 229),
      array_map := (array_map m)[4 := 229]\<rparr>)"
  using assms by (simp add: maps_second_prog_def st32_def st8_def stn_put put_def simple_struct_def array_lookup_def
      array_update_def store_ok_def Let_def)

lemma simple_struct_eq:
  assumes "length pad1 = length pad1'" "length y = length y'"
  shows "simple_struct c pad1 x y pad2 = simple_struct c' pad1' x' y' pad2' \<longleftrightarrow>
    c = c' \<and> pad1 = pad1' \<and> x = x' \<and> y = y' \<and> pad2 = pad2'"
proof -
  have "le_bytes 4 (unat x) = le_bytes 4 (unat x') \<longleftrightarrow> x = x'" by (metis le_val_word32)
  then show ?thesis using assms by (auto simp: simple_struct_def)
qed

text \<open>
  How the programs of evaluation-two-program-map interfere: the verdict of the first
  program after the second has run is that of the first program alone unless the second one has
  just created the entry the first looks up. Both set \<open>x\<close> to 42, so this happens exactly when \<open>c\<close>
  was 'a' and the bytes that no program sets, \<open>y\<close> of the second key and the padding, agree.
\<close>

lemma maps_interfere:
  assumes "store_ok upd" "ip_frame p = Some True" "length (array_map m) = 12"
    and "length pad1 = 3" "length pad1' = 3" "length x = 4" "length x' = 4" "length y = 2" "length y' = 2"
  shows "\<exists>m' m''. maps_second_prog upd ([c'] @ pad1' @ x' @ y' @ pad2') m p = Some (XDP_PASS, m') \<and>
    maps_first_prog ([c] @ pad1 @ x @ y @ pad2) m' p =
      Some (if map_option fst (maps_first_prog ([c] @ pad1 @ x @ y @ pad2) m p) = Some XDP_PASS \<or>
          (c = 97 \<and> pad1 = pad1' \<and> y' = [10, 0] \<and> pad2 = pad2') then XDP_PASS else XDP_DROP, m'')"
proof -
  let ?k = "simple_struct c pad1 42 [10, 0] pad2"
  let ?h = "(hash_map m)(simple_struct 97 pad1' 42 y' pad2' \<mapsto> 229, simple_struct 97 pad1' 50 y' pad2' \<mapsto> 229)"
  let ?m = "m\<lparr>hash_map := ?h, array_map := (array_map m)[4 := 229]\<rparr>"
  have "?k \<noteq> simple_struct 97 pad1' 50 y' pad2'"
    "?k = simple_struct 97 pad1' 42 y' pad2' \<longleftrightarrow> c = 97 \<and> pad1 = pad1' \<and> y' = [10, 0] \<and> pad2 = pad2'"
    using assms(4,5,9) simple_struct_eq [of pad1 pad1' "[10, 0]" y'] by auto
  then have "?h ?k = None \<longleftrightarrow> hash_map m ?k = None \<and> \<not> (c = 97 \<and> pad1 = pad1' \<and> y' = [10, 0] \<and> pad2 = pad2')"
    by simp
  then show ?thesis
    using maps_first_prog_result [OF assms(2,3,4,6,8), of c pad2] maps_first_prog_result [OF assms(2) _ assms(4,6,8), of ?m c pad2]
      maps_second_prog_result [OF assms(1-3,5,7), of c' y' pad2'] assms(3)
    by (auto simp del: fun_upd_apply)
qed

text \<open>
  In main_lifter.c both programs set all fields of the key to the same values; still
  the padding of the two local variables is never set, and so the entry that the second program
  writes is the one the first program looks up on the next packet only if their padding agrees.
\<close>

lemma combined_depends_on_padding:
  assumes "store_ok upd" "ip_frame p = Some True" "length (array_map m) = 12" "hash_map m = Map.empty"
    and "length pad1 = 3" "length pad1' = 3" "length x = 4" "length x' = 4" "length y = 2" "length y' = 2"
  shows "xdp_combined upd ([c] @ pad1 @ x @ y @ pad2) ([c'] @ pad1' @ x' @ y' @ pad2') m p = Some (XDP_DROP, m) \<and>
    (\<exists>m' m''. lifter_second_prog upd ([c'] @ pad1' @ x' @ y' @ pad2') m p = Some (XDP_PASS, m') \<and>
      lifter_first_prog ([c] @ pad1 @ x @ y @ pad2) m' p =
        Some (if pad1 = pad1' \<and> pad2 = pad2' then XDP_PASS else XDP_DROP, m''))"
proof -
  have b: "le_bytes 2 10 = [10, 0]" by (simp add: numeral_2_eq_2)
  have f: "lifter_first_prog ([c] @ pad1 @ x @ y @ pad2) n p = maps_first_prog ([97] @ pad1 @ x @ y @ pad2) n p" for n
    by (simp add: lifter_first_prog_def st8_def stn_put put_def)
  have g: "lifter_second_prog upd ([c'] @ pad1' @ x' @ y' @ pad2') m p = maps_second_prog upd ([c'] @ pad1' @ x' @ [10, 0] @ pad2') m p"
    using assms(5-) by (simp add: lifter_second_prog_def st16_def stn_put put_def b)
  note r = maps_first_prog_result [OF assms(2) _ assms(5,7,9), of _ 97 pad2]
    and s = maps_second_prog_result [OF assms(1-3,6,8), of c' "[10, 0]" pad2']
  let ?m = "m\<lparr>hash_map := (hash_map m)(simple_struct 97 pad1' 42 [10, 0] pad2' \<mapsto> 229, simple_struct 97 pad1' 50 [10, 0] pad2' \<mapsto> 229),
      array_map := (array_map m)[4 := 229]\<rparr>"
  have "hash_map ?m (simple_struct 97 pad1 42 [10, 0] pad2) = None \<longleftrightarrow> \<not> (pad1 = pad1' \<and> pad2 = pad2')"
    using assms(4-6) simple_struct_eq [of pad1 pad1' "[10, 0]" "[10, 0]"] by simp
  then have "\<exists>m''. maps_first_prog ([97] @ pad1 @ x @ y @ pad2) ?m p = Some (if pad1 = pad1' \<and> pad2 = pad2' then XDP_PASS else XDP_DROP, m'')"
    using r [of ?m] assms(3) by (auto simp del: fun_upd_apply)
  moreover have "maps_first_prog ([97] @ pad1 @ x @ y @ pad2) m p = Some (XDP_DROP, m)"
    using r [of m] assms(3,4) by simp
  ultimately show ?thesis
    unfolding xdp_combined_def f g s by (auto simp del: fun_upd_apply append.simps)
qed

definition demo_ip_frame :: bytes where "demo_ip_frame = replicate 12 0 @ [8, 0] @ replicate 20 0"

definition demo_shared :: shared_maps where "demo_shared = \<lparr>hash_map = Map.empty, array_map = replicate 12 0\<rparr>"

lemma demo_ip_frame_ok: "ip_frame demo_ip_frame = Some True"
  by (simp add: ip_frame_result demo_ip_frame_def nth_append)

lemma maps_interfere_witness:
  "\<exists>m' m''. maps_second_prog (\<lambda>h k v. Some (h(k \<mapsto> v))) ([0] @ [0, 0, 0] @ [0, 0, 0, 0] @ [10, 0] @ [0, 0]) demo_shared demo_ip_frame = Some (XDP_PASS, m') \<and>
    maps_first_prog ([97] @ [0, 0, 0] @ [0, 0, 0, 0] @ [0, 0] @ [0, 0]) m' demo_ip_frame = Some (XDP_PASS, m'')"
  using maps_interfere [OF _ demo_ip_frame_ok, of "\<lambda>h k v. Some (h(k \<mapsto> v))" demo_shared "[0, 0, 0]" "[0, 0, 0]" "[0, 0, 0, 0]"
      "[0, 0, 0, 0]" "[0, 0]" "[10, 0]" 0 "[0, 0]" 97 "[0, 0]"]
  by (simp add: store_ok_def demo_shared_def)

lemma combined_depends_on_padding_witness:
  "\<exists>m' m''. lifter_second_prog (\<lambda>h k v. Some (h(k \<mapsto> v))) ([0] @ [1, 0, 0] @ [0, 0, 0, 0] @ [0, 0] @ [0, 0]) demo_shared demo_ip_frame = Some (XDP_PASS, m') \<and>
    lifter_first_prog ([0] @ [0, 0, 0] @ [0, 0, 0, 0] @ [0, 0] @ [0, 0]) m' demo_ip_frame = Some (XDP_DROP, m'')"
  using combined_depends_on_padding [OF _ demo_ip_frame_ok, of "\<lambda>h k v. Some (h(k \<mapsto> v))" demo_shared "[0, 0, 0]" "[1, 0, 0]" "[0, 0, 0, 0]"
      "[0, 0, 0, 0]" "[0, 0]" "[0, 0]" 0 "[0, 0]" 0 "[0, 0]"]
  by (simp add: store_ok_def demo_shared_def)

end
