(* ===== verification/Rw_Files.thy ===== *)
theory Rw_Files
  imports Rw_Analysis
begin

text \<open>
  Reading the read and write sets from the files of the symbolic executor (\<open>readInFiles\<close> of
  src/verification_tools/readWriteSet.py): a file is its list of lines, the first line the read
  set, the second the write set, each printed as \<open>{a, b, c}\<close>.
\<close>

section \<open>The reader\<close>

text \<open>The characters that Python counts as white space, below 128.\<close>

definition is_space :: "char \<Rightarrow> bool" where
  "is_space c \<longleftrightarrow> (let n = (of_char c :: nat) in 9 \<le> n \<and> n \<le> 13 \<or> 28 \<le> n \<and> n \<le> 32)"

definition isspace :: "string \<Rightarrow> bool" where
  "isspace s \<longleftrightarrow> s \<noteq> [] \<and> list_all is_space s"

definition strip :: "string \<Rightarrow> string" where
  "strip s = rev (dropWhile is_space (rev (dropWhile is_space s)))"

fun split_comma :: "string \<Rightarrow> string \<Rightarrow> string list" where
  "split_comma acc [] = [acc]"
| "split_comma acc [c] = [acc @ [c]]"
| "split_comma acc (c # d # cs) =
     (if c = CHR '','' \<and> d = CHR '' '' then acc # split_comma [] cs else split_comma (acc @ [c]) (d # cs))"

definition read_var :: "string \<Rightarrow> string" where
  "read_var var =
     (let var = (if CHR ''}'' \<in> set var then takeWhile (\<lambda>c. c \<noteq> CHR ''}'') var else var);
          var = (if CHR ''{'' \<in> set var then takeWhile (\<lambda>c. c \<noteq> CHR ''{'') (tl (dropWhile (\<lambda>c. c \<noteq> CHR ''{'') var)) else var) in
      strip var)"

definition readInFiles :: "string list \<Rightarrow> string list list" where
  "readInFiles ls = map (\<lambda>line. filter (\<lambda>v. v \<noteq> []) (map read_var (split_comma [] line))) (filter (\<lambda>line. \<not> isspace line) ls)"

text \<open>The main program, on the contents of both files: a file with fewer than two sets raises IndexError.\<close>

definition analyse_files :: "(string list \<Rightarrow> string list) \<Rightarrow> string list \<Rightarrow> string list \<Rightarrow> bool option" where
  "analyse_files order file1 file2 =
     (let program1Sets = readInFiles file1; program2Sets = readInFiles file2 in
      if length program1Sets < 2 \<or> length program2Sets < 2 then None
      else readWriteSetAnalysis order (program1Sets ! 0, program1Sets ! 1) (program2Sets ! 0, program2Sets ! 1))"

section \<open>What the executor prints is read back\<close>

fun print_elems :: "string list \<Rightarrow> string" where
  "print_elems [] = []"
| "print_elems [e] = e"
| "print_elems (e # es) = e @ '', '' @ print_elems es"

definition print_set :: "string list \<Rightarrow> string" where
  "print_set es = ''{'' @ print_elems es @ [CHR ''}'', CHR 0x0A]"

definition printable :: "char \<Rightarrow> bool" where
  "printable c \<longleftrightarrow> c \<noteq> CHR '','' \<and> c \<noteq> CHR ''{'' \<and> c \<noteq> CHR ''}'' \<and> \<not> is_space c"

definition plain :: "string \<Rightarrow> bool" where
  "plain e \<longleftrightarrow> e \<noteq> [] \<and> list_all printable e"

lemma not_space: "\<not> is_space CHR ''{''" "\<not> is_space CHR ''}''" "is_space CHR '' ''" "is_space CHR 0x0A"
  by (simp_all add: is_space_def)

lemma split_comma_plain: "CHR '','' \<notin> set e \<Longrightarrow> split_comma acc e = [acc @ e]"
  by (induction acc e rule: split_comma.induct) auto

lemma split_comma_sep: "CHR '','' \<notin> set e \<Longrightarrow> split_comma acc (e @ CHR '','' # CHR '' '' # r) = (acc @ e) # split_comma [] r"
proof (induction e arbitrary: acc)
  case (Cons c e)
  then show ?case by (cases e) auto
qed simp

lemma dropWhile_none: "\<forall>c \<in> set e. \<not> P c \<Longrightarrow> dropWhile P e = e"
  by (cases e) simp_all

lemma strip_plain: "\<not> list_ex is_space e \<Longrightarrow> strip e = e"
  by (simp add: strip_def list_ex_iff dropWhile_none)

lemma takeWhile_absent: "x \<notin> set e \<Longrightarrow> takeWhile (\<lambda>c. c \<noteq> x) e = e"
  "x \<notin> set e \<Longrightarrow> takeWhile (\<lambda>c. c \<noteq> x) (e @ x # r) = e"
  by (induction e) auto

lemma plain_props: "plain e \<Longrightarrow> CHR '','' \<notin> set e \<and> CHR ''{'' \<notin> set e \<and> CHR ''}'' \<notin> set e \<and> \<not> list_ex is_space e \<and> e \<noteq> []"
  by (auto simp: plain_def printable_def list_all_iff list_ex_iff)

lemma read_var_plain: "plain e \<Longrightarrow> read_var e = e" "plain e \<Longrightarrow> read_var (CHR ''{'' # e) = e"
  "plain e \<Longrightarrow> read_var (e @ [CHR ''}'', CHR 0x0A]) = e" "plain e \<Longrightarrow> read_var (CHR ''{'' # e @ [CHR ''}'', CHR 0x0A]) = e"
  using plain_props [of e] by (simp_all add: read_var_def strip_plain takeWhile_absent)


lemma plain_no_comma: "plain e \<Longrightarrow> CHR '','' \<notin> set e" "plain e \<Longrightarrow> CHR '','' \<notin> set (CHR ''{'' # e)"
  "plain e \<Longrightarrow> CHR '','' \<notin> set (e @ [CHR ''}'', CHR 0x0A])" "plain e \<Longrightarrow> CHR '','' \<notin> set (CHR ''{'' # e @ [CHR ''}'', CHR 0x0A])"
  by (auto dest: plain_props)

lemma read_elems: "es \<noteq> [] \<Longrightarrow> list_all plain es \<Longrightarrow> map read_var (split_comma [] (print_elems es @ [CHR ''}'', CHR 0x0A])) = es"
proof (induction es rule: print_elems.induct)
  case (2 e)
  then have "plain e" by simp
  then have "split_comma [] (e @ [CHR ''}'', CHR 0x0A]) = [e @ [CHR ''}'', CHR 0x0A]]"
    using split_comma_plain [OF plain_no_comma(3), of e "[]"] by simp
  then show ?case using \<open>plain e\<close> by (simp only: print_elems.simps read_var_plain list.map)
next
  case (3 e f es)
  then have e: "plain e" by simp
  have "split_comma [] (print_elems (e # f # es) @ [CHR ''}'', CHR 0x0A]) = e # split_comma [] (print_elems (f # es) @ [CHR ''}'', CHR 0x0A])"
    using split_comma_sep [OF plain_no_comma(1) [OF e], of "[]" "print_elems (f # es) @ [CHR ''}'', CHR 0x0A]"] by simp
  then show ?case using 3 e by (simp only: list.map read_var_plain list.pred_inject list.distinct not_False_eq_True simp_thms)
qed simp

lemma read_set: "list_all plain es \<Longrightarrow> filter (\<lambda>v. v \<noteq> []) (map read_var (split_comma [] (print_set es))) = es"
proof (induction es rule: print_elems.induct)
  case 1
  have "split_comma [] (print_set []) = [''{}'' @ [CHR 0x0A]]" by (simp add: print_set_def)
  moreover have "read_var (''{}'' @ [CHR 0x0A]) = []" by (simp add: read_var_def strip_def)
  ultimately show ?case by simp
next
  case (2 e)
  then have "plain e" by simp
  then have "split_comma [] (print_set [e]) = [CHR ''{'' # e @ [CHR ''}'', CHR 0x0A]]"
    using split_comma_plain [OF plain_no_comma(4), of e "[]"] by (simp add: print_set_def)
  then show ?case using \<open>plain e\<close> plain_props [of e] by (simp only: list.map read_var_plain filter.simps simp_thms if_True)
next
  case (3 e f es)
  then have e: "plain e" and p: "list_all plain (f # es)" by simp_all
  have "split_comma [] (print_set (e # f # es)) = (CHR ''{'' # e) # split_comma [] (print_elems (f # es) @ [CHR ''}'', CHR 0x0A])"
    using split_comma_sep [OF plain_no_comma(2) [OF e], of "[]" "print_elems (f # es) @ [CHR ''}'', CHR 0x0A]"] by (simp add: print_set_def)
  then have "map read_var (split_comma [] (print_set (e # f # es))) = e # f # es"
    using read_elems [OF _ p] e by (simp only: list.map read_var_plain list.distinct not_False_eq_True simp_thms)
  moreover have "filter (\<lambda>v. v \<noteq> []) (e # f # es) = e # f # es"
    using e p by (auto simp: filter_id_conv list_all_iff dest: plain_props)
  ultimately show ?case by simp
qed

lemma printable_nat: "list_all printable (show_nat n)"
proof -
  have "printable c" if "is_digit c" for c
    using that by (auto simp: printable_def is_digit_def is_space_def Let_def)
  then show ?thesis using show_nat_digits [of n] by (auto simp: list_all_iff)
qed

lemma printable_key: "list_all printable (show_key i bs)"
proof (induction i bs rule: show_key.induct)
  case (2 i b bs)
  have "list_all printable (show_byte b)"
    by (cases b) (simp_all add: show_byte_def printable_nat, simp add: printable_def is_space_def)
  moreover have "list_all printable ''b''" "list_all printable ''(''" "list_all printable '')_''"
    by (simp_all add: printable_def is_space_def)
  ultimately show ?case using 2 printable_nat by (simp only: show_key.simps list_all_append simp_thms)
qed simp

definition printable_elem :: "rw_elem \<Rightarrow> bool" where
  "printable_elem e = (case e of Pkt_byte i \<Rightarrow> True | Map_key m bs \<Rightarrow> list_all printable m)"

lemma plain_elem: "printable_elem e \<Longrightarrow> plain (show_elem e)"
proof (cases e)
  case (Pkt_byte i)
  have "list_all printable ''b''" by (simp add: printable_def is_space_def)
  then show ?thesis using printable_nat [of i] by (simp only: Pkt_byte show_elem.simps plain_def list_all_append) simp
next
  case (Map_key m bs)
  assume "printable_elem e"
  then have "list_all printable m" by (simp add: printable_elem_def Map_key)
  moreover have "list_all printable ''map:''" "list_all printable ''.''" by (simp_all add: printable_def is_space_def)
  ultimately show ?thesis using printable_key [of 0 bs] by (simp only: Map_key show_elem.simps plain_def list_all_append) simp
qed

lemma print_set_line: "\<not> isspace (print_set es)"
  by (simp add: isspace_def print_set_def not_space)

text \<open>
  Property C39. What the symbolic executor prints is what the analysis works on: read and write sets,
  printed one per line in braces with commas between the elements, are read back unchanged and
  in order, also empty ones and with blank lines in between, provided the names of the maps contain
  no commas, braces or white space. So the tool, run on the files of two programs, computes the
  analysis of the sets that were printed.
\<close>

theorem read_files_roundtrip:
  assumes "list_all printable_elem (R1 @ W1 @ R2 @ W2)" and "list_all isspace blanks"
  shows "readInFiles (print_set (map show_elem R1) # blanks @ [print_set (map show_elem W1)]) = [map show_elem R1, map show_elem W1] \<and>
    analyse_files order (print_set (map show_elem R1) # blanks @ [print_set (map show_elem W1)])
        (print_set (map show_elem R2) # blanks @ [print_set (map show_elem W2)]) =
      readWriteSetAnalysis order (map show_elem R1, map show_elem W1) (map show_elem R2, map show_elem W2)"
proof -
  have "list_all plain (map show_elem es)" if "list_all printable_elem es" for es
    using that plain_elem by (auto simp: list_all_iff)
  moreover have "filter (\<lambda>line. \<not> isspace line) blanks = []" using assms(2) by (auto simp: filter_empty_conv list_all_iff)
  ultimately have "readInFiles (print_set (map show_elem es) # blanks @ [print_set (map show_elem fs)]) = [map show_elem es, map show_elem fs]"
    if "list_all printable_elem es" "list_all printable_elem fs" for es fs
    using that read_set print_set_line by (simp add: readInFiles_def)
  then show ?thesis using assms(1) by (simp add: analyse_files_def)
qed

theorem read_files_roundtrip_witness:
  "analyse_files id [print_set (map show_elem [Pkt_byte 12]), '' '', print_set (map show_elem [Map_key ''macs'' [None, Some 7]])]
      [print_set (map show_elem []), '' '', print_set (map show_elem [Pkt_byte 12])] =
    readWriteSetAnalysis id (map show_elem [Pkt_byte 12], map show_elem [Map_key ''macs'' [None, Some 7]])
      (map show_elem [], map show_elem [Pkt_byte 12])"
  using read_files_roundtrip [of "[Pkt_byte 12]" "[Map_key ''macs'' [None, Some 7]]" "[]" "[Pkt_byte 12]" "['' '']" id]
  by (simp add: printable_elem_def printable_def is_space_def isspace_def del: show_elem.simps)

end
