(* ===== verification/Katran_Companions.thy ===== *)
theory Katran_Companions
  imports Packet_Program Net_Headers
begin

text \<open>
  The programs that Katran is installed with: src/examples/katran/xdp_root.c, which hands the packet
  to the first program registered with it, and src/examples/katran/xdp_pktcntr.c, which counts
  packets while a flag is set.
\<close>

section \<open>The root program\<close>

definition ROOT_ARRAY_SIZE :: nat where "ROOT_ARRAY_SIZE = 3"

type_synonym 's xdp_program = "'s \<Rightarrow> bytes \<Rightarrow> (int \<times> bytes \<times> 's) option"

text \<open>
  A tail call to a registered program does not return; one to an empty slot does, and the loop goes
  on. The first argument is the number of iterations left.
\<close>

fun root_loop :: "nat \<Rightarrow> nat \<Rightarrow> (nat \<rightharpoonup> 's xdp_program) \<Rightarrow> 's xdp_program" where
  "root_loop 0 i root_array s p = Some (XDP_PASS, p, s)"
| "root_loop (Suc n) i root_array s p =
     (case root_array i of Some prog \<Rightarrow> prog s p | None \<Rightarrow> root_loop n (i + 1) root_array s p)"

definition xdp_root :: "(nat \<rightharpoonup> 's xdp_program) \<Rightarrow> 's xdp_program" where
  "xdp_root root_array = root_loop ROOT_ARRAY_SIZE 0 root_array"

lemma root_loop_first:
  assumes "root_array k = Some prog" "i \<le> k" "k < i + n" "\<And>j. i \<le> j \<Longrightarrow> j < k \<Longrightarrow> root_array j = None"
  shows "root_loop n i root_array s p = prog s p"
  using assms
proof (induction n i root_array s p rule: root_loop.induct)
  case (2 n i root_array s p)
  show ?case
  proof (cases "i = k")
    case False
    then have "root_array i = None" using 2(3,5) by simp
    then show ?thesis using 2 False by simp
  qed (use 2 in simp)
qed simp

lemma root_loop_none: "(\<And>j. i \<le> j \<Longrightarrow> j < i + n \<Longrightarrow> root_array j = None) \<Longrightarrow> root_loop n i root_array s p = Some (XDP_PASS, p, s)"
  by (induction n i root_array s p rule: root_loop.induct) simp_all

section \<open>The packet counter\<close>

record pktcntr_maps =
  cntr_ctl_array :: "u32 \<rightharpoonup> u32"
  cntrs_array :: "u32 \<rightharpoonup> u64"

definition pktcntr :: "pktcntr_maps xdp_program" where
  "pktcntr m p =
     (case cntr_ctl_array m 0 of
        None \<Rightarrow> Some (XDP_PASS, p, m)
      | Some flag \<Rightarrow>
        if flag = 0 then Some (XDP_PASS, p, m)
        else case cntrs_array m 0 of
          None \<Rightarrow> Some (XDP_PASS, p, m)
        | Some cntr_val \<Rightarrow> Some (XDP_PASS, p, m\<lparr>cntrs_array := (cntrs_array m)(0 \<mapsto> cntr_val + 1)\<rparr>))"

section \<open>Together\<close>

text \<open>
  With the counter in slot \<open>k\<close> and nothing before it, the root program passes every packet
  unmodified and counts it exactly when the flag is set; whatever is registered behind the counter
  never runs, since the counter does not call on.
\<close>

lemma root_counter:
  assumes "root_array k = Some pktcntr" and "k < ROOT_ARRAY_SIZE" and "\<And>j. j < k \<Longrightarrow> root_array j = None"
    and "cntr_ctl_array m 0 = Some flag" and "cntrs_array m 0 = Some v"
  shows "run_all (xdp_root root_array) ps m = Some (map (\<lambda>p. (XDP_PASS, p)) ps,
    m\<lparr>cntrs_array := (cntrs_array m)(0 \<mapsto> v + (if flag = 0 then 0 else of_nat (length ps)))\<rparr>)"
proof -
  have root: "xdp_root root_array = pktcntr"
    unfolding xdp_root_def by (intro ext root_loop_first [of _ k]) (use assms in auto)
  show ?thesis
    unfolding root using assms(4,5)
  proof (induction ps arbitrary: m v)
    case Nil
    then show ?case by (simp add: fun_upd_idem)
  next
    case (Cons p ps)
    let ?m = "m\<lparr>cntrs_array := (cntrs_array m)(0 \<mapsto> v + (if flag = 0 then 0 else 1))\<rparr>"
    have "pktcntr m p = Some (XDP_PASS, p, ?m)" using Cons.prems by (simp add: pktcntr_def fun_upd_idem)
    moreover have "run_all pktcntr ps ?m = Some (map (\<lambda>p. (XDP_PASS, p)) ps, ?m\<lparr>cntrs_array := (cntrs_array ?m)
        (0 \<mapsto> v + (if flag = 0 then 0 else 1) + (if flag = 0 then 0 else of_nat (length ps)))\<rparr>)"
      using Cons.prems by (intro Cons.IH) simp_all
    moreover have "?m\<lparr>cntrs_array := (cntrs_array ?m)(0 \<mapsto> w)\<rparr> = m\<lparr>cntrs_array := (cntrs_array m)(0 \<mapsto> w)\<rparr>" for w
      by (cases m) (simp add: fun_eq_iff)
    moreover have "v + (if flag = 0 then 0 else 1) + (if flag = 0 then 0 else of_nat (length ps)) =
        v + (if flag = 0 then 0 else of_nat (length (p # ps)))" by simp
    ultimately show ?case by (simp only: run_all.simps Option.bind.bind_lunit prod.case list.map)
  qed
qed


lemma root_counter_witness:
  "run_all (xdp_root [1 \<mapsto> pktcntr, 2 \<mapsto> (\<lambda>m p. None)]) [[1], [2]] \<lparr>cntr_ctl_array = [0 \<mapsto> 1], cntrs_array = [0 \<mapsto> 5]\<rparr> =
    Some ([(XDP_PASS, [1]), (XDP_PASS, [2])], \<lparr>cntr_ctl_array = [0 \<mapsto> 1], cntrs_array = [0 \<mapsto> 7]\<rparr>)"
  using root_counter [of "[1 \<mapsto> pktcntr, 2 \<mapsto> (\<lambda>m p. None)]" 1 "\<lparr>cntr_ctl_array = [0 \<mapsto> 1], cntrs_array = [0 \<mapsto> 5]\<rparr>" 1 5 "[[1], [2]]"]
  by (simp add: ROOT_ARRAY_SIZE_def)

end
