(* ===== verification/Katran_Spec.thy ===== *)
theory Katran_Spec
  imports Katran_Routing Verify_Tools
begin

text \<open>
  The functional specification of Katran and its driver: \<open>spec\<close> and \<open>main\<close> of katran.c, the
  packets of katran_pkts.h, and the comparison of the balancer with the specification by
  \<open>functional_verify\<close>, on arbitrary packets and on those the driver makes.
\<close>

section \<open>The specification (katran.c)\<close>

definition katran_spec :: "'m xdp_func" where
  "katran_spec maps ctx =
     (let eth = xdata ctx + get_eth in
      do { eth_proto \<leftarrow> ld16 (xmem ctx) (eth + 12);
           if eth_proto = BE_ETH_P_IP then
             let iph = eth + sizeof_eth in
             do { frag_off \<leftarrow> ld16 (xmem ctx) (iph + 6);
                  if frag_off AND PCKT_FRAGMENTED \<noteq> 0 then Some (XDP_DROP, maps, ctx)
                  else do {
                    protocol \<leftarrow> ld8 (xmem ctx) (iph + 9);
                    if protocol = IPPROTO_ICMP then
                      do { icmp_type \<leftarrow> ld8 (xmem ctx) (iph + sizeof_iphdr);
                           if icmp_type = ICMP_ECHO then Some (XDP_TX_IGNORE_STATE, maps, ctx)
                           else Some (XDP_ANY_IGNORE_STATE, maps, ctx) }
                    else Some (XDP_ANY_IGNORE_STATE, maps, ctx) } }
           else Some (XDP_ANY_IGNORE_STATE, maps, ctx) })"

section \<open>The packets of the driver (katran_pkts.h)\<close>

datatype PacketTypes = NON_IP | IPV4 | IPV6 | FRAGV4 | FRAGV6 | ICMPV4 | ICMPV6

text \<open>Sizes of the four packed structures: room for the outer header, Ethernet, headers, payload.\<close>

definition sizeof_katran_pkt :: nat where
  [simp]: "sizeof_katran_pkt = sizeof_iphdr + sizeof_eth + sizeof_iphdr + sizeof_tcphdr + 500"

definition sizeof_katran_pkt_icmp :: nat where
  [simp]: "sizeof_katran_pkt_icmp = sizeof_iphdr + sizeof_eth + sizeof_iphdr + sizeof_icmphdr + sizeof_iphdr + 8"

definition sizeof_katran_pkt_v6 :: nat where
  [simp]: "sizeof_katran_pkt_v6 = sizeof_ipv6hdr + sizeof_eth + sizeof_ipv6hdr + sizeof_tcphdr + 500"

definition sizeof_katran_pkt_icmp_v6 :: nat where
  [simp]: "sizeof_katran_pkt_icmp_v6 =
     sizeof_ipv6hdr + sizeof_eth + sizeof_ipv6hdr + sizeof_icmp6hdr + sizeof_ipv6hdr + 8"

definition get_packet_size :: "PacketTypes \<Rightarrow> nat" where
  "get_packet_size type =
     (if type = IPV4 \<or> type = FRAGV4 \<or> type = NON_IP then sizeof_katran_pkt
      else if type = ICMPV4 then sizeof_katran_pkt_icmp
      else if type = IPV6 \<or> type = FRAGV6 then sizeof_katran_pkt_v6
      else sizeof_katran_pkt_icmp_v6)"

definition get_eth_offset :: "PacketTypes \<Rightarrow> nat" where
  "get_eth_offset type =
     (if type = IPV4 \<or> type = FRAGV4 \<or> type = NON_IP then sizeof_iphdr
      else if type = ICMPV4 then sizeof_iphdr
      else sizeof_ipv6hdr)"

text \<open>
  \<open>get_packet\<close> fills a structure with symbolic bytes, \<open>content\<close> here, stores the fields that make
  up the type, and constrains others with \<open>klee_assume\<close>, which discards the other paths:
  \<open>None\<close>. \<open>ctx\<close> brings the fields it does not set. The flow label and the traffic class of an
  IPv6 header stay symbolic, its \<open>version\<close> is the high nibble of its first byte.
\<close>

definition klee_assume :: "bool \<Rightarrow> unit option" where
  "klee_assume b = (if b then Some () else None)"

definition get_packet :: "PacketTypes \<Rightarrow> bytes \<Rightarrow> xdp_md \<Rightarrow> xdp_md option" where
  "get_packet type content ctx =
     (let pkt = content;
          ether = get_eth_offset type; ip = ether + sizeof_eth in
      if length pkt \<noteq> get_packet_size type then None
      else if type = IPV4 \<or> type = FRAGV4 \<or> type = NON_IP then
        do { pkt \<leftarrow>
               (if type = NON_IP then
                  do { h_proto \<leftarrow> ld16 pkt (ether + 12);
                       klee_assume (h_proto \<noteq> bpf_htons 0x0800);
                       klee_assume (h_proto \<noteq> bpf_htons 0x86DD);
                       Some pkt }
                else
                  do { pkt \<leftarrow> st16 pkt (ether + 12) (bpf_htons 0x0800);
                       pkt \<leftarrow> st_hi_nibble pkt ip 4;
                       pkt \<leftarrow> st_lo_nibble pkt ip (of_nat (sizeof_iphdr div 4));
                       protocol \<leftarrow> ld8 pkt (ip + 9);
                       klee_assume (protocol \<noteq> IPPROTO_ICMP);
                       if type = FRAGV4 then st16 pkt (ip + 6) 1 else st16 pkt (ip + 6) 0 });
             Some (ctx\<lparr>xmem := pkt, xdata := ether, xdata_end := length pkt\<rparr>) }
      else if type = ICMPV4 then
        do { pkt \<leftarrow> st16 pkt (ether + 12) (bpf_htons 0x0800);
             pkt \<leftarrow> st_hi_nibble pkt ip 4;
             pkt \<leftarrow> st_lo_nibble pkt ip (of_nat (sizeof_iphdr div 4));
             pkt \<leftarrow> st16 pkt (ip + 6) 0;
             pkt \<leftarrow> st8 pkt (ip + 9) IPPROTO_ICMP;
             Some (ctx\<lparr>xmem := pkt, xdata := ether, xdata_end := length pkt\<rparr>) }
      else if type = IPV6 \<or> type = FRAGV6 then
        do { pkt \<leftarrow> st16 pkt (ether + 12) (bpf_htons 0x86DD);
             pkt \<leftarrow> st_hi_nibble pkt ip 6;
             nexthdr \<leftarrow> ld8 pkt (ip + 6);
             klee_assume (nexthdr \<noteq> IPPROTO_ICMPV6);
             pkt \<leftarrow> (if type = FRAGV6 then st8 pkt (ip + 6) IPPROTO_FRAGMENT else Some pkt);
             Some (ctx\<lparr>xmem := pkt, xdata := ether, xdata_end := length pkt\<rparr>) }
      else
        do { pkt \<leftarrow> st16 pkt (ether + 12) (bpf_htons 0x86DD);
             pkt \<leftarrow> st_hi_nibble pkt ip 6;
             pkt \<leftarrow> st8 pkt (ip + 6) IPPROTO_ICMPV6;
             Some (ctx\<lparr>xmem := pkt, xdata := ether, xdata_end := length pkt\<rparr>) })"

section \<open>The driver (katran.c)\<close>

text \<open>The symbolic choices of \<open>main\<close>.\<close>

definition choose_type :: "bool \<Rightarrow> bool \<Rightarrow> bool \<Rightarrow> bool \<Rightarrow> PacketTypes" where
  "choose_type isIPv4 isIPv6 is_fragmented isICMP =
     (if isIPv4 then (if is_fragmented then FRAGV4 else if isICMP then ICMPV4 else IPV4)
      else if isIPv6 then (if is_fragmented then FRAGV6 else if isICMP then ICMPV6 else IPV6)
      else NON_IP)"

text \<open>
  The balancer as a program of the harness. \<open>place\<close> is the context after the run: where the
  helpers that move the ends of the packet left its bytes.
\<close>

definition visible :: "xdp_md \<Rightarrow> bytes" where
  "visible ctx = take (xdata_end ctx - xdata ctx) (drop (xdata ctx) (xmem ctx))"

definition katran_main :: "(xdp_md \<Rightarrow> bytes \<Rightarrow> xdp_md) \<Rightarrow> nat \<Rightarrow> bool \<Rightarrow> katran_cfg \<Rightarrow> katran_env \<Rightarrow>
    katran_maps xdp_func" where
  "katran_main place k registered C E maps ctx =
     do { (action, p, m) \<leftarrow> balancer_run k registered C E (hd maps) (visible ctx);
          Some (action, [m], place ctx p) }"

text \<open>\<open>main\<close> up to the call of the program: \<open>test\<close> with its fields cleared.\<close>

definition katran_driver :: "bool \<Rightarrow> bool \<Rightarrow> bool \<Rightarrow> bool \<Rightarrow> bytes \<Rightarrow> xdp_md \<Rightarrow> xdp_md option" where
  "katran_driver isIPv4 isIPv6 is_fragmented isICMP content test =
     (let type = choose_type isIPv4 isIPv6 is_fragmented isICMP in
      do { test \<leftarrow> get_packet type content test;
           Some (test\<lparr>data_meta := 0, ingress_ifindex := 0, rx_queue_index := 0\<rparr>) })"

section \<open>What the two sides do\<close>

definition fragment_v4 :: "bytes \<Rightarrow> bool" where
  "fragment_v4 p \<longleftrightarrow> of_nat (le_val (take 2 (drop 12 p))) = BE_ETH_P_IP \<and>
     (of_nat (le_val (take 2 (drop 20 p))) :: u16) AND PCKT_FRAGMENTED \<noteq> 0"

definition echo_v4 :: "bytes \<Rightarrow> bool" where
  "echo_v4 p \<longleftrightarrow> of_nat (le_val (take 2 (drop 12 p))) = BE_ETH_P_IP \<and>
     (of_nat (le_val (take 2 (drop 20 p))) :: u16) AND PCKT_FRAGMENTED = 0 \<and>
     p ! 23 = IPPROTO_ICMP \<and> p ! 34 = ICMP_ECHO"

lemma katran_spec_result:
  assumes "42 \<le> length p"
  shows "katran_spec maps (c\<lparr>xmem := a @ p, xdata := length a, xdata_end := n\<rparr>) =
    Some (if fragment_v4 p then XDP_DROP else if echo_v4 p then XDP_TX_IGNORE_STATE else XDP_ANY_IGNORE_STATE,
      maps, c\<lparr>xmem := a @ p, xdata := length a, xdata_end := n\<rparr>)"
proof -
  let ?c = "c\<lparr>xmem := a @ p, xdata := length a, xdata_end := n\<rparr>"
  have "wp (katran_spec maps ?c) (\<lambda>r. r = (if fragment_v4 p then XDP_DROP
      else if echo_v4 p then XDP_TX_IGNORE_STATE else XDP_ANY_IGNORE_STATE, maps, ?c))"
    using assms by (simp add: katran_spec_def get_eth_def wp_rules nth_append fragment_v4_def echo_v4_def)
  then show ?thesis by (simp add: wp_iff)
qed

lemma l3_drop_run:
  assumes "34 \<le> length p" "of_nat (le_val (take 2 (drop 12 p))) = BE_ETH_P_IP"
    and "fragment_v4 p \<or> p ! 14 AND 0x0F \<noteq> 5"
  shows "balancer_run k registered C E m p = Some (XDP_DROP, p, m)"
proof -
  have "wp (process_l3_headers p pckt0 14 False) (\<lambda>(a, q, d, b). a = XDP_DROP \<and> q = p)"
    using assms by (auto simp: process_l3_headers_def wp_rules fragment_v4_def)
  then obtain d b where l3: "process_l3_headers p pckt0 14 False = Some (XDP_DROP, p, d, b)"
    by (auto simp: wp_iff)
  have "wp (ld16 p 12) (\<lambda>x. x = BE_ETH_P_IP)" using assms by (simp add: wp_rules)
  then have "ld16 p 12 = Some BE_ETH_P_IP" by (simp add: wp_iff)
  then show ?thesis
    using assms(1) l3 by (simp add: balancer_run.simps balancer_ingress_def process_packet_def)
qed

lemma send_icmp_reply_tx:
  assumes "42 \<le> length p"
  obtains q where "send_icmp_reply p = Some (XDP_TX, q)"
proof -
  have "p = take 14 p @ take 20 (drop 14 p) @ drop 34 p" using split3 [of 14 p 20] by simp
  then show ?thesis
    using send_icmp_reply_result [of "take 14 p" "take 20 (drop 14 p)" "drop 34 p"] assms that by auto
qed

lemma echo_run:
  assumes "42 \<le> length p" "echo_v4 p" "p ! 14 AND 0x0F = 5"
  obtains q where "balancer_run k registered C E m p = Some (XDP_TX, q, m)"
proof -
  obtain q where q: "send_icmp_reply p = Some (XDP_TX, q)" by (rule send_icmp_reply_tx [OF assms(1)])
  have "wp (process_l3_headers p pckt0 14 False) (\<lambda>(a, r, d, b). a = XDP_TX \<and> r = q)"
    using assms by (simp add: process_l3_headers_def parse_icmp_def q wp_rules echo_v4_def Let_def)
  then obtain d b where l3: "process_l3_headers p pckt0 14 False = Some (XDP_TX, q, d, b)"
    by (auto simp: wp_iff)
  have "wp (ld16 p 12) (\<lambda>x. x = BE_ETH_P_IP)" using assms by (simp add: wp_rules echo_v4_def)
  then have "ld16 p 12 = Some BE_ETH_P_IP" by (simp add: wp_iff)
  then show ?thesis
    using assms(1) l3 that by (simp add: balancer_run.simps balancer_ingress_def process_packet_def)
qed

section \<open>The comparison\<close>

text \<open>A context that points into its buffer, with the room \<open>e\<close> in front of the packet.\<close>

definition ctx_ok :: "xdp_md \<Rightarrow> nat \<Rightarrow> nat \<Rightarrow> bool" where
  "ctx_ok ctx n e \<longleftrightarrow> e \<le> xdata ctx \<and> xdata ctx \<le> xdata_end ctx \<and> xdata_end ctx \<le> length (xmem ctx) \<and>
     length (xmem ctx) < 2 ^ 32 \<and> n = xdata_end ctx - xdata ctx + e"

lemma spec_ctx_split:
  assumes "ctx_ok ctx n e"
  obtains a where "length a = e" "spec_ctx ctx n e = ctx\<lparr>xmem := a @ visible ctx, xdata := length a, xdata_end := n\<rparr>"
proof
  show "length (take e (drop (xdata ctx - e) (xmem ctx))) = e"
    using assms by (auto simp: ctx_ok_def)
  have "take (e + (xdata_end ctx - xdata ctx)) (drop (xdata ctx - e) (xmem ctx)) =
      take e (drop (xdata ctx - e) (xmem ctx)) @ visible ctx"
    using assms by (simp only: take_add drop_drop visible_def ctx_ok_def) simp
  then show "spec_ctx ctx n e = ctx\<lparr>xmem := take e (drop (xdata ctx - e) (xmem ctx)) @ visible ctx,
      xdata := length (take e (drop (xdata ctx - e) (xmem ctx))), xdata_end := n\<rparr>"
    using assms by (auto simp: spec_ctx_def ctx_ok_def add.commute)
qed

lemma katran_spec_run:
  assumes "ctx_ok ctx n e" "42 \<le> length (visible ctx)"
  shows "katran_spec maps (spec_ctx ctx n e) =
    Some (if fragment_v4 (visible ctx) then XDP_DROP
          else if echo_v4 (visible ctx) then XDP_TX_IGNORE_STATE else XDP_ANY_IGNORE_STATE,
      maps, spec_ctx ctx n e)"
proof -
  obtain a where "spec_ctx ctx n e = ctx\<lparr>xmem := a @ visible ctx, xdata := length a, xdata_end := n\<rparr>"
    using spec_ctx_split [OF assms(1)] by metis
  then show ?thesis by (simp only: katran_spec_result [OF assms(2)])
qed

lemma unchanged_end_state:
  assumes "ctx_ok ctx n e"
  shows "end_state_equal \<lparr>rvalue = r, ectx = ctx\<rparr> \<lparr>rvalue = s, ectx = spec_ctx ctx n e\<rparr> e = Some True"
proof -
  have "pkt_size ctx e = n" "pkt_size (spec_ctx ctx n e) e = n"
    using assms by (auto simp: pkt_size_def ctx_ok_def spec_ctx_def simp flip: of_nat_diff)
  moreover have "ldn (xmem ctx) (xdata ctx - e) n = Some (xmem (spec_ctx ctx n e))"
    using assms by (auto simp: ldn_def spec_ctx_def ctx_ok_def)
  moreover have "length (xmem (spec_ctx ctx n e)) = n"
    using assms by (auto simp: spec_ctx_def ctx_ok_def)
  then have "ldn (xmem (spec_ctx ctx n e)) 0 n = Some (xmem (spec_ctx ctx n e))"
    by (simp add: ldn_def)
  ultimately show ?thesis
    using assms by (simp add: end_state_equal_def memcmp_eq_def ctx_ok_def spec_ctx_def)
qed

text \<open>The outcome of the comparison when both sides leave the maps as they are.\<close>

lemma functional_verify_same_maps:
  assumes "ctx_ok ctx n e" "spec [m] (spec_ctx ctx n e) = Some (rs, [m], spec_ctx ctx n e)"
    and "rs \<noteq> XDP_ANY_IGNORE_STATE \<Longrightarrow> main [m] ctx = Some (rp, [m], pc)" "same m m" "map_eq m m"
    and "rs < XDP_ANY \<Longrightarrow> pc = ctx" "rs \<noteq> XDP_ANY"
  shows "functional_verify same map_eq False main spec [m] ctx n e =
    Some (if rs = XDP_ANY_IGNORE_STATE then Inr Unconstrained
          else if rp = rs \<or> rp + XDP_ABORTED_IGNORE_STATE = rs then Inr Checked else Inl Return_differs)"
proof -
  have "e \<le> xdata ctx" "ldn (xmem ctx) (xdata ctx - e) n = Some (take n (drop (xdata ctx - e) (xmem ctx)))"
    using assms(1) by (auto simp: ldn_def ctx_ok_def)
  then show ?thesis
    using assms(2-) unchanged_end_state [OF assms(1), of rp rs]
    by (auto simp: functional_verify_def get_xdp_end_state_def return_value_equal_def simp flip: spec_ctx_def)
qed

lemma katran_comparison:
  assumes "ctx_ok ctx n e" and "42 \<le> length (visible ctx)"
    and "place ctx (visible ctx) = ctx" and "same m m" and "map_eq m m"
  shows "functional_verify same map_eq False (katran_main place k registered C E) katran_spec [m] ctx n e =
    Some (if fragment_v4 (visible ctx) then Inr Checked
          else if echo_v4 (visible ctx)
          then (if visible ctx ! 14 AND 0x0F = 5 then Inr Checked else Inl Return_differs)
          else Inr Unconstrained)"
proof -
  let ?p = "visible ctx" and ?main = "katran_main place k registered C E"
  note run = functional_verify_same_maps [where spec = katran_spec and main = ?main and map_eq = map_eq
      and same = same, OF assms(1) katran_spec_run [OF assms(1,2)] _ assms(4,5)]
  consider (drop) "balancer_run k registered C E m ?p = Some (XDP_DROP, ?p, m)"
      "fragment_v4 ?p \<or> echo_v4 ?p \<and> ?p ! 14 AND 0x0F \<noteq> 5"
    | (tx) q where "balancer_run k registered C E m ?p = Some (XDP_TX, q, m)"
      "\<not> fragment_v4 ?p" "echo_v4 ?p" "?p ! 14 AND 0x0F = 5"
    | (free) "\<not> fragment_v4 ?p" "\<not> echo_v4 ?p"
    using l3_drop_run [of ?p k registered C E m] echo_run [of ?p k registered C E m] assms(2)
    by (auto simp: fragment_v4_def echo_v4_def)
  then show ?thesis
  proof cases
    case drop
    then show ?thesis
      using run [of XDP_DROP ctx] assms(3) by (auto simp: katran_main_def verify_actions)
  next
    case tx
    then show ?thesis
      using run [of XDP_TX "place ctx q"] by (simp add: katran_main_def verify_actions)
  next
    case free
    then show ?thesis using run [of 0 ctx] by (simp add: verify_actions)
  qed
qed

text \<open>
  Property C30. The exact verdict of \<open>functional_verify\<close> on the balancer and Katran's specification,
  on every packet of at least 42 bytes, with the map comparisons reflexive: the paths of an IPv4
  fragment are checked and pass, with maps, packet and metadata compared; those of an ICMP echo
  request over IPv4 are checked and pass if its header has no options, and fail on the return
  value if it has; on any other packet nothing is required of the balancer.
\<close>

theorem katran_meets_spec:
  assumes "ctx_ok ctx n e" and "42 \<le> length (visible ctx)"
    and "place ctx (visible ctx) = ctx" and "same m m" and "map_eq m m"
  shows "functional_verify same map_eq False (katran_main place k registered C E) katran_spec [m] ctx n e =
    Some (if fragment_v4 (visible ctx) then Inr Checked
          else if echo_v4 (visible ctx)
          then (if visible ctx ! 14 AND 0x0F = 5 then Inr Checked else Inl Return_differs)
          else Inr Unconstrained)"
  by (rule katran_comparison [where place = place and same = same and map_eq = map_eq, OF assms])

definition options_echo :: bytes where
  "options_echo = replicate 12 0 @ [8, 0, 0x46, 0, 0, 0, 0, 0, 0, 0, 0, 1] @ replicate 10 0 @ [8] @ replicate 7 0"

theorem katran_meets_spec_witness:
  "functional_verify (=) (=) False (katran_main (\<lambda>c q. c) 33 True demo_cfg demo_env) katran_spec [demo_maps]
    (create_ctx options_echo 42 0 0) 42 0 = Some (Inl Return_differs)"
proof -
  let ?c = "create_ctx options_echo 42 0 0"
  have v: "visible ?c = options_echo" "ctx_ok ?c 42 0"
    by (simp_all add: visible_def create_ctx_def options_echo_def ctx_ok_def)
  have "\<not> fragment_v4 options_echo" "echo_v4 options_echo" "options_echo ! 14 AND 0x0F \<noteq> 5" "length options_echo = 42"
    by (simp_all add: fragment_v4_def echo_v4_def options_echo_def nth_append)
  then show ?thesis
    using katran_meets_spec [OF v(2), of "\<lambda>c q. c" "(=)" demo_maps "(=)" 33 True demo_cfg demo_env] v(1) by simp
qed

section \<open>The driver's packets\<close>

lemma lo_nibble: "((b AND 0xF0) OR (5 :: u8)) AND 0x0F = 5"
  by (simp add: bit.conj_disj_distrib2 and.assoc)

lemma get_packet_ends:
  assumes "get_packet type content ctx = Some ctx'"
  shows "xdata ctx' = get_eth_offset type \<and> xdata_end ctx' = get_packet_size type \<and>
    length (xmem ctx') = get_packet_size type"
proof -
  have "wp (get_packet type content ctx) (\<lambda>x. x = ctx')" using assms by simp
  then show ?thesis
    by (cases type) (auto simp: get_packet_def st_hi_nibble_def st_lo_nibble_def klee_assume_def
      get_packet_size_def get_eth_offset_def wp_rules Let_def split: if_splits)
qed

lemma ethertypes: "bpf_htons 0x0800 = BE_ETH_P_IP" "bpf_htons 0x86DD = BE_ETH_P_IPV6"
  by (simp_all add: bpf_htons_def bswap16_def)

lemma get_packet_headers:
  assumes "get_packet type content ctx = Some ctx'"
  shows "fragment_v4 (drop (get_eth_offset type) (xmem ctx')) \<longleftrightarrow> type = FRAGV4"
    and "echo_v4 (drop (get_eth_offset type) (xmem ctx')) \<longleftrightarrow> type = ICMPV4 \<and> content ! 54 = ICMP_ECHO"
    and "type = ICMPV4 \<Longrightarrow> xmem ctx' ! 34 AND 0x0F = 5"
proof -
  have g: "wp (get_packet type content ctx) (\<lambda>x. x = ctx')" using assms by simp
  note defs = get_packet_def ethertypes st_hi_nibble_def st_lo_nibble_def klee_assume_def
      get_packet_size_def get_eth_offset_def wp_rules Let_def
  note reads = slice_put_same slice_put_disjoint nth_put lo_nibble fragment_v4_def echo_v4_def le_val_le_bytes
  show "fragment_v4 (drop (get_eth_offset type) (xmem ctx')) \<longleftrightarrow> type = FRAGV4"
    using g by (cases type) (auto simp: defs reads split: if_splits)
  show "echo_v4 (drop (get_eth_offset type) (xmem ctx')) \<longleftrightarrow> type = ICMPV4 \<and> content ! 54 = ICMP_ECHO"
    using g by (cases type) (auto simp: defs reads split: if_splits)
  show "type = ICMPV4 \<Longrightarrow> xmem ctx' ! 34 AND 0x0F = 5"
    using g by (auto simp: defs reads split: if_splits)
qed

text \<open>
  The driver's packets that claim IPv4 have a header without options and a fragment field of
  0 or 1: no path of the driver has IP options, the DF or the MF flag.
\<close>

lemma driver_ipv4_headers:
  assumes "get_packet type content ctx = Some ctx'"
    and "of_nat (le_val (take 2 (drop (get_eth_offset type + 12) (xmem ctx')))) = BE_ETH_P_IP"
  shows "xmem ctx' ! 34 = 0x45 \<and> take 2 (drop 40 (xmem ctx')) = [if type = FRAGV4 then 1 else 0, 0]"
proof -
  have g: "wp (get_packet type content ctx) (\<lambda>x. x = ctx')" using assms by simp
  have le1: "le_bytes 2 (Suc 0) = [1, 0]" by (simp add: numeral_2_eq_2)
  show ?thesis
    using g assms(2)
    by (cases type) (auto simp: get_packet_def ethertypes st_hi_nibble_def st_lo_nibble_def klee_assume_def
        get_packet_size_def get_eth_offset_def wp_rules Let_def slice_put_same slice_put_disjoint nth_put
        le_val_le_bytes nibbles le1 split: if_splits)
qed

lemma driver_ctx:
  assumes "katran_driver v4 v6 frag icmp content test = Some ctx" and "type = choose_type v4 v6 frag icmp"
  shows "ctx_ok ctx (get_packet_size type) (get_eth_offset type)" and "42 \<le> length (visible ctx)"
    and "fragment_v4 (visible ctx) \<longleftrightarrow> type = FRAGV4"
    and "echo_v4 (visible ctx) \<longleftrightarrow> type = ICMPV4 \<and> content ! 54 = ICMP_ECHO"
    and "type = ICMPV4 \<Longrightarrow> visible ctx ! 14 AND 0x0F = 5"
proof -
  obtain c where c: "get_packet type content test = Some c"
      "ctx = c\<lparr>data_meta := 0, ingress_ifindex := 0, rx_queue_index := 0\<rparr>"
    using assms by (auto simp: katran_driver_def Let_def bind_eq_Some_conv)
  have sz: "get_eth_offset type + 54 \<le> get_packet_size type" "get_packet_size type < 2 ^ 32"
    by (cases type; simp add: get_packet_size_def get_eth_offset_def)+
  have v: "visible ctx = drop (get_eth_offset type) (xmem c)"
    using get_packet_ends [OF c(1)] by (simp add: c(2) visible_def)
  show "ctx_ok ctx (get_packet_size type) (get_eth_offset type)" "42 \<le> length (visible ctx)"
    using get_packet_ends [OF c(1)] sz by (simp_all add: v) (simp add: c(2) ctx_ok_def)
  show "fragment_v4 (visible ctx) \<longleftrightarrow> type = FRAGV4"
    "echo_v4 (visible ctx) \<longleftrightarrow> type = ICMPV4 \<and> content ! 54 = ICMP_ECHO"
    unfolding v by (rule get_packet_headers [OF c(1)])+
  show "type = ICMPV4 \<Longrightarrow> visible ctx ! 14 AND 0x0F = 5"
    using get_packet_headers(3) [OF c(1)] get_packet_ends [OF c(1)]
    by (simp add: v get_packet_size_def get_eth_offset_def)
qed

text \<open>
  Property C31. Katran passes the comparison on every packet its driver makes: whatever the
  symbolic bytes, the maps, the build and the helpers, \<open>functional_verify\<close> checks the paths of
  the fragmented IPv4 packets and of the ICMP messages that are echo requests, all with success,
  and puts no requirement on the balancer on all other paths. The echo request with IP options,
  on which the balancer and the specification differ, is on no path of the driver.
\<close>

theorem katran_driver_passes:
  assumes "katran_driver v4 v6 frag icmp content test = Some ctx"
    and "type = choose_type v4 v6 frag icmp"
    and "place ctx (visible ctx) = ctx" and "same m m" and "map_eq m m"
  shows "functional_verify same map_eq False (katran_main place k registered C E) katran_spec [m] ctx
      (get_packet_size type) (get_eth_offset type) =
    Some (Inr (if type = FRAGV4 \<or> type = ICMPV4 \<and> content ! 54 = ICMP_ECHO then Checked else Unconstrained))"
  using katran_comparison [where place = place and same = same and map_eq = map_eq,
      OF driver_ctx(1,2) [OF assms(1,2)] assms(3-5), of k registered C E]
    driver_ctx(3-5) [OF assms(1,2)] by auto

theorem katran_driver_passes_witness:
  "\<exists>ctx. katran_driver True False False True (replicate 54 0 @ [8] @ replicate 35 0) (create_ctx [] 0 0 0) = Some ctx \<and>
    functional_verify (=) (=) False (katran_main (\<lambda>c q. c) 33 True demo_cfg demo_env) katran_spec [demo_maps]
      ctx 90 20 = Some (Inr Checked)"
proof -
  let ?b = "replicate 54 0 @ [8] @ replicate 35 0 :: bytes"
  have t: "choose_type True False False True = ICMPV4" by (simp add: choose_type_def)
  have "wp (katran_driver True False False True ?b (create_ctx [] 0 0 0)) (\<lambda>_. True)"
    by (simp add: katran_driver_def t get_packet_def st_hi_nibble_def st_lo_nibble_def get_packet_size_def
        get_eth_offset_def wp_rules)
  then obtain ctx where d: "katran_driver True False False True ?b (create_ctx [] 0 0 0) = Some ctx" by (auto simp: wp_iff)
  have "functional_verify (=) (=) False (katran_main (\<lambda>c q. c) 33 True demo_cfg demo_env) katran_spec [demo_maps]
      ctx 90 20 = Some (Inr Checked)"
    using katran_driver_passes [OF d refl, of "\<lambda>c q. c" "(=)" demo_maps "(=)" 33 True demo_cfg demo_env]
    by (simp add: t get_packet_size_def get_eth_offset_def nth_append)
  then show ?thesis using d by blast
qed

end
