(* ===== verification/Udp_Echo.thy ===== *)
theory Udp_Echo
  imports Two_Programs Csum
begin

text \<open>
  src/examples/ebpf_aas: two echo services on one hook. Each program answers UDP datagrams for its
  port by exchanging the MAC addresses, the IP addresses and the ports. main.c runs both on the
  same packet, one after the other.
\<close>

section \<open>The programs\<close>

definition echo_swap :: "bytes \<Rightarrow> nat \<Rightarrow> bytes option" where
  "echo_swap p udph =
     do { tmp_mac \<leftarrow> ldn p 6 6;
          h_dest \<leftarrow> ldn p 0 6;
          p \<leftarrow> stn p 6 h_dest;
          p \<leftarrow> stn p 0 tmp_mac;
          tmp_ip \<leftarrow> ld32 p 26;
          daddr \<leftarrow> ld32 p 30;
          p \<leftarrow> st32 p 26 daddr;
          p \<leftarrow> st32 p 30 tmp_ip;
          tmp_port \<leftarrow> ld16 p udph;
          dest \<leftarrow> ld16 p (udph + 2);
          p \<leftarrow> st16 p udph dest;
          st16 p (udph + 2) tmp_port }"

definition echo_reply :: "bytes \<Rightarrow> nat \<Rightarrow> (int \<times> bytes) option" where
  "echo_reply p udph =
     do { p \<leftarrow> echo_swap p udph;
          p \<leftarrow> st16 p 24 0;
          csum \<leftarrow> csum_words p 14 10 (0 :: u32);
          p \<leftarrow> st16 p 24 (one_fold csum);
          p \<leftarrow> st16 p (udph + 6) 0;
          Some (XDP_TX, p) }"

text \<open>
  The programs differ in the verdict for truncated packets and in the test of the destination
  port.
\<close>

definition udp_echo :: "int \<Rightarrow> (u16 \<Rightarrow> bool) \<Rightarrow> bytes \<Rightarrow> (int \<times> bytes) option" where
  "udp_echo truncated to_us p =
     (if length p < sizeof_eth then Some (truncated, p)
      else if length p < sizeof_eth + sizeof_iphdr then Some (truncated, p)
      else do {
        protocol \<leftarrow> ld8 p 23;
        if protocol \<noteq> IPPROTO_UDP then Some (XDP_PASS, p)
        else do {
          vihl \<leftarrow> ld8 p 14;
          let udph = sizeof_eth + unat (vihl AND 0x0F) * 4;
          if length p < udph + sizeof_udphdr then Some (truncated, p)
          else do {
            dest \<leftarrow> ld16 p (udph + 2);
            if \<not> to_us dest then Some (XDP_PASS, p) else echo_reply p udph } } })"

definition udp_echo_prog_1 :: "bytes \<Rightarrow> (int \<times> bytes) option" where
  "udp_echo_prog_1 = udp_echo XDP_PASS (\<lambda>dest. bswap16 dest = 12345)"

definition udp_echo_prog_2 :: "bytes \<Rightarrow> (int \<times> bytes) option" where
  "udp_echo_prog_2 = udp_echo XDP_PASS (\<lambda>dest. bswap16 dest = 13245)"

text \<open>The stand-alone version (xdp2.bpf.c) compares the port without swapping its bytes.\<close>

definition udp_echo_standalone :: "bytes \<Rightarrow> (int \<times> bytes) option" where
  "udp_echo_standalone = udp_echo XDP_DROP (\<lambda>dest. dest = 12345)"

section \<open>Replies\<close>

text \<open>A datagram in parts; \<open>ip\<close> is the IPv4 header up to its checksum.\<close>

definition datagram :: "bytes \<Rightarrow> bytes \<Rightarrow> bytes \<Rightarrow> bytes \<Rightarrow> bytes \<Rightarrow> bytes \<Rightarrow> bytes \<Rightarrow> bytes \<Rightarrow> bytes \<Rightarrow> bytes \<Rightarrow> bytes \<Rightarrow> bytes" where
  "datagram dmac smac h_proto ip check saddr daddr sport dport len data =
     dmac @ smac @ h_proto @ (ip @ check @ saddr @ daddr) @ sport @ dport @ len @ data"

definition datagram_wf :: "bytes \<Rightarrow> bytes \<Rightarrow> bytes \<Rightarrow> bytes \<Rightarrow> bytes \<Rightarrow> bytes \<Rightarrow> bytes \<Rightarrow> bytes \<Rightarrow> bytes \<Rightarrow> bytes \<Rightarrow> bool" where
  "datagram_wf dmac smac h_proto ip check saddr daddr sport dport len \<longleftrightarrow>
     length dmac = 6 \<and> length smac = 6 \<and> length h_proto = 2 \<and> length ip = 10 \<and> ip ! 0 AND 0x0F = 5 \<and> ip ! 9 = IPPROTO_UDP \<and>
     length check = 2 \<and> length saddr = 4 \<and> length daddr = 4 \<and> length sport = 2 \<and> length dport = 2 \<and> length len = 2"

definition echo_check :: "bytes \<Rightarrow> bytes \<Rightarrow> bytes \<Rightarrow> nat" where
  "echo_check ip saddr daddr = (let s = sum16 (ip @ [0, 0] @ saddr @ daddr) in 65535 - (s mod 65536 + s div 65536) mod 65536)"

lemma datagram_access:
  fixes data :: bytes and v :: u16 and w :: u32
  assumes "datagram_wf dmac smac h_proto ip check saddr daddr sport dport len"
  defines "p \<equiv> datagram dmac smac h_proto ip check saddr daddr sport dport len data"
  shows "ldn p 0 6 = Some dmac" "ldn p 6 6 = Some smac"
    "ld32 p 26 = Some (of_nat (le_val saddr))" "ld32 p 30 = Some (of_nat (le_val daddr))"
    "ld16 p 34 = Some (of_nat (le_val sport))" "ld16 p 36 = Some (of_nat (le_val dport))"
    "ld8 p 14 = Some (ip ! 0)" "ld8 p 23 = Some IPPROTO_UDP"
    "length bs = 6 \<Longrightarrow> stn p 0 bs = Some (datagram bs smac h_proto ip check saddr daddr sport dport len data)"
    "length bs = 6 \<Longrightarrow> stn p 6 bs = Some (datagram dmac bs h_proto ip check saddr daddr sport dport len data)"
    "st16 p 24 v = Some (datagram dmac smac h_proto ip (le_bytes 2 (unat v)) saddr daddr sport dport len data)"
    "st32 p 26 w = Some (datagram dmac smac h_proto ip check (le_bytes 4 (unat w)) daddr sport dport len data)"
    "st32 p 30 w = Some (datagram dmac smac h_proto ip check saddr (le_bytes 4 (unat w)) sport dport len data)"
    "st16 p 34 v = Some (datagram dmac smac h_proto ip check saddr daddr (le_bytes 2 (unat v)) dport len data)"
    "st16 p 36 v = Some (datagram dmac smac h_proto ip check saddr daddr sport (le_bytes 2 (unat v)) len data)"
  using assms(1) unfolding p_def datagram_def datagram_wf_def
  by (simp_all add: ldn_def ld8_def ld16_def ld32_def st16_def st32_def stn_put seg_simps put_whole)

lemma datagram_swapped_wf:
  "datagram_wf dmac smac h_proto ip check saddr daddr sport dport len \<Longrightarrow>
    datagram_wf smac dmac h_proto ip check daddr saddr dport sport len \<and> (length c = 2 \<longrightarrow>
    datagram_wf smac dmac h_proto ip c daddr saddr dport sport len)"
  by (simp add: datagram_wf_def)

lemma echo_swap_result:
  assumes wf: "datagram_wf dmac smac h_proto ip check saddr daddr sport dport len"
  shows "echo_swap (datagram dmac smac h_proto ip check saddr daddr sport dport len data) 34 =
    Some (datagram smac dmac h_proto ip check daddr saddr dport sport len data)"
proof -
  have w: "datagram_wf dmac dmac h_proto ip check saddr daddr sport dport len"
    "datagram_wf smac dmac h_proto ip check saddr daddr sport dport len"
    "datagram_wf smac dmac h_proto ip check daddr daddr sport dport len"
    "datagram_wf smac dmac h_proto ip check daddr saddr sport dport len"
    "datagram_wf smac dmac h_proto ip check daddr saddr dport dport len"
    "length dmac = 6" "length smac = 6" "length saddr = 4" "length daddr = 4" "length sport = 2" "length dport = 2"
    using wf by (simp_all add: datagram_wf_def)
  show ?thesis
    by (simp add: echo_swap_def datagram_access wf w le_bytes_ld16 le_bytes_ld32)
qed

lemma echo_reply_result:
  assumes "datagram_wf dmac smac h_proto ip check saddr daddr sport dport len" "length uc = 2"
  shows "echo_reply (datagram dmac smac h_proto ip check saddr daddr sport dport len (uc @ data)) 34 =
    Some (XDP_TX, datagram smac dmac h_proto ip (le_bytes 2 (echo_check ip daddr saddr)) daddr saddr dport sport len ([0, 0] @ data))"
proof -
  let ?d = "\<lambda>c. datagram smac dmac h_proto ip c daddr saddr dport sport len"
  let ?p = "?d [0, 0] (uc @ data)" and ?s = "sum16 (ip @ [0, 0] @ daddr @ saddr)"
  have l: "length dmac = 6" "length smac = 6" "length h_proto = 2" "length ip = 10" "length check = 2" "length saddr = 4" "length daddr = 4"
    "length sport = 2" "length dport = 2" "length len = 2"
    using assms(1) by (simp_all add: datagram_wf_def)
  have z: "le_bytes 2 0 = [0, 0 :: u8]" by (simp add: numeral_2_eq_2)
  have st: "length c = 2 \<Longrightarrow> st16 (?d c x) 24 v = Some (?d (le_bytes 2 (unat v)) x)"
    "length c = 2 \<Longrightarrow> st16 (?d c (uc @ data)) 40 0 = Some (?d c ([0, 0] @ data))" for c x and v :: u16
    using l assms(2) by (simp_all add: st16_def stn_put datagram_def seg_simps put_whole z)
  have "wp (csum_words ?p 14 10 (0 :: u32)) (\<lambda>r. one_fold r = of_nat (65535 - (?s mod 65536 + ?s div 65536) mod 65536))"
    using one_fold_sum [of 14 ?p] l by (simp add: datagram_def)
  moreover have "unat (of_nat (65535 - n) :: u16) = 65535 - n" for n by (subst unat_of_nat) simp
  ultimately obtain r where "csum_words ?p 14 10 (0 :: u32) = Some r" "unat (one_fold r) = echo_check ip daddr saddr"
    unfolding echo_check_def Let_def wp_iff by (metis (no_types))
  then show ?thesis
    using l assms(2) by (simp add: echo_reply_def echo_swap_result [OF assms(1)] st z)
qed


lemma udp_echo_result:
  assumes "datagram_wf dmac smac h_proto ip check saddr daddr sport dport len" "length uc = 2"
  shows "udp_echo truncated to_us (datagram dmac smac h_proto ip check saddr daddr sport dport len (uc @ data)) =
    Some (if to_us (of_nat (le_val dport))
      then (XDP_TX, datagram smac dmac h_proto ip (le_bytes 2 (echo_check ip daddr saddr)) daddr saddr dport sport len ([0, 0] @ data))
      else (XDP_PASS, datagram dmac smac h_proto ip check saddr daddr sport dport len (uc @ data)))"
proof -
  have l: "length (datagram dmac smac h_proto ip check saddr daddr sport dport len (uc @ data)) = 42 + length data"
    using assms by (simp add: datagram_def datagram_wf_def)
  have h: "unat (ip ! 0 AND 15) = 5" using assms(1) by (simp add: datagram_wf_def)
  show ?thesis
    unfolding udp_echo_def Let_def
    by (simp add: l datagram_access [OF assms(1)] h echo_reply_result [OF assms])
qed

lemma echo_check_commute: "even (length ip) \<Longrightarrow> even (length saddr) \<Longrightarrow> even (length daddr) \<Longrightarrow>
    echo_check ip daddr saddr = echo_check ip saddr daddr"
  by (simp add: echo_check_def sum16_append add.commute add.left_commute)

definition port :: "nat \<Rightarrow> bytes" where
  "port n = [of_nat (n div 256), of_nat (n mod 256)]"

lemma port_eq_iff: "length bs = 2 \<Longrightarrow> bswap16 (of_nat (le_val bs)) = (12345 :: u16) \<longleftrightarrow> bs = port 12345"
  "length bs = 2 \<Longrightarrow> bswap16 (of_nat (le_val bs)) = (13245 :: u16) \<longleftrightarrow> bs = port 13245"
proof -
  have inv: "bswap16 x = y \<longleftrightarrow> x = bswap16 y" for x y :: u16 by (metis bswap16_bswap16)
  have eq: "length bs = 2 \<Longrightarrow> length cs = 2 \<Longrightarrow> of_nat (le_val bs) = (of_nat (le_val cs) :: u16) \<longleftrightarrow> bs = cs" for bs cs
    by (metis le_bytes_ld16)
  have p: "of_nat (le_val (port 12345)) = bswap16 (12345 :: u16)" "of_nat (le_val (port 13245)) = bswap16 (13245 :: u16)"
    by (simp_all add: port_def bswap16_def)
  show "length bs = 2 \<Longrightarrow> bswap16 (of_nat (le_val bs)) = (12345 :: u16) \<longleftrightarrow> bs = port 12345"
    "length bs = 2 \<Longrightarrow> bswap16 (of_nat (le_val bs)) = (13245 :: u16) \<longleftrightarrow> bs = port 13245"
    unfolding inv using eq [of bs "port 12345"] eq [of bs "port 13245"] by (simp_all add: p [symmetric], simp_all add: port_def)
qed


lemma echo_check_valid_iff:
  assumes "length ip = 10" "length saddr = 4" "length daddr = 4"
  shows "csum_valid (ip @ le_bytes 2 (echo_check ip saddr daddr) @ saddr @ daddr) \<longleftrightarrow>
    (let s = sum16 (ip @ [0, 0] @ saddr @ daddr) in s mod 65536 + s div 65536 \<le> 65535)"
  using single_fold_valid_iff [of "ip @ [0, 0] @ saddr @ daddr"] assms
  by (simp add: echo_check_def Let_def put_def)

text \<open>
  The echo service. A UDP datagram (header without options) for port 12345 is sent
  back: the MAC addresses, the IP addresses and the ports change places, everything else stays but
  the checksums. The UDP checksum becomes 0, that is, none, and the checksum of the IP header is
  right if and only if the sum of the header words, folded once, fits into 16 bits: the program
  folds only once. A datagram for another port is passed on unchanged.
\<close>

lemma echo_service:
  assumes "datagram_wf dmac smac h_proto ip check saddr daddr sport dport len" and "length uc = 2"
  shows "udp_echo_prog_1 (datagram dmac smac h_proto ip check saddr daddr sport dport len (uc @ data)) =
    (if dport = port 12345
     then Some (XDP_TX, datagram smac dmac h_proto ip (le_bytes 2 (echo_check ip daddr saddr)) daddr saddr dport sport len ([0, 0] @ data))
     else Some (XDP_PASS, datagram dmac smac h_proto ip check saddr daddr sport dport len (uc @ data))) \<and>
   (csum_valid (ip @ le_bytes 2 (echo_check ip daddr saddr) @ daddr @ saddr) \<longleftrightarrow>
    (let s = sum16 (ip @ [0, 0] @ daddr @ saddr) in s mod 65536 + s div 65536 \<le> 65535))"
proof -
  have l: "length dport = 2" "length ip = 10" "length saddr = 4" "length daddr = 4" using assms(1) by (simp_all add: datagram_wf_def)
  show ?thesis
    using udp_echo_result [OF assms, of XDP_PASS "\<lambda>dest. bswap16 dest = 12345" data] echo_check_valid_iff l
    by (simp only: udp_echo_prog_1_def port_eq_iff if_True if_False split: if_split) simp
qed

text \<open>
  Echoing twice gives the datagram back: when both ports are the port of the service,
  the UDP checksum is absent and the IP checksum is the one the service computes, the reply to the
  reply is the datagram itself. Two hosts that run the service and get one such datagram exchange
  it for ever.
\<close>

lemma echo_twice:
  assumes "datagram_wf dmac smac h_proto ip check saddr daddr sport dport len"
    and "sport = port 12345" and "dport = port 12345" and "check = le_bytes 2 (echo_check ip saddr daddr)"
  shows "do { (v, q) \<leftarrow> udp_echo_prog_1 (datagram dmac smac h_proto ip check saddr daddr sport dport len ([0, 0] @ data));
              udp_echo_prog_1 q } =
    Some (XDP_TX, datagram dmac smac h_proto ip check saddr daddr sport dport len ([0, 0] @ data))"
proof -
  have l: "length (port 12345) = 2" "even (length ip)" "even (length saddr)" "even (length daddr)"
    using assms(1) by (simp_all add: datagram_wf_def port_def)
  have w: "datagram_wf smac dmac h_proto ip (le_bytes 2 (echo_check ip daddr saddr)) daddr saddr dport sport len"
    using datagram_swapped_wf [OF assms(1)] by simp
  have b: "bswap16 (of_nat (le_val (port 12345))) = (12345 :: u16)" using l(1) port_eq_iff(1) by blast
  show ?thesis
    using udp_echo_result [OF assms(1), of "[0, 0]" XDP_PASS "\<lambda>dest. bswap16 dest = 12345" data]
      udp_echo_result [OF w, of "[0, 0]" XDP_PASS "\<lambda>dest. bswap16 dest = 12345" data]
    by (simp add: udp_echo_prog_1_def assms(2-4) b echo_check_commute [OF l(2-4)])
qed

text \<open>
  The two services of main.c are not independent. A datagram for port 12345 that comes
  from port 13245 is answered by the first program, and the second program answers the reply: the
  packet leaves with the addresses and ports it came with. In the other order the client gets its
  reply. From any other port the order does not matter.
\<close>

lemma echo_services_interfere:
  assumes "datagram_wf dmac smac h_proto ip check saddr daddr sport dport len" and "length uc = 2" and "dport = port 12345"
  shows "let reply = datagram smac dmac h_proto ip (le_bytes 2 (echo_check ip daddr saddr)) daddr saddr dport sport len ([0, 0] @ data);
      p = datagram dmac smac h_proto ip check saddr daddr sport dport len (uc @ data) in
    run_both_swapped udp_echo_prog_1 udp_echo_prog_2 p = Some (XDP_TX, XDP_PASS, reply) \<and>
    run_both udp_echo_prog_1 udp_echo_prog_2 p =
      (if sport = port 13245
       then Some (XDP_TX, XDP_TX, datagram dmac smac h_proto ip (le_bytes 2 (echo_check ip daddr saddr)) saddr daddr sport dport len ([0, 0] @ data))
       else Some (XDP_TX, XDP_PASS, reply))"
proof -
  let ?c = "le_bytes 2 (echo_check ip daddr saddr)"
  have l: "length sport = 2" "length (port 12345) = 2" "even (length ip)" "even (length saddr)" "even (length daddr)"
    using assms(1) by (simp_all add: datagram_wf_def port_def)
  have w: "datagram_wf smac dmac h_proto ip ?c daddr saddr dport sport len"
    using datagram_swapped_wf [OF assms(1)] by simp
  have b: "bswap16 (of_nat (le_val (port 12345))) = (12345 :: u16)" using l(2) port_eq_iff(1) by blast
  show ?thesis
    using udp_echo_result [OF assms(1,2), of XDP_PASS "\<lambda>dest. bswap16 dest = 12345" data]
      udp_echo_result [OF assms(1,2), of XDP_PASS "\<lambda>dest. bswap16 dest = 13245" data]
      udp_echo_result [OF w, of "[0, 0]" XDP_PASS "\<lambda>dest. bswap16 dest = 13245" data]
    by (simp add: run_both_def run_both_swapped_def udp_echo_prog_1_def udp_echo_prog_2_def assms(3) b Let_def
        port_eq_iff(2) [OF l(1)] echo_check_commute [OF l(3-5)])
qed

section \<open>Memory safety\<close>

text \<open>
  On every packet, also with a header length below 5, which the programs do not check: the UDP
  header is then read inside the IP header.
\<close>

lemma echo_swap_safe:
  "34 \<le> length p \<Longrightarrow> udph + 8 \<le> length p \<Longrightarrow> wp (echo_swap p udph) (\<lambda>q. length q = length p)"
  unfolding echo_swap_def by (rule safe_start [of p]) (erule safe_elims | simp)+

lemma echo_reply_safe:
  assumes "34 \<le> length p" "udph + 8 \<le> length p"
  shows "wp (echo_reply p udph) (\<lambda>(v, q). length q = length p)"
  unfolding echo_reply_def
proof (rule safe_bind [OF echo_swap_safe [OF assms]])
  fix q :: bytes assume "length q = length p"
  then show "wp (st16 q 24 0 \<bind> (\<lambda>p. csum_words p 14 10 (0 :: u32) \<bind> (\<lambda>csum. st16 p 24 (one_fold csum) \<bind>
      (\<lambda>p. st16 p (udph + 6) 0 \<bind> (\<lambda>p. Some (XDP_TX, p)))))) (\<lambda>(v, q). length q = length p)"
    using assms by - (rule safe_start [of q], (erule safe_elims | simp)+)
qed

lemma udp_echo_safe: "wp (udp_echo truncated to_us p) (\<lambda>(v, q). length q = length p)"
  unfolding udp_echo_def Let_def by (auto simp: wp_rules intro!: echo_reply_safe)

section \<open>Examples\<close>

abbreviation (input) demo_echo_ip :: bytes where
  "demo_echo_ip \<equiv> [0x45, 0, 0, 28, 0, 0, 0, 0, 64, 17]"

lemma demo_echo_wf:
  "datagram_wf [1, 1, 1, 1, 1, 1] [2, 2, 2, 2, 2, 2] [8, 0] demo_echo_ip (le_bytes 2 n) [10, 0, 0, 1] [10, 0, 0, 2] (port a) (port b) [0, 8]"
  by (simp add: datagram_wf_def port_def)

lemma echo_service_witness:
  "udp_echo_prog_1 (datagram [1, 1, 1, 1, 1, 1] [2, 2, 2, 2, 2, 2] [8, 0] demo_echo_ip (le_bytes 2 0) [10, 0, 0, 1] [10, 0, 0, 2]
      (port 9) (port 12345) [0, 8] ([5, 5] @ [7])) =
    Some (XDP_TX, datagram [2, 2, 2, 2, 2, 2] [1, 1, 1, 1, 1, 1] [8, 0] demo_echo_ip
      (le_bytes 2 (echo_check demo_echo_ip [10, 0, 0, 2] [10, 0, 0, 1])) [10, 0, 0, 2] [10, 0, 0, 1] (port 12345) (port 9) [0, 8] ([0, 0] @ [7]))"
  using echo_service [OF demo_echo_wf [of 0 9 12345], of "[5, 5]" "[7]"] by simp

lemma echo_twice_witness:
  "do { (v, q) \<leftarrow> udp_echo_prog_1 (datagram [1, 1, 1, 1, 1, 1] [2, 2, 2, 2, 2, 2] [8, 0] demo_echo_ip
          (le_bytes 2 (echo_check demo_echo_ip [10, 0, 0, 1] [10, 0, 0, 2])) [10, 0, 0, 1] [10, 0, 0, 2] (port 12345) (port 12345) [0, 8] ([0, 0] @ [7]));
        udp_echo_prog_1 q } =
    Some (XDP_TX, datagram [1, 1, 1, 1, 1, 1] [2, 2, 2, 2, 2, 2] [8, 0] demo_echo_ip
          (le_bytes 2 (echo_check demo_echo_ip [10, 0, 0, 1] [10, 0, 0, 2])) [10, 0, 0, 1] [10, 0, 0, 2] (port 12345) (port 12345) [0, 8] ([0, 0] @ [7]))"
  by (rule echo_twice [OF demo_echo_wf refl refl refl])

lemma echo_services_interfere_witness:
  "run_both udp_echo_prog_1 udp_echo_prog_2 (datagram [1, 1, 1, 1, 1, 1] [2, 2, 2, 2, 2, 2] [8, 0] demo_echo_ip (le_bytes 2 0) [10, 0, 0, 1] [10, 0, 0, 2]
      (port 13245) (port 12345) [0, 8] ([5, 5] @ [7])) =
    Some (XDP_TX, XDP_TX, datagram [1, 1, 1, 1, 1, 1] [2, 2, 2, 2, 2, 2] [8, 0] demo_echo_ip
      (le_bytes 2 (echo_check demo_echo_ip [10, 0, 0, 2] [10, 0, 0, 1])) [10, 0, 0, 1] [10, 0, 0, 2] (port 13245) (port 12345) [0, 8] ([0, 0] @ [7]))"
  using echo_services_interfere [OF demo_echo_wf [of 0 13245 12345], of "[5, 5]" "[7]"] by (simp add: Let_def)

end
