(* ===== verification/Demo_Programs.thy ===== *)
theory Demo_Programs
  imports Two_Programs Packet_Program
begin

text \<open>
  The small programs of src/examples that demonstrate the policy language and exercise the lifter:
  simple_packet_policy_example, selective_packet_sym_demo, simple_map_policy_example,
  evaluation-branch-on-map, objcode_test, and the map access sample of the firewall directory. All
  are functions of the packet and at most one group of maps; multi-byte fields are read in memory
  order, as the programs do.
\<close>

section \<open>Packet policies\<close>

definition packet_policy :: "bytes \<Rightarrow> (int \<times> bytes) option" where
  "packet_policy p =
     (if length p < sizeof_eth then Some (XDP_PASS, p)
      else if length p < sizeof_eth + sizeof_iphdr then Some (XDP_PASS, p)
      else do {
        saddr \<leftarrow> ld32 p (sizeof_eth + 12);
        if saddr = 12345 then do { p \<leftarrow> st16 p (sizeof_eth + 2) 100; Some (XDP_PASS, p) }
        else Some (XDP_PASS, p) })"

definition selective_filter :: "bytes \<Rightarrow> (int \<times> bytes) option" where
  "selective_filter p =
     (if length p < sizeof_eth then Some (XDP_PASS, p)
      else if length p < sizeof_eth + sizeof_iphdr then Some (XDP_PASS, p)
      else do {
        saddr \<leftarrow> ld32 p (sizeof_eth + 12);
        if saddr = 12345 then do {
          daddr \<leftarrow> ld32 p (sizeof_eth + 16);
          if daddr = 67890 then Some (XDP_DROP, p) else Some (XDP_PASS, p) }
        else Some (XDP_PASS, p) })"

definition pkt_cell :: "bytes \<Rightarrow> nat \<Rightarrow> u8 option" where
  "pkt_cell p i = (if i < length p then Some (p ! i) else None)"

lemma pkt_cell_ext: "(\<And>i. pkt_cell p i = pkt_cell q i) \<Longrightarrow> p = q"
proof -
  assume eq: "\<And>i. pkt_cell p i = pkt_cell q i"
  have "length p = length q"
    using eq [of "length p"] eq [of "length q"] by (auto simp: pkt_cell_def split: if_splits)
  moreover have "p ! i = q ! i" if "i < length p" for i
    using eq [of i] that calculation by (simp add: pkt_cell_def)
  ultimately show ?thesis by (rule nth_equalityI)
qed

definition addr_at :: "bytes \<Rightarrow> nat \<Rightarrow> u32" where
  "addr_at p off = of_nat (le_val (take 4 (drop off p)))"

lemma addr_at_cells:
  assumes "\<And>c. c \<in> {off..<off + 4} \<Longrightarrow> pkt_cell p c = pkt_cell q c" "off + 4 \<le> length p"
  shows "addr_at p off = addr_at q off"
proof -
  have "length (take 4 (drop off p)) = length (take 4 (drop off q))"
    using assms(1) [of "off + 3"] assms(2) by (simp add: pkt_cell_def split: if_splits)
  moreover have "take 4 (drop off p) ! i = take 4 (drop off q) ! i" if "i < 4" for i
    using assms(1) [of "off + i"] assms(2) that by (auto simp: pkt_cell_def split: if_splits)
  ultimately have "take 4 (drop off p) = take 4 (drop off q)"
    using assms(2) by (intro nth_equalityI) auto
  then show ?thesis by (simp add: addr_at_def)
qed

lemma packet_policy_result:
  "packet_policy p = Some (XDP_PASS, if 34 \<le> length p \<and> addr_at p 26 = 12345 then put p 16 [100, 0] else p)"
proof -
  have "le_bytes 2 100 = [100, 0 :: u8]" by (simp add: numeral_2_eq_2)
  then show ?thesis by (auto simp: packet_policy_def addr_at_def ld32_def ldn_def st16_def stn_put)
qed

lemma selective_filter_result:
  "selective_filter p = Some (if 34 \<le> length p \<and> addr_at p 26 = 12345 \<and> addr_at p 30 = 67890 then XDP_DROP else XDP_PASS, p)"
  by (auto simp: selective_filter_def addr_at_def ld32_def ldn_def)


lemma packet_policy_footprint: "footprint pkt_cell packet_policy ({26..<30} \<union> {33}) {16, 17}"
proof
  fix p q r p' v q' c
  assume run: "packet_policy p = Some (r, p')" "packet_policy q = Some (v, q')"
    and agree: "\<And>c. c \<in> {26..<30} \<union> {33} \<Longrightarrow> pkt_cell p c = pkt_cell q c"
  have len: "34 \<le> length p \<longleftrightarrow> 34 \<le> length q"
    using agree [of 33] by (auto simp: pkt_cell_def split: if_splits)
  have "34 \<le> length p \<Longrightarrow> addr_at p 26 = addr_at q 26"
    using agree by (intro addr_at_cells) auto
  then have same: "34 \<le> length p \<and> addr_at p 26 = 12345 \<longleftrightarrow> 34 \<le> length q \<and> addr_at q 26 = 12345"
    using len by auto
  show "r = v \<and> (pkt_cell p' c = pkt_cell q' c \<or> pkt_cell p' c = pkt_cell p c \<and> pkt_cell q' c = pkt_cell q c)"
    using run same unfolding packet_policy_result by (auto simp: pkt_cell_def nth_put split: if_splits)
qed (auto simp: packet_policy_result pkt_cell_def nth_put)

lemma selective_filter_footprint: "footprint pkt_cell selective_filter {26..<34} {}"
proof
  fix p q r p' v q' c
  assume run: "selective_filter p = Some (r, p')" "selective_filter q = Some (v, q')"
    and agree: "\<And>c. c \<in> {26..<34} \<Longrightarrow> pkt_cell p c = pkt_cell q c"
  have len: "34 \<le> length p \<longleftrightarrow> 34 \<le> length q"
    using agree [of 33] by (auto simp: pkt_cell_def split: if_splits)
  have "34 \<le> length p \<Longrightarrow> addr_at p 26 = addr_at q 26 \<and> addr_at p 30 = addr_at q 30"
    using agree by (intro conjI addr_at_cells) auto
  then show "r = v \<and> (pkt_cell p' c = pkt_cell q' c \<or> pkt_cell p' c = pkt_cell p c \<and> pkt_cell q' c = pkt_cell q c)"
    using run len unfolding selective_filter_result by auto
qed (auto simp: selective_filter_result)

interpretation policies: independent_programs pkt_cell packet_policy selective_filter "{26..<30} \<union> {33}" "{16, 17}" "{26..<34}" "{}"
  by (rule independent_programs.intro [OF packet_policy_footprint selective_filter_footprint])
    (unfold_locales, rule pkt_cell_ext, auto)

text \<open>
  The two packet policies are independent: the first writes the total length, which neither
  reads.
\<close>

lemma policies_commute: "run_both packet_policy selective_filter p = run_both_swapped packet_policy selective_filter p"
  by (rule policies.commute)

section \<open>Map policies\<close>

text \<open>
  simple_map_policy_example. Updates of a hash map may fail; the program ignores that. \<open>write_only\<close> is
  not used by the program.
\<close>

type_synonym int_map = "u32 \<rightharpoonup> u32"

record policy_maps =
  read_only :: int_map
  write_only :: int_map
  read_write :: int_map
  no_access :: int_map

definition map_policy :: "(int_map \<Rightarrow> u32 \<Rightarrow> u32 \<Rightarrow> int_map option) \<Rightarrow> policy_maps \<Rightarrow> bytes \<Rightarrow> (int \<times> bytes \<times> policy_maps) option" where
  "map_policy upd m p =
     (if length p < sizeof_eth then Some (XDP_DROP, p, m)
      else if length p < sizeof_eth + sizeof_iphdr then Some (XDP_DROP, p, m)
      else do {
        protocol \<leftarrow> ld8 p (sizeof_eth + 9);
        if protocol \<noteq> IPPROTO_TCP then Some (XDP_PASS, p, m)
        else if length p < sizeof_eth + sizeof_iphdr + sizeof_tcphdr then Some (XDP_DROP, p, m)
        else if length p < sizeof_eth + sizeof_iphdr + sizeof_tcphdr + 3 then Some (XDP_DROP, p, m)
        else
          let m = (case upd (read_write m) 1 42 of None \<Rightarrow> m | Some h \<Rightarrow> m\<lparr>read_write := h\<rparr>);
              m = (case upd (no_access m) 2 100 of None \<Rightarrow> m | Some h \<Rightarrow> m\<lparr>no_access := h\<rparr>) in
          Some (if read_only m 1 = Some 100 then XDP_DROP else XDP_PASS, p, m) })"

text \<open>evaluation-branch-on-map: only sources in the table may send.\<close>

definition branch_on_map :: "(u32 \<rightharpoonup> 'i) \<Rightarrow> bytes \<Rightarrow> int option" where
  "branch_on_map sourceAddressInfo p =
     (if length p < sizeof_eth then Some XDP_DROP
      else do {
        h_proto \<leftarrow> ld16 p 12;
        if h_proto \<noteq> 8 then Some XDP_DROP
        else if length p < sizeof_eth + sizeof_iphdr then Some XDP_DROP
        else do {
          saddr \<leftarrow> ld32 p (sizeof_eth + 12);
          case sourceAddressInfo saddr of None \<Rightarrow> Some XDP_DROP | Some saddr_info \<Rightarrow> Some XDP_PASS } })"

lemma branch_on_map_result:
  "branch_on_map m p = Some (if 34 \<le> length p \<and> p ! 12 = 8 \<and> p ! 13 = 0 \<and> m (addr_at p 26) \<noteq> None then XDP_PASS else XDP_DROP)"
  using eth_ip_bytes [of p] by (auto simp: branch_on_map_def ld16_def ld32_def ldn_def addr_at_def split: option.splits)


definition policy_packet :: "bytes \<Rightarrow> bool" where
  "policy_packet p \<longleftrightarrow> 57 \<le> length p \<and> p ! 23 = IPPROTO_TCP"

text \<open>
  The packet and the maps that only the control plane may write stay as they are; the map that no
  program may touch is written for every TCP packet of at least 57 bytes, as the demo intends.
\<close>

lemma map_policy_access:
  "wp (map_policy upd m p) (\<lambda>(v, q, m'). q = p \<and> read_only m' = read_only m \<and> write_only m' = write_only m \<and>
     no_access m' = (if policy_packet p then case upd (no_access m) 2 100 of None \<Rightarrow> no_access m | Some h \<Rightarrow> h else no_access m) \<and>
     read_write m' = (if policy_packet p then case upd (read_write m) 1 42 of None \<Rightarrow> read_write m | Some h \<Rightarrow> h else read_write m))"
  by (auto simp: map_policy_def wp_rules policy_packet_def Let_def split: option.split)

section \<open>Object-code tests\<close>

definition xdp_packet_filter :: "bytes \<Rightarrow> int option" where
  "xdp_packet_filter p =
     (let size = (of_nat (length p) :: u32) in
      if size < 14 then Some XDP_DROP
      else if size > 9000 then Some XDP_DROP
      else if length p < 1 then Some XDP_DROP
      else do {
        first_byte \<leftarrow> ld8 p 0;
        if first_byte AND 0x01 \<noteq> 0 then
          if first_byte AND 0xF0 = 0x01 then Some XDP_PASS else Some XDP_DROP
        else if first_byte = 0xAA then Some XDP_DROP
        else Some XDP_PASS })"

definition xdp_reader :: "bytes \<Rightarrow> int option" where
  "xdp_reader p =
     (if length p < sizeof_eth then Some XDP_DROP
      else do {
        h_proto \<leftarrow> ld16 p 12;
        if h_proto \<noteq> 8 then Some XDP_DROP
        else if length p < sizeof_eth + sizeof_iphdr then Some XDP_DROP
        else do {
          protocol \<leftarrow> ld8 p (sizeof_eth + 9);
          if protocol = 10 then Some XDP_DROP else do {
          ttl \<leftarrow> ld8 p (sizeof_eth + 8);
          if ttl = 20 then Some XDP_DROP else do {
          tot_len \<leftarrow> ld16 p (sizeof_eth + 2);
          if tot_len < 10 then Some XDP_DROP else Some XDP_PASS } } } })"

definition blacklisted_mac :: bytes where
  "blacklisted_mac = [0x00, 0x11, 0x22, 0x33, 0x44, 0x55]"

definition xdp_filter_program :: "bytes \<Rightarrow> int option" where
  "xdp_filter_program p =
     (if length p < sizeof_eth then Some XDP_DROP
      else do {
        h_source \<leftarrow> ldn p 6 6;
        if h_source = blacklisted_mac then Some XDP_DROP else do {
        t0 \<leftarrow> ld8 p 12; t1 \<leftarrow> ld8 p 13;
        if t0 = 0x08 \<and> t1 = 0x00 then
          if length p < sizeof_eth + 1 then Some XDP_DROP
          else do { b \<leftarrow> ld8 p sizeof_eth;
                    let version = drop_bit 4 b AND 0x0F;
                    if version \<noteq> 4 then Some XDP_DROP else Some XDP_PASS }
        else if t0 = 0x86 \<and> t1 = 0xDD then Some XDP_DROP
        else if t0 = 0x08 \<and> t1 = 0x06 then Some XDP_PASS
        else Some XDP_DROP } })"

definition stats_reader :: "(int_map \<Rightarrow> u32 \<Rightarrow> u32 \<Rightarrow> int_map option) \<Rightarrow> int_map \<Rightarrow> int \<times> int_map" where
  "stats_reader upd packet_stats =
     (case packet_stats 0 of
        Some count \<Rightarrow>
          let packet_stats = (case upd packet_stats 1 2 of None \<Rightarrow> packet_stats | Some h \<Rightarrow> h) in
          (XDP_DROP, packet_stats(0 := None))
      | None \<Rightarrow> (XDP_PASS, packet_stats))"

text \<open>
  The first-byte filter. A frame of 14 to 9000 bytes is passed exactly when the first
  byte of its destination is even and not 0xAA. The branch meant to let standard multicast
  addresses through can never be taken: masking with 0xF0 never gives 0x01, so all multicast and
  broadcast traffic is dropped, the Ethernet broadcast address and so ARP requests included.
\<close>

lemma packet_filter_exact:
  assumes "length p < 2 ^ 32"
  shows "xdp_packet_filter p = Some
    (if 14 \<le> length p \<and> length p \<le> 9000 \<and> even (p ! 0) \<and> p ! 0 \<noteq> 0xAA then XDP_PASS else XDP_DROP)"
proof -
  have size: "(of_nat (length p) :: u32) < 14 \<longleftrightarrow> length p < 14" "9000 < (of_nat (length p) :: u32) \<longleftrightarrow> 9000 < length p"
    using assms by (simp_all add: word_less_nat_alt unat_of_nat)
  have never: "b AND 0xF0 \<noteq> 0x01" for b :: u8
  proof
    assume "b AND 0xF0 = 0x01"
    then have "bit (b AND 0xF0) 0 = bit (0x01 :: u8) 0" by simp
    then show False by (simp add: bit_simps)
  qed
  have odd: "b AND 0x01 = 0 \<longleftrightarrow> even b" for b :: u8
    by (simp add: and_one_eq even_iff_mod_2_eq_zero)
  show ?thesis
    by (auto simp: xdp_packet_filter_def size never odd ld8_def Let_def)
qed

lemma packet_filter_exact_witness:
  "xdp_packet_filter (replicate 14 0xFF) = Some XDP_DROP"
  using packet_filter_exact [of "replicate 14 0xFF"] by simp

section \<open>A counter (fw/xdp_map_access_kern.c)\<close>

text \<open>
  Every frame with a complete Ethernet header is rx_counted under key 23 and dropped. Values are
  \<open>long\<close>; adding wraps around as the compiled code does.
\<close>

definition map_access_prog :: "((u8 \<rightharpoonup> u64) \<Rightarrow> u8 \<Rightarrow> u64 \<Rightarrow> (u8 \<rightharpoonup> u64)) \<Rightarrow> (u8 \<rightharpoonup> u64) \<Rightarrow> bytes \<Rightarrow>
    (int \<times> bytes \<times> (u8 \<rightharpoonup> u64)) option" where
  "map_access_prog upd rxcnt p =
     (if length p < sizeof_eth then Some (XDP_DROP, p, rxcnt)
      else do {
        h_proto \<leftarrow> ld16 p 12;
        case rxcnt 23 of
          Some v \<Rightarrow> Some (XDP_DROP, p, rxcnt(23 \<mapsto> v + 1))
        | None \<Rightarrow> Some (XDP_DROP, p, upd rxcnt 23 1) })"

definition rx_counted :: "(u8 \<rightharpoonup> u64) \<Rightarrow> u64" where
  "rx_counted rxcnt = (case rxcnt 23 of None \<Rightarrow> 0 | Some v \<Rightarrow> v)"

text \<open>
  The counter counts: when insertions succeed, after any sequence of packets the
  entry under key 23 has grown by the number of packets with at least 14 bytes (modulo 2^64), no
  other entry has changed, and every packet was dropped unmodified.
\<close>

lemma map_access_counts:
  assumes "\<And>m v. upd m 23 v = m(23 \<mapsto> v)"
  shows "\<exists>rxcnt'. run_all (map_access_prog upd) ps rxcnt = Some (map (\<lambda>p. (XDP_DROP, p)) ps, rxcnt') \<and>
    rx_counted rxcnt' = rx_counted rxcnt + of_nat (length (filter (\<lambda>p. 14 \<le> length p) ps)) \<and> rxcnt'(23 := None) = rxcnt(23 := None)"
proof (induction ps arbitrary: rxcnt)
  case (Cons p ps)
  have "wp (map_access_prog upd rxcnt p) (\<lambda>(v, q, m). v = XDP_DROP \<and> q = p \<and>
      rx_counted m = rx_counted rxcnt + (if 14 \<le> length p then 1 else 0) \<and> m(23 := None) = rxcnt(23 := None))"
    by (auto simp: map_access_prog_def wp_rules assms rx_counted_def split: option.split)
  then obtain m where m: "map_access_prog upd rxcnt p = Some (XDP_DROP, p, m)"
    "rx_counted m = rx_counted rxcnt + (if 14 \<le> length p then 1 else 0)" "m(23 := None) = rxcnt(23 := None)"
    by (auto simp: wp_iff)
  show ?case using Cons.IH [of m] m by (auto simp: algebra_simps)
qed simp

lemma map_access_counts_witness:
  "\<exists>rxcnt'. run_all (map_access_prog (\<lambda>m k v. m(k \<mapsto> v))) [replicate 60 0, [], replicate 60 1] Map.empty =
      Some ([(XDP_DROP, replicate 60 0), (XDP_DROP, []), (XDP_DROP, replicate 60 1)], rxcnt') \<and> rx_counted rxcnt' = 2"
  using map_access_counts [of "\<lambda>m k v. m(k \<mapsto> v)" "[replicate 60 0, [], replicate 60 1]" Map.empty]
  by (auto simp: rx_counted_def)

end
