(* ===== verification/Cross_Prog.thy ===== *)
theory Cross_Prog
  imports Katran_Routing Electrode_Broadcast
begin

text \<open>
  src/examples/cross_prog: Katran and Electrode on one host. main.c runs \<open>balancer_ingress\<close> and then
  \<open>fastPaxos_main\<close> on the same packet, whatever the first verdict is. The balancer is a copy of
  katran/balancer_kern.h: its connection tables are always per CPU, and a CPU without one uses the
  fallback table and counts that.
\<close>

section \<open>The balancer of cross_prog\<close>

definition FALLBACK_LRU_CNTR :: u32 where "FALLBACK_LRU_CNTR = 3"

definition xp_pick_real :: "katran_cfg \<Rightarrow> katran_env \<Rightarrow> picker" where
  "xp_pick_real C E m p pckt vip_info is_ipv6 =
     (let cpu_num = smp_processor_id E in
      if lru_cpus m cpu_num then pick_from (Lru_cpu cpu_num) C E m p pckt vip_info is_ipv6
      else
        let lru_stats_key = MAX_VIPS + FALLBACK_LRU_CNTR in
        case stats m lru_stats_key of
          None \<Rightarrow> Some (Inl XDP_DROP, m)
        | Some lru_stats \<Rightarrow> pick_from Lru_fallback C E (bump lru_stats_key 1 0 m) p pckt vip_info is_ipv6)"

definition xp_forward_packet :: "katran_cfg \<Rightarrow> katran_env \<Rightarrow> katran_maps \<Rightarrow> bytes \<Rightarrow> packet_description \<Rightarrow> bool \<Rightarrow>
    u16 \<Rightarrow> (int \<times> bytes \<times> katran_maps) option" where
  "xp_forward_packet C E = forward_with (xp_pick_real C E) C E"

definition xp_process_packet :: "katran_cfg \<Rightarrow> katran_env \<Rightarrow> katran_maps \<Rightarrow> bytes \<Rightarrow> nat \<Rightarrow> bool \<Rightarrow>
    (verdict \<times> bytes \<times> katran_maps) option" where
  "xp_process_packet C E m p off is_ipv6 =
     do { (action, p, pckt, pkt_bytes) \<leftarrow> process_l3_headers p pckt0 off is_ipv6;
          if action \<ge> 0 then Some (Act action, p, m)
          else
            let protocol = proto (flow pckt) in
            if INLINE_DECAP_IPIP C \<and> (protocol = IPPROTO_IPIP \<or> protocol = IPPROTO_IPV6) then
              let (action, pass, m) = check_decap_dst m pckt is_ipv6 in
              if action \<ge> 0 then Some (Act action, p, m)
              else do { (v, p) \<leftarrow> process_encaped_ipip_pckt E p is_ipv6 protocol pass; Some (v, p, m) }
            else if protocol = IPPROTO_TCP then
              do { r \<leftarrow> parse_tcp p is_ipv6 pckt;
                   case r of
                     None \<Rightarrow> Some (Act XDP_DROP, p, m)
                   | Some pckt \<Rightarrow>
                     do { (a, p, m) \<leftarrow> xp_forward_packet C E m p pckt is_ipv6 pkt_bytes; Some (Act a, p, m) } }
            else if protocol = IPPROTO_UDP then
              do { r \<leftarrow> parse_udp p is_ipv6 pckt;
                   case r of
                     None \<Rightarrow> Some (Act XDP_DROP, p, m)
                   | Some pckt \<Rightarrow>
                     if INLINE_DECAP_GUE C \<and> port1 (flow pckt) = bpf_htons GUE_DPORT then
                       let (action, pass, m) = check_decap_dst m pckt is_ipv6 in
                       if action \<ge> 0 then Some (Act action, p, m)
                       else do { (v, p) \<leftarrow> process_encaped_gue_pckt E p is_ipv6 pass; Some (v, p, m) }
                     else
                       do { (a, p, m) \<leftarrow> xp_forward_packet C E m p pckt is_ipv6 pkt_bytes; Some (Act a, p, m) } }
            else Some (Act XDP_PASS, p, m) }"

definition xp_balancer_ingress :: "katran_cfg \<Rightarrow> katran_env \<Rightarrow> katran_maps \<Rightarrow> bytes \<Rightarrow>
    (verdict \<times> bytes \<times> katran_maps) option" where
  "xp_balancer_ingress C E m p =
     (let nh_off = sizeof_eth in
      if length p < nh_off then Some (Act XDP_DROP, p, m)
      else do { eth_proto \<leftarrow> ld16 p 12;
                if eth_proto = BE_ETH_P_IP then xp_process_packet C E m p nh_off False
                else if eth_proto = BE_ETH_P_IPV6 then xp_process_packet C E m p nh_off True
                else Some (Act XDP_PASS, p, m) })"

text \<open>The two calls of main.c.\<close>

definition cross_main :: "katran_cfg \<Rightarrow> katran_env \<Rightarrow> xp_env \<Rightarrow> katran_maps \<Rightarrow> fast_maps \<Rightarrow> bytes \<Rightarrow>
    (verdict \<times> int \<times> bytes \<times> katran_maps \<times> fast_maps) option" where
  "cross_main C E X m f p =
     do { (v, p, m) \<leftarrow> xp_balancer_ingress C E m p;
          (r, p, f) \<leftarrow> xp_fastPaxos_main X p f;
          Some (v, r, p, m, f) }"

section \<open>The copy and the original\<close>

lemma xp_pick_real_control:
  "wp (xp_pick_real C E m p pckt vi v6) (\<lambda>(r, m'). control_eq m m' \<and> (\<forall>a. r = Inl a \<longrightarrow> a = XDP_DROP) \<and>
    (\<forall>real d. r = Inr (real, d) \<longrightarrow> reals m (real_index d) = Some real \<and> tos d = tos pckt))"
proof -
  let ?m = "bump (MAX_VIPS + FALLBACK_LRU_CNTR) 1 0 m"
  have "control_eq m ?m" "reals ?m = reals m" by (simp_all add: bump_def)
  then show ?thesis
    using pick_from_control [of "Lru_cpu (smp_processor_id E)" C E m p pckt vi v6]
      wp_mono [OF pick_from_control [of Lru_fallback C E ?m p pckt vi v6]] control_eq_trans [of m ?m]
    by (auto simp: xp_pick_real_def Let_def split: option.split)
qed

interpretation xp_pick: real_picker "xp_pick_real C E" for C E
  by unfold_locales (rule xp_pick_real_control)

lemma xp_pick_real_eq: "Katran_Types.KLEE_VERIFICATION C \<Longrightarrow> lru_cpus m (smp_processor_id E) \<Longrightarrow>
    xp_pick_real C E m p pckt vi v6 = pick_real C E m p pckt vi v6"
  by (simp add: xp_pick_real_def pick_real_def choose_lru_def Let_def)

lemma xp_forward_packet_eq:
  assumes "Katran_Types.KLEE_VERIFICATION C" "lru_cpus m (smp_processor_id E)"
  shows "xp_forward_packet C E m p pckt v6 n = forward_packet C E m p pckt v6 n"
proof (cases "lookup_vip m pckt v6")
  case (Some t)
  obtain key info d where t: "t = (key, info, d)" by (metis prod_cases3)
  let ?vi = "info\<lparr>vip_num := CONCRETE_VIP_NUM\<rparr>"
  let ?m = "bump (MAX_VIPS + LRU_CNTRS) 1 0 (m\<lparr>vip_map := (vip_map m)(key \<mapsto> ?vi)\<rparr>)"
  obtain r m1 where q: "quic_route C ?m p d ?vi v6 = Some (r, m1)" and c: "control_eq ?m m1"
    using quic_route_control [of C ?m p d ?vi v6] by (auto simp: wp_iff)
  have "lru_cpus m1 (smp_processor_id E)" using c assms(2) by (simp add: control_eq_def bump_def)
  then have "xp_pick_real C E m1 = pick_real C E m1" by (intro ext) (rule xp_pick_real_eq [OF assms(1)])
  then show ?thesis
    using q by (simp add: xp_forward_packet_def forward_packet_def forward_with_def Some t Let_def
        split: option.split sum.split)
qed (simp add: xp_forward_packet_def forward_packet_def forward_with_def)

text \<open>
  Property C23. The copy of the balancer and the original agree: built for symbolic execution and
  on a CPU that has its own connection table, \<open>balancer_ingress\<close> of cross_prog returns the verdict,
  the packet and the maps of \<open>balancer_ingress\<close> of katran, on every packet. The copy differs only
  on CPUs without a table.
\<close>

theorem cross_prog_balancer_is_katran:
  assumes "Katran_Types.KLEE_VERIFICATION C" and "lru_cpus m (smp_processor_id E)"
  shows "xp_balancer_ingress C E m p = balancer_ingress C E m p"
proof -
  have eq: "xp_process_packet C E m p off v6 = process_packet C E m p off v6" for off v6
    unfolding xp_process_packet_def process_packet_def xp_forward_packet_eq [OF assms] by (rule refl)
  show ?thesis unfolding xp_balancer_ingress_def balancer_ingress_def eq by (rule refl)
qed

theorem cross_prog_balancer_is_katran_witness:
  "xp_balancer_ingress (demo_cfg\<lparr>Katran_Types.KLEE_VERIFICATION := True\<rparr>) demo_env (demo_maps\<lparr>lru_cpus := (\<lambda>_. True)\<rparr>) demo_packet =
   balancer_ingress (demo_cfg\<lparr>Katran_Types.KLEE_VERIFICATION := True\<rparr>) demo_env (demo_maps\<lparr>lru_cpus := (\<lambda>_. True)\<rparr>) demo_packet"
  by (rule cross_prog_balancer_is_katran) simp_all

section \<open>Isolation of the two programs\<close>

lemma send_to_real_no_pass: "wp (send_to_real C E m p pckt real vi v6 n) (\<lambda>(a, q, m'). a \<in> {XDP_DROP, XDP_TX})"
proof (cases "ctl_array m 0")
  case (Some cval)
  have "wp (if v6 \<and> rflags real AND F_IPV6 \<noteq> 0 then
                  if GUE_ENCAP C then gue_encap_v6 E (pckt_srcs m) p cval v6 pckt real (ucast n)
                  else encap_v6 E p cval v6 pckt real (ucast n)
                else
                  if GUE_ENCAP C then gue_encap_v4 E (pckt_srcs m) p cval pckt real (ucast n)
                  else encap_v4 E p cval pckt real (ucast n)) (\<lambda>_. True)"
    by (simp add: encap_v4_safe encap_v6_safe gue_encap_v4_safe gue_encap_v6_safe)
  then show ?thesis
    unfolding send_to_real_def Let_def Some option.case
    by (rule safe_bind) (auto split: prod.split)
qed (simp add: send_to_real_def)

context real_picker
begin

lemma forward_vip:
  assumes "lookup_vip m pckt v6 \<noteq> None" "length p \<le> MAX_PCKT_SIZE"
  shows "wp (forward_with pick C E m p pckt v6 n) (\<lambda>(a, q, m'). a \<in> {XDP_DROP, XDP_TX})"
proof -
  obtain key info d where t: "lookup_vip m pckt v6 = Some (key, info, d)" using assms(1) by auto
  let ?vi = "info\<lparr>vip_num := CONCRETE_VIP_NUM\<rparr>"
  let ?Q = "\<lambda>(a, q, m'). a \<in> {XDP_DROP, XDP_TX}"
  have pr: "wp (pick m1 p d1 ?vi v6 \<bind> (\<lambda>(r, m). case r of
        Inl action \<Rightarrow> Some (action, p, m)
      | Inr (real, pckt) \<Rightarrow> send_to_real C E m p pckt real ?vi v6 n)) ?Q" for m1 d1
    by (rule safe_bind [OF pick_control])
      (use send_to_real_no_pass in \<open>auto split: sum.splits\<close>)
  have "wp (quic_route C m1 p d ?vi v6 \<bind> (\<lambda>(q, m). case q of
        Inl action \<Rightarrow> Some (action, p, m)
      | Inr (Some real, pckt) \<Rightarrow> send_to_real C E m p pckt real ?vi v6 n
      | Inr (None, pckt) \<Rightarrow> pick m p pckt ?vi v6 \<bind> (\<lambda>(r, m). case r of
            Inl action \<Rightarrow> Some (action, p, m)
          | Inr (real, pckt) \<Rightarrow> send_to_real C E m p pckt real ?vi v6 n))) ?Q" for m1
    by (rule safe_bind [OF quic_route_control])
      (use pr send_to_real_no_pass in \<open>auto split: sum.splits option.splits\<close>)
  then show ?thesis
    unfolding forward_with_def Let_def t option.case prod.case
    using assms(2) by (simp split: option.split)
qed

end

text \<open>A UDP datagram over IPv4 for the port of Electrode, and whether its destination is a VIP.\<close>

definition paxos_datagram :: "bytes \<Rightarrow> bool" where
  "paxos_datagram p \<longleftrightarrow> ipv4_plain p 14 IPPROTO_UDP \<and> take 2 (drop 12 p) = [8, 0] \<and> take 2 (drop 36 p) = [0x30, 0x39] \<and>
     42 \<le> length p \<and> length p \<le> MAX_PCKT_SIZE"

definition is_vip :: "katran_maps \<Rightarrow> bytes \<Rightarrow> bool" where
  "is_vip m p \<longleftrightarrow> (let key = \<lparr>vip = (of_nat (le_val (take 4 (drop 30 p))), 0, 0, 0), vport = bpf_htons 12345, vproto = IPPROTO_UDP\<rparr> in
     vip_map m key \<noteq> None \<or> vip_map m (key\<lparr>vport := 0\<rparr>) \<noteq> None)"

lemma electrode_port: "bpf_htons 12345 = 0x3930" and not_gue_port: "bpf_htons GUE_DPORT \<noteq> 0x3930"
  by (simp_all add: bpf_htons_def bswap16_def)

lemma paxos_datagram_ingress:
  assumes "paxos_datagram p"
  shows "\<exists>d n. xp_balancer_ingress C E m p = xp_forward_packet C E m p d False n \<bind> (\<lambda>(a, p, m). Some (Act a, p, m)) \<and>
    (lookup_vip m d False \<noteq> None \<longleftrightarrow> is_vip m p)"
proof -
  have len: "42 \<le> length p" using assms by (simp add: paxos_datagram_def)
  have "wp (process_l3_headers p pckt0 14 False) (\<lambda>(a, r, d, n). a = - 1 \<and> r = p \<and> proto (flow d) = 17 \<and>
      dst (flow d) = (of_nat (le_val (take 4 (drop 30 p))), 0, 0, 0) \<and> pflags d = 0)"
    using assms len by (simp add: process_l3_headers_def paxos_datagram_def ipv4_plain_def wp_rules Let_def set_v4_def pckt0_def addr0_def)
  then obtain d n where l3: "process_l3_headers p pckt0 14 False = Some (- 1, p, d, n)" and pr: "proto (flow d) = 17"
    and dst: "dst (flow d) = (of_nat (le_val (take 4 (drop 30 p))), 0, 0, 0)" "pflags d = 0"
    by (auto simp: wp_iff)
  obtain e where e: "parse_udp p False d = Some (Some e)" "port1 (flow e) = bpf_htons 12345" "proto (flow e) = 17"
      "dst (flow e) = dst (flow d)"
  proof -
    have "take 2 (drop 36 p) = [0x30, 0x39]" using assms by (simp add: paxos_datagram_def)
    then have "wp (parse_udp p False d) (\<lambda>r. \<exists>e. r = Some e \<and> port1 (flow e) = bpf_htons 12345 \<and> proto (flow e) = 17 \<and> dst (flow e) = dst (flow d))"
      using len pr dst(2) by (simp add: parse_udp_wp calc_offset_def is_icmp_pckt_def set_ports_def Let_def electrode_port)
    then show ?thesis using that by (auto simp: wp_iff)
  qed
  have "port1 (flow e) \<noteq> bpf_htons GUE_DPORT" using e(2) not_gue_port by (simp add: electrode_port)
  moreover have "ld16 p 12 = Some 8" using assms len by (simp add: paxos_datagram_def ld16_def ldn_def)
  ultimately have "xp_balancer_ingress C E m p = xp_forward_packet C E m p e False n \<bind> (\<lambda>(a, p, m). Some (Act a, p, m))"
    using l3 pr len e(1) by (simp add: xp_balancer_ingress_def xp_process_packet_def)
  moreover have "lookup_vip m e False \<noteq> None \<longleftrightarrow> is_vip m p"
    using e dst by (simp add: lookup_vip_def is_vip_def Let_def set_v4_def addr0_def v4_of_def split: option.split)
  ultimately show ?thesis by blast
qed

lemma fastPaxos_skips_tunnelled:
  assumes "42 \<le> length q" "q ! 23 \<noteq> IPPROTO_UDP"
  shows "xp_fastPaxos_main X q f = Some (XDP_PASS, q, f)"
  using assms by (simp add: xp_fastPaxos_main_def ld16_def ldn_def ld8_def)

lemma sent_not_udp: "sent_to_real_v4 m p q \<Longrightarrow> 42 \<le> length p \<Longrightarrow> 42 \<le> length q \<and> q ! 23 = IPPROTO_IPIP"
  by (auto simp: sent_to_real_v4_def nth_append)



definition demo_datagram :: "bytes \<Rightarrow> bytes" where
  "demo_datagram daddr = replicate 12 2 @ [8, 0, 0x45, 0, 0, 28, 0, 0, 0x40, 0, 64, 17, 0, 0, 192, 168, 0, 9] @ daddr @
     [0x30, 0x39, 0x30, 0x39, 0, 8, 0, 0]"

definition demo_cross_cfg :: katran_cfg where
  "demo_cross_cfg = demo_cfg\<lparr>Katran_Types.KLEE_VERIFICATION := True\<rparr>"

text \<open>A VIP 10.0.0.7 for the UDP port of Electrode.\<close>

definition demo_cross_maps :: katran_maps where
  "demo_cross_maps = demo_maps\<lparr>lru_cpus := (\<lambda>_. True),
     vip_map := [\<lparr>vip = (0x0700000A, 0, 0, 0), vport = bpf_htons 12345, vproto = IPPROTO_UDP\<rparr> \<mapsto> \<lparr>vflags = 0, vip_num = 0\<rparr>]\<rparr>"

lemma demo_datagram_wf: "length a = 4 \<Longrightarrow> paxos_datagram (demo_datagram a)"
  by (simp add: paxos_datagram_def demo_datagram_def ipv4_plain_def nth_append)

lemma demo_is_vip: "is_vip demo_cross_maps (demo_datagram [10, 0, 0, 7])" "\<not> is_vip demo_cross_maps (demo_datagram [10, 0, 0, 8])"
  by (simp_all add: is_vip_def demo_cross_maps_def demo_datagram_def electrode_port)

lemma demo_vip_tunnelled:
  "\<exists>q m'. xp_balancer_ingress demo_cross_cfg demo_env demo_cross_maps (demo_datagram [10, 0, 0, 7]) = Some (Act XDP_TX, q, m')"
proof -
  let ?p = "demo_datagram [10, 0, 0, 7]"
  have dg: "paxos_datagram ?p" by (rule demo_datagram_wf) simp
  obtain d n where i: "xp_balancer_ingress demo_cross_cfg demo_env demo_cross_maps ?p =
      xp_forward_packet demo_cross_cfg demo_env demo_cross_maps ?p d False n \<bind> (\<lambda>(a, p, m). Some (Act a, p, m))"
    and v: "lookup_vip demo_cross_maps d False \<noteq> None"
    using paxos_datagram_ingress [OF dg, of demo_cross_cfg demo_env demo_cross_maps] demo_is_vip(1) by metis
  have w: "maps_wf demo_cross_maps" "rings_wf demo_cross_maps"
    using demo_maps_wf demo_rings_wf by (simp_all add: demo_cross_maps_def maps_wf_def rings_wf_def)
  have c: "\<not> LPM_SRC_LOOKUP demo_cross_cfg" "\<not> GUE_ENCAP demo_cross_cfg"
    using demo_cfg_flags by (simp_all add: demo_cross_cfg_def)
  have q: "\<forall>k info. vip_map demo_cross_maps k = Some info \<longrightarrow> vflags info AND F_QUIC_VIP = 0"
    by (simp add: demo_cross_maps_def)
  have "\<exists>q m'. forward_packet demo_cross_cfg demo_env demo_cross_maps ?p d False n = Some (XDP_TX, q, m')"
    using forward_packet_delivers [OF w demo_env_ok c q v, of ?p n] by (auto simp: demo_datagram_def demo_env_def)
  moreover have "xp_forward_packet demo_cross_cfg demo_env demo_cross_maps ?p d False n =
      forward_packet demo_cross_cfg demo_env demo_cross_maps ?p d False n"
    by (rule xp_forward_packet_eq) (simp_all add: demo_cross_cfg_def demo_cross_maps_def)
  ultimately show ?thesis by (auto simp: i)
qed


end
