(* ===== verification/Spec2Isabelle.thy ===== *)
theory Spec2Isabelle
  imports Hash_Stubs Bmc_Refactored Bmc_Refinement Firewall Electrode_Requests Crab_Assert Csum_Bench Router Fw_Nat Katran_Healthcheck_Props Jhash Katran_Routing Assert_Example Verify_Tools Kernel_Samples Fluvia Two_Programs Rw_Files Katran_Companions Katran_Spec Udp_Echo Demo_Programs Cross_Prog
begin

text \<open>
  A verification library for the eBPF programs and the verification tooling of this repository.

  \<^bold>\<open>The system.\<close> The repository checks eBPF network functions by symbolic execution. It has three
  kinds of C code: the programs under analysis (src/examples), the functions with loops that
  symbolic execution replaces by summaries, with their stubs, and the header library that states
  specifications and compares a program with them (src/verification_tools). The programs are run by
  the kernel on a packet and a set of BPF maps, and interact through the maps, through the packet
  they hand on, and through tail calls.

  \<^bold>\<open>How it is modelled.\<close> A packet is a list of bytes from \<open>data\<close> to \<open>data_end\<close>; pointers into it
  are offsets. A program is a function from the packet and a record of its maps to an \<open>option\<close>:
  \<open>None\<close> is an access outside the packet, or an operation undefined in C, and \<open>Some\<close> holds the
  verdict, the packet and the maps. A BPF map is a partial function; an update through a looked-up
  pointer is an update of the function. Integers have their C width and wrap around. The kernel
  helpers and the functions of the ebpf-se submodule are fields of an environment record of each
  program; what a theorem needs of them is a named predicate (\<open>env_ok\<close>, \<open>adjust_head_ok\<close>,
  \<open>csum_diff_ok\<close>, \<open>parsers_ok\<close>, \<open>adjust_room_ok\<close>, \<open>hash_update_ok\<close>, \<open>ringbuf_ok\<close>) and every
  theorem that uses one has a witness with concrete helpers. Build switches are booleans. Inputs
  that the drivers make symbolic are universally quantified variables.

  \<^bold>\<open>Theories.\<close>
  \<^item> \<open>Prelude\<close>: word widths, byte buffers with bounds-checked loads and stores, weakest
    preconditions for computations that may fault, rules for memory-safety proofs, one's complement
    sums. \<open>Net_Headers\<close>: verdicts, protocol numbers, header sizes, the contracts of the helpers that
    move the ends of a packet. \<open>Packet_Program\<close>: a program run on a sequence of packets, with the
    locale \<open>packet_program\<close>, interpreted for the balancer, for the health checking programs, for
    the entry point of BMC and for the pair of \<open>Fw_Nat\<close>.
  \<^item> \<open>Csum\<close>: the checksum folds of Katran (csum_helpers.h, csum_fold_helper.c), of the synthetic
    pipeline, of Crab and of BMC; the locale \<open>checksum_fold\<close> states what a header needs of a fold and
    is interpreted for the three folds that provide it.
  \<^item> \<open>Katran_Types\<close>, \<open>Katran_Parsing\<close>, \<open>Katran_Encap\<close>, \<open>Katran_Balancer\<close>: the load balancer of
    examples/katran (balancer_structs.h, balancer_consts.h, balancer_maps.h; pckt_parsing.h,
    handle_icmp.h; encap_helpers.h, pckt_encap.h; balancer_helpers.h, balancer_kern.h,
    introspection.h). \<open>Katran_Parsing\<close> and \<open>Katran_Encap\<close> prove the echo reply, the TTL decrement, the
    encapsulated packet and both encapsulation round trips. \<open>Katran_Safety\<close> proves that no access of
    the balancer leaves the packet. \<open>Katran_Routing\<close> proves where packets go: transmitted packets go
    to configured servers, packets for a VIP are delivered, flows keep their server (unless the VIP hashes on the destination port only), ICMP errors
    follow the flow they report on, new connections are limited, control-plane maps stay.
  \<^item> \<open>Katran_Healthcheck\<close>, \<open>Katran_Healthcheck_Props\<close>: healthchecking_kern.c,
    healthchecking_helpers.h, healthchecking_ipip.c; delivery of health checks and their accounting.
    \<open>Katran_Companions\<close>: xdp_root.c and xdp_pktcntr.c. \<open>Katran_Spec\<close>: the specification and the driver
    of katran.c and the packets of katran_pkts.h; what the comparison of \<open>Verify_Tools\<close> says of the
    balancer, on every packet and on those of the driver.
  \<^item> \<open>Jhash\<close>: jhash.h and the packet hash stubs of jhash_stub_demo.
  \<^item> \<open>Fnv\<close>, \<open>Sound_Stub\<close>, \<open>Hash_Stubs\<close>: the functions with summaries (bmc_ai_demo, ai_demo,
    perbyte_loop_explosion, symbolic_addr_gather, crc_hash, synth_test). The locale \<open>sound_stub\<close>
    says that a stub's result set contains the function's result; it is interpreted for each pair
    that satisfies it.
  \<^item> \<open>Bmc\<close>, \<open>Bmc_Cache\<close>, \<open>Bmc_Coherence\<close>, \<open>Bmc_Refactored\<close>, \<open>Bmc_Refinement\<close>: the memcached cache of
    examples/bmc-cache, five XDP and two traffic-control programs. \<open>Bmc_Cache\<close> proves that all of them
    are safe and keep the types of their maps; \<open>Bmc_Coherence\<close> that a SET invalidates, an UPDATE is
    seen by the next GET and a reply carries the cached value, and what a truncated reply does;
    \<open>Bmc_Refactored\<close> that the refactored hash never hits. \<open>Bmc_Refinement\<close> puts the programs in front of
    an abstract server, as a step relation over SET requests, replies and GET requests: the cache is
    coherent with the store in every reachable state, provided the server applies a SET as it passes,
    and what is sent from it is the server's current reply; it ends with the situations in which the cache is not transparent.
  \<^item> \<open>Firewall\<close>: examples/fw, the flow table and who may enter through it.
  \<^item> \<open>Fw_Nat\<close>: examples/evaluation-two-program-fw-nat, two programs composed on shared maps; the firewall
    guards the translation, over sequences of packets.
  \<^item> \<open>Electrode\<close>, \<open>Electrode_Consensus\<close>: the Paxos offload of examples/electrode; the log of a replica
    has no gaps, and a PrepareOK is passed up only with a quorum (locale \<open>quorum_system\<close>).
    \<open>Electrode_Requests\<close>: the handling of requests refines a batcher, which keeps requests in order and
    lets one of every batch through.
  \<^item> \<open>Electrode_Broadcast\<close>: the version of Electrode in examples/cross_prog, with the multicast program on
    egress: a broadcast Prepare reaches every replica, and the dispatcher counts their answers in the
    quorum entry it resets, passing the other frames up without headers. \<open>Cross_Prog\<close>: the balancer of cross_prog and both programs on one packet; the balancer is
    Katran's up to the fallback table (locale \<open>real_picker\<close> of \<open>Katran_Routing\<close>, interpreted for both), and
    the two programs leave each other's packets alone.
  \<^item> \<open>Crab\<close>, \<open>Crab_Redirect\<close>: the TCP redirection of examples/crab; the redirected SYN with both
    checksums, fairness of round robin. \<open>Crab_Assert\<close>: examples/crab_assert, the same program with
    assertions, on the library of \<open>Assert_Spec\<close>; they hold exactly on the packets that are redirected.
    \<open>Csum_Bench\<close>: the checksum benchmark of examples/fw.
  \<^item> \<open>Router\<close>: examples/linux-sample-ipv4-router; routes, rewritten MAC addresses, counters, against
    an inductive description of what the tables forward.
  \<^item> \<open>Kernel_Samples\<close>: examples/linux-samples-lifting-test, the tunnel and the forwarding sample.
    \<open>Fluvia\<close>: examples/fluvia, the flow probe; when two packets share an entry. \<open>Udp_Echo\<close>:
    examples/ebpf_aas, the echo services and how they interfere. \<open>Demo_Programs\<close>: the policy demos, the
    object-code tests and the map access sample.
  \<^item> \<open>Rw_Analysis\<close>: readWriteSet.py, the interference analysis, on the strings it works on; what it
    reports is exact when all keys are printed byte by byte, and may miss overlaps otherwise.
    \<open>Rw_Files\<close>: the reader of the files with the sets; what was printed is what is analysed.
    \<open>Two_Programs\<close>: the locales \<open>footprint\<close> and \<open>independent_programs\<close>, which say what a read/write set
    means, and the proof that a clean report of the analysis allows either order; interpreted for the
    pair of evaluation-two-program-no-overlap and for two policy demos. The pair of
    evaluation-two-program-map shares entries, and its theorems say which.
  \<^item> \<open>Assert_Spec\<close>: assert_spec.h, the assertions a specification registers and their check.
    \<open>Assert_Example\<close>: assert_map_example, a program with assertions against the same program without.
    \<open>Verify_Tools\<close>: common.h, partial_spec.h, weak_partial_spec.h, UNUSED_full_spec.h,
    parsing_helpers_spec.h, readWriteSet.c, and nontermination.c; soundness and completeness of the
    comparison of a program with a specification.

  \<^bold>\<open>Bounds and fuel.\<close> Loops that the sources bound by a constant recurse on that constant (for
  instance the ten option words of Crab, the 250 key bytes of BMC, the 64 bytes that Electrode copies),
  so the fuel is the bound of the loop itself; loops bounded by the data recurse structurally or with
  a measure. Results are stated as \<open>Some\<close>, so no theorem leaves open whether a function returns. The
  recirculation of a decapsulated packet through Katran is a tail call; \<open>balancer_run\<close> takes the
  number of tail calls the kernel still allows, and the theorems hold for every such number.

  \<^bold>\<open>Not modelled.\<close> The vendored Cilium datapath, the exploit reproductions, the kernel header copies
  (bpf.h, bpf_helpers.h), user-space loaders, the other drivers, which only build symbolic packets, and the
  Python and C++ tooling around the compiler are outside. Concurrency is not modelled: per-CPU maps
  are one map, spin locks have no effect, and a run of a program is atomic. Copies of modelled files
  (most of cross_prog) are not modelled again. Of the verification tools, what calls the map stubs of
  ebpf-se or only allocates symbolic memory is left out, because that submodule is not part of the
  repository.
\<close>

end
